(* ===== verification/Prelude.thy ===== *)
theory Prelude
  imports "HOL-Library.Word" "HOL-Library.Monad_Syntax"
begin

text \<open>
  The vocabulary the component theories share: C integers of a fixed width written over
  \<open>int\<close> with the wrap-around made explicit, the error numbers of the kernel, the
  search through an intrusive list, and the lemma collections that carry the
  component proofs.

  Two result conventions are used throughout. A value of type \<open>'a option\<close> returned by a
  kernel operation is \<open>None\<close> exactly when the C code would dereference an object that is not
  alive, read memory it never initialised, or index an array outside its allocation. The
  integer results keep the C convention: a negative error number, or a result that is not
  negative.
\<close>

named_theorems cint_simps \<open>arithmetic of the C integer types\<close>
named_theorems table_simps \<open>accessors of the connection table\<close>
named_theorems heap_simps \<open>reads after writes on the kernel heap\<close>

section \<open>C integers\<close>

type_synonym byte = "8 word"
type_synonym uaddr = nat   \<comment> \<open>an address of user space; 0 is the null pointer\<close>
type_synonym addr = nat    \<comment> \<open>identity of a kernel object\<close>
type_synonym tid = nat     \<comment> \<open>identity of a task (struct task_struct)\<close>
type_synonym pid_t = int
type_synonym file_t = nat  \<comment> \<open>identity of an open file (struct file)\<close>

text \<open>Conversion to \<open>int\<close>, \<open>unsigned int\<close>, \<open>int8_t\<close> and \<open>size_t\<close> (LP64).\<close>

definition wrap32 :: "int \<Rightarrow> int" where
  "wrap32 x = (x + 2 ^ 31) mod 2 ^ 32 - 2 ^ 31"

definition to_u32 :: "int \<Rightarrow> nat" where
  "to_u32 x = nat (x mod 2 ^ 32)"

definition wrap8 :: "int \<Rightarrow> int" where
  "wrap8 x = (x + 2 ^ 7) mod 2 ^ 8 - 2 ^ 7"

definition to_size :: "int \<Rightarrow> nat" where
  "to_size x = nat (x mod 2 ^ 64)"

definition int_range :: "int \<Rightarrow> bool" where
  "int_range x \<longleftrightarrow> - (2 ^ 31) \<le> x \<and> x < 2 ^ 31"

lemma wrap32_id [cint_simps]: "int_range x \<Longrightarrow> wrap32 x = x"
  by (simp add: int_range_def wrap32_def)

lemma wrap32_range: "int_range (wrap32 x)"
  by (simp add: int_range_def wrap32_def)

lemma wrap32_small [cint_simps]: "0 \<le> x \<Longrightarrow> x < 2147483648 \<Longrightarrow> wrap32 x = x"
  by (simp add: wrap32_id int_range_def)

lemma wrap8_id [cint_simps]: "- 128 \<le> x \<Longrightarrow> x < 128 \<Longrightarrow> wrap8 x = x"
  by (simp add: wrap8_def)

lemma to_u32_id [cint_simps]: "0 \<le> x \<Longrightarrow> x < 4294967296 \<Longrightarrow> to_u32 x = nat x"
  by (simp add: to_u32_def)

lemma to_u32_le: "to_u32 (int n) \<le> n"
  by (simp add: to_u32_def nat_mod_distrib)

lemma to_size_nonneg [cint_simps]: "0 \<le> x \<Longrightarrow> x < 2 ^ 63 \<Longrightarrow> to_size x = nat x"
  by (simp add: to_size_def)

text \<open>
  The unsigned comparison \<open>(size_t)i < n\<close> of the connection table is a range check that
  also rejects negative indices.
\<close>

lemma to_size_less_iff:
  assumes "int_range i" and "n < 2 ^ 31"
  shows "to_size i < n \<longleftrightarrow> 0 \<le> i \<and> nat i < n"
proof (cases "0 \<le> i")
  case True
  with assms(1) show ?thesis by (simp add: to_size_def int_range_def)
next
  case False
  then have "i mod 2 ^ 64 = i + 2 ^ 64"
    using assms(1) mod_add_self2 [of i "2 ^ 64"] mod_pos_pos_trivial [of "i + 2 ^ 64" "2 ^ 64"]
    by (simp add: int_range_def)
  then have "2 ^ 31 \<le> to_size i"
    using assms(1) by (simp add: to_size_def int_range_def le_nat_iff)
  with False assms(2) show ?thesis by simp
qed

section \<open>Error numbers\<close>

abbreviation ESRCH :: int where "ESRCH \<equiv> 3"
abbreviation EIO :: int where "EIO \<equiv> 5"
abbreviation EBADF :: int where "EBADF \<equiv> 9"
abbreviation ENOMEM :: int where "ENOMEM \<equiv> 12"
abbreviation EFAULT :: int where "EFAULT \<equiv> 14"
abbreviation EINVAL :: int where "EINVAL \<equiv> 22"
abbreviation EMFILE :: int where "EMFILE \<equiv> 24"
abbreviation ENOTTY :: int where "ENOTTY \<equiv> 25"
abbreviation ENOSPC :: int where "ENOSPC \<equiv> 28"
abbreviation ETIMEDOUT :: int where "ETIMEDOUT \<equiv> 110"
abbreviation ERESTARTSYS :: int where "ERESTARTSYS \<equiv> 512"

section \<open>Walking an intrusive list\<close>

text \<open>
  \<open>list_for_each_entry\<close> with a test and an early exit: the first element whose object
  satisfies the test. Each visited element is dereferenced, so an element without an object
  makes the walk fault.
\<close>

fun list_search :: "('a \<Rightarrow> 'b option) \<Rightarrow> ('b \<Rightarrow> bool) \<Rightarrow> 'a list \<Rightarrow> 'a option option" where
  "list_search deref P [] = Some None"
| "list_search deref P (x # xs) =
     (case deref x of
        None \<Rightarrow> None
      | Some v \<Rightarrow> if P v then Some (Some x) else list_search deref P xs)"

lemma list_search_SomeD:
  "list_search deref P xs = Some (Some x) \<Longrightarrow> x \<in> set xs \<and> (\<exists>v. deref x = Some v \<and> P v)"
  by (induction xs) (auto split: option.splits if_splits)

lemma list_search_NoneD:
  "list_search deref P xs = Some None \<Longrightarrow> x \<in> set xs \<Longrightarrow> \<exists>v. deref x = Some v \<and> \<not> P v"
  by (induction xs) (auto split: option.splits if_splits)

lemma list_search_total:
  "set xs \<subseteq> dom deref \<Longrightarrow> \<exists>r. list_search deref P xs = Some r"
  by (induction xs) (auto split: option.splits)

lemma list_search_unique:
  assumes "set xs \<subseteq> dom deref" and "x \<in> set xs" and "deref x = Some v" and "P v"
    and uniq: "\<And>y w. y \<in> set xs \<Longrightarrow> deref y = Some w \<Longrightarrow> P w \<Longrightarrow> y = x"
  shows "list_search deref P xs = Some (Some x)"
proof -
  obtain r where r: "list_search deref P xs = Some r"
    using list_search_total [OF assms(1)] by blast
  show ?thesis
  proof (cases r)
    case None
    with r list_search_NoneD [of deref P xs x] assms(2-4) show ?thesis by auto
  next
    case (Some y)
    with r list_search_SomeD [of deref P xs y] uniq show ?thesis by auto
  qed
qed

lemma list_search_append:
  "list_search deref P (xs @ ys) =
     (case list_search deref P xs of
        None \<Rightarrow> None
      | Some (Some x) \<Rightarrow> Some (Some x)
      | Some None \<Rightarrow> list_search deref P ys)"
  by (induction xs) (auto split: option.splits)

lemma list_search_cong:
  "(\<And>x. x \<in> set xs \<Longrightarrow> deref x = deref' x) \<Longrightarrow> (\<And>v. P v = Q v) \<Longrightarrow>
     list_search deref P xs = list_search deref' Q xs"
  by (induction xs) (auto split: option.splits)

lemma bind_eq_SomeE:
  assumes "Option.bind m f = Some y"
  obtains x where "m = Some x" and "f x = Some y"
  using assms by (cases m) auto


section \<open>Identifiers drawn from an atomic counter\<close>

text \<open>
  Channel ids and receive ids come from \<open>atomic_inc_return\<close> on a 32-bit counter. Both
  sources satisfy the same contract, and the facts about sequences of draws are proved once.
\<close>

primrec draws :: "('s \<Rightarrow> int \<times> 's) \<Rightarrow> nat \<Rightarrow> 's \<Rightarrow> int list" where
  "draws draw 0 s = []"
| "draws draw (Suc n) s = fst (draw s) # draws draw n (snd (draw s))"

lemma length_draws [simp]: "length (draws draw n s) = n"
  by (induction n arbitrary: s) simp_all

lemma wrap32_wrap32_add: "wrap32 (wrap32 x + y) = wrap32 (x + y)"
proof -
  have "wrap32 x + y + 2 ^ 31 = (x + 2 ^ 31) mod 2 ^ 32 + y"
    by (simp add: wrap32_def)
  then have "(wrap32 x + y + 2 ^ 31) mod 2 ^ 32 = (x + 2 ^ 31 + y) mod 2 ^ 32"
    by (simp only: mod_add_left_eq)
  then show ?thesis
    by (simp add: wrap32_def ac_simps)
qed

lemma wrap32_inject:
  assumes "wrap32 x = wrap32 y" and "\<bar>x - y\<bar> < 2 ^ 32"
  shows "x = y"
proof -
  have "(x + 2 ^ 31) mod 2 ^ 32 = (y + 2 ^ 31) mod 2 ^ 32"
    using assms(1) by (simp add: wrap32_def)
  then have "2 ^ 32 dvd x - y"
    by (simp add: mod_eq_dvd_iff)
  with assms(2) show ?thesis
    using zdvd_not_zless [of "\<bar>x - y\<bar>" "2 ^ 32"] by (cases "x = y") auto
qed

locale id_source =
  fixes cur :: "'s \<Rightarrow> int"
    and draw :: "'s \<Rightarrow> int \<times> 's"
  assumes draw_id: "fst (draw s) = wrap32 (cur s + 1)"
    and draw_cur: "cur (snd (draw s)) = fst (draw s)"
begin

lemma draws_nth: "i < n \<Longrightarrow> draws draw n s ! i = wrap32 (cur s + 1 + int i)"
proof (induction n arbitrary: s i)
  case (Suc n)
  show ?case
  proof (cases i)
    case 0
    then show ?thesis by (simp add: draw_id)
  next
    case (Suc j)
    with Suc.IH [of j "snd (draw s)"] Suc.prems show ?thesis
      by (simp add: draw_cur draw_id wrap32_wrap32_add add.assoc)
  qed
qed simp

lemma draws_distinct: "n \<le> 2 ^ 32 \<Longrightarrow> distinct (draws draw n s)"
  by (auto simp: distinct_conv_nth draws_nth dest!: wrap32_inject)

lemma draws_increasing:
  assumes "0 \<le> cur s" and "cur s + int n < 2 ^ 31"
  shows "draws draw n s = map (\<lambda>i. cur s + 1 + int i) [0..<n]"
  using assms by (intro nth_equalityI) (auto simp: draws_nth wrap32_small)

end


section \<open>First in, first out\<close>

text \<open>
  The contract of a bounded queue: an accepted element goes to the back, the front element is
  taken first. \<open>fresh\<close> is what an element must satisfy to be added.
\<close>

fun put_all :: "('a \<Rightarrow> 'q \<Rightarrow> 'q option) \<Rightarrow> 'a list \<Rightarrow> 'q \<Rightarrow> 'q option" where
  "put_all put [] q = Some q"
| "put_all put (x # xs) q = do { q' \<leftarrow> put x q; put_all put xs q' }"

fun take_up_to :: "('q \<Rightarrow> ('a \<times> 'q) option) \<Rightarrow> nat \<Rightarrow> 'q \<Rightarrow> 'a list" where
  "take_up_to get 0 q = []"
| "take_up_to get (Suc n) q = (case get q of None \<Rightarrow> [] | Some (x, q') \<Rightarrow> x # take_up_to get n q')"

locale fifo =
  fixes inv :: "'q \<Rightarrow> bool"
    and items :: "'q \<Rightarrow> 'a list"
    and fresh :: "'a \<Rightarrow> 'q \<Rightarrow> bool"
    and put :: "'a \<Rightarrow> 'q \<Rightarrow> 'q option"
    and get :: "'q \<Rightarrow> ('a \<times> 'q) option"
  assumes put_back: "inv q \<Longrightarrow> fresh x q \<Longrightarrow> put x q = Some q' \<Longrightarrow> items q' = items q @ [x] \<and> inv q'"
    and put_fresh: "inv q \<Longrightarrow> fresh x q \<Longrightarrow> fresh y q \<Longrightarrow> x \<noteq> y \<Longrightarrow> put x q = Some q' \<Longrightarrow> fresh y q'"
    and get_empty: "inv q \<Longrightarrow> items q = [] \<Longrightarrow> get q = None"
    and get_front: "inv q \<Longrightarrow> items q = x # xs \<Longrightarrow> \<exists>q'. get q = Some (x, q') \<and> items q' = xs \<and> inv q'"
begin

lemma put_all_items:
  "inv q \<Longrightarrow> distinct xs \<Longrightarrow> (\<And>x. x \<in> set xs \<Longrightarrow> fresh x q) \<Longrightarrow> put_all put xs q = Some q' \<Longrightarrow>
     items q' = items q @ xs \<and> inv q'"
proof (induction xs arbitrary: q)
  case (Cons x xs)
  obtain q1 where q1: "put x q = Some q1" and rest: "put_all put xs q1 = Some q'"
    using Cons.prems(4) by (auto elim: bind_eq_SomeE)
  have step: "items q1 = items q @ [x]" "inv q1"
    using put_back [OF Cons.prems(1) _ q1] Cons.prems(3) by auto
  have "fresh y q1" if "y \<in> set xs" for y
    using put_fresh [OF Cons.prems(1) _ _ _ q1] Cons.prems(2,3) that by force
  then show ?case
    using Cons.IH [OF step(2) _ _ rest] Cons.prems(2) step(1) by simp
qed simp

lemma take_up_to_items: "inv q \<Longrightarrow> take_up_to get n q = take n (items q)"
proof (induction n arbitrary: q)
  case (Suc n)
  show ?case
  proof (cases "items q")
    case Nil
    then show ?thesis using get_empty [OF Suc.prems] by simp
  next
    case (Cons x xs)
    then obtain q' where "get q = Some (x, q')" "items q' = xs" "inv q'"
      using get_front [OF Suc.prems] by blast
    then show ?thesis using Suc.IH Cons by simp
  qed
qed simp

lemma put_take_order:
  assumes "inv q" and "distinct xs" and "\<And>x. x \<in> set xs \<Longrightarrow> fresh x q" and "put_all put xs q = Some q'"
  shows "take_up_to get (length (items q) + length xs) q' = items q @ xs"
  using put_all_items [OF assms] take_up_to_items by simp

end

end
