(* ===== verification/Connection_Table.thy ===== *)
theory Connection_Table
  imports Prelude
begin

text \<open>
  The per-process table of connections, \<^verbatim>\<open>src/kernel/connection_table.c\<close> with
  \<^verbatim>\<open>connection.h\<close> and \<^verbatim>\<open>connection_table.h\<close>: an array of pointers indexed by connection id
  that doubles when it is full. The table's spin lock makes every operation atomic, and the
  operations below are those critical sections.

  The array of a table of capacity \<open>n\<close> has \<open>n + 1\<close> slots: the structure declares
  \<open>conn[1]\<close> and the allocation adds \<open>n\<close> pointers. Slot \<open>n\<close> is not covered by the
  \<open>memset\<close>, so a slot is either uninitialised, null or a connection. The word in front of
  slot 0 is the member \<open>max\<close> (followed by padding on a 64-bit machine).
\<close>

section \<open>Data\<close>

record qnx_connection =
  conn_pid :: pid_t
  conn_chid :: int

definition qnx_connection_init :: "pid_t \<Rightarrow> int \<Rightarrow> qnx_connection" where
  "qnx_connection_init p c = \<lparr>conn_pid = p, conn_chid = c\<rparr>"

datatype slot = Uninit | Null | Ptr qnx_connection

record qnx_connection_table_data =
  capacity :: nat
  maxfd :: int
  conn :: "slot list"

text \<open>The pointer \<open>table->data\<close>; \<open>None\<close> is the null pointer.\<close>

type_synonym qnx_connection_table = "qnx_connection_table_data option"

definition QNX_INITIAL_TABLE_SIZE :: int where
  "QNX_INITIAL_TABLE_SIZE = 64"

text \<open>
  Whether \<open>conn[i]\<close> is a non-null pointer. Index \<open>-1\<close> is outside the array but inside the allocated
  structure: the word there is the member \<open>max\<close> with its padding, and when \<open>max\<close> is not zero the word
  is not zero whatever the padding holds. The result at \<open>-1\<close> is the value of that read, which the
  loop of \<open>remove\<close> does make; every other index outside the array is a fault.
\<close>

definition slot_nonnull :: "qnx_connection_table_data \<Rightarrow> int \<Rightarrow> bool option" where
  "slot_nonnull d i =
     (if 0 \<le> i \<and> nat i < length (conn d)
      then (case conn d ! nat i of Uninit \<Rightarrow> None | Null \<Rightarrow> Some False | Ptr _ \<Rightarrow> Some True)
      else if i = -1 \<and> maxfd d \<noteq> 0 then Some True
      else None)"

definition slot_write :: "nat \<Rightarrow> slot \<Rightarrow> qnx_connection_table_data \<Rightarrow> qnx_connection_table_data option" where
  "slot_write i v d = (if i < length (conn d) then Some (d\<lparr>conn := (conn d)[i := v]\<rparr>) else None)"

section \<open>Operations\<close>

definition qnx_connection_table_get_capacity :: "qnx_connection_table \<Rightarrow> nat" where
  "qnx_connection_table_get_capacity t = (case t of None \<Rightarrow> 0 | Some d \<Rightarrow> capacity d)"

definition qnx_connection_table_get_max :: "qnx_connection_table \<Rightarrow> int" where
  "qnx_connection_table_get_max t = (case t of None \<Rightarrow> 0 | Some d \<Rightarrow> maxfd d)"

text \<open>
  \<open>maxc\<close> is the module parameter \<open>qnx_max_connections_per_process\<close>, \<open>ok\<close> whether
  \<open>kmalloc\<close> succeeds.
\<close>

definition qnx_connection_table_reserve_unlocked ::
  "int \<Rightarrow> bool \<Rightarrow> int \<Rightarrow> qnx_connection_table \<Rightarrow> int \<times> qnx_connection_table" where
  "qnx_connection_table_reserve_unlocked maxc ok newsize t =
     (let oldsize = wrap32 (int (qnx_connection_table_get_capacity t)) in
      if newsize > maxc then (- EMFILE, t)
      else if newsize \<le> oldsize then (oldsize, t)
      else if \<not> ok then (- ENOMEM, t)
      else (let old = (case t of None \<Rightarrow> [] | Some d \<Rightarrow> take (nat oldsize) (conn d));
                new = \<lparr>capacity = nat newsize, maxfd = 0,
                       conn = old @ replicate (nat (newsize - oldsize)) Null @ [Uninit]\<rparr>
            in (oldsize, Some new)))"

definition qnx_connection_table_init :: "int \<Rightarrow> bool \<Rightarrow> int \<times> qnx_connection_table" where
  "qnx_connection_table_init maxc ok =
     (let (rc, t) = qnx_connection_table_reserve_unlocked maxc ok QNX_INITIAL_TABLE_SIZE None
      in (if rc > 0 then 0 else rc, t))"

text \<open>
  The connections passed to \<open>kfree\<close>, in order. The loop stops below \<open>max\<close>.
\<close>

function destroy_loop :: "qnx_connection_table_data \<Rightarrow> int \<Rightarrow> qnx_connection list option" where
  "destroy_loop d i =
     (if i < maxfd d then
        do { nn \<leftarrow> slot_nonnull d i;
             rest \<leftarrow> destroy_loop d (i + 1);
             Some (if nn then (case conn d ! nat i of Ptr c \<Rightarrow> c # rest | _ \<Rightarrow> rest) else rest) }
      else Some [])"
  by pat_completeness auto
termination
  by (relation "measure (\<lambda>(d, i). nat (maxfd d - i))") auto

definition qnx_connection_table_destroy :: "qnx_connection_table \<Rightarrow> qnx_connection list option" where
  "qnx_connection_table_destroy t = (case t of None \<Rightarrow> Some [] | Some d \<Rightarrow> destroy_loop d 0)"

text \<open>
  The search loop of \<open>add\<close>: the first null slot from \<open>i\<close> on, 0 when there is none.
\<close>

function find_free :: "qnx_connection_table_data \<Rightarrow> nat \<Rightarrow> int option" where
  "find_free d i =
     (if i < capacity d then
        do { nn \<leftarrow> slot_nonnull d (int i);
             if nn then find_free d (Suc i) else Some (int i) }
      else Some 0)"
  by pat_completeness auto
termination
  by (relation "measure (\<lambda>(d, i). capacity d - i)") auto

definition qnx_connection_table_add ::
  "int \<Rightarrow> bool \<Rightarrow> qnx_connection \<Rightarrow> qnx_connection_table \<Rightarrow> (int \<times> qnx_connection_table) option" where
  "qnx_connection_table_add maxc ok c t =
     do { free \<leftarrow> (case t of None \<Rightarrow> Some 0 | Some d \<Rightarrow> find_free d 1);
          (rc, t1) \<leftarrow>
            (if free \<noteq> 0 then
               do { d \<leftarrow> t; d' \<leftarrow> slot_write (nat free) (Ptr c) d; Some (free, Some d') }
             else
               (let (r, t') = qnx_connection_table_reserve_unlocked maxc ok
                                (wrap32 (int (push_bit 1 (qnx_connection_table_get_capacity t)))) t
                in if r > 0 then
                     do { d \<leftarrow> t'; d' \<leftarrow> slot_write (capacity d) (Ptr c) d;
                          Some (wrap32 (int (capacity d)), Some d') }
                   else Some (r, t')));
          if rc > qnx_connection_table_get_max t1
          then do { d \<leftarrow> t1; Some (rc, Some (d\<lparr>maxfd := rc\<rparr>)) }
          else Some (rc, t1) }"

text \<open>The loop \<open>while(!table->data->conn[max]) --max;\<close> of \<open>remove\<close>.\<close>

function scan_down :: "qnx_connection_table_data \<Rightarrow> int \<Rightarrow> int option" where
  "scan_down d i =
     (case slot_nonnull d i of
        None \<Rightarrow> None
      | Some True \<Rightarrow> Some i
      | Some False \<Rightarrow> scan_down d (i - 1))"
  by pat_completeness auto
termination
  by (relation "measure (\<lambda>(d, i). nat (i + 1))") (auto simp: slot_nonnull_def split: if_splits)

definition qnx_connection_table_remove ::
  "int \<Rightarrow> qnx_connection_table \<Rightarrow> (int \<times> qnx_connection_table) option" where
  "qnx_connection_table_remove coid t =
     (if to_size coid < qnx_connection_table_get_capacity t then
        do { d \<leftarrow> t;
             nn \<leftarrow> slot_nonnull d coid;
             if nn then
               do { d1 \<leftarrow> (if coid = maxfd d
                            then do { m \<leftarrow> scan_down d (coid - 1); Some (d\<lparr>maxfd := m\<rparr>) }
                            else Some d);
                    d2 \<leftarrow> slot_write (nat coid) Null d1;
                    Some (0, Some d2) }
             else Some (- EINVAL, t) }
      else Some (- EINVAL, t))"

definition qnx_connection_table_retrieve :: "qnx_connection_table \<Rightarrow> int \<Rightarrow> qnx_connection option" where
  "qnx_connection_table_retrieve t coid =
     (case t of
        None \<Rightarrow> Some \<lparr>conn_pid = 0, conn_chid = 0\<rparr>
      | Some d \<Rightarrow>
          if to_size coid < capacity d then
            do { nn \<leftarrow> slot_nonnull d coid;
                 Some (if nn then (case conn d ! nat coid of Ptr c \<Rightarrow> c
                                   | _ \<Rightarrow> \<lparr>conn_pid = 0, conn_chid = 0\<rparr>)
                       else \<lparr>conn_pid = 0, conn_chid = 0\<rparr>) }
          else Some \<lparr>conn_pid = 0, conn_chid = 0\<rparr>)"

definition qnx_connection_table_is_empty :: "qnx_connection_table \<Rightarrow> int" where
  "qnx_connection_table_is_empty t =
     (case t of None \<Rightarrow> 1 | Some d \<Rightarrow> if maxfd d > 0 then 0 else 1)"

text \<open>The calls \<open>func(i, conn, arg)\<close> in order; the result of the C function is their number.\<close>

function for_each_loop :: "qnx_connection_table_data \<Rightarrow> int \<Rightarrow> (int \<times> qnx_connection) list option" where
  "for_each_loop d i =
     (if i \<le> maxfd d then
        do { nn \<leftarrow> slot_nonnull d i;
             rest \<leftarrow> for_each_loop d (i + 1);
             Some (if nn then (case conn d ! nat i of Ptr c \<Rightarrow> (i, c) # rest | _ \<Rightarrow> rest) else rest) }
      else Some [])"
  by pat_completeness auto
termination
  by (relation "measure (\<lambda>(d, i). nat (maxfd d + 1 - i))") auto

definition qnx_connection_table_for_each ::
  "qnx_connection_table \<Rightarrow> ((int \<times> qnx_connection) list \<times> int) option" where
  "qnx_connection_table_for_each t =
     (case t of
        None \<Rightarrow> Some ([], 0)
      | Some d \<Rightarrow> do { xs \<leftarrow> for_each_loop d 0; Some (xs, int (length xs)) })"

declare destroy_loop.simps [simp del] find_free.simps [simp del] scan_down.simps [simp del]
  for_each_loop.simps [simp del]


section \<open>Invariant and abstraction\<close>

definition is_ptr :: "slot \<Rightarrow> bool" where
  "is_ptr s \<longleftrightarrow> (case s of Ptr _ \<Rightarrow> True | _ \<Rightarrow> False)"

lemma is_ptr_simps [simp]: "is_ptr (Ptr c)" "\<not> is_ptr Null" "\<not> is_ptr Uninit"
  by (simp_all add: is_ptr_def)

lemma is_ptr_iff: "is_ptr s \<longleftrightarrow> (\<exists>c. s = Ptr c)"
  by (cases s) simp_all

text \<open>
  Slot 0 is never used; the slots below the capacity are initialised and the one above is
  not null; \<open>max\<close> bounds the used slots and is itself used when it is positive.
\<close>

definition wf_data :: "qnx_connection_table_data \<Rightarrow> bool" where
  "wf_data d \<longleftrightarrow>
     length (conn d) = capacity d + 1 \<and> 0 < capacity d \<and> capacity d < 2 ^ 31 \<and>
     conn d ! 0 = Null \<and>
     (\<forall>i < capacity d. conn d ! i \<noteq> Uninit) \<and>
     conn d ! capacity d \<noteq> Null \<and>
     - 1 \<le> maxfd d \<and>
     (\<forall>i \<le> capacity d. is_ptr (conn d ! i) \<longrightarrow> int i \<le> maxfd d) \<and>
     (0 < maxfd d \<longrightarrow> nat (maxfd d) \<le> capacity d \<and> is_ptr (conn d ! nat (maxfd d)))"

definition wf_table :: "qnx_connection_table \<Rightarrow> bool" where
  "wf_table t \<longleftrightarrow> (case t of None \<Rightarrow> True | Some d \<Rightarrow> wf_data d)"

text \<open>The abstract contents: a finite map from connection ids to connections.\<close>

definition table_map :: "qnx_connection_table \<Rightarrow> int \<Rightarrow> qnx_connection option" where
  "table_map t coid =
     (case t of
        None \<Rightarrow> None
      | Some d \<Rightarrow>
          if 0 \<le> coid \<and> coid < int (capacity d)
          then (case conn d ! nat coid of Ptr c \<Rightarrow> Some c | _ \<Rightarrow> None)
          else None)"

text \<open>Some slot between 1 and the capacity is free.\<close>

definition has_room :: "qnx_connection_table \<Rightarrow> bool" where
  "has_room t \<longleftrightarrow>
     (case t of None \<Rightarrow> False | Some d \<Rightarrow> (\<exists>i < capacity d. 0 < i \<and> conn d ! i = Null))"

section \<open>The loops\<close>

lemma slot_nonnull_in [table_simps]:
  "wf_data d \<Longrightarrow> i < capacity d \<Longrightarrow> slot_nonnull d (int i) = Some (is_ptr (conn d ! i))"
  by (cases "conn d ! i") (auto simp: slot_nonnull_def wf_data_def)

lemma wf_data_initialised: "wf_data d \<Longrightarrow> i < capacity d \<Longrightarrow> is_ptr (conn d ! i) \<or> conn d ! i = Null"
  by (cases "conn d ! i") (auto simp: wf_data_def)

lemma wf_data_le_max: "wf_data d \<Longrightarrow> i \<le> capacity d \<Longrightarrow> is_ptr (conn d ! i) \<Longrightarrow> int i \<le> maxfd d"
  by (simp add: wf_data_def)

lemma find_free_spec:
  assumes "wf_data d" and "0 < i"
  shows "(\<exists>j. find_free d i = Some (int j) \<and> i \<le> j \<and> j < capacity d \<and> conn d ! j = Null \<and>
              (\<forall>k. i \<le> k \<and> k < j \<longrightarrow> is_ptr (conn d ! k)))
         \<or> find_free d i = Some 0 \<and> (\<forall>k. i \<le> k \<and> k < capacity d \<longrightarrow> is_ptr (conn d ! k))"
  using assms
proof (induction d i rule: find_free.induct)
  case (1 d i)
  show ?case
  proof (cases "i < capacity d \<and> is_ptr (conn d ! i)")
    case True
    with "1.prems" have eq: "find_free d i = find_free d (Suc i)"
      by (simp add: find_free.simps [of d i] slot_nonnull_in)
    have step: "(\<forall>k. i \<le> k \<and> k < n \<longrightarrow> is_ptr (conn d ! k)) \<longleftrightarrow>
                (\<forall>k. Suc i \<le> k \<and> k < n \<longrightarrow> is_ptr (conn d ! k))" for n
      using True by (metis Suc_leD Suc_leI le_neq_implies_less)
    have "slot_nonnull d (int i) = Some True"
      using True "1.prems" by (simp add: slot_nonnull_in)
    then show ?thesis
      using "1.IH" [OF conjunct1 [OF True], of True] "1.prems" unfolding eq step
      by (meson Suc_leD TrueI zero_less_Suc)
  next
    case False
    with "1.prems" wf_data_initialised [of d i] show ?thesis
      by (auto simp: find_free.simps [of d i] slot_nonnull_in)
  qed
qed

lemma scan_down_spec:
  assumes "wf_data d" and "0 < maxfd d" and "- 1 \<le> i" and "i < int (capacity d)"
  shows "\<exists>m. scan_down d i = Some m \<and> - 1 \<le> m \<and> m \<le> i \<and> m \<noteq> 0 \<and>
             (0 \<le> m \<longrightarrow> is_ptr (conn d ! nat m)) \<and>
             (\<forall>k. m < int k \<and> int k \<le> i \<longrightarrow> conn d ! k = Null)"
  using assms
proof (induction d i rule: scan_down.induct)
  case (1 d i)
  show ?case
  proof (cases "i = -1")
    case True
    with "1.prems" have "scan_down d i = Some (- 1)"
      by (subst scan_down.simps) (simp add: slot_nonnull_def)
    with True show ?thesis by simp
  next
    case False
    with "1.prems" have i: "0 \<le> i" "nat i < capacity d" by auto
    have nn: "slot_nonnull d i = Some (is_ptr (conn d ! nat i))"
      using slot_nonnull_in [of d "nat i"] "1.prems"(1) i by simp
    show ?thesis
    proof (cases "is_ptr (conn d ! nat i)")
      case True
      with nn i "1.prems" show ?thesis
        by (cases "i = 0") (auto simp: scan_down.simps [of d i] wf_data_def)
    next
      case False
      have null: "conn d ! nat i = Null"
        using wf_data_initialised [of d "nat i"] False "1.prems"(1) i(2) by simp
      from False nn have eq: "scan_down d i = scan_down d (i - 1)"
        by (simp add: scan_down.simps [of d i])
      obtain m where m: "scan_down d (i - 1) = Some m" "- 1 \<le> m" "m \<le> i - 1" "m \<noteq> 0"
        "0 \<le> m \<longrightarrow> is_ptr (conn d ! nat m)"
        "\<forall>k. m < int k \<and> int k \<le> i - 1 \<longrightarrow> conn d ! k = Null"
        using "1.IH" [of False] nn False "1.prems" i by auto
      have "conn d ! k = Null" if "m < int k" "int k \<le> i" for k
        using m(6) that null by (cases "int k = i") auto
      with m eq show ?thesis by auto
    qed
  qed
qed


section \<open>Adding a connection\<close>

text \<open>The two ways \<open>add\<close> changes the array: it fills a slot, or it grows first.\<close>

definition store_at :: "nat \<Rightarrow> qnx_connection \<Rightarrow> qnx_connection_table_data \<Rightarrow> qnx_connection_table_data" where
  "store_at i c d = d\<lparr>conn := (conn d)[i := Ptr c], maxfd := max (maxfd d) (int i)\<rparr>"

definition grow :: "nat \<Rightarrow> qnx_connection_table_data \<Rightarrow> qnx_connection_table_data" where
  "grow n d = \<lparr>capacity = n, maxfd = 0,
     conn = take (capacity d) (conn d) @ replicate (n - capacity d) Null @ [Uninit]\<rparr>"

lemma grow_nth:
  assumes "wf_data d" and "capacity d < n" and "i \<le> n"
  shows "conn (grow n d) ! i =
    (if i < capacity d then conn d ! i else if i < n then Null else Uninit)"
  using assms by (auto simp: grow_def wf_data_def nth_append)

lemma grow_simps:
  "wf_data d \<Longrightarrow> capacity d < n \<Longrightarrow> length (conn (grow n d)) = n + 1"
  "capacity (grow n d) = n" "maxfd (grow n d) = 0"
  by (simp_all add: grow_def wf_data_def)

lemma wf_store_at:
  assumes "wf_data d" and "0 < i" and "i \<le> capacity d"
  shows "wf_data (store_at i c d)"
  using assms by (auto simp: wf_data_def store_at_def nth_list_update max_def)

lemma wf_grow_store:
  assumes "wf_data d" and "capacity d < n" and "n < 2 ^ 31"
  shows "wf_data (store_at n c (grow n d))"
  using assms grow_nth [OF assms(1,2)]
  by (auto simp: wf_data_def store_at_def grow_simps nth_list_update)

lemma table_map_store_at:
  "wf_data d \<Longrightarrow> i < capacity d \<Longrightarrow>
     table_map (Some (store_at i c d)) = (table_map (Some d))(int i \<mapsto> c)"
  by (auto simp: fun_eq_iff table_map_def store_at_def wf_data_def nth_list_update)

lemma table_map_grow_store:
  assumes "wf_data d" and "capacity d < n"
  shows "table_map (Some (store_at n c (grow n d))) = table_map (Some d)"
proof
  fix i
  show "table_map (Some (store_at n c (grow n d))) i = table_map (Some d) i"
    using assms grow_nth [OF assms, of "nat i"]
    by (auto simp: table_map_def store_at_def grow_simps nat_less_iff)
qed

lemma add_with_room:
  assumes "wf_data d" and "has_room (Some d)"
  obtains i where "qnx_connection_table_add maxc ok c (Some d) = Some (int i, Some (store_at i c d))"
    and "0 < i" and "i < capacity d" and "conn d ! i = Null"
    and "\<And>k. 0 < k \<Longrightarrow> k < i \<Longrightarrow> is_ptr (conn d ! k)"
proof -
  obtain j where j: "find_free d 1 = Some (int j)" "1 \<le> j" "j < capacity d" "conn d ! j = Null"
    "\<forall>k. 1 \<le> k \<and> k < j \<longrightarrow> is_ptr (conn d ! k)"
    using find_free_spec [OF assms(1), of 1] assms(2)
    by (fastforce simp: has_room_def Suc_le_eq)
  have len: "length (conn d) = capacity d + 1"
    using assms(1) by (simp add: wf_data_def)
  have "qnx_connection_table_add maxc ok c (Some d) = Some (int j, Some (store_at j c d))"
    using j len
    by (auto simp: qnx_connection_table_add_def slot_write_def store_at_def
        qnx_connection_table_get_max_def max_def)
  with j that show thesis by auto
qed

lemma reserve_double:
  assumes "wf_data d" and "capacity d < 2 ^ 30"
  shows "qnx_connection_table_reserve_unlocked maxc ok (2 * int (capacity d)) (Some d) =
    (if 2 * int (capacity d) > maxc then (- EMFILE, Some d)
     else if \<not> ok then (- ENOMEM, Some d)
     else (int (capacity d), Some (grow (2 * capacity d) d)))"
  using assms
  by (simp add: qnx_connection_table_reserve_unlocked_def qnx_connection_table_get_capacity_def
      wrap32_small Let_def wf_data_def grow_def nat_mult_distrib nat_diff_distrib)

lemma add_without_room:
  assumes wf: "wf_data d" and full: "\<not> has_room (Some d)" and cap: "capacity d < 2 ^ 30"
  shows "qnx_connection_table_add maxc ok c (Some d) =
    (if 2 * int (capacity d) > maxc then Some (- EMFILE, Some d)
     else if \<not> ok then Some (- ENOMEM, Some d)
     else Some (2 * int (capacity d), Some (store_at (2 * capacity d) c (grow (2 * capacity d) d))))"
proof -
  have free: "find_free d (Suc 0) = Some 0"
    using find_free_spec [OF wf, of 1] full by (auto simp: has_room_def)
  have w: "wrap32 (int (push_bit 1 (capacity d))) = 2 * int (capacity d)"
    "wrap32 (int (2 * capacity d)) = 2 * int (capacity d)"
    using cap by (simp_all add: wrap32_small push_bit_eq_mult)
  have cap_grow: "capacity (grow (2 * capacity d) d) = 2 * capacity d"
    "maxfd (grow (2 * capacity d) d) = 0"
    by (simp_all add: grow_def)
  have len: "length (conn (grow (2 * capacity d) d)) = 2 * capacity d + 1"
    and neg: "- 1 \<le> maxfd d" and pos: "0 < capacity d"
    using wf by (simp_all add: grow_def wf_data_def)
  show ?thesis
    using neg pos
    by (simp add: qnx_connection_table_add_def free qnx_connection_table_get_capacity_def
        qnx_connection_table_get_max_def w [simplified] reserve_double [OF wf cap] slot_write_def
        cap_grow len store_at_def Let_def)
qed


section \<open>Retrieving and removing\<close>

lemma retrieve_table_map:
  assumes "wf_table t" and "int_range coid"
  shows "qnx_connection_table_retrieve t coid =
    Some (case table_map t coid of Some c \<Rightarrow> c | None \<Rightarrow> \<lparr>conn_pid = 0, conn_chid = 0\<rparr>)"
proof (cases t)
  case None
  then show ?thesis by (simp add: qnx_connection_table_retrieve_def table_map_def)
next
  case (Some d)
  with assms have wf: "wf_data d" and lim: "capacity d < 2 ^ 31"
    by (simp_all add: wf_table_def wf_data_def)
  show ?thesis
    using Some slot_nonnull_in [OF wf, of "nat coid"] to_size_less_iff [OF assms(2) lim]
    by (auto simp: qnx_connection_table_retrieve_def table_map_def is_ptr_def nat_less_iff
        split: slot.splits)
qed

lemma wf_clear:
  assumes "wf_data d" and "0 < i" and "i < capacity d" and "- 1 \<le> m" and "m \<noteq> int i"
    and "\<And>k. k \<le> capacity d \<Longrightarrow> k \<noteq> i \<Longrightarrow> is_ptr (conn d ! k) \<Longrightarrow> int k \<le> m"
    and "0 < m \<Longrightarrow> nat m \<le> capacity d \<and> is_ptr (conn d ! nat m)"
  shows "wf_data (d\<lparr>maxfd := m, conn := (conn d)[i := Null]\<rparr>)"
  using assms by (auto simp: wf_data_def nth_list_update)

lemma table_map_clear:
  "wf_data d \<Longrightarrow> i < capacity d \<Longrightarrow>
     table_map (Some (d\<lparr>maxfd := m, conn := (conn d)[i := Null]\<rparr>)) = (table_map (Some d))(int i := None)"
  by (auto simp: fun_eq_iff table_map_def wf_data_def nth_list_update)

lemma remove_hit:
  assumes wf: "wf_data d" and coid: "0 \<le> coid" "coid < int (capacity d)"
    and hit: "conn d ! nat coid = Ptr c"
  obtains m where "qnx_connection_table_remove coid (Some d) =
      Some (0, Some (d\<lparr>maxfd := m, conn := (conn d)[nat coid := Null]\<rparr>))"
    and "wf_data (d\<lparr>maxfd := m, conn := (conn d)[nat coid := Null]\<rparr>)"
proof -
  have i: "0 < nat coid" "nat coid < capacity d" "nat coid < length (conn d)"
    using wf coid hit by (cases "coid = 0"; auto simp: wf_data_def)+
  have lim: "capacity d < 2 ^ 31" and range: "int_range coid"
    using wf coid by (simp_all add: wf_data_def int_range_def)
  have size: "to_size coid < capacity d"
    using to_size_less_iff [OF range lim] coid by simp
  have nn: "slot_nonnull d coid = Some True"
    using slot_nonnull_in [OF wf i(2)] hit coid by simp
  have le: "coid \<le> maxfd d"
    using wf_data_le_max [OF wf, of "nat coid"] hit i coid by simp
  show thesis
  proof (cases "coid = maxfd d")
    case True
    obtain m where m: "scan_down d (coid - 1) = Some m" "- 1 \<le> m" "m \<le> coid - 1" "m \<noteq> 0"
      "0 \<le> m \<longrightarrow> is_ptr (conn d ! nat m)"
      "\<forall>k. m < int k \<and> int k \<le> coid - 1 \<longrightarrow> conn d ! k = Null"
      using scan_down_spec [OF wf, of "coid - 1"] True coid i by auto
    have "qnx_connection_table_remove coid (Some d) =
        Some (0, Some (d\<lparr>maxfd := m, conn := (conn d)[nat coid := Null]\<rparr>))"
      using size nn True m(1) i
      by (simp add: qnx_connection_table_remove_def qnx_connection_table_get_capacity_def slot_write_def)
    moreover have "wf_data (d\<lparr>maxfd := m, conn := (conn d)[nat coid := Null]\<rparr>)"
    proof (rule wf_clear [OF wf i(1,2) m(2)])
      show "m \<noteq> int (nat coid)" using m(3) coid by simp
      show "int k \<le> m" if "k \<le> capacity d" "k \<noteq> nat coid" "is_ptr (conn d ! k)" for k
      proof (rule ccontr)
        assume "\<not> int k \<le> m"
        moreover have "int k \<le> maxfd d" using wf that by (simp add: wf_data_def)
        ultimately have "conn d ! k = Null" using m(6) that(2) True coid by auto
        with that(3) show False by simp
      qed
      show "nat m \<le> capacity d \<and> is_ptr (conn d ! nat m)" if "0 < m"
        using m(3,5) that coid by auto
    qed
    ultimately show thesis by (rule that)
  next
    case False
    have "qnx_connection_table_remove coid (Some d) =
        Some (0, Some (d\<lparr>maxfd := maxfd d, conn := (conn d)[nat coid := Null]\<rparr>))"
      using size nn False i
      by (simp add: qnx_connection_table_remove_def qnx_connection_table_get_capacity_def slot_write_def)
    moreover have "wf_data (d\<lparr>maxfd := maxfd d, conn := (conn d)[nat coid := Null]\<rparr>)"
      using wf i False le by (intro wf_clear) (auto simp: wf_data_def)
    ultimately show thesis by (rule that)
  qed
qed

lemma remove_table_map:
  assumes "wf_table t" and "int_range coid"
  obtains t' where
    "qnx_connection_table_remove coid t =
       Some (if table_map t coid = None then - EINVAL else 0, t')"
    and "wf_table t'" and "table_map t' = (table_map t)(coid := None)"
proof (cases t)
  case None
  then have "qnx_connection_table_remove coid t = Some (- EINVAL, None)"
    and empty: "table_map t = (\<lambda>_. None)"
    by (simp_all add: qnx_connection_table_remove_def qnx_connection_table_get_capacity_def
        table_map_def fun_eq_iff)
  moreover have "(table_map None)(coid := None) = table_map None"
    using None empty by (simp add: fun_eq_iff)
  ultimately show thesis
    using that [of None] None by (simp add: wf_table_def)
next
  case t: (Some d)
  with assms have wf: "wf_data d" and lim: "capacity d < 2 ^ 31"
    by (simp_all add: wf_table_def wf_data_def)
  show thesis
  proof (cases "table_map t coid")
    case None
    have "qnx_connection_table_remove coid t = Some (- EINVAL, t)"
      using None t slot_nonnull_in [OF wf, of "nat coid"] to_size_less_iff [OF assms(2) lim]
      by (auto simp: qnx_connection_table_remove_def qnx_connection_table_get_capacity_def
          table_map_def nat_less_iff is_ptr_def split: slot.splits if_splits)
    with None that [of t] assms(1) show thesis by (simp add: fun_upd_idem)
  next
    case (Some c)
    with t have hit: "0 \<le> coid" "coid < int (capacity d)" "conn d ! nat coid = Ptr c"
      by (auto simp: table_map_def split: if_splits slot.splits)
    obtain m where m: "qnx_connection_table_remove coid (Some d) =
        Some (0, Some (d\<lparr>maxfd := m, conn := (conn d)[nat coid := Null]\<rparr>))"
      "wf_data (d\<lparr>maxfd := m, conn := (conn d)[nat coid := Null]\<rparr>)"
      by (rule remove_hit [OF wf hit])
    have "table_map (Some (d\<lparr>maxfd := m, conn := (conn d)[nat coid := Null]\<rparr>)) =
        (table_map t)(coid := None)"
      using table_map_clear [OF wf, of "nat coid" m] hit t by (simp add: nat_less_iff)
    with m Some t that show thesis by (simp add: wf_table_def)
  qed
qed


section \<open>Iteration, emptiness and destruction\<close>

text \<open>The connections of the array by increasing index, the slot above the capacity included.\<close>

definition slot_entry :: "qnx_connection_table_data \<Rightarrow> nat \<Rightarrow> (int \<times> qnx_connection) option" where
  "slot_entry d k = (case conn d ! k of Ptr c \<Rightarrow> Some (int k, c) | _ \<Rightarrow> None)"

definition used_slots :: "qnx_connection_table_data \<Rightarrow> (int \<times> qnx_connection) list" where
  "used_slots d = List.map_filter (slot_entry d) [0..<Suc (capacity d)]"

lemma slot_nonnull_upto_max:
  "wf_data d \<Longrightarrow> 0 \<le> i \<Longrightarrow> i \<le> maxfd d \<Longrightarrow> slot_nonnull d i = Some (is_ptr (conn d ! nat i))"
proof -
  assume wf: "wf_data d" and i: "0 \<le> i" "i \<le> maxfd d"
  consider "nat i < capacity d" | "i = maxfd d" "0 < maxfd d" "nat i = capacity d"
    using wf i by (cases "nat i < capacity d"; cases "0 < maxfd d") (auto simp: wf_data_def)
  then show ?thesis
  proof cases
    case 1
    then show ?thesis using slot_nonnull_in [OF wf 1] i by simp
  next
    case 2
    then show ?thesis using wf i
      by (cases "conn d ! nat i") (auto simp: slot_nonnull_def wf_data_def)
  qed
qed

lemma map_filter_upt_Suc:
  "i < n \<Longrightarrow> List.map_filter f [i..<n] =
     (case f i of None \<Rightarrow> List.map_filter f [Suc i..<n] | Some y \<Rightarrow> y # List.map_filter f [Suc i..<n])"
  by (simp add: upt_conv_Cons List.map_filter_simps)

lemma for_each_loop_eq:
  assumes "wf_data d" and "0 \<le> i"
  shows "for_each_loop d i = Some (List.map_filter (slot_entry d) [nat i..<nat (maxfd d + 1)])"
  using assms
proof (induction d i rule: for_each_loop.induct)
  case (1 d i)
  show ?case
  proof (cases "i \<le> maxfd d")
    case True
    have nn: "slot_nonnull d i = Some (is_ptr (conn d ! nat i))"
      using slot_nonnull_upto_max "1.prems" True by blast
    have IH: "for_each_loop d (i + 1) =
        Some (List.map_filter (slot_entry d) [Suc (nat i)..<nat (maxfd d + 1)])"
      using "1.IH" [OF True nn] "1.prems" by (simp add: nat_add_distrib)
    show ?thesis
      using True nn IH "1.prems"
      by (simp add: for_each_loop.simps [of d i] map_filter_upt_Suc slot_entry_def [of d "nat i"] is_ptr_def
          split: slot.splits)
  qed (simp add: for_each_loop.simps [of d i] List.map_filter_simps)
qed

lemma destroy_loop_eq:
  assumes "wf_data d" and "0 \<le> i"
  shows "destroy_loop d i = Some (map snd (List.map_filter (slot_entry d) [nat i..<nat (maxfd d)]))"
  using assms
proof (induction d i rule: destroy_loop.induct)
  case (1 d i)
  show ?case
  proof (cases "i < maxfd d")
    case True
    have nn: "slot_nonnull d i = Some (is_ptr (conn d ! nat i))"
      using slot_nonnull_upto_max "1.prems" True by simp
    have IH: "destroy_loop d (i + 1) =
        Some (map snd (List.map_filter (slot_entry d) [Suc (nat i)..<nat (maxfd d)]))"
      using "1.IH" [OF True nn] "1.prems" by (simp add: nat_add_distrib)
    show ?thesis
      using True nn IH "1.prems"
      by (simp add: destroy_loop.simps [of d i] map_filter_upt_Suc slot_entry_def [of d "nat i"] is_ptr_def
          split: slot.splits)
  qed (simp add: destroy_loop.simps [of d i] List.map_filter_simps)
qed

lemma map_filter_append: "List.map_filter f (xs @ ys) = List.map_filter f xs @ List.map_filter f ys"
  by (induction xs) (auto simp: List.map_filter_simps split: option.splits)

lemma map_filter_Nil_iff: "List.map_filter f xs = [] \<longleftrightarrow> (\<forall>x \<in> set xs. f x = None)"
  by (induction xs) (auto simp: List.map_filter_simps split: option.splits)

lemma set_map_filter: "y \<in> set (List.map_filter f xs) \<longleftrightarrow> (\<exists>x \<in> set xs. f x = Some y)"
  by (induction xs) (auto simp: List.map_filter_simps split: option.splits)

lemma slot_entry_above_max:
  "wf_data d \<Longrightarrow> k \<le> capacity d \<Longrightarrow> maxfd d < int k \<Longrightarrow> slot_entry d k = None"
  using wf_data_le_max [of d k] by (cases "conn d ! k") (auto simp: slot_entry_def)

lemma used_slots_upto_max:
  assumes "wf_data d"
  shows "used_slots d = List.map_filter (slot_entry d) [0..<nat (maxfd d + 1)]"
proof -
  have bound: "nat (maxfd d + 1) \<le> Suc (capacity d)"
    using assms by (cases "0 < maxfd d") (auto simp: wf_data_def)
  have "List.map_filter (slot_entry d) [nat (maxfd d + 1)..<Suc (capacity d)] = []"
    using slot_entry_above_max [OF assms] by (auto simp: map_filter_Nil_iff)
  moreover have "[0..<Suc (capacity d)] =
      [0..<nat (maxfd d + 1)] @ [nat (maxfd d + 1)..<Suc (capacity d)]"
    using bound upt_add_eq_append [of 0 "nat (maxfd d + 1)" "Suc (capacity d) - nat (maxfd d + 1)"]
    by (simp del: upt_Suc)
  ultimately show ?thesis
    by (simp add: used_slots_def map_filter_append del: upt_Suc)
qed

lemma used_slots_positive_max:
  assumes "wf_data d" and "0 < maxfd d"
  obtains c where "conn d ! nat (maxfd d) = Ptr c"
    and "used_slots d =
      List.map_filter (slot_entry d) [0..<nat (maxfd d)] @ [(maxfd d, c)]"
proof -
  obtain c where c: "conn d ! nat (maxfd d) = Ptr c"
    using assms by (auto simp: wf_data_def is_ptr_iff)
  have "nat (maxfd d + 1) = Suc (nat (maxfd d))" using assms(2) by simp
  with c assms show thesis
    by (intro that [OF c]) (simp add: used_slots_upto_max map_filter_append List.map_filter_simps slot_entry_def)
qed

lemma used_slots_no_max:
  assumes "wf_data d" and "\<not> 0 < maxfd d"
  shows "used_slots d = []"
proof -
  have "slot_entry d k = None" if "k \<le> capacity d" for k
    using assms slot_entry_above_max [OF assms(1) that] that
    by (cases "k = 0") (auto simp: slot_entry_def wf_data_def)
  then show ?thesis
    by (auto simp: used_slots_def map_filter_Nil_iff)
qed


section \<open>The interface the process entry relies on\<close>

text \<open>
  A table that hands out connection ids: inserting into a table with room returns a fresh
  positive id, and reading and deleting follow the map of its contents.
\<close>

locale coid_table =
  fixes inv :: "'t \<Rightarrow> bool"
    and contents :: "'t \<Rightarrow> int \<Rightarrow> 'c option"
    and room :: "'t \<Rightarrow> bool"
    and insert :: "'c \<Rightarrow> 't \<Rightarrow> (int \<times> 't) option"
    and delete :: "int \<Rightarrow> 't \<Rightarrow> (int \<times> 't) option"
    and read :: "'t \<Rightarrow> int \<Rightarrow> 'c option"
    and nothing :: "'c"
  assumes insert_room: "inv t \<Longrightarrow> room t \<Longrightarrow> \<exists>i t'. insert c t = Some (i, t') \<and> inv t' \<and> 0 < i \<and>
      int_range i \<and> contents t i = None \<and> contents t' = (contents t)(i \<mapsto> c)"
    and delete_map: "inv t \<Longrightarrow> int_range i \<Longrightarrow> \<exists>t'. delete i t =
      Some (if contents t i = None then - EINVAL else 0, t') \<and> inv t' \<and>
      contents t' = (contents t)(i := None)"
    and read_map: "inv t \<Longrightarrow> int_range i \<Longrightarrow>
      read t i = Some (case contents t i of Some c \<Rightarrow> c | None \<Rightarrow> nothing)"
begin

lemma insert_read:
  assumes "inv t" and "room t"
  obtains i t' where "insert c t = Some (i, t')" and "inv t'" and "0 < i" and "int_range i"
    and "read t i = Some nothing" and "read t' i = Some c"
    and "\<And>j. int_range j \<Longrightarrow> j \<noteq> i \<Longrightarrow> read t' j = read t j"
proof -
  obtain i t' where it: "insert c t = Some (i, t')" "inv t'" "0 < i" "int_range i"
    "contents t i = None" "contents t' = (contents t)(i \<mapsto> c)"
    using insert_room assms by blast
  then show thesis
    using assms(1) by (intro that [of i t']) (simp_all add: read_map)
qed

lemma insert_delete:
  assumes "inv t" and "room t"
  obtains i t' t'' where "insert c t = Some (i, t')" and "delete i t' = Some (0, t'')"
    and "inv t''" and "contents t'' = contents t"
proof -
  obtain i t' where it: "insert c t = Some (i, t')" "inv t'" "int_range i"
    "contents t i = None" "contents t' = (contents t)(i \<mapsto> c)"
    using insert_room assms by blast
  obtain t'' where t'': "delete i t' = Some (0, t'')" "inv t''" "contents t'' = (contents t')(i := None)"
    using delete_map [OF it(2,3)] it(5) by auto
  have "contents t'' = contents t"
    using it t'' by (simp add: fun_upd_idem)
  with it t'' that show thesis by blast
qed

lemma delete_read:
  assumes "inv t" and "int_range i"
  obtains rc t' where "delete i t = Some (rc, t')" and "inv t'"
    and "read t' i = Some nothing" and "\<exists>u. delete i t' = Some (- EINVAL, u)"
    and "\<And>j. int_range j \<Longrightarrow> j \<noteq> i \<Longrightarrow> read t' j = read t j"
proof -
  obtain t' where t': "delete i t = Some (if contents t i = None then - EINVAL else 0, t')" "inv t'"
    "contents t' = (contents t)(i := None)"
    using delete_map assms by blast
  moreover have "\<exists>u. delete i t' = Some (- EINVAL, u)"
    using delete_map [OF t'(2) assms(2)] t'(3) by auto
  ultimately show thesis
    using assms by (intro that [OF t'(1,2)]) (simp_all add: read_map)
qed

end

interpretation ct: coid_table wf_table table_map has_room
  "qnx_connection_table_add maxc ok" qnx_connection_table_remove qnx_connection_table_retrieve
  "\<lparr>conn_pid = 0, conn_chid = 0\<rparr>" for maxc ok
proof unfold_locales
  fix t c
  assume wf: "wf_table t" and room: "has_room t"
  then obtain d where t: "t = Some d" and wfd: "wf_data d"
    by (auto simp: wf_table_def has_room_def split: option.splits)
  obtain i where i: "qnx_connection_table_add maxc ok c (Some d) = Some (int i, Some (store_at i c d))"
    "0 < i" "i < capacity d" "conn d ! i = Null"
    using add_with_room [OF wfd room [unfolded t]] by metis
  have "int_range (int i)"
    using i wfd by (simp add: int_range_def wf_data_def)
  moreover have "table_map t (int i) = None"
    using i t by (simp add: table_map_def)
  ultimately show "\<exists>i t'. qnx_connection_table_add maxc ok c t = Some (i, t') \<and> wf_table t' \<and> 0 < i \<and>
      int_range i \<and> table_map t i = None \<and> table_map t' = (table_map t)(i \<mapsto> c)"
    using i t wf_store_at [OF wfd i(2)] table_map_store_at [OF wfd i(3)] by (auto simp: wf_table_def)
next
  show "\<exists>t'. qnx_connection_table_remove i t =
      Some (if table_map t i = None then - EINVAL else 0, t') \<and> wf_table t' \<and>
      table_map t' = (table_map t)(i := None)" if "wf_table t" "int_range i" for t i
    by (rule remove_table_map [OF that]) blast
qed (rule retrieve_table_map)


section \<open>Every history of a table\<close>

text \<open>
  The operations a process performs on its table, in any order, with the outcome of every
  allocation left open.
\<close>

datatype table_op = Add qnx_connection bool | Remove int

fun table_step :: "int \<Rightarrow> table_op \<Rightarrow> qnx_connection_table \<Rightarrow> qnx_connection_table option" where
  "table_step maxc (Add c ok) t = map_option snd (qnx_connection_table_add maxc ok c t)"
| "table_step maxc (Remove coid) t = map_option snd (qnx_connection_table_remove (wrap32 coid) t)"

fun table_run :: "int \<Rightarrow> table_op list \<Rightarrow> qnx_connection_table \<Rightarrow> qnx_connection_table option" where
  "table_run maxc [] t = Some t"
| "table_run maxc (x # xs) t = do { t' \<leftarrow> table_step maxc x t; table_run maxc xs t' }"

lemma wrap32_double_big:
  assumes "2 ^ 30 \<le> n" and "n < 2 ^ 31"
  shows "wrap32 (2 * int n) < 0"
proof -
  have "(2 * int n + 2 ^ 31) mod 2 ^ 32 = 2 * int n - 2 ^ 31"
    using assms mod_add_self2 [of "2 * int n - 2 ^ 31" "2 ^ 32"]
      mod_pos_pos_trivial [of "2 * int n - 2 ^ 31" "2 ^ 32 :: int"] by (simp add: add.commute)
  then show ?thesis using assms by (simp add: wrap32_def)
qed

lemma add_full_big:
  assumes wf: "wf_data d" and full: "\<not> has_room (Some d)" and cap: "2 ^ 30 \<le> capacity d"
    and maxc: "0 \<le> maxc"
  shows "qnx_connection_table_add maxc ok c (Some d) =
    Some (int (capacity d), Some (store_at (capacity d) c d))"
proof -
  have free: "find_free d (Suc 0) = Some 0"
    using find_free_spec [OF wf, of 1] full by (auto simp: has_room_def)
  have lim: "capacity d < 2 ^ 31" and len: "length (conn d) = capacity d + 1" and pos: "0 < capacity d"
    using wf by (simp_all add: wf_data_def)
  have w: "wrap32 (int (capacity d)) = int (capacity d)" "wrap32 (int (push_bit 1 (capacity d))) < 0"
    using lim wrap32_double_big [OF cap lim] by (simp_all add: wrap32_small push_bit_eq_mult mult.commute)
  show ?thesis
    using w len pos maxc
    by (auto simp: qnx_connection_table_add_def free qnx_connection_table_reserve_unlocked_def
        qnx_connection_table_get_capacity_def qnx_connection_table_get_max_def slot_write_def
        store_at_def max_def)
qed

lemma add_wf:
  assumes wf: "wf_table t" and maxc: "0 \<le> maxc" "maxc < 2 ^ 31"
  shows "\<exists>rc t'. qnx_connection_table_add maxc ok c t = Some (rc, t') \<and> wf_table t'"
proof (cases t)
  case None
  then show ?thesis
    using maxc
    by (simp add: qnx_connection_table_add_def qnx_connection_table_reserve_unlocked_def
        qnx_connection_table_get_capacity_def qnx_connection_table_get_max_def wrap32_def wf_table_def)
next
  case (Some d)
  with wf have wfd: "wf_data d" by (simp add: wf_table_def)
  consider (room) "has_room t" | (big) "\<not> has_room t" "2 ^ 30 \<le> capacity d"
    | (full) "\<not> has_room t" "capacity d < 2 ^ 30"
    by linarith
  then show ?thesis
  proof cases
    case room
    then show ?thesis using ct.insert_room [OF wf] by metis
  next
    case big
    then show ?thesis
      using Some add_full_big [OF wfd] wf_store_at [OF wfd, of "capacity d"] maxc wfd
      by (auto simp: wf_table_def wf_data_def)
  next
    case full
    have "wf_data (store_at (2 * capacity d) c (grow (2 * capacity d) d))"
      if "2 * int (capacity d) \<le> maxc"
      using that wfd maxc by (intro wf_grow_store) (auto simp: wf_data_def)
    then show ?thesis
      using Some full add_without_room [OF wfd] wfd by (auto simp: wf_table_def)
  qed
qed

lemma wf_table_step:
  assumes "wf_table t" and "0 \<le> maxc" and "maxc < 2 ^ 31"
  shows "\<exists>t'. table_step maxc x t = Some t' \<and> wf_table t'"
proof (cases x)
  case (Add c ok)
  then show ?thesis using add_wf [OF assms, of ok c] by auto
next
  case (Remove coid)
  then show ?thesis
    using ct.delete_map [OF assms(1) wrap32_range [of coid]] by auto
qed

lemma wf_table_run:
  assumes "wf_table t" and "0 \<le> maxc" and "maxc < 2 ^ 31"
  shows "\<exists>t'. table_run maxc xs t = Some t' \<and> wf_table t'"
  using assms(1)
proof (induction xs arbitrary: t)
  case (Cons x xs)
  obtain t' where "table_step maxc x t = Some t'" "wf_table t'"
    using wf_table_step [OF Cons.prems assms(2,3)] by blast
  with Cons.IH show ?case by auto
qed simp

lemma wf_table_init: "wf_table (snd (qnx_connection_table_init maxc ok))"
proof -
  have "wf_data \<lparr>capacity = 64, maxfd = 0, conn = replicate 64 Null @ [Uninit]\<rparr>"
    by (auto simp: wf_data_def nth_append)
  then show ?thesis
    by (simp add: qnx_connection_table_init_def qnx_connection_table_reserve_unlocked_def
        qnx_connection_table_get_capacity_def QNX_INITIAL_TABLE_SIZE_def wrap32_def wf_table_def Let_def)
qed


lemma slot_entry_Some: "slot_entry d k = Some (i, c) \<longleftrightarrow> i = int k \<and> conn d ! k = Ptr c"
  by (auto simp: slot_entry_def split: slot.splits)

lemma used_slots_sorted: "sorted_wrt (<) (map fst (used_slots d))"
proof -
  have "sorted_wrt (<) (map fst (List.map_filter (slot_entry d) ks))" if "sorted_wrt (<) ks" for ks
    using that
  proof (induction ks)
    case (Cons k ks)
    have "int k < i" if "(i, c) \<in> set (List.map_filter (slot_entry d) ks)" for i c
      using that Cons.prems by (auto simp: set_map_filter slot_entry_Some)
    with Cons show ?case
      by (fastforce simp: List.map_filter_simps slot_entry_Some split: option.splits)
  qed (simp add: List.map_filter_simps)
  then show ?thesis
    unfolding used_slots_def by (simp del: upt_Suc)
qed

lemma used_slots_set: "(int k, c) \<in> set (used_slots d) \<longleftrightarrow> k \<le> capacity d \<and> conn d ! k = Ptr c"
proof -
  have "(int k, c) \<in> set (used_slots d) \<longleftrightarrow> (\<exists>j \<le> capacity d. slot_entry d j = Some (int k, c))"
    by (simp add: used_slots_def set_map_filter del: upt_Suc) (auto simp: less_Suc_eq_le)
  then show ?thesis by (auto simp: slot_entry_Some)
qed

lemma for_each_used_slots:
  "wf_data d \<Longrightarrow> qnx_connection_table_for_each (Some d) = Some (used_slots d, int (length (used_slots d)))"
  by (simp add: qnx_connection_table_for_each_def for_each_loop_eq used_slots_upto_max)

section \<open>Properties\<close>

text \<open>
  C21. Memory safety of the table: whatever sequence of additions and removals a process
  performs on a table that was initialised, with every allocation free to fail, no operation
  reads an uninitialised slot, follows a null table pointer or accesses memory outside the table's
  allocation, every write is to the array, every loop ends, and the table invariant holds
  afterwards. The array itself is left by one read only: when the only connection is removed, and
  then always, the search for the new maximum ends at index \<open>-1\<close>, on the member \<open>max\<close> in front of the
  array. When another connection is left, the search ends at the largest one.
\<close>

theorem connection_table_safe:
  assumes "0 \<le> maxc" and "maxc < 2 ^ 31"
  shows "\<exists>t. table_run maxc xs (snd (qnx_connection_table_init maxc ok)) = Some t \<and> wf_table t \<and>
    (\<forall>d coid. t = Some d \<and> 0 < coid \<and> coid < int (capacity d) \<and> maxfd d = coid \<longrightarrow>
       (\<exists>m. scan_down d (coid - 1) = Some m \<and> m < coid \<and>
          (if \<exists>k. 0 < k \<and> int k < coid \<and> is_ptr (conn d ! k)
           then 0 < m \<and> is_ptr (conn d ! nat m) \<and> (\<forall>k. m < int k \<and> int k < coid \<longrightarrow> conn d ! k = Null)
           else m = - 1)))"
proof -
  obtain t where t: "table_run maxc xs (snd (qnx_connection_table_init maxc ok)) = Some t" "wf_table t"
    using wf_table_run [OF wf_table_init assms] by blast
  have "\<exists>m. scan_down d (coid - 1) = Some m \<and> m < coid \<and>
      (if \<exists>k. 0 < k \<and> int k < coid \<and> is_ptr (conn d ! k)
       then 0 < m \<and> is_ptr (conn d ! nat m) \<and> (\<forall>k. m < int k \<and> int k < coid \<longrightarrow> conn d ! k = Null) else m = - 1)"
    if at: "t = Some d" "0 < coid" "coid < int (capacity d)" "maxfd d = coid" for d coid
  proof -
    have wf: "wf_data d" using t(2) at(1) by (simp add: wf_table_def)
    obtain m where m: "scan_down d (coid - 1) = Some m" "- 1 \<le> m" "m \<le> coid - 1" "m \<noteq> 0"
      "0 \<le> m \<longrightarrow> is_ptr (conn d ! nat m)" "\<forall>k. m < int k \<and> int k \<le> coid - 1 \<longrightarrow> conn d ! k = Null"
      using scan_down_spec [OF wf, of "coid - 1"] at by auto
    have "0 < m" if k: "0 < k" "int k < coid" "is_ptr (conn d ! k)" for k
    proof (rule ccontr)
      assume "\<not> 0 < m"
      then have "m < int k" using k(1) by simp
      then have "conn d ! k = Null" using m(6) k(2) by simp
      then show False using k(3) by simp
    qed
    moreover have "m = - 1" if "\<not> (\<exists>k. 0 < k \<and> int k < coid \<and> is_ptr (conn d ! k))"
    proof (rule ccontr)
      assume "m \<noteq> - 1"
      then have "0 < m" using m(2,4) by simp
      then have "0 < nat m" "int (nat m) < coid" "is_ptr (conn d ! nat m)" using m(3,5) by simp_all
      then show False using that by blast
    qed
    moreover have "m < coid" "\<forall>k. m < int k \<and> int k < coid \<longrightarrow> conn d ! k = Null" using m(3,6) by simp_all
    ultimately show ?thesis
      using m(1,5) by (cases "\<exists>k. 0 < k \<and> int k < coid \<and> is_ptr (conn d ! k)") (auto intro!: exI [of _ m])
  qed
  then show ?thesis using t by blast
qed

theorem connection_table_safe_witness:
  "\<exists>t. table_run 256 [Add \<lparr>conn_pid = 7, conn_chid = 1\<rparr> True, Remove 1, Remove 1]
         (snd (qnx_connection_table_init 256 True)) = Some t \<and> wf_table t"
proof -
  have "(0 :: int) \<le> 256" "(256 :: int) < 2 ^ 31" by simp_all
  from connection_table_safe [OF this] show ?thesis by blast
qed

text \<open>
  C22. Adding a connection refines insertion into a finite map: when some slot is free, the
  call returns the least free connection id, which is positive and below the capacity, and
  the contents change at that id only.
\<close>

theorem table_add_refines_map:
  assumes "wf_table t" and "has_room t"
  shows "\<exists>i t'. qnx_connection_table_add maxc ok c t = Some (i, t') \<and> wf_table t' \<and>
    0 < i \<and> i < int (qnx_connection_table_get_capacity t) \<and>
    table_map t i = None \<and> (\<forall>j. 0 < j \<and> j < i \<longrightarrow> table_map t j \<noteq> None) \<and>
    table_map t' = (table_map t)(i \<mapsto> c)"
proof -
  obtain d where t: "t = Some d" and wf: "wf_data d"
    using assms by (auto simp: wf_table_def has_room_def split: option.splits)
  obtain i where i: "qnx_connection_table_add maxc ok c (Some d) = Some (int i, Some (store_at i c d))"
    "0 < i" "i < capacity d" "conn d ! i = Null" "\<And>k. 0 < k \<Longrightarrow> k < i \<Longrightarrow> is_ptr (conn d ! k)"
    using add_with_room [OF wf] assms(2) t by metis
  have "table_map t j \<noteq> None" if "0 < j" "j < int i" for j
  proof -
    have "is_ptr (conn d ! nat j)" using i(5) [of "nat j"] that by auto
    then obtain e where "conn d ! nat j = Ptr e" by (auto simp: is_ptr_iff)
    then show ?thesis using i(3) that t by (simp add: table_map_def)
  qed
  then show ?thesis
    using i t wf_store_at [OF wf i(2)] table_map_store_at [OF wf i(3)]
    by (intro exI [of _ "int i"] exI [of _ "Some (store_at i c d)"])
      (auto simp: wf_table_def table_map_def qnx_connection_table_get_capacity_def)
qed

definition small_table :: qnx_connection_table where
  "small_table = Some \<lparr>capacity = 3, maxfd = 1,
     conn = [Null, Ptr \<lparr>conn_pid = 7, conn_chid = 1\<rparr>, Null, Uninit]\<rparr>"

lemma wf_small_table: "wf_table small_table"
  by (auto simp: wf_table_def wf_data_def small_table_def nth_Cons' split: if_splits)

lemma small_table_room: "has_room small_table"
  by (auto simp: has_room_def small_table_def intro!: exI [of _ "2 :: nat"])

theorem table_add_refines_map_witness:
  "\<exists>i t'. qnx_connection_table_add 256 True \<lparr>conn_pid = 8, conn_chid = 2\<rparr> small_table = Some (i, t') \<and>
    wf_table t' \<and> 0 < i \<and> i < int (qnx_connection_table_get_capacity small_table) \<and>
    table_map small_table i = None \<and> (\<forall>j. 0 < j \<and> j < i \<longrightarrow> table_map small_table j \<noteq> None) \<and>
    table_map t' = (table_map small_table)(i \<mapsto> \<lparr>conn_pid = 8, conn_chid = 2\<rparr>)"
  by (rule table_add_refines_map [OF wf_small_table small_table_room])

text \<open>
  The life of a connection id: attaching to a table with room returns a positive id that
  named nothing before and now retrieves the new connection, while every other id retrieves
  what it did; detaching that id succeeds, restores the contents, and detaching it once more
  is refused with \<open>EINVAL\<close>.
\<close>

theorem connection_lifecycle:
  assumes "wf_table t" and "has_room t"
  shows "\<exists>i t1 t2 t3. qnx_connection_table_add maxc ok c t = Some (i, t1) \<and> 0 < i \<and>
    qnx_connection_table_retrieve t i = Some \<lparr>conn_pid = 0, conn_chid = 0\<rparr> \<and>
    qnx_connection_table_retrieve t1 i = Some c \<and>
    (\<forall>j. int_range j \<and> j \<noteq> i \<longrightarrow>
       qnx_connection_table_retrieve t1 j = qnx_connection_table_retrieve t j) \<and>
    qnx_connection_table_remove i t1 = Some (0, t2) \<and> table_map t2 = table_map t \<and>
    qnx_connection_table_remove i t2 = Some (- EINVAL, t3)"
proof -
  obtain i t1 where i: "qnx_connection_table_add maxc ok c t = Some (i, t1)" "wf_table t1" "0 < i"
    "int_range i" "qnx_connection_table_retrieve t i = Some \<lparr>conn_pid = 0, conn_chid = 0\<rparr>"
    "qnx_connection_table_retrieve t1 i = Some c"
    "\<And>j. int_range j \<Longrightarrow> j \<noteq> i \<Longrightarrow>
       qnx_connection_table_retrieve t1 j = qnx_connection_table_retrieve t j"
    by (rule ct.insert_read [OF assms, of maxc ok c]) blast
  obtain t2 where t2: "qnx_connection_table_remove i t1 = Some (0, t2)" "wf_table t2"
    "table_map t2 = table_map t"
    by (rule ct.insert_delete [OF assms, of maxc ok c]) (use i(1) in auto)
  have "\<exists>u. qnx_connection_table_remove i t2 = Some (- EINVAL, u)"
    by (rule ct.delete_read [OF i(2,4)]) (use t2(1) in auto)
  with i t2 show ?thesis by blast
qed


theorem connection_lifecycle_witness:
  "\<exists>i t1 t2 t3. qnx_connection_table_add 256 True \<lparr>conn_pid = 8, conn_chid = 2\<rparr> small_table = Some (i, t1) \<and>
    0 < i \<and>
    qnx_connection_table_retrieve small_table i = Some \<lparr>conn_pid = 0, conn_chid = 0\<rparr> \<and>
    qnx_connection_table_retrieve t1 i = Some \<lparr>conn_pid = 8, conn_chid = 2\<rparr> \<and>
    (\<forall>j. int_range j \<and> j \<noteq> i \<longrightarrow>
       qnx_connection_table_retrieve t1 j = qnx_connection_table_retrieve small_table j) \<and>
    qnx_connection_table_remove i t1 = Some (0, t2) \<and> table_map t2 = table_map small_table \<and>
    qnx_connection_table_remove i t2 = Some (- EINVAL, t3)"
  by (rule connection_lifecycle [OF wf_small_table small_table_room])

text \<open>
  C23. Removing refines deletion from the map on every branch: the call succeeds exactly for
  the ids in the table, is refused with \<open>EINVAL\<close> for every other id (negative ids and ids
  beyond the capacity included), and only the removed id changes.
\<close>

theorem table_remove_refines_map:
  assumes "wf_table t" and "int_range coid"
  shows "\<exists>t'. qnx_connection_table_remove coid t =
      Some (if table_map t coid = None then - EINVAL else 0, t') \<and>
    wf_table t' \<and> table_map t' = (table_map t)(coid := None)"
  by (rule ct.delete_map [OF assms])

theorem table_remove_refines_map_witness:
  "\<exists>t'. qnx_connection_table_remove 1 small_table =
      Some (if table_map small_table 1 = None then - EINVAL else 0, t') \<and>
    wf_table t' \<and> table_map t' = (table_map small_table)(1 := None)"
  by (rule table_remove_refines_map [OF wf_small_table]) (simp add: int_range_def)

text \<open>
  When the table is full and grows, the new connection is stored one slot above the new
  capacity: the call reports success with the id \<open>2 * capacity\<close>, but that id retrieves no
  connection and cannot be removed, and no id of the table retrieves the new connection
  unless it did before.
\<close>

theorem table_growth_returns_dead_coid:
  assumes "wf_table (Some d)" and "\<not> has_room (Some d)" and "2 * int (capacity d) \<le> maxc"
    and "maxc < 2 ^ 31"
  shows "\<exists>t'. qnx_connection_table_add maxc True c (Some d) = Some (2 * int (capacity d), t') \<and>
    wf_table t' \<and> table_map t' = table_map (Some d) \<and>
    qnx_connection_table_retrieve t' (2 * int (capacity d)) = Some \<lparr>conn_pid = 0, conn_chid = 0\<rparr> \<and>
    (\<exists>t''. qnx_connection_table_remove (2 * int (capacity d)) t' = Some (- EINVAL, t''))"
proof -
  let ?n = "2 * capacity d" and ?i = "2 * int (capacity d)"
  have wf: "wf_data d" using assms(1) by (simp add: wf_table_def)
  have lt: "capacity d < ?n" "?n < 2 ^ 31" and cap: "capacity d < 2 ^ 30" and rng: "int_range ?i"
    using wf assms(3,4) by (auto simp: wf_data_def int_range_def)
  let ?t = "Some (store_at ?n c (grow ?n d))"
  have eq: "qnx_connection_table_add maxc True c (Some d) = Some (?i, ?t)"
    using add_without_room [OF wf assms(2) cap] assms(3) by simp
  have wf': "wf_table ?t"
    using wf_grow_store [OF wf lt] by (simp add: wf_table_def)
  have map: "table_map ?t = table_map (Some d)"
    by (rule table_map_grow_store [OF wf lt(1)])
  then have "table_map ?t ?i = None" by (simp add: table_map_def)
  then show ?thesis
    using eq wf' map ct.read_map [OF wf' rng] ct.delete_map [OF wf' rng] by fastforce
qed

definition full_table :: qnx_connection_table_data where
  "full_table = \<lparr>capacity = 2, maxfd = 1, conn = [Null, Ptr \<lparr>conn_pid = 7, conn_chid = 1\<rparr>, Uninit]\<rparr>"

lemma wf_full_table: "wf_data full_table"
  by (auto simp: wf_data_def full_table_def nth_Cons' split: if_splits)

theorem table_growth_returns_dead_coid_witness:
  "\<exists>t'. qnx_connection_table_add 256 True \<lparr>conn_pid = 8, conn_chid = 2\<rparr> (Some full_table) =
      Some (2 * int (capacity full_table), t') \<and>
    wf_table t' \<and> table_map t' = table_map (Some full_table) \<and>
    qnx_connection_table_retrieve t' (2 * int (capacity full_table)) =
      Some \<lparr>conn_pid = 0, conn_chid = 0\<rparr> \<and>
    (\<exists>t''. qnx_connection_table_remove (2 * int (capacity full_table)) t' = Some (- EINVAL, t''))"
proof (rule table_growth_returns_dead_coid)
  show "\<not> has_room (Some full_table)"
    by (auto simp: has_room_def full_table_def nth_Cons' split: if_splits)
qed (simp_all add: wf_table_def wf_full_table, simp add: full_table_def)

text \<open>
  Iteration visits every connection of the table once, by increasing id, reports their
  number, and agrees with the emptiness test.
\<close>

theorem table_for_each_complete:
  assumes "wf_table (Some d)"
  shows "\<exists>xs. qnx_connection_table_for_each (Some d) = Some (xs, int (length xs)) \<and>
    sorted_wrt (<) (map fst xs) \<and>
    (\<forall>i c. i < int (capacity d) \<longrightarrow> ((i, c) \<in> set xs \<longleftrightarrow> table_map (Some d) i = Some c)) \<and>
    (qnx_connection_table_is_empty (Some d) = 1 \<longleftrightarrow> xs = [])"
proof -
  have wf: "wf_data d" using assms by (simp add: wf_table_def)
  have "(i, c) \<in> set (used_slots d) \<longleftrightarrow> table_map (Some d) i = Some c" if "i < int (capacity d)" for i c
  proof (cases "0 \<le> i")
    case True
    then show ?thesis
      using used_slots_set [of "nat i" c d] that by (auto simp: table_map_def split: slot.splits)
  next
    case False
    then show ?thesis
      by (auto simp: used_slots_def set_map_filter slot_entry_Some table_map_def simp del: upt_Suc)
  qed
  moreover have "qnx_connection_table_is_empty (Some d) = 1 \<longleftrightarrow> used_slots d = []"
  proof (cases "0 < maxfd d")
    case True
    then show ?thesis
      by (rule used_slots_positive_max [OF wf]) (simp add: qnx_connection_table_is_empty_def True)
  qed (simp add: used_slots_no_max [OF wf] qnx_connection_table_is_empty_def)
  ultimately show ?thesis
    using for_each_used_slots [OF wf] used_slots_sorted by blast
qed

theorem table_for_each_complete_witness:
  "\<exists>xs. qnx_connection_table_for_each (Some full_table) = Some (xs, int (length xs)) \<and>
    sorted_wrt (<) (map fst xs) \<and>
    (\<forall>i c. i < int (capacity full_table) \<longrightarrow>
       ((i, c) \<in> set xs \<longleftrightarrow> table_map (Some full_table) i = Some c)) \<and>
    (qnx_connection_table_is_empty (Some full_table) = 1 \<longleftrightarrow> xs = [])"
  by (rule table_for_each_complete) (simp add: wf_table_def wf_full_table)

text \<open>
  Destroying a table frees every connection that iteration visits except the last one,
  the connection with the highest id: the loop of the destructor stops below \<open>max\<close>, which
  is the index of that connection.
\<close>

theorem table_destroy_misses_last:
  assumes "wf_table (Some d)"
  shows "\<exists>xs. qnx_connection_table_for_each (Some d) = Some (xs, int (length xs)) \<and>
    qnx_connection_table_destroy (Some d) = Some (map snd (butlast xs))"
proof -
  have wf: "wf_data d" using assms by (simp add: wf_table_def)
  have "destroy_loop d 0 = Some (map snd (butlast (used_slots d)))"
  proof (cases "0 < maxfd d")
    case True
    obtain c where "used_slots d = List.map_filter (slot_entry d) [0..<nat (maxfd d)] @ [(maxfd d, c)]"
      by (rule used_slots_positive_max [OF wf True])
    then show ?thesis by (simp add: destroy_loop_eq [OF wf])
  qed (simp add: used_slots_no_max [OF wf] destroy_loop.simps)
  then show ?thesis
    using for_each_used_slots [OF wf] by (auto simp: qnx_connection_table_destroy_def)
qed

theorem table_destroy_misses_last_witness:
  "\<exists>xs. qnx_connection_table_for_each (Some full_table) = Some (xs, int (length xs)) \<and>
    qnx_connection_table_destroy (Some full_table) = Some (map snd (butlast xs))"
  by (rule table_destroy_misses_last) (simp add: wf_table_def wf_full_table)

text \<open>
  Removing the only connection of a table walks past the start of the array: the search
  for the new maximum ends at index \<open>-1\<close>, on the word in front of the array, and \<open>max\<close>
  becomes \<open>-1\<close>.
\<close>

theorem table_remove_last_reads_before_array:
  assumes "wf_table (Some d)" and "0 < coid" and "coid < int (capacity d)"
    and "conn d ! nat coid = Ptr c"
    and "\<And>k. k \<le> capacity d \<Longrightarrow> k \<noteq> nat coid \<Longrightarrow> \<not> is_ptr (conn d ! k)"
  shows "scan_down d (coid - 1) = Some (- 1) \<and>
    (\<exists>d'. qnx_connection_table_remove coid (Some d) = Some (0, Some d') \<and> maxfd d' = - 1)"
proof -
  have wf: "wf_data d" using assms(1) by (simp add: wf_table_def)
  have max: "maxfd d = coid"
    using wf_data_le_max [OF wf, of "nat coid"] assms(2-5) wf by (force simp: wf_data_def)
  obtain m where m: "scan_down d (coid - 1) = Some m" "- 1 \<le> m" "m \<le> coid - 1" "m \<noteq> 0"
    "0 \<le> m \<longrightarrow> is_ptr (conn d ! nat m)"
    using scan_down_spec [OF wf, of "coid - 1"] max assms(2,3) by auto
  have "m = - 1"
    using m assms(3,5) by (cases "0 \<le> m") auto
  moreover have "to_size coid < capacity d"
    using to_size_less_iff [of coid "capacity d"] assms(2,3) wf
    by (simp add: int_range_def wf_data_def)
  moreover have "slot_nonnull d coid = Some True" "nat coid < length (conn d)"
    using slot_nonnull_in [OF wf, of "nat coid"] assms(2-4) wf by (auto simp: wf_data_def)
  ultimately show ?thesis
    using m(1) max
    by (simp add: qnx_connection_table_remove_def qnx_connection_table_get_capacity_def slot_write_def)
qed

theorem table_remove_last_reads_before_array_witness:
  "scan_down full_table (1 - 1) = Some (- 1) \<and>
    (\<exists>d'. qnx_connection_table_remove 1 (Some full_table) = Some (0, Some d') \<and> maxfd d' = - 1)"
proof (rule table_remove_last_reads_before_array)
  show "\<not> is_ptr (conn full_table ! k)" if "k \<le> capacity full_table" "k \<noteq> nat 1" for k
    using that by (cases "k = 0"; cases "k = 2") (auto simp: full_table_def)
qed (simp_all add: wf_table_def wf_full_table, simp_all add: full_table_def)

end
