(* ===== verification/Kernel_State.thy ===== *)
theory Kernel_State
  imports Connection_Table
begin

text \<open>
  The data of the module: the structures exchanged with user space
  (\<^verbatim>\<open>src/kernel/qnxcomm_driver.h\<close>), the kernel objects (\<^verbatim>\<open>internal_msgsend.h\<close>,
  \<^verbatim>\<open>channel.h\<close>, \<^verbatim>\<open>process_entry.h\<close>, \<^verbatim>\<open>driver_data.h\<close>, \<^verbatim>\<open>qnxcomm_internal.h\<close>) and
  the kernel state in which they live.

  Messages, channels and process entries are shared between threads through pointers, so they
  live in stores indexed by address; an intrusive list is the list of the addresses of its
  elements. A message of a blocked sender lives in that thread's stack frame, a pulse or a
  message without reply on the kernel heap; both are entries of the message store, which are
  taken out when the frame ends or when they are freed. Addresses are not reused, so a read of
  a dead object is visible as a missing entry. A Linux \<open>list_head\<close> is modelled as a list,
  a \<open>kref\<close> as an unbounded counter, an \<open>atomic_t\<close> as a 32-bit integer; spin locks and
  RCU sections appear as the atomicity of the operations.
\<close>

section \<open>Structures exchanged with user space\<close>

record iovec =
  iov_base :: uaddr
  iov_len :: nat

record msg_info =
  nd :: nat
  info_pid :: pid_t
  info_tid :: int
  info_chid :: int
  scoid :: int
  info_coid :: int
  msglen :: int
  srcmsglen :: int
  dstmsglen :: int
  priority :: int
  flags :: int
  reserved :: nat

definition QNX_FLAG_NOREPLY :: int where
  "QNX_FLAG_NOREPLY = 1"

record qnx_io_attach =
  att_pid :: pid_t
  att_chid :: int
  att_flags :: int

record qnx_io_msgsend =
  ms_coid :: int
  ms_timeout_ms :: int
  ms_in :: iovec
  ms_out :: iovec

record qnx_io_msgsendv =
  msv_coid :: int
  msv_timeout_ms :: int
  msv_in :: uaddr
  msv_in_len :: int
  msv_out :: uaddr
  msv_out_len :: int

record qnx_io_msgsendpulse =
  mp_coid :: int
  mp_code :: int
  mp_value :: int

record qnx_io_receive =
  rcv_chid :: int
  rcv_timeout_ms :: int
  rcv_out :: iovec
  rcv_info :: msg_info

record qnx_io_reply =
  rep_rcvid :: int
  rep_status :: int
  rep_in :: iovec

record qnx_io_error_reply =
  err_rcvid :: int
  err_error :: int

record qnx_io_read =
  rd_rcvid :: int
  rd_offset :: int
  rd_out :: iovec

section \<open>Kernel objects\<close>

datatype msg_state =
  QNX_STATE_INITIAL | QNX_STATE_RECEIVING | QNX_STATE_PENDING | QNX_STATE_FINISHED

text \<open>
  The member \<open>data.msg\<close> once the message is set up: \<open>in.iov_base\<close> points to a kernel copy of
  the sender's bytes, \<open>out.iov_base\<close> is an address that is only compared with null and passed
  back to user space.
\<close>

record kmsg =
  km_coid :: int
  km_timeout_ms :: int
  km_in_buf :: "byte list"
  km_in_len :: nat
  km_out :: iovec

text \<open>The union \<open>data\<close>: which member was written last.\<close>

datatype payload = Msg kmsg | Pulse qnx_io_msgsendpulse

record qnx_internal_msgsend =
  rcvid :: int
  status :: int
  sender_pid :: pid_t
  receiver_pid :: pid_t
  receiver_chid :: int
  data :: payload
  reply_base :: "byte list option"
  reply_len :: nat
  task :: "tid option"
  mstate :: msg_state

text \<open>
  Reading a member of the union. A read of the member that was not written last is given a
  zeroed structure; the union discipline (\<open>payload_ok\<close>) shows that it does not happen.
\<close>

definition zero_iovec :: iovec where
  "zero_iovec = \<lparr>iov_base = 0, iov_len = 0\<rparr>"

definition zero_kmsg :: kmsg where
  "zero_kmsg = \<lparr>km_coid = 0, km_timeout_ms = 0, km_in_buf = [], km_in_len = 0, km_out = zero_iovec\<rparr>"

fun data_msg :: "payload \<Rightarrow> kmsg" where
  "data_msg (Msg k) = k"
| "data_msg (Pulse p) = zero_kmsg"

fun data_pulse :: "payload \<Rightarrow> qnx_io_msgsendpulse" where
  "data_pulse (Pulse p) = p"
| "data_pulse (Msg k) = \<lparr>mp_coid = 0, mp_code = 0, mp_value = 0\<rparr>"

record qnx_channel =
  ch_refcnt :: nat
  chid :: int
  waiting :: "addr list"
  num_waiting :: int
  num_waiting_noreply :: int

record qnx_pollfd =
  pf_file :: file_t
  pf_chid :: int

record qnx_process_entry =
  pe_refcnt :: nat
  pid :: pid_t
  channels :: "addr list"
  connections :: qnx_connection_table
  pending :: "addr list"
  pollfds :: "qnx_pollfd list"

section \<open>The kernel state\<close>

text \<open>
  \<open>process_entries\<close> is the list of \<open>struct qnx_driver_data\<close>. \<open>running\<close> is the scheduling
  state of the tasks: a task leaves it with \<open>set_current_state(TASK_INTERRUPTIBLE)\<close> and is put
  back by \<open>wake_up_process\<close>. \<open>uaf\<close> records every \<open>list_del\<close> on an element that was already
  freed, as the address of the element.
\<close>

record kstate =
  process_entries :: "addr list"
  procs :: "addr \<Rightarrow> qnx_process_entry option"
  chans :: "addr \<Rightarrow> qnx_channel option"
  msgs :: "addr \<Rightarrow> qnx_internal_msgsend option"
  next_addr :: addr
  gbl_next_channel_id :: int
  gbl_next_rcvid :: int
  running :: "tid \<Rightarrow> bool"
  uaf :: "addr list"
  qnx_max_connections_per_process :: int
  qnx_max_channels_per_process :: int
  qnx_max_noreply_msg_size :: nat
  qnx_max_noreply_msg_num :: nat

text \<open>A loaded module: no process, the counters at 0 and the default parameters.\<close>

definition init_kstate :: kstate where
  "init_kstate =
     \<lparr>process_entries = [], procs = (\<lambda>_. None), chans = (\<lambda>_. None), msgs = (\<lambda>_. None),
      next_addr = 1, gbl_next_channel_id = 0, gbl_next_rcvid = 0, running = (\<lambda>_. True), uaf = [],
      qnx_max_connections_per_process = 256, qnx_max_channels_per_process = 64,
      qnx_max_noreply_msg_size = 4096, qnx_max_noreply_msg_num = 128\<rparr>"

definition alloc :: "kstate \<Rightarrow> addr \<times> kstate" where
  "alloc s = (next_addr s, s\<lparr>next_addr := Suc (next_addr s)\<rparr>)"

text \<open>\<open>wake_up_process\<close> and \<open>set_current_state(TASK_INTERRUPTIBLE)\<close>.\<close>

definition wake_up_process :: "tid \<Rightarrow> kstate \<Rightarrow> kstate" where
  "wake_up_process t s = s\<lparr>running := (running s)(t := True)\<rparr>"

definition set_interruptible :: "tid \<Rightarrow> kstate \<Rightarrow> kstate" where
  "set_interruptible t s = s\<lparr>running := (running s)(t := False)\<rparr>"

section \<open>The environment of a system call\<close>

text \<open>
  What the kernel answers during one system call: the allocations by call site and size (the
  size is given as 0 for an object of fixed size), the bytes or the vector that
  \<open>copy_from_user\<close> finds at an address (\<open>None\<close> when it does not return 0), whether
  \<open>copy_to_user\<close> succeeds for a block of bytes and for a fixed structure, \<open>iov_length\<close> of
  \<^verbatim>\<open>linux/uio.h\<close>, and the value that a variable \<open>rc\<close> has when it was never assigned.
\<close>

datatype alloc_site =
  A_entry | A_table | A_channel | A_pollfd | A_conn | A_msgsend | A_inbuf | A_outbuf | A_reply
| A_iov_in | A_iov_out

record kenv =
  kmalloc :: "alloc_site \<Rightarrow> nat \<Rightarrow> bool"
  copy_from_user :: "uaddr \<Rightarrow> nat \<Rightarrow> byte list option"
  copy_iovec_from_user :: "uaddr \<Rightarrow> nat \<Rightarrow> iovec list option"
  copy_to_user :: "uaddr \<Rightarrow> byte list \<Rightarrow> bool"
  store_to_user :: "uaddr \<Rightarrow> bool"
  iov_length :: "iovec list \<Rightarrow> nat"
  uninit_rc :: int

text \<open>
  The documented behaviour the module relies on: a copy that succeeds delivers the requested
  number of bytes (16 per vector element), a shorter copy from the same address delivers a
  prefix, no copy of half the address space succeeds, no allocation of 2 GiB succeeds, and
  \<open>iov_length\<close> is the sum of the segment lengths in \<open>size_t\<close> arithmetic.
\<close>

definition kenv_ok :: "kenv \<Rightarrow> bool" where
  "kenv_ok env \<longleftrightarrow>
     (\<forall>a n bs. copy_from_user env a n = Some bs \<longrightarrow> length bs = n) \<and>
     (\<forall>a n m bs. copy_from_user env a n = Some bs \<longrightarrow> m \<le> n \<longrightarrow> copy_from_user env a m = Some (take m bs)) \<and>
     (\<forall>a n vs. copy_iovec_from_user env a n = Some vs \<longrightarrow> 16 * length vs = n \<and> n < 2 ^ 63) \<and>
     (\<forall>x n. kmalloc env x n \<longrightarrow> n < 2 ^ 31) \<and>
     (\<forall>vs. iov_length env vs = sum_list (map iov_len vs) mod 2 ^ 64)"

lemma kenv_okD:
  assumes "kenv_ok env"
  shows "copy_from_user env a n = Some bs \<Longrightarrow> length bs = n"
    and "copy_from_user env a n = Some bs \<Longrightarrow> m \<le> n \<Longrightarrow> copy_from_user env a m = Some (take m bs)"
    and "copy_iovec_from_user env a n = Some vs \<Longrightarrow> 16 * length vs = n \<and> n < 2 ^ 63"
    and "kmalloc env x n \<Longrightarrow> n < 2 ^ 31"
    and "iov_length env vs = sum_list (map iov_len vs) mod 2 ^ 64"
  using assms by (auto simp: kenv_ok_def)

text \<open>
  A concrete environment that satisfies the laws: user space is a readable region of a given
  size that holds the byte \<open>a mod 256\<close> at address \<open>a\<close> and the segment \<open>(a, 4)\<close> wherever a
  vector element is read.
\<close>

definition demo_env :: kenv where
  "demo_env =
     \<lparr>kmalloc = (\<lambda>_ n. n < 4096),
      copy_from_user = (\<lambda>a n. if a + n \<le> 65536 then Some (map (\<lambda>i. word_of_nat (a + i)) [0..<n]) else None),
      copy_iovec_from_user = (\<lambda>a n. if 16 dvd n \<and> a + n \<le> 65536
         then Some (map (\<lambda>i. \<lparr>iov_base = a + 16 * i, iov_len = 4\<rparr>) [0..<n div 16]) else None),
      copy_to_user = (\<lambda>a bs. a + length bs \<le> 65536),
      store_to_user = (\<lambda>a. a < 65536),
      iov_length = (\<lambda>vs. sum_list (map iov_len vs) mod 2 ^ 64), uninit_rc = 7\<rparr>"

lemma demo_env_ok: "kenv_ok demo_env"
  by (auto simp: kenv_ok_def demo_env_def take_map split: if_splits)

end
