(* ===== verification/Iovec.thy ===== *)
theory Iovec
  imports Kernel_State
begin

text \<open>
  Gathering from and scattering to a vector of user buffers, \<^verbatim>\<open>src/kernel/compatibility.h\<close>.
  Both loops advance the vector until \<open>len\<close> bytes are copied and have no bound on the
  vector; a run past its end is a fault (\<open>None\<close>). The lemmas show that this cannot happen
  when \<open>len\<close> is what \<open>iov_length\<close> computed for the vector, although the loops truncate
  segment lengths to 32 bits and \<open>iov_length\<close> is computed modulo \<open>2 ^ 64\<close>.
\<close>

section \<open>The loops\<close>

text \<open>\<open>int copy = min_t(unsigned int, a, b)\<close>.\<close>

definition min_uint :: "int \<Rightarrow> int \<Rightarrow> int" where
  "min_uint a b = wrap32 (int (min (to_u32 a) (to_u32 b)))"

text \<open>The return code and the bytes stored at \<open>kdata\<close>.\<close>

fun memcpy_fromiovec :: "kenv \<Rightarrow> iovec list \<Rightarrow> int \<Rightarrow> (int \<times> byte list) option" where
  "memcpy_fromiovec env [] len = (if len > 0 then None else Some (0, []))"
| "memcpy_fromiovec env (v # vs) len =
     (if len > 0 then
        (if iov_len v \<noteq> 0 then
           (let copy = min_uint len (int (iov_len v)) in
            case copy_from_user env (iov_base v) (to_size copy) of
              None \<Rightarrow> Some (- EFAULT, [])
            | Some bs \<Rightarrow>
                do { (rc, rest) \<leftarrow> memcpy_fromiovec env vs (len - copy); Some (rc, bs @ rest) })
         else memcpy_fromiovec env vs len)
      else Some (0, []))"

text \<open>The return code and the blocks stored in user space, in order.\<close>

fun memcpy_toiovec :: "kenv \<Rightarrow> iovec list \<Rightarrow> byte list \<Rightarrow> int \<Rightarrow> (int \<times> (uaddr \<times> byte list) list) option" where
  "memcpy_toiovec env [] kdata len = (if len > 0 then None else Some (0, []))"
| "memcpy_toiovec env (v # vs) kdata len =
     (if len > 0 then
        (if iov_len v \<noteq> 0 then
           (let copy = min_uint (int (iov_len v)) len in
            if copy_to_user env (iov_base v) (take (to_size copy) kdata)
            then do { (rc, rest) \<leftarrow> memcpy_toiovec env vs (drop (to_size copy) kdata) (len - copy);
                      Some (rc, (iov_base v, take (to_size copy) kdata) # rest) }
            else Some (- EFAULT, []))
         else memcpy_toiovec env vs kdata len)
      else Some (0, []))"

section \<open>Enough segments\<close>

definition seg32 :: "iovec \<Rightarrow> nat" where
  "seg32 v = iov_len v mod 2 ^ 32"

definition segs32 :: "iovec list \<Rightarrow> nat" where
  "segs32 vs = sum_list (map seg32 vs)"

lemma segs32_simps [simp]: "segs32 [] = 0" "segs32 (v # vs) = seg32 v + segs32 vs"
  by (simp_all add: segs32_def)

lemma min_uint_eq:
  assumes "0 < len" and "len < 2 ^ 31"
  shows "min_uint len (int (iov_len v)) = int (min (nat len) (seg32 v))"
    and "min_uint (int (iov_len v)) len = int (min (nat len) (seg32 v))"
proof -
  have "to_u32 len = nat len" using assms by (simp add: to_u32_id)
  moreover have "to_u32 (int (iov_len v)) = seg32 v"
    by (simp add: to_u32_def seg32_def nat_mod_distrib)
  moreover have "wrap32 (int (min (nat len) n)) = int (min (nat len) n)" for n
    using assms by (intro wrap32_small) (auto simp: min_def)
  ultimately show "min_uint len (int (iov_len v)) = int (min (nat len) (seg32 v))"
    and "min_uint (int (iov_len v)) len = int (min (nat len) (seg32 v))"
    by (simp_all add: min_uint_def min.commute [of "seg32 v"])
qed

lemma to_size_min: "to_size (int (min (nat len) n)) = min (nat len) n" if "len < 2 ^ 31"
  using that by (intro trans [OF to_size_nonneg]) (auto simp: min_def)

lemma mod_sum_list: "sum_list (map (\<lambda>v. f v mod m) xs) mod m = sum_list (map f xs) mod (m :: nat)"
proof (induction xs)
  case (Cons x xs)
  then show ?case by (metis (mono_tags, lifting) list.simps(9) mod_add_eq mod_mod_trivial sum_list.Cons)
qed simp

lemma iov_length_le_segs32:
  assumes "kenv_ok env" and "iov_length env vs < 2 ^ 32"
  shows "iov_length env vs \<le> segs32 vs"
proof -
  have "iov_length env vs = iov_length env vs mod 2 ^ 32"
    using assms(2) by simp
  also have "\<dots> = sum_list (map iov_len vs) mod 2 ^ 64 mod 2 ^ 32"
    by (simp add: kenv_okD(5) [OF assms(1)])
  also have "\<dots> = sum_list (map iov_len vs) mod 2 ^ 32"
    by (rule mod_mod_cancel) (simp add: le_imp_power_dvd)
  also have "\<dots> = segs32 vs mod 2 ^ 32"
    unfolding segs32_def seg32_def by (simp only: mod_sum_list)
  also have "\<dots> \<le> segs32 vs" by simp
  finally show ?thesis .
qed

section \<open>Gathering\<close>

lemma memcpy_fromiovec_safe:
  assumes "kenv_ok env" and "len < 2 ^ 31" and "nat len \<le> segs32 vs"
  shows "\<exists>rc bs. memcpy_fromiovec env vs len = Some (rc, bs) \<and>
    (rc = 0 \<and> length bs = nat len \<or> rc = - EFAULT)"
  using assms(2,3)
proof (induction vs arbitrary: len)
  case (Cons v vs)
  show ?case
  proof (cases "0 < len \<and> iov_len v \<noteq> 0")
    case True
    define c where "c = min (nat len) (seg32 v)"
    have c: "min_uint len (int (iov_len v)) = int c" "to_size (int c) = c"
      using min_uint_eq [of len v] to_size_min [of len "seg32 v"] True Cons.prems(1) by (simp_all add: c_def)
    have rest: "len - int c < 2 ^ 31" "nat (len - int c) \<le> segs32 vs" "nat (len - int c) = nat len - c"
      using Cons.prems True by (auto simp: c_def min_def nat_diff_distrib split: if_splits)
    show ?thesis
    proof (cases "copy_from_user env (iov_base v) c")
      case None
      with True c show ?thesis by (simp add: Let_def)
    next
      case (Some bs)
      moreover have "length bs = c" using kenv_okD(1) [OF assms(1) Some] .
      moreover have "c \<le> nat len" by (simp add: c_def)
      ultimately show ?thesis
        using Cons.IH [OF rest(1,2)] rest(3) True c by (auto simp: Let_def)
    qed
  next
    case False
    with Cons show ?thesis by (auto simp: seg32_def)
  qed
qed (auto)

lemma memcpy_fromiovec_gather:
  assumes "kenv_ok env" and "len < 2 ^ 31" and "nat len \<le> segs32 vs"
    and "list_all2 (\<lambda>v bs. copy_from_user env (iov_base v) (seg32 v) = Some bs) vs bss"
  shows "memcpy_fromiovec env vs len = Some (0, take (nat len) (concat bss))"
  using assms(2-4)
proof (induction vs arbitrary: len bss)
  case (Cons v vs)
  then obtain bs bss' where bss: "bss = bs # bss'"
    and bs: "copy_from_user env (iov_base v) (seg32 v) = Some bs"
    and all: "list_all2 (\<lambda>v bs. copy_from_user env (iov_base v) (seg32 v) = Some bs) vs bss'"
    by (auto simp: list_all2_Cons1)
  have len: "length bs = seg32 v" using kenv_okD(1) [OF assms(1) bs] .
  show ?case
  proof (cases "0 < len \<and> iov_len v \<noteq> 0")
    case True
    define c where "c = min (nat len) (seg32 v)"
    have c: "min_uint len (int (iov_len v)) = int c" "to_size (int c) = c"
      using min_uint_eq [of len v] to_size_min [of len "seg32 v"] True Cons.prems(1) by (simp_all add: c_def)
    have rest: "len - int c < 2 ^ 31" "nat (len - int c) \<le> segs32 vs" "nat (len - int c) = nat len - c"
      using Cons.prems True by (auto simp: c_def min_def nat_diff_distrib split: if_splits)
    have "copy_from_user env (iov_base v) c = Some (take c bs)"
      using kenv_okD(2) [OF assms(1) bs] by (simp add: c_def)
    then show ?thesis
      using Cons.IH [OF rest(1,2) all] rest(3) True c len bss by (auto simp: Let_def c_def min_def)
  next
    case False
    then show ?thesis using Cons.IH [OF _ _ all] Cons.prems bss len by (auto simp: seg32_def)
  qed
qed auto

section \<open>Scattering\<close>

lemma memcpy_toiovec_safe:
  assumes "len < 2 ^ 31" and "nat len \<le> segs32 vs" and "nat len \<le> length kdata"
  shows "\<exists>rc ws. memcpy_toiovec env vs kdata len = Some (rc, ws) \<and>
    (rc = 0 \<and> concat (map snd ws) = take (nat len) kdata \<or> rc = - EFAULT) \<and>
    (\<forall>(a, bs) \<in> set ws. \<exists>v \<in> set vs. iov_base v = a \<and> length bs \<le> iov_len v)"
  using assms
proof (induction vs arbitrary: len kdata)
  case (Cons v vs)
  show ?case
  proof (cases "0 < len \<and> iov_len v \<noteq> 0")
    case True
    define c where "c = min (nat len) (seg32 v)"
    have c: "min_uint (int (iov_len v)) len = int c" "to_size (int c) = c"
      using min_uint_eq [of len v] to_size_min [of len "seg32 v"] True Cons.prems(1) by (simp_all add: c_def)
    have cb: "c \<le> nat len" "c \<le> iov_len v"
      by (simp_all add: c_def seg32_def min.coboundedI2)
    have rest: "len - int c < 2 ^ 31" "nat (len - int c) \<le> segs32 vs" "nat (len - int c) = nat len - c"
      "nat (len - int c) \<le> length (drop c kdata)"
      using Cons.prems True by (auto simp: c_def min_def nat_diff_distrib split: if_splits)
    show ?thesis
    proof (cases "copy_to_user env (iov_base v) (take c kdata)")
      case False
      with True c show ?thesis by (simp add: Let_def)
    next
      case ok: True
      obtain rc ws where ws: "memcpy_toiovec env vs (drop c kdata) (len - int c) = Some (rc, ws)"
        "rc = 0 \<and> concat (map snd ws) = take (nat len - c) (drop c kdata) \<or> rc = - EFAULT"
        "\<forall>(a, bs) \<in> set ws. \<exists>v \<in> set vs. iov_base v = a \<and> length bs \<le> iov_len v"
        using Cons.IH [OF rest(1,2,4)] rest(3) by auto
      have split: "take c kdata @ take (nat len - c) (drop c kdata) = take (nat len) kdata"
        using cb(1) by (metis le_add_diff_inverse take_add)
      have "memcpy_toiovec env (v # vs) kdata len = Some (rc, (iov_base v, take c kdata) # ws)"
        using ok ws(1) True c by (simp add: Let_def)
      then show ?thesis using ws(2,3) cb split by auto
    qed
  next
    case False
    show ?thesis
    proof (cases "0 < len")
      case True
      with False Cons.prems have v: "iov_len v = 0" and le: "nat len \<le> segs32 vs"
        by (auto simp: seg32_def)
      show ?thesis
        using Cons.IH [OF Cons.prems(1) le Cons.prems(3)] True v by auto
    qed simp
  qed
qed auto


section \<open>Properties\<close>

text \<open>
  Gathering never reads past the vector: when the length is the one \<open>iov_length\<close>
  computed (in 64-bit arithmetic, which user space can make wrap around) and it fits an
  \<open>int\<close>, the loop, which truncates every segment length to 32 bits, stays inside the vector
  and either fails with \<open>EFAULT\<close> or fills the kernel buffer exactly.
\<close>

theorem gather_stays_in_vector:
  assumes "kenv_ok env" and "iov_length env vs < 2 ^ 31"
  shows "\<exists>rc bs. memcpy_fromiovec env vs (int (iov_length env vs)) = Some (rc, bs) \<and>
    (rc = 0 \<and> length bs = iov_length env vs \<or> rc = - EFAULT)"
proof -
  have "iov_length env vs \<le> segs32 vs"
    using iov_length_le_segs32 [OF assms(1)] assms(2) by simp
  then show ?thesis
    using memcpy_fromiovec_safe [OF assms(1), of "int (iov_length env vs)" vs] assms(2) by simp
qed

theorem gather_stays_in_vector_witness:
  "\<exists>rc bs. memcpy_fromiovec demo_env
      [\<lparr>iov_base = 16, iov_len = 2 ^ 64 - 4\<rparr>, \<lparr>iov_base = 32, iov_len = 12\<rparr>]
      (int (iov_length demo_env
        [\<lparr>iov_base = 16, iov_len = 2 ^ 64 - 4\<rparr>, \<lparr>iov_base = 32, iov_len = 12\<rparr>])) = Some (rc, bs) \<and>
    (rc = 0 \<and> length bs = iov_length demo_env
        [\<lparr>iov_base = 16, iov_len = 2 ^ 64 - 4\<rparr>, \<lparr>iov_base = 32, iov_len = 12\<rparr>] \<or> rc = - EFAULT)"
  by (rule gather_stays_in_vector [OF demo_env_ok]) (simp add: demo_env_def)

text \<open>
  Gathering concatenates: when every segment can be read, the kernel buffer holds the
  segments' bytes in the order of the vector.
\<close>

theorem gather_concatenates:
  assumes "kenv_ok env" and "iov_length env vs < 2 ^ 31"
    and "\<And>v. v \<in> set vs \<Longrightarrow> iov_len v < 2 ^ 32"
    and "list_all2 (\<lambda>v bs. copy_from_user env (iov_base v) (iov_len v) = Some bs) vs bss"
  shows "memcpy_fromiovec env vs (int (iov_length env vs)) =
    Some (0, take (iov_length env vs) (concat bss))"
proof -
  have seg: "seg32 v = iov_len v" if "v \<in> set vs" for v
    using assms(3) [OF that] by (simp add: seg32_def)
  have "list_all2 (\<lambda>v bs. copy_from_user env (iov_base v) (seg32 v) = Some bs) vs bss"
    using assms(4) by (simp add: list_all2_conv_all_nth seg)
  moreover have "iov_length env vs \<le> segs32 vs"
    using iov_length_le_segs32 [OF assms(1)] assms(2) by simp
  ultimately show ?thesis
    using memcpy_fromiovec_gather [OF assms(1), of "int (iov_length env vs)" vs bss] assms(2) by simp
qed

theorem gather_concatenates_witness:
  "memcpy_fromiovec demo_env [\<lparr>iov_base = 16, iov_len = 2\<rparr>, \<lparr>iov_base = 32, iov_len = 1\<rparr>]
      (int (iov_length demo_env [\<lparr>iov_base = 16, iov_len = 2\<rparr>, \<lparr>iov_base = 32, iov_len = 1\<rparr>])) =
    Some (0, take (iov_length demo_env [\<lparr>iov_base = 16, iov_len = 2\<rparr>, \<lparr>iov_base = 32, iov_len = 1\<rparr>])
      (concat [[16, 17], [32]]))"
  by (rule gather_concatenates [OF demo_env_ok]) (auto simp: demo_env_def upt_rec)

text \<open>
  Scattering never writes past the vector or past a segment: for a length of at most
  \<open>iov_length\<close> and at most the reply buffer, the loop stays inside the vector, every block it
  writes goes to the start of a segment and fits it, and when it succeeds the blocks together
  are exactly the first \<open>len\<close> bytes of the reply.
\<close>

theorem scatter_stays_in_vector:
  assumes "kenv_ok env" and "iov_length env vs < 2 ^ 31" and "len \<le> iov_length env vs"
    and "len \<le> length kdata"
  shows "\<exists>rc ws. memcpy_toiovec env vs kdata (int len) = Some (rc, ws) \<and>
    (rc = 0 \<and> concat (map snd ws) = take len kdata \<or> rc = - EFAULT) \<and>
    (\<forall>(a, bs) \<in> set ws. \<exists>v \<in> set vs. iov_base v = a \<and> length bs \<le> iov_len v)"
proof -
  have "len \<le> segs32 vs"
    using iov_length_le_segs32 [OF assms(1)] assms(2,3) by (simp add: order_trans)
  then show ?thesis
    using memcpy_toiovec_safe [of "int len" vs kdata env] assms(2-4) by simp
qed

theorem scatter_stays_in_vector_witness:
  "\<exists>rc ws. memcpy_toiovec demo_env [\<lparr>iov_base = 16, iov_len = 2\<rparr>, \<lparr>iov_base = 32, iov_len = 4\<rparr>]
      [1, 2, 3, 4] (int 3) = Some (rc, ws) \<and>
    (rc = 0 \<and> concat (map snd ws) = take 3 [1, 2, 3, 4] \<or> rc = - EFAULT) \<and>
    (\<forall>(a, bs) \<in> set ws. \<exists>v \<in> set [\<lparr>iov_base = 16, iov_len = 2\<rparr>, \<lparr>iov_base = 32, iov_len = 4\<rparr>].
       iov_base v = a \<and> length bs \<le> iov_len v)"
  by (rule scatter_stays_in_vector [OF demo_env_ok]) (simp_all add: demo_env_def)

end
