(* ===== verification/Msgsend.thy ===== *)
theory Msgsend
  imports Iovec
begin

text \<open>
  The message object, \<^verbatim>\<open>src/kernel/internal_msgsend.c\<close>: its constructors for a message with
  reply, one without, their vector variants and a pulse, and its destructors. A constructor
  returns its C result and, when that is 0, the object; the object gets its address from the
  caller. Members that a constructor leaves unset and that are written before they are read
  (\<open>receiver_chid\<close>) are 0 here.
\<close>

section \<open>Constructors\<close>

definition get_new_rcvid :: "kstate \<Rightarrow> int \<times> kstate" where
  "get_new_rcvid s =
     (let r = wrap32 (gbl_next_rcvid s + 1) in (r, s\<lparr>gbl_next_rcvid := r\<rparr>))"

definition fresh_msgsend :: "int \<Rightarrow> pid_t \<Rightarrow> tid option \<Rightarrow> payload \<Rightarrow> qnx_internal_msgsend" where
  "fresh_msgsend r p t pl =
     \<lparr>rcvid = r, status = 0, sender_pid = p, receiver_pid = 0, receiver_chid = 0, data = pl,
      reply_base = None, reply_len = 0, task = t, mstate = QNX_STATE_INITIAL\<rparr>"

text \<open>
  \<open>ins\<close> and \<open>outs\<close> are the vectors \<open>_iov->in\<close> and \<open>_iov->out\<close> after the caller copied
  them into the kernel.
\<close>

definition qnx_internal_msgsend_initv ::
  "kenv \<Rightarrow> tid \<Rightarrow> qnx_io_msgsendv \<Rightarrow> iovec list \<Rightarrow> iovec list \<Rightarrow> pid_t \<Rightarrow> kstate \<Rightarrow>
     (int \<times> qnx_internal_msgsend option \<times> kstate) option" where
  "qnx_internal_msgsend_initv env t io ins outs p s =
     (let inlen = iov_length env ins; outlen = iov_length env outs in
      if \<not> kmalloc env A_inbuf inlen then Some (- ENOMEM, None, s)
      else if outlen > 0 \<and> \<not> kmalloc env A_outbuf outlen then Some (- ENOMEM, None, s)
      else
        (let (outbuf, s1) = (if outlen > 0 then alloc s else (0, s)) in
         do { (r, inbuf) \<leftarrow> memcpy_fromiovec env ins (wrap32 (int inlen));
              if r \<noteq> 0 then Some (- EFAULT, None, s1)
              else
                (let (rid, s2) = get_new_rcvid s1;
                     k = \<lparr>km_coid = msv_coid io, km_timeout_ms = msv_timeout_ms io, km_in_buf = inbuf,
                          km_in_len = inlen, km_out = \<lparr>iov_base = outbuf, iov_len = outlen\<rparr>\<rparr>
                 in Some (0, Some (fresh_msgsend rid p (Some t) (Msg k)), s2)) }))"

text \<open>\<open>sizeof(struct qnx_internal_msgsend)\<close> on an LP64 machine.\<close>

definition sizeof_msgsend :: nat where
  "sizeof_msgsend = 112"

text \<open>When the gathering fails, \<open>rc\<close> is returned without ever having been assigned.\<close>

definition qnx_internal_msgsend_init_noreplyv ::
  "kenv \<Rightarrow> qnx_io_msgsendv \<Rightarrow> iovec list \<Rightarrow> pid_t \<Rightarrow> kstate \<Rightarrow>
     (int \<times> qnx_internal_msgsend option \<times> kstate) option" where
  "qnx_internal_msgsend_init_noreplyv env io ins p s =
     (let inlen = iov_length env ins; size = (sizeof_msgsend + inlen) mod 2 ^ 64 in
      if inlen > qnx_max_noreply_msg_size s then Some (- EINVAL, None, s)
      else if \<not> kmalloc env A_msgsend size then Some (- ENOMEM, None, s)
      else if size < sizeof_msgsend then None \<comment> \<open>the object does not fit its allocation\<close>
      else
        do { (r, inbuf) \<leftarrow> memcpy_fromiovec env ins (wrap32 (int inlen));
             if r \<noteq> 0 then Some (uninit_rc env, None, s)
             else
               (let (rid, s2) = get_new_rcvid s;
                    k = \<lparr>km_coid = msv_coid io, km_timeout_ms = msv_timeout_ms io, km_in_buf = inbuf,
                         km_in_len = inlen, km_out = zero_iovec\<rparr>
                in Some (0, Some (fresh_msgsend rid p None (Msg k)), s2)) })"

text \<open>\<open>io\<close> is the structure \<open>copy_from_user\<close> reads at the argument, \<open>None\<close> when it fails.\<close>

definition qnx_internal_msgsend_init ::
  "kenv \<Rightarrow> tid \<Rightarrow> qnx_io_msgsend option \<Rightarrow> pid_t \<Rightarrow> kstate \<Rightarrow>
     int \<times> qnx_internal_msgsend option \<times> kstate" where
  "qnx_internal_msgsend_init env t io p s =
     (case io of
        None \<Rightarrow> (- EFAULT, None, s)
      | Some m \<Rightarrow>
          if \<not> kmalloc env A_inbuf (iov_len (ms_in m)) then (- ENOMEM, None, s)
          else
            (case copy_from_user env (iov_base (ms_in m)) (iov_len (ms_in m)) of
               None \<Rightarrow> (- EFAULT, None, s)
             | Some buf \<Rightarrow>
                 (let (rid, s2) = get_new_rcvid s;
                      k = \<lparr>km_coid = ms_coid m, km_timeout_ms = ms_timeout_ms m, km_in_buf = buf,
                           km_in_len = iov_len (ms_in m), km_out = ms_out m\<rparr>
                  in (0, Some (fresh_msgsend rid p (Some t) (Msg k)), s2))))"

text \<open>
  The message without reply is allocated together with its bytes. The size is computed in
  \<open>size_t\<close>; an allocation smaller than the structure makes the following \<open>memset\<close> write
  outside it.
\<close>

definition qnx_internal_msgsend_init_noreply ::
  "kenv \<Rightarrow> qnx_io_msgsend option \<Rightarrow> pid_t \<Rightarrow> kstate \<Rightarrow>
     (int \<times> qnx_internal_msgsend option \<times> kstate) option" where
  "qnx_internal_msgsend_init_noreply env io p s =
     (case io of
        None \<Rightarrow> Some (- EFAULT, None, s)
      | Some m \<Rightarrow>
          (let size = (sizeof_msgsend + iov_len (ms_in m)) mod 2 ^ 64 in
           if \<not> kmalloc env A_msgsend size then Some (- ENOMEM, None, s)
           else if size < sizeof_msgsend then None
           else
             (case copy_from_user env (iov_base (ms_in m)) (iov_len (ms_in m)) of
                None \<Rightarrow> Some (- EFAULT, None, s)
              | Some buf \<Rightarrow>
                  (let (rid, s2) = get_new_rcvid s;
                       k = \<lparr>km_coid = ms_coid m, km_timeout_ms = ms_timeout_ms m, km_in_buf = buf,
                            km_in_len = iov_len (ms_in m), km_out = ms_out m\<rparr>
                   in Some (0, Some (fresh_msgsend rid p None (Msg k)), s2)))))"

definition qnx_internal_msgsend_init_pulse ::
  "qnx_io_msgsendpulse option \<Rightarrow> pid_t \<Rightarrow> int \<times> qnx_internal_msgsend option" where
  "qnx_internal_msgsend_init_pulse io p =
     (case io of
        None \<Rightarrow> (- EFAULT, None)
      | Some pl \<Rightarrow> (0, Some (fresh_msgsend 0 p None (Pulse pl))))"

section \<open>Destructors\<close>

text \<open>The buffers passed to \<open>kfree\<close>; \<open>None\<close> is the null pointer.\<close>

definition qnx_internal_msgsend_destroy :: "qnx_internal_msgsend \<Rightarrow> byte list option list" where
  "qnx_internal_msgsend_destroy m =
     (if task m \<noteq> None then [Some (km_in_buf (data_msg (data m))), reply_base m] else [])"

text \<open>For a vector message the buffer behind \<open>out.iov_base\<close> (its address) is freed as well.\<close>

definition qnx_internal_msgsend_destroyv :: "qnx_internal_msgsend \<Rightarrow> byte list option list \<times> addr list" where
  "qnx_internal_msgsend_destroyv m =
     (if task m \<noteq> None
      then ([Some (km_in_buf (data_msg (data m))), reply_base m],
            [iov_base (km_out (data_msg (data m)))])
      else ([], []))"

definition qnx_internal_msgsend_cleanup_and_free :: "addr \<Rightarrow> kstate \<Rightarrow> kstate option" where
  "qnx_internal_msgsend_cleanup_and_free a s =
     do { m \<leftarrow> msgs s a;
          (case task m of
             None \<Rightarrow> Some (s\<lparr>msgs := (msgs s)(a := None)\<rparr>)
           | Some t \<Rightarrow>
               Some (wake_up_process t (s\<lparr>msgs := (msgs s)(a \<mapsto> m\<lparr>status := - ESRCH\<rparr>)\<rparr>))) }"


section \<open>Well-formed messages\<close>

text \<open>
  The union discipline and the buffer bounds: receive id 0 marks a pulse, which has no task;
  a message's buffer has the length it announces, and the reply never announces more bytes
  than it has.
\<close>

definition payload_ok :: "qnx_internal_msgsend \<Rightarrow> bool" where
  "payload_ok m \<longleftrightarrow>
     (case data m of
        Pulse _ \<Rightarrow> rcvid m = 0 \<and> task m = None
      | Msg k \<Rightarrow> rcvid m \<noteq> 0 \<and> length (km_in_buf k) = km_in_len k \<and> km_in_len k < 2 ^ 31) \<and>
     reply_len m \<le> (case reply_base m of None \<Rightarrow> 0 | Some bs \<Rightarrow> length bs)"

interpretation rcvids: id_source gbl_next_rcvid get_new_rcvid
  by unfold_locales (simp_all add: get_new_rcvid_def Let_def)

lemma get_new_rcvid_simps [simp]:
  "fst (get_new_rcvid s) = wrap32 (gbl_next_rcvid s + 1)"
  "snd (get_new_rcvid s) = s\<lparr>gbl_next_rcvid := wrap32 (gbl_next_rcvid s + 1)\<rparr>"
  by (simp_all add: get_new_rcvid_def Let_def)

lemma payload_ok_fresh_msg:
  "r \<noteq> 0 \<Longrightarrow> length (km_in_buf k) = km_in_len k \<Longrightarrow> km_in_len k < 2 ^ 31 \<Longrightarrow>
     payload_ok (fresh_msgsend r p t (Msg k))"
  by (simp add: payload_ok_def fresh_msgsend_def)

lemma payload_ok_fresh_pulse: "payload_ok (fresh_msgsend 0 p None (Pulse pl))"
  by (simp add: payload_ok_def fresh_msgsend_def)

text \<open>
  What a constructor promises: either an error and no object, or 0 and a well-formed message
  in its initial state that carries the next receive id. Of the kernel state only the counters
  of addresses and receive ids may change.
\<close>

definition same_but_ids :: "kstate \<Rightarrow> kstate \<Rightarrow> bool" where
  "same_but_ids s s' \<longleftrightarrow>
     next_addr s \<le> next_addr s' \<and> s' = s\<lparr>next_addr := next_addr s', gbl_next_rcvid := gbl_next_rcvid s'\<rparr>"

lemma same_but_ids_simps [simp]:
  "same_but_ids s s" "same_but_ids s (s\<lparr>gbl_next_rcvid := r\<rparr>)"
  "same_but_ids s (s\<lparr>next_addr := Suc (next_addr s)\<rparr>)"
  "same_but_ids s (s\<lparr>next_addr := Suc (next_addr s), gbl_next_rcvid := r\<rparr>)"
  by (simp_all add: same_but_ids_def)

definition new_message_ok ::
  "tid option \<Rightarrow> pid_t \<Rightarrow> kstate \<Rightarrow> int \<Rightarrow> qnx_internal_msgsend option \<Rightarrow> kstate \<Rightarrow> bool" where
  "new_message_ok t p s rc mo s' \<longleftrightarrow>
     (case mo of
        None \<Rightarrow> rc < 0 \<and> gbl_next_rcvid s' = gbl_next_rcvid s
      | Some m \<Rightarrow> rc = 0 \<and> payload_ok m \<and> rcvid m = gbl_next_rcvid s + 1 \<and>
          gbl_next_rcvid s' = rcvid m \<and> sender_pid m = p \<and> task m = t \<and> status m = 0 \<and>
          mstate m = QNX_STATE_INITIAL \<and> reply_base m = None) \<and>
     same_but_ids s s'"

lemma new_message_okI:
  assumes "0 \<le> gbl_next_rcvid s" and "gbl_next_rcvid s < 2 ^ 31 - 1"
    and "length (km_in_buf k) = km_in_len k" and "km_in_len k < 2 ^ 31"
    and "r = wrap32 (gbl_next_rcvid s + 1)" and "gbl_next_rcvid s' = r"
    and "same_but_ids s s'"
  shows "new_message_ok t p s 0 (Some (fresh_msgsend r p t (Msg k))) s'"
proof -
  have r: "r = gbl_next_rcvid s + 1" using assms(1,2,5) by (simp add: wrap32_small)
  then have "payload_ok (fresh_msgsend r p t (Msg k))"
    using assms by (intro payload_ok_fresh_msg) auto
  then show ?thesis
    using assms r by (simp add: new_message_ok_def fresh_msgsend_def)
qed

lemma new_message_ok_error:
  "rc < 0 \<Longrightarrow> gbl_next_rcvid s' = gbl_next_rcvid s \<Longrightarrow> same_but_ids s s' \<Longrightarrow> new_message_ok t p s rc None s'"
  by (simp add: new_message_ok_def)

lemma memcpy_result_cases:
  assumes "kenv_ok env" and "kmalloc env x n" and "iov_length env ins \<le> n"
  obtains (error) bs where "memcpy_fromiovec env ins (wrap32 (int (iov_length env ins))) = Some (- EFAULT, bs)"
  | (copied) buf where "memcpy_fromiovec env ins (wrap32 (int (iov_length env ins))) = Some (0, buf)"
    and "length buf = iov_length env ins" and "iov_length env ins < 2 ^ 31"
proof -
  have small: "iov_length env ins < 2 ^ 31"
    using kenv_okD(4) [OF assms(1,2)] assms(3) by simp
  then have "iov_length env ins \<le> segs32 ins"
    using iov_length_le_segs32 [OF assms(1)] by simp
  then show thesis
    using memcpy_fromiovec_safe [OF assms(1), of "int (iov_length env ins)" ins] small that
    by (auto simp: wrap32_small)
qed

section \<open>Properties\<close>

text \<open>
  Receive ids: the ids of any \<open>2 ^ 32\<close> consecutive messages are pairwise distinct, and
  the first \<open>2 ^ 31 - 1\<close> messages after loading the module get the ids 1, 2, 3 and so on;
  in particular none of them is 0, the id that marks a pulse.
\<close>

theorem rcvids_unique:
  assumes "n \<le> 2 ^ 32"
  shows "distinct (draws get_new_rcvid n s) \<and>
    (n < 2 ^ 31 \<longrightarrow> draws get_new_rcvid n init_kstate = map (\<lambda>i. int i + 1) [0..<n])"
  using rcvids.draws_distinct [OF assms] rcvids.draws_increasing [of init_kstate n]
  by (auto simp: init_kstate_def add.commute)

theorem rcvids_unique_witness:
  "distinct (draws get_new_rcvid 5 init_kstate) \<and> draws get_new_rcvid 3 init_kstate = [1, 2, 3]"
  using rcvids_unique [of 5 init_kstate] rcvids_unique [of 3 init_kstate] by (simp add: upt_rec)

lemma initv_ok:
  assumes "kenv_ok env" and "0 \<le> gbl_next_rcvid s" and "gbl_next_rcvid s < 2 ^ 31 - 1"
  shows "\<exists>rc mo s'. qnx_internal_msgsend_initv env t io ins outs p s = Some (rc, mo, s') \<and>
    new_message_ok (Some t) p s rc mo s'"
proof (cases "kmalloc env A_inbuf (iov_length env ins) \<and>
    \<not> (0 < iov_length env outs \<and> \<not> kmalloc env A_outbuf (iov_length env outs))")
  case True
  then have k: "kmalloc env A_inbuf (iov_length env ins)" by simp
  show ?thesis
  proof (cases rule: memcpy_result_cases [OF assms(1) k order_refl])
    case (1 bs)
    with True show ?thesis
      by (auto simp: qnx_internal_msgsend_initv_def alloc_def Let_def intro!: new_message_ok_error)
  next
    case (2 buf)
    with True assms show ?thesis
      by (auto simp: qnx_internal_msgsend_initv_def alloc_def Let_def case_prod_beta intro!: new_message_okI)
  qed
qed (auto simp: qnx_internal_msgsend_initv_def Let_def intro!: new_message_ok_error)

lemma init_noreplyv_ok:
  assumes "kenv_ok env" and "0 \<le> gbl_next_rcvid s" and "gbl_next_rcvid s < 2 ^ 31 - 1"
    and "qnx_max_noreply_msg_size s < 2 ^ 32"
  shows "\<exists>rc mo s'. qnx_internal_msgsend_init_noreplyv env io ins p s = Some (rc, mo, s') \<and>
    (new_message_ok None p s rc mo s' \<or> rc = uninit_rc env \<and> mo = None \<and> s' = s)"
proof (cases "iov_length env ins \<le> qnx_max_noreply_msg_size s \<and>
    kmalloc env A_msgsend ((sizeof_msgsend + iov_length env ins) mod 2 ^ 64)")
  case True
  with assms(4) have size: "(sizeof_msgsend + iov_length env ins) mod 2 ^ 64 = sizeof_msgsend + iov_length env ins"
    by (simp add: sizeof_msgsend_def)
  with True have k: "kmalloc env A_msgsend (sizeof_msgsend + iov_length env ins)" by simp
  show ?thesis
  proof (cases rule: memcpy_result_cases [OF assms(1) k le_add2])
    case (1 bs)
    with True size show ?thesis
      by (auto simp: qnx_internal_msgsend_init_noreplyv_def Let_def intro!: new_message_ok_error)
  next
    case (2 buf)
    with True assms size show ?thesis
      by (auto simp: qnx_internal_msgsend_init_noreplyv_def Let_def case_prod_beta intro!: new_message_okI)
  qed
qed (auto simp: qnx_internal_msgsend_init_noreplyv_def Let_def not_le intro!: new_message_ok_error)

lemma init_ok:
  assumes "kenv_ok env" and "0 \<le> gbl_next_rcvid s" and "gbl_next_rcvid s < 2 ^ 31 - 1"
    and "qnx_internal_msgsend_init env t io p s = (rc, mo, s')"
  shows "new_message_ok (Some t) p s rc mo s'"
  using assms(4,2,3) kenv_okD(1,4) [OF assms(1)]
  by (auto simp: qnx_internal_msgsend_init_def Let_def case_prod_beta split: option.splits if_splits
      intro!: new_message_okI new_message_ok_error)

lemma init_noreply_ok:
  assumes "kenv_ok env" and "0 \<le> gbl_next_rcvid s" and "gbl_next_rcvid s < 2 ^ 31 - 1"
    and "\<And>m. io = Some m \<Longrightarrow> iov_len (ms_in m) < 2 ^ 64 - sizeof_msgsend"
  shows "\<exists>rc mo s'. qnx_internal_msgsend_init_noreply env io p s = Some (rc, mo, s') \<and>
    new_message_ok None p s rc mo s'"
proof (cases io)
  case None
  then show ?thesis by (simp add: qnx_internal_msgsend_init_noreply_def new_message_ok_error)
next
  case (Some m)
  have size: "(sizeof_msgsend + iov_len (ms_in m)) mod 2 ^ 64 = sizeof_msgsend + iov_len (ms_in m)"
    using assms(4) [OF Some] by (simp add: sizeof_msgsend_def)
  show ?thesis
    using kenv_okD(1) [OF assms(1)] kenv_okD(4) [OF assms(1), of A_msgsend "sizeof_msgsend + iov_len (ms_in m)"] assms(2,3)
    by (auto simp: qnx_internal_msgsend_init_noreply_def Some size [simplified] Let_def case_prod_beta split: option.splits
        intro!: new_message_okI new_message_ok_error)
qed


lemma noreply_overrun:
  assumes "2 ^ 64 - sizeof_msgsend \<le> iov_len (ms_in m)" and "iov_len (ms_in m) < 2 ^ 64"
  shows "qnx_internal_msgsend_init_noreply env (Some m) p s =
    (if kmalloc env A_msgsend ((sizeof_msgsend + iov_len (ms_in m)) mod 2 ^ 64) then None else Some (- ENOMEM, None, s))"
proof -
  have "(sizeof_msgsend + iov_len (ms_in m)) mod 2 ^ 64 < sizeof_msgsend"
    using assms by (simp add: sizeof_msgsend_def mod_if le_mod_geq) linarith
  then show ?thesis by (simp add: qnx_internal_msgsend_init_noreply_def Let_def)
qed

text \<open>
  C32. The message constructors: in a kernel that behaves as documented and before the receive ids
  wrap around, building a message with reply, plain or from vectors, and a message without reply
  from vectors never touches memory it does not own, and so does a plain message without reply,
  with one exception: when its length is within the size of the header of \<open>2^64\<close> and the allocation
  of the wrapped size succeeds, the header is written outside the allocation. Otherwise the result
  is either an error and no object or a well-formed message that carries the sender, the waiting
  task and the next receive id. One failure has no error number of its own: a vector without reply
  that cannot be read yields whatever the variable \<open>rc\<close> holds, which may be 0 although the object was
  freed.
\<close>

theorem msgsend_constructors_ok:
  assumes "kenv_ok env" and "0 \<le> gbl_next_rcvid s" and "gbl_next_rcvid s < 2 ^ 31 - 1"
    and "qnx_max_noreply_msg_size s < 2 ^ 32" and "iov_len (ms_in io) < 2 ^ 64"
  shows "(\<exists>rc mo s'. qnx_internal_msgsend_init env t (Some io) p s = (rc, mo, s') \<and>
            new_message_ok (Some t) p s rc mo s') \<and>
    (\<exists>rc mo s'. qnx_internal_msgsend_initv env t iov ins outs p s = Some (rc, mo, s') \<and>
            new_message_ok (Some t) p s rc mo s') \<and>
    (if 2 ^ 64 - sizeof_msgsend \<le> iov_len (ms_in io) \<and>
        kmalloc env A_msgsend ((sizeof_msgsend + iov_len (ms_in io)) mod 2 ^ 64)
     then qnx_internal_msgsend_init_noreply env (Some io) p s = None
     else \<exists>rc mo s'. qnx_internal_msgsend_init_noreply env (Some io) p s = Some (rc, mo, s') \<and>
            new_message_ok None p s rc mo s') \<and>
    (\<exists>rc mo s'. qnx_internal_msgsend_init_noreplyv env iov ins p s = Some (rc, mo, s') \<and>
            (new_message_ok None p s rc mo s' \<or> rc = uninit_rc env \<and> mo = None \<and> s' = s))"
proof (intro conjI)
  show "\<exists>rc mo s'. qnx_internal_msgsend_init env t (Some io) p s = (rc, mo, s') \<and>
      new_message_ok (Some t) p s rc mo s'"
    using init_ok [OF assms(1-3)] by (metis prod_cases3)
  show "if 2 ^ 64 - sizeof_msgsend \<le> iov_len (ms_in io) \<and>
        kmalloc env A_msgsend ((sizeof_msgsend + iov_len (ms_in io)) mod 2 ^ 64)
     then qnx_internal_msgsend_init_noreply env (Some io) p s = None
     else \<exists>rc mo s'. qnx_internal_msgsend_init_noreply env (Some io) p s = Some (rc, mo, s') \<and>
            new_message_ok None p s rc mo s'"
  proof (cases "2 ^ 64 - sizeof_msgsend \<le> iov_len (ms_in io)")
    case True
    show ?thesis using noreply_overrun [OF True assms(5)] new_message_ok_error True by simp
  next
    case False
    then have "\<exists>rc mo s'. qnx_internal_msgsend_init_noreply env (Some io) p s = Some (rc, mo, s') \<and> new_message_ok None p s rc mo s'"
      by (intro init_noreply_ok [OF assms(1-3)]) auto
    then show ?thesis using False by simp
  qed
qed (use initv_ok [OF assms(1-3)] init_noreplyv_ok [OF assms(1-4)] in simp_all)

definition demo_io :: qnx_io_msgsend where
  "demo_io = \<lparr>ms_coid = 1, ms_timeout_ms = - 1, ms_in = \<lparr>iov_base = 16, iov_len = 3\<rparr>,
     ms_out = \<lparr>iov_base = 64, iov_len = 2\<rparr>\<rparr>"

definition demo_iov :: qnx_io_msgsendv where
  "demo_iov = \<lparr>msv_coid = 1, msv_timeout_ms = - 1, msv_in = 128, msv_in_len = 1, msv_out = 256, msv_out_len = 1\<rparr>"

theorem msgsend_constructors_ok_witness:
  "(\<exists>rc mo s'. qnx_internal_msgsend_init demo_env 5 (Some demo_io) 7 init_kstate = (rc, mo, s') \<and>
      new_message_ok (Some 5) 7 init_kstate rc mo s') \<and>
   (\<exists>rc mo s'. qnx_internal_msgsend_initv demo_env 5 demo_iov [\<lparr>iov_base = 16, iov_len = 3\<rparr>] []
        7 init_kstate = Some (rc, mo, s') \<and> new_message_ok (Some 5) 7 init_kstate rc mo s') \<and>
   (\<exists>rc mo s'. qnx_internal_msgsend_init_noreply demo_env (Some demo_io) 7 init_kstate = Some (rc, mo, s') \<and>
      new_message_ok None 7 init_kstate rc mo s') \<and>
   (\<exists>rc mo s'. qnx_internal_msgsend_init_noreplyv demo_env demo_iov [\<lparr>iov_base = 16, iov_len = 3\<rparr>]
        7 init_kstate = Some (rc, mo, s') \<and>
        (new_message_ok None 7 init_kstate rc mo s' \<or> rc = uninit_rc demo_env \<and> mo = None \<and> s' = init_kstate))"
proof -
  have pre: "0 \<le> gbl_next_rcvid init_kstate" "gbl_next_rcvid init_kstate < 2 ^ 31 - 1" "qnx_max_noreply_msg_size init_kstate < 2 ^ 32"
    "iov_len (ms_in demo_io) < 2 ^ 64" "\<not> 2 ^ 64 - sizeof_msgsend \<le> iov_len (ms_in demo_io)"
    by (simp_all add: init_kstate_def demo_io_def sizeof_msgsend_def)
  then show ?thesis
    using msgsend_constructors_ok [OF demo_env_ok pre(1-4), of 5 7 demo_iov "[\<lparr>iov_base = 16, iov_len = 3\<rparr>]" "[]"] by simp
qed

text \<open>
  The plain constructor of a message without reply computes its allocation size without
  a check: for a length within 112 bytes of \<open>2 ^ 64\<close> (user space passes a negative
  byte count) the size wraps below the size of the structure, and when the allocator
  satisfies that small request the object is written outside its allocation. The vector
  constructor never reaches its allocation with such a length.
\<close>

theorem noreply_size_wraps:
  assumes "2 ^ 64 - sizeof_msgsend \<le> n" and "n < 2 ^ 64" and "iov_len (ms_in io) = n"
    and "kmalloc env A_msgsend (n - (2 ^ 64 - sizeof_msgsend))"
    and "qnx_max_noreply_msg_size s < 2 ^ 32" and "iov_length env ins = n"
  shows "qnx_internal_msgsend_init_noreply env (Some io) p s = None \<and>
    qnx_internal_msgsend_init_noreplyv env iov ins p s = Some (- EINVAL, None, s)"
proof -
  have "(sizeof_msgsend + n) mod 2 ^ 64 = n - (2 ^ 64 - sizeof_msgsend)"
    using assms(1,2) by (simp add: sizeof_msgsend_def mod_if le_mod_geq)
  moreover have "n - (2 ^ 64 - sizeof_msgsend) < sizeof_msgsend"
    using assms(1,2) by (simp add: sizeof_msgsend_def)
  ultimately show ?thesis
    using assms
    by (simp add: qnx_internal_msgsend_init_noreply_def qnx_internal_msgsend_init_noreplyv_def
        sizeof_msgsend_def Let_def)
qed

theorem noreply_size_wraps_witness:
  "qnx_internal_msgsend_init_noreply demo_env
      (Some (demo_io\<lparr>ms_in := \<lparr>iov_base = 16, iov_len = 2 ^ 64 - 50\<rparr>\<rparr>)) 7 init_kstate = None \<and>
    qnx_internal_msgsend_init_noreplyv demo_env demo_iov [\<lparr>iov_base = 16, iov_len = 2 ^ 64 - 50\<rparr>]
      7 init_kstate = Some (- EINVAL, None, init_kstate)"
  by (rule noreply_size_wraps [of "2 ^ 64 - 50"])
    (simp_all add: demo_env_def demo_io_def sizeof_msgsend_def init_kstate_def)

text \<open>
  The limit on messages without reply (module parameter \<open>noreply_max_size\<close>) is enforced
  for vectors only: a vector message above it is refused with \<open>EINVAL\<close>, a plain message of any
  size that can be allocated and copied is accepted.
\<close>

theorem noreply_limit_only_for_vectors:
  assumes "qnx_max_noreply_msg_size s < iov_length env ins"
    and "qnx_max_noreply_msg_size s < iov_len (ms_in io)"
    and "iov_len (ms_in io) < 2 ^ 64 - sizeof_msgsend"
    and "kmalloc env A_msgsend (sizeof_msgsend + iov_len (ms_in io))"
    and "copy_from_user env (iov_base (ms_in io)) (iov_len (ms_in io)) = Some bs"
  shows "qnx_internal_msgsend_init_noreplyv env iov ins p s = Some (- EINVAL, None, s) \<and>
    (\<exists>m s'. qnx_internal_msgsend_init_noreply env (Some io) p s = Some (0, Some m, s') \<and>
      km_in_buf (data_msg (data m)) = bs)"
proof -
  have "(sizeof_msgsend + iov_len (ms_in io)) mod 2 ^ 64 = sizeof_msgsend + iov_len (ms_in io)"
    using assms(3) by (simp add: sizeof_msgsend_def)
  then show ?thesis
    using assms
    by (simp add: qnx_internal_msgsend_init_noreply_def qnx_internal_msgsend_init_noreplyv_def
        Let_def case_prod_beta fresh_msgsend_def)
qed

theorem noreply_limit_only_for_vectors_witness:
  "qnx_internal_msgsend_init_noreplyv demo_env demo_iov [\<lparr>iov_base = 16, iov_len = 3\<rparr>] 7
      (init_kstate\<lparr>qnx_max_noreply_msg_size := 2\<rparr>) =
      Some (- EINVAL, None, init_kstate\<lparr>qnx_max_noreply_msg_size := 2\<rparr>) \<and>
    (\<exists>m s'. qnx_internal_msgsend_init_noreply demo_env (Some demo_io) 7
        (init_kstate\<lparr>qnx_max_noreply_msg_size := 2\<rparr>) = Some (0, Some m, s') \<and>
      km_in_buf (data_msg (data m)) = [16, 17, 18])"
  by (rule noreply_limit_only_for_vectors)
    (simp_all add: demo_env_def demo_io_def sizeof_msgsend_def init_kstate_def upt_rec)

end
