(* ===== verification/Channel.thy ===== *)
theory Channel
  imports Msgsend
begin

text \<open>
  Channels, \<^verbatim>\<open>src/kernel/channel.c\<close>: the queue of messages that wait to be received, with
  the counters that receivers, pollers and senders without reply look at, and the reference
  count that decides when the channel is freed. Taking the head of the queue is part of
  \<open>handle_msgreceive\<close> (\<^verbatim>\<open>qnxcomm_driver.c\<close>) and is defined here with the queue it works on.
\<close>

section \<open>Reference counts\<close>

text \<open>
  The contract of \<open>kref_get\<close> and \<open>kref_put\<close> with a destructor, shared by channels and
  process entries: the object lives while its count is positive, and giving back a reference
  that was taken leaves the object as it was.
\<close>

locale refcounted =
  fixes lookup :: "'s \<Rightarrow> addr \<Rightarrow> 'o option"
    and count :: "'o \<Rightarrow> nat"
    and set_count :: "nat \<Rightarrow> 'o \<Rightarrow> 'o"
    and ref :: "addr \<Rightarrow> 's \<Rightarrow> 's option"
    and unref :: "addr \<Rightarrow> 's \<Rightarrow> 's option"
    and store :: "addr \<Rightarrow> 'o \<Rightarrow> 's \<Rightarrow> 's"
  assumes count_set: "count (set_count n x) = n"
    and set_set: "set_count n (set_count k x) = set_count n x"
    and set_id: "set_count (count x) x = x"
    and lookup_store: "lookup (store a x s) a = Some x"
    and store_store: "store a x (store a y s) = store a x s"
    and store_id: "lookup s a = Some x \<Longrightarrow> store a x s = s"
    and ref_live: "lookup s a = Some x \<Longrightarrow> ref a s = Some (store a (set_count (Suc (count x)) x) s)"
    and unref_shared: "lookup s a = Some x \<Longrightarrow> 1 < count x \<Longrightarrow>
      unref a s = Some (store a (set_count (count x - 1) x) s)"
    and unref_last: "lookup s a = Some x \<Longrightarrow> count x = 1 \<Longrightarrow> unref a s = Some s' \<Longrightarrow>
      lookup s' a = None"
begin

lemma ref_unref:
  assumes "lookup s a = Some x" and "0 < count x"
  obtains s1 where "ref a s = Some s1" and "unref a s1 = Some s"
proof -
  let ?s1 = "store a (set_count (Suc (count x)) x) s"
  have "ref a s = Some ?s1" by (rule ref_live [OF assms(1)])
  moreover have "unref a ?s1 = Some (store a (set_count (count x) x) s)"
    using unref_shared [OF lookup_store, of "set_count (Suc (count x)) x" a s] assms(2)
    by (simp add: count_set set_set store_store)
  ultimately show thesis
    using that assms(1) by (simp add: set_id store_id)
qed

lemma shared_survives:
  assumes "lookup s a = Some x" and "1 < count x"
  obtains s' where "unref a s = Some s'" and "lookup s' a = Some (set_count (count x - 1) x)"
  using that unref_shared [OF assms] by (simp add: lookup_store)

end

section \<open>Operations\<close>

definition get_new_channel_id :: "kstate \<Rightarrow> int \<times> kstate" where
  "get_new_channel_id s =
     (let r = wrap32 (gbl_next_channel_id s + 1) in (r, s\<lparr>gbl_next_channel_id := r\<rparr>))"

definition qnx_channel_init :: "kstate \<Rightarrow> int \<times> qnx_channel \<times> kstate" where
  "qnx_channel_init s =
     (let (i, s1) = get_new_channel_id s
      in (i, \<lparr>ch_refcnt = 1, chid = i, waiting = [], num_waiting = 0, num_waiting_noreply = 0\<rparr>, s1))"

text \<open>
  The loop over a message list in the destructors: every message is cleaned up and only then
  taken off the list, which touches the message once more. When it was freed, this is an access to a
  dead object. It is the one such access that does not end the model with \<open>None\<close>, since every channel
  that is destroyed with a pulse on its queue makes it: the address is recorded in \<open>uaf\<close> instead, and
  the properties say with \<open>unlinks\<close> which addresses can be recorded.
\<close>

fun free_msg_list :: "addr list \<Rightarrow> kstate \<Rightarrow> kstate option" where
  "free_msg_list [] s = Some s"
| "free_msg_list (a # as) s =
     do { s1 \<leftarrow> qnx_internal_msgsend_cleanup_and_free a s;
          free_msg_list as (if msgs s1 a = None then s1\<lparr>uaf := a # uaf s1\<rparr> else s1) }"

definition qnx_channel_free :: "addr \<Rightarrow> kstate \<Rightarrow> kstate option" where
  "qnx_channel_free c s =
     do { ch \<leftarrow> chans s c;
          s1 \<leftarrow> free_msg_list (waiting ch) s;
          Some (s1\<lparr>chans := (chans s1)(c := None)\<rparr>) }"

text \<open>\<open>kref_get(&chnl->refcnt)\<close> and \<open>kref_put\<close> with \<open>qnx_channel_free\<close>.\<close>

definition channel_get :: "addr \<Rightarrow> kstate \<Rightarrow> kstate option" where
  "channel_get c s =
     do { ch \<leftarrow> chans s c;
          Some (s\<lparr>chans := (chans s)(c \<mapsto> ch\<lparr>ch_refcnt := Suc (ch_refcnt ch)\<rparr>)\<rparr>) }"

definition qnx_channel_release :: "addr \<Rightarrow> kstate \<Rightarrow> kstate option" where
  "qnx_channel_release c s =
     do { ch \<leftarrow> chans s c;
          if ch_refcnt ch = 0 then None
          else if ch_refcnt ch = 1 then
            qnx_channel_free c (s\<lparr>chans := (chans s)(c \<mapsto> ch\<lparr>ch_refcnt := 0\<rparr>)\<rparr>)
          else Some (s\<lparr>chans := (chans s)(c \<mapsto> ch\<lparr>ch_refcnt := ch_refcnt ch - 1\<rparr>)\<rparr>) }"

text \<open>
  The critical section of \<open>qnx_channel_add_new_message\<close> on the channel, for a message \<open>m\<close>
  at address \<open>d\<close>; \<open>lim\<close> is \<open>qnx_max_noreply_msg_num\<close>, and the comparison is unsigned.
\<close>

definition channel_enqueue ::
  "nat \<Rightarrow> addr \<Rightarrow> qnx_internal_msgsend \<Rightarrow> qnx_channel \<Rightarrow> int \<times> qnx_channel" where
  "channel_enqueue lim d m ch =
     (let (rc, ch1) =
        (if rcvid m = 0 \<or> task m \<noteq> None then (0, ch\<lparr>waiting := waiting ch @ [d]\<rparr>)
         else if to_u32 (num_waiting_noreply ch) < lim then
           (0, ch\<lparr>waiting := waiting ch @ [d],
                 num_waiting_noreply := wrap32 (num_waiting_noreply ch + 1)\<rparr>)
         else (-1, ch))
      in (rc, ch1\<lparr>num_waiting := wrap32 (num_waiting ch1 + 1)\<rparr>))"

definition qnx_channel_add_new_message :: "addr \<Rightarrow> addr \<Rightarrow> kstate \<Rightarrow> (int \<times> kstate) option" where
  "qnx_channel_add_new_message c d s =
     do { ch \<leftarrow> chans s c;
          m \<leftarrow> msgs s d;
          let m1 = m\<lparr>receiver_chid := chid ch\<rparr>;
          let (rc, ch1) = channel_enqueue (qnx_max_noreply_msg_num s) d m1 ch;
          Some (rc, s\<lparr>msgs := (msgs s)(d \<mapsto> m1), chans := (chans s)(c \<mapsto> ch1)\<rparr>) }"

definition qnx_channel_remove_message :: "addr \<Rightarrow> int \<Rightarrow> kstate \<Rightarrow> (int \<times> kstate) option" where
  "qnx_channel_remove_message c r s =
     do { ch \<leftarrow> chans s c;
          hit \<leftarrow> list_search (msgs s) (\<lambda>m. rcvid m = r) (waiting ch);
          (case hit of
             None \<Rightarrow> Some (0, s)
           | Some d \<Rightarrow>
               Some (1, s\<lparr>chans := (chans s)(c \<mapsto> ch\<lparr>waiting := remove1 d (waiting ch),
                            num_waiting := wrap32 (num_waiting ch - 1)\<rparr>)\<rparr>)) }"

text \<open>
  Taking the head of the queue in \<open>handle_msgreceive\<close>, under the lock: \<open>None\<close> inside the
  result is the empty queue.
\<close>

definition channel_dequeue ::
  "(addr \<Rightarrow> qnx_internal_msgsend option) \<Rightarrow> qnx_channel \<Rightarrow> (addr \<times> qnx_channel) option option" where
  "channel_dequeue ms ch =
     (case waiting ch of
        [] \<Rightarrow> Some None
      | d # ds \<Rightarrow>
          do { m \<leftarrow> ms d;
               let ch1 = ch\<lparr>num_waiting := wrap32 (num_waiting ch - 1)\<rparr>;
               let ch2 = (if rcvid m > 0 \<and> task m = None
                          then ch1\<lparr>num_waiting_noreply := wrap32 (num_waiting_noreply ch1 - 1)\<rparr>
                          else ch1);
               Some (Some (d, ch2\<lparr>waiting := ds\<rparr>)) })"


section \<open>The queue\<close>

definition noreply_at :: "(addr \<Rightarrow> qnx_internal_msgsend option) \<Rightarrow> addr \<Rightarrow> bool" where
  "noreply_at ms d \<longleftrightarrow> (case ms d of None \<Rightarrow> False | Some m \<Rightarrow> rcvid m \<noteq> 0 \<and> task m = None)"

text \<open>
  The queued messages are alive and distinct, and \<open>num_waiting_noreply\<close> counts those without
  reply and respects the limit.
\<close>

definition chan_inv :: "(addr \<Rightarrow> qnx_internal_msgsend option) \<Rightarrow> nat \<Rightarrow> qnx_channel \<Rightarrow> bool" where
  "chan_inv ms lim ch \<longleftrightarrow>
     lim < 2 ^ 31 \<and> distinct (waiting ch) \<and>
     (\<forall>d \<in> set (waiting ch). \<exists>m. ms d = Some m \<and> 0 \<le> rcvid m) \<and>
     num_waiting_noreply ch = int (length (filter (noreply_at ms) (waiting ch))) \<and>
     num_waiting_noreply ch \<le> int lim"

definition enqueueable :: "(addr \<Rightarrow> qnx_internal_msgsend option) \<Rightarrow> addr \<Rightarrow> qnx_channel \<Rightarrow> bool" where
  "enqueueable ms d ch \<longleftrightarrow> d \<notin> set (waiting ch) \<and> (\<exists>m. ms d = Some m \<and> 0 \<le> rcvid m)"

text \<open>The queue operations of the channel with their error results as \<open>None\<close>.\<close>

definition channel_put ::
  "(addr \<Rightarrow> qnx_internal_msgsend option) \<Rightarrow> nat \<Rightarrow> addr \<Rightarrow> qnx_channel \<Rightarrow> qnx_channel option" where
  "channel_put ms lim d ch =
     do { m \<leftarrow> ms d; let (rc, ch') = channel_enqueue lim d m ch; if rc = 0 then Some ch' else None }"

definition channel_take ::
  "(addr \<Rightarrow> qnx_internal_msgsend option) \<Rightarrow> qnx_channel \<Rightarrow> (addr \<times> qnx_channel) option" where
  "channel_take ms ch = Option.bind (channel_dequeue ms ch) id"

lemma enqueue_cases:
  assumes "chan_inv ms lim ch" and "ms d = Some m"
  shows "channel_enqueue lim d m ch =
    (if noreply_at ms d
     then (if num_waiting_noreply ch < int lim
           then (0, ch\<lparr>waiting := waiting ch @ [d], num_waiting_noreply := num_waiting_noreply ch + 1,
                      num_waiting := wrap32 (num_waiting ch + 1)\<rparr>)
           else (- 1, ch\<lparr>num_waiting := wrap32 (num_waiting ch + 1)\<rparr>))
     else (0, ch\<lparr>waiting := waiting ch @ [d], num_waiting := wrap32 (num_waiting ch + 1)\<rparr>))"
proof -
  have nn: "0 \<le> num_waiting_noreply ch" "num_waiting_noreply ch < 2 ^ 31"
    using assms(1) by (auto simp: chan_inv_def)
  then have "to_u32 (num_waiting_noreply ch) < lim \<longleftrightarrow> num_waiting_noreply ch < int lim"
    by (simp add: to_u32_id nat_less_iff)
  moreover have "num_waiting_noreply ch < int lim \<Longrightarrow>
      wrap32 (num_waiting_noreply ch + 1) = num_waiting_noreply ch + 1"
    using nn assms(1) by (intro wrap32_small) (auto simp: chan_inv_def)
  ultimately show ?thesis
    using assms(2) by (auto simp: channel_enqueue_def noreply_at_def Let_def)
qed

lemma enqueue_inv:
  assumes "chan_inv ms lim ch" and "enqueueable ms d ch" and "ms d = Some m"
  shows "chan_inv ms lim (snd (channel_enqueue lim d m ch))"
  using assms by (auto simp: enqueue_cases [OF assms(1,3)] chan_inv_def enqueueable_def)

text \<open>The queue looks at the receive id and the task of a message only.\<close>

lemma enqueue_receiver_chid [simp]:
  "channel_enqueue lim d (m\<lparr>receiver_chid := x\<rparr>) ch = channel_enqueue lim d m ch"
  by (simp add: channel_enqueue_def)

lemma noreply_at_upd:
  "ms d = Some m \<Longrightarrow> rcvid m' = rcvid m \<Longrightarrow> task m' = task m \<Longrightarrow> noreply_at (ms(d \<mapsto> m')) = noreply_at ms"
  by (auto simp: fun_eq_iff noreply_at_def)

lemma chan_inv_upd:
  assumes "ms d = Some m" and "rcvid m' = rcvid m" and "task m' = task m"
  shows "chan_inv (ms(d \<mapsto> m')) lim ch \<longleftrightarrow> chan_inv ms lim ch"
  using assms unfolding chan_inv_def noreply_at_upd [of ms d m m', OF assms] by auto

lemma add_new_message_eq:
  assumes "chans s c = Some ch" and "msgs s d = Some m"
  shows "qnx_channel_add_new_message c d s =
    (case channel_enqueue (qnx_max_noreply_msg_num s) d m ch of
       (rc, ch1) \<Rightarrow> Some (rc, s\<lparr>msgs := (msgs s)(d \<mapsto> m\<lparr>receiver_chid := chid ch\<rparr>),
                                chans := (chans s)(c \<mapsto> ch1)\<rparr>))"
  using assms by (simp add: qnx_channel_add_new_message_def Let_def)

lemma dequeue_front:
  assumes "chan_inv ms lim ch" and "waiting ch = d # ds"
  shows "channel_dequeue ms ch = Some (Some (d, ch\<lparr>waiting := ds, num_waiting := wrap32 (num_waiting ch - 1),
      num_waiting_noreply := num_waiting_noreply ch - (if noreply_at ms d then 1 else 0)\<rparr>))"
    and "chan_inv ms lim (ch\<lparr>waiting := ds, num_waiting := wrap32 (num_waiting ch - 1),
      num_waiting_noreply := num_waiting_noreply ch - (if noreply_at ms d then 1 else 0)\<rparr>)"
proof -
  obtain m where m: "ms d = Some m" "0 \<le> rcvid m"
    using assms by (auto simp: chan_inv_def)
  have "noreply_at ms d \<Longrightarrow> 1 \<le> num_waiting_noreply ch" "num_waiting_noreply ch < 2 ^ 31"
    using assms by (auto simp: chan_inv_def)
  then have "noreply_at ms d \<Longrightarrow> wrap32 (num_waiting_noreply ch - 1) = num_waiting_noreply ch - 1"
    by (intro wrap32_small) auto
  then show "channel_dequeue ms ch = Some (Some (d, ch\<lparr>waiting := ds, num_waiting := wrap32 (num_waiting ch - 1),
      num_waiting_noreply := num_waiting_noreply ch - (if noreply_at ms d then 1 else 0)\<rparr>))"
    using m assms(2) by (auto simp: channel_dequeue_def noreply_at_def Let_def)
  show "chan_inv ms lim (ch\<lparr>waiting := ds, num_waiting := wrap32 (num_waiting ch - 1),
      num_waiting_noreply := num_waiting_noreply ch - (if noreply_at ms d then 1 else 0)\<rparr>)"
    using assms by (auto simp: chan_inv_def split: if_splits)
qed

interpretation chq: fifo "chan_inv ms lim" waiting "enqueueable ms" "channel_put ms lim" "channel_take ms"
  for ms lim
proof unfold_locales
  fix ch ch' d
  assume inv: "chan_inv ms lim ch" and fresh: "enqueueable ms d ch" and acc: "channel_put ms lim d ch = Some ch'"
  obtain m where m: "ms d = Some m" using fresh by (auto simp: enqueueable_def)
  have eq: "channel_enqueue lim d m ch = (0, ch')"
    using acc m by (simp add: channel_put_def case_prod_beta split: if_splits) (metis prod.collapse)
  then have behind: "waiting ch' = waiting ch @ [d] \<and> chan_inv ms lim ch'"
    using enqueue_inv [OF inv fresh m] by (auto simp: enqueue_cases [OF inv m] split: if_splits)
  then show "waiting ch' = waiting ch @ [d] \<and> chan_inv ms lim ch'" .
  show "enqueueable ms e ch'" if "enqueueable ms e ch" "d \<noteq> e" for e
    using behind that by (auto simp: enqueueable_def)
next
  show "channel_take ms ch = None" if "waiting ch = []" for ch
    using that by (simp add: channel_take_def channel_dequeue_def)
next
  show "\<exists>q'. channel_take ms ch = Some (d, q') \<and> waiting q' = ds \<and> chan_inv ms lim q'"
    if "chan_inv ms lim ch" "waiting ch = d # ds" for ch d ds
    using dequeue_front [OF that] by (simp add: channel_take_def)
qed


section \<open>Freeing\<close>

definition no_task :: "(addr \<Rightarrow> qnx_internal_msgsend option) \<Rightarrow> addr \<Rightarrow> bool" where
  "no_task ms d \<longleftrightarrow> (case ms d of None \<Rightarrow> False | Some m \<Rightarrow> task m = None)"

text \<open>
  Every access to a dead object that is recorded between \<open>s\<close> and \<open>s'\<close> is a \<open>list_del\<close> on a message
  that was freed in between, and none of them is a message that a sender waits for.
\<close>

definition unlinks :: "kstate \<Rightarrow> kstate \<Rightarrow> bool" where
  "unlinks s s' \<longleftrightarrow>
     (\<exists>zs. uaf s' = zs @ uaf s \<and>
        (\<forall>z \<in> set zs. msgs s' z = None \<and> (\<forall>m. msgs s z = Some m \<longrightarrow> task m = None)))"

lemma unlinks_same: "uaf s' = uaf s \<Longrightarrow> unlinks s s'"
  by (simp add: unlinks_def)

text \<open>The message store after the destructor loop ran over the list \<open>as\<close>.\<close>

definition flush_msgs ::
  "addr list \<Rightarrow> (addr \<Rightarrow> qnx_internal_msgsend option) \<Rightarrow> addr \<Rightarrow> qnx_internal_msgsend option" where
  "flush_msgs as ms d =
     (if d \<in> set as
      then Option.bind (ms d) (\<lambda>m. if task m = None then None else Some (m\<lparr>status := - ESRCH\<rparr>))
      else ms d)"

definition woken_by :: "addr list \<Rightarrow> (addr \<Rightarrow> qnx_internal_msgsend option) \<Rightarrow> tid \<Rightarrow> bool" where
  "woken_by as ms t \<longleftrightarrow> (\<exists>d \<in> set as. \<exists>m. ms d = Some m \<and> task m = Some t)"

lemma filter_no_task_upd:
  "a \<notin> set as \<Longrightarrow> filter (no_task (ms(a := v))) as = filter (no_task ms) as"
  by (rule filter_cong) (auto simp: no_task_def)

lemma free_msg_list_eq:
  assumes "distinct as" and "set as \<subseteq> dom (msgs s)"
  shows "free_msg_list as s = Some (s\<lparr>msgs := flush_msgs as (msgs s),
    running := (\<lambda>t. running s t \<or> woken_by as (msgs s) t),
    uaf := rev (filter (no_task (msgs s)) as) @ uaf s\<rparr>)"
  using assms
proof (induction as arbitrary: s)
  case Nil
  then show ?case by (simp add: flush_msgs_def woken_by_def fun_eq_iff)
next
  case (Cons a as)
  obtain m where m: "msgs s a = Some m" using Cons.prems by auto
  show ?case
  proof (cases "task m")
    case None
    let ?s = "s\<lparr>msgs := (msgs s)(a := None), uaf := a # uaf s\<rparr>"
    have step: "free_msg_list (a # as) s = free_msg_list as ?s"
      using m None by (simp add: qnx_internal_msgsend_cleanup_and_free_def)
    have dom: "set as \<subseteq> dom (msgs ?s)" using Cons.prems by auto
    have flush: "flush_msgs as ((msgs s)(a := None)) = flush_msgs (a # as) (msgs s)"
      using m None Cons.prems(1) by (auto simp: fun_eq_iff flush_msgs_def)
    have wake: "woken_by as ((msgs s)(a := None)) = woken_by (a # as) (msgs s)"
      using m None Cons.prems(1) by (force simp: fun_eq_iff woken_by_def)
    have filt: "filter (no_task ((msgs s)(a := None))) as = filter (no_task (msgs s)) as" "no_task (msgs s) a"
      using Cons.prems(1) m None by (simp_all add: filter_no_task_upd) (simp add: no_task_def)
    show ?thesis
      unfolding step Cons.IH [OF distinct_tl [OF Cons.prems(1), simplified] dom]
      by (simp add: flush wake filt)
  next
    case (Some t)
    let ?s = "wake_up_process t (s\<lparr>msgs := (msgs s)(a \<mapsto> m\<lparr>status := - ESRCH\<rparr>)\<rparr>)"
    have step: "free_msg_list (a # as) s = free_msg_list as ?s"
      using m Some by (simp add: qnx_internal_msgsend_cleanup_and_free_def wake_up_process_def)
    have dom: "set as \<subseteq> dom (msgs ?s)" using Cons.prems by (auto simp: wake_up_process_def)
    have flush: "flush_msgs as ((msgs s)(a \<mapsto> m\<lparr>status := - ESRCH\<rparr>)) = flush_msgs (a # as) (msgs s)"
      using m Some Cons.prems(1) by (auto simp: fun_eq_iff flush_msgs_def)
    have wake: "woken_by as ((msgs s)(a \<mapsto> m\<lparr>status := - ESRCH\<rparr>)) u \<longleftrightarrow> woken_by as (msgs s) u"
      "woken_by (a # as) (msgs s) u \<longleftrightarrow> u = t \<or> woken_by as (msgs s) u" for u
      using m Some Cons.prems(1) by (force simp: woken_by_def)+
    have filt: "filter (no_task ((msgs s)(a \<mapsto> m\<lparr>status := - ESRCH\<rparr>))) as = filter (no_task (msgs s)) as"
      "\<not> no_task (msgs s) a"
      using Cons.prems(1) m Some by (simp_all add: filter_no_task_upd) (simp add: no_task_def)
    show ?thesis
      unfolding step Cons.IH [OF distinct_tl [OF Cons.prems(1), simplified] dom]
      by (simp add: flush wake filt wake_up_process_def fun_eq_iff)
  qed
qed

definition store_chan :: "addr \<Rightarrow> qnx_channel \<Rightarrow> kstate \<Rightarrow> kstate" where
  "store_chan c ch s = s\<lparr>chans := (chans s)(c \<mapsto> ch)\<rparr>"

lemma free_msg_list_chans: "free_msg_list as s = Some s' \<Longrightarrow> chans s' = chans s"
  by (induction as arbitrary: s)
    (auto simp: qnx_internal_msgsend_cleanup_and_free_def wake_up_process_def elim!: bind_eq_SomeE
      split: option.splits if_splits)

interpretation cref: refcounted chans ch_refcnt "\<lambda>n. ch_refcnt_update (\<lambda>_. n)" channel_get
  qnx_channel_release store_chan
proof unfold_locales
  fix s s' a x
  assume "chans s a = Some x" "ch_refcnt x = 1" "qnx_channel_release a s = Some s'"
  then show "chans s' a = None"
    by (auto simp: qnx_channel_release_def qnx_channel_free_def elim!: bind_eq_SomeE)
qed (auto simp: store_chan_def channel_get_def qnx_channel_release_def fun_upd_idem)

interpretation chids: id_source gbl_next_channel_id get_new_channel_id
  by unfold_locales (simp_all add: get_new_channel_id_def Let_def)


section \<open>Properties\<close>

text \<open>
  C20. Messages are received in the order in which they were sent: when the messages \<open>ds\<close>
  are added to a channel one after the other and none is refused, taking messages off the
  queue yields those that were waiting before and then \<open>ds\<close>, in that order.
\<close>

theorem channel_is_fifo:
  assumes "chan_inv ms lim ch" and "distinct ds" and "\<And>d. d \<in> set ds \<Longrightarrow> enqueueable ms d ch"
    and "put_all (channel_put ms lim) ds ch = Some ch'"
  shows "take_up_to (channel_take ms) (length (waiting ch) + length ds) ch' = waiting ch @ ds"
  by (rule chq.put_take_order [OF assms])

definition demo_msgs :: "addr \<Rightarrow> qnx_internal_msgsend option" where
  "demo_msgs =
     [10 \<mapsto> fresh_msgsend 1 7 (Some 5) (Msg zero_kmsg), 11 \<mapsto> fresh_msgsend 2 7 None (Msg zero_kmsg),
      12 \<mapsto> fresh_msgsend 0 7 None (Pulse \<lparr>mp_coid = 1, mp_code = 2, mp_value = 3\<rparr>)]"

definition demo_channel :: qnx_channel where
  "demo_channel = \<lparr>ch_refcnt = 1, chid = 1, waiting = [10], num_waiting = 1, num_waiting_noreply = 0\<rparr>"

lemma demo_channel_inv: "chan_inv demo_msgs 1 demo_channel"
  by (auto simp: chan_inv_def demo_channel_def demo_msgs_def fresh_msgsend_def noreply_at_def)

theorem channel_is_fifo_witness:
  "take_up_to (channel_take demo_msgs) (length (waiting demo_channel) + length [11, 12 :: addr])
     (the (put_all (channel_put demo_msgs 1) [11, 12] demo_channel)) = waiting demo_channel @ [11, 12]"
  by (rule channel_is_fifo [OF demo_channel_inv])
    (auto simp: enqueueable_def demo_channel_def demo_msgs_def fresh_msgsend_def channel_put_def
      channel_enqueue_def to_u32_def)

text \<open>
  Adding a message to a channel, on every branch: a pulse or a message with reply is
  always queued; a message without reply is queued while fewer than the limit are waiting and
  refused with \<open>-1\<close> otherwise, in which case the queue is as before; the channel id is
  recorded in the message; the channel invariant is kept, so the number of queued messages
  without reply never exceeds the module parameter.
\<close>

theorem channel_add_bounded:
  assumes "chans s c = Some ch" and "msgs s d = Some m"
    and "chan_inv (msgs s) (qnx_max_noreply_msg_num s) ch" and "enqueueable (msgs s) d ch"
  shows "\<exists>s' ch'. qnx_channel_add_new_message c d s =
      Some (if noreply_at (msgs s) d \<and> num_waiting_noreply ch = int (qnx_max_noreply_msg_num s)
            then - 1 else 0, s') \<and>
    chans s' c = Some ch' \<and>
    waiting ch' = (if noreply_at (msgs s) d \<and> num_waiting_noreply ch = int (qnx_max_noreply_msg_num s)
                   then waiting ch else waiting ch @ [d]) \<and>
    msgs s' = (msgs s)(d \<mapsto> m\<lparr>receiver_chid := chid ch\<rparr>) \<and>
    chan_inv (msgs s') (qnx_max_noreply_msg_num s') ch'"
proof -
  have le: "num_waiting_noreply ch \<le> int (qnx_max_noreply_msg_num s)"
    using assms(3) by (simp add: chan_inv_def)
  show ?thesis
    using enqueue_inv [OF assms(3,4,2)] le
    by (auto simp: add_new_message_eq [OF assms(1,2)] enqueue_cases [OF assms(3,2)]
        chan_inv_upd [where ms = "msgs s" and d = d and m = m, OF assms(2)])
qed

definition demo_chan_state :: kstate where
  "demo_chan_state = init_kstate\<lparr>chans := [20 \<mapsto> demo_channel], msgs := demo_msgs, qnx_max_noreply_msg_num := 1\<rparr>"

lemma demo_chan_state_simps:
  "chans demo_chan_state 20 = Some demo_channel" "msgs demo_chan_state = demo_msgs"
  "qnx_max_noreply_msg_num demo_chan_state = 1"
  by (simp_all add: demo_chan_state_def)

lemma demo_enqueueable: "enqueueable demo_msgs 11 demo_channel"
  by (simp add: enqueueable_def demo_channel_def demo_msgs_def fresh_msgsend_def)

theorem channel_add_bounded_witness:
  "\<exists>s' ch'. qnx_channel_add_new_message 20 11 demo_chan_state =
      Some (if noreply_at (msgs demo_chan_state) 11 \<and>
               num_waiting_noreply demo_channel = int (qnx_max_noreply_msg_num demo_chan_state)
            then - 1 else 0, s') \<and>
    chans s' 20 = Some ch' \<and>
    waiting ch' = (if noreply_at (msgs demo_chan_state) 11 \<and>
        num_waiting_noreply demo_channel = int (qnx_max_noreply_msg_num demo_chan_state)
      then waiting demo_channel else waiting demo_channel @ [11]) \<and>
    msgs s' = (msgs demo_chan_state)(11 \<mapsto>
      (fresh_msgsend 2 7 None (Msg zero_kmsg))\<lparr>receiver_chid := chid demo_channel\<rparr>) \<and>
    chan_inv (msgs s') (qnx_max_noreply_msg_num s') ch'"
  by (rule channel_add_bounded)
    (simp_all only: demo_chan_state_simps demo_channel_inv demo_enqueueable, simp add: demo_msgs_def)

text \<open>
  A refused message without reply still increments \<open>num_waiting\<close>: the counter that
  receivers and pollers test no longer matches the queue. On a channel whose limit is
  reached, every attempt moves \<open>num_waiting\<close> one further from the number of queued messages.
\<close>

theorem refused_message_is_counted:
  assumes "chans s c = Some ch" and "msgs s d = Some m"
    and "chan_inv (msgs s) (qnx_max_noreply_msg_num s) ch"
    and "noreply_at (msgs s) d" and "num_waiting_noreply ch = int (qnx_max_noreply_msg_num s)"
    and "num_waiting ch < 2 ^ 31 - 1" and "0 \<le> num_waiting ch"
  shows "\<exists>s' ch'. qnx_channel_add_new_message c d s = Some (- 1, s') \<and> chans s' c = Some ch' \<and>
    waiting ch' = waiting ch \<and>
    num_waiting ch' - int (length (waiting ch')) = num_waiting ch - int (length (waiting ch)) + 1"
  using assms(4-7)
  by (simp add: add_new_message_eq [OF assms(1,2)] enqueue_cases [OF assms(3,2)] wrap32_small)

theorem refused_message_is_counted_witness:
  "\<exists>s' ch'. qnx_channel_add_new_message 20 11 (demo_chan_state\<lparr>qnx_max_noreply_msg_num := 0\<rparr>) = Some (- 1, s') \<and>
    chans s' 20 = Some ch' \<and> waiting ch' = waiting demo_channel \<and>
    num_waiting ch' - int (length (waiting ch')) =
      num_waiting demo_channel - int (length (waiting demo_channel)) + 1"
  by (rule refused_message_is_counted [where m = "fresh_msgsend 2 7 None (Msg zero_kmsg)"])
    (auto simp: demo_chan_state_def demo_channel_def demo_msgs_def chan_inv_def noreply_at_def fresh_msgsend_def)


text \<open>
  Cancelling a send: \<open>qnx_channel_remove_message\<close> finds the message by its receive id.
  When the queue holds the message at \<open>d\<close> with that id, exactly that message leaves the queue,
  the others keep their order, and the result is 1; when no queued message has the id, the
  result is 0 and nothing changes.
\<close>

theorem channel_remove_message_exact:
  assumes "chans s c = Some ch" and "set (waiting ch) \<subseteq> dom (msgs s)"
    and "\<And>d e m n. d \<in> set (waiting ch) \<Longrightarrow> e \<in> set (waiting ch) \<Longrightarrow> msgs s d = Some m \<Longrightarrow>
           msgs s e = Some n \<Longrightarrow> rcvid m = r \<Longrightarrow> rcvid n = r \<Longrightarrow> d = e"
  shows "(\<forall>d m. d \<in> set (waiting ch) \<and> msgs s d = Some m \<and> rcvid m = r \<longrightarrow>
      qnx_channel_remove_message c r s =
        Some (1, s\<lparr>chans := (chans s)(c \<mapsto> ch\<lparr>waiting := remove1 d (waiting ch),
                     num_waiting := wrap32 (num_waiting ch - 1)\<rparr>)\<rparr>)) \<and>
    ((\<forall>d \<in> set (waiting ch). \<forall>m. msgs s d = Some m \<longrightarrow> rcvid m \<noteq> r) \<longrightarrow>
      qnx_channel_remove_message c r s = Some (0, s))"
proof (intro conjI allI impI)
  fix d m
  assume d: "d \<in> set (waiting ch) \<and> msgs s d = Some m \<and> rcvid m = r"
  have "list_search (msgs s) (\<lambda>m. rcvid m = r) (waiting ch) = Some (Some d)"
    by (rule list_search_unique [OF assms(2)]) (use d assms(3) in auto)
  then show "qnx_channel_remove_message c r s =
      Some (1, s\<lparr>chans := (chans s)(c \<mapsto> ch\<lparr>waiting := remove1 d (waiting ch),
                   num_waiting := wrap32 (num_waiting ch - 1)\<rparr>)\<rparr>)"
    using assms(1) by (simp add: qnx_channel_remove_message_def)
next
  assume none: "\<forall>d \<in> set (waiting ch). \<forall>m. msgs s d = Some m \<longrightarrow> rcvid m \<noteq> r"
  obtain h where h: "list_search (msgs s) (\<lambda>m. rcvid m = r) (waiting ch) = Some h"
    using list_search_total [OF assms(2)] by blast
  with none have "h = None"
    using list_search_SomeD [of "msgs s" "\<lambda>m. rcvid m = r" "waiting ch"] by (cases h) auto
  with h show "qnx_channel_remove_message c r s = Some (0, s)"
    using assms(1) by (simp add: qnx_channel_remove_message_def)
qed

theorem channel_remove_message_exact_witness:
  "qnx_channel_remove_message 20 1 demo_chan_state =
     Some (1, demo_chan_state\<lparr>chans := (chans demo_chan_state)(20 \<mapsto> demo_channel\<lparr>waiting := [], num_waiting := 0\<rparr>)\<rparr>) \<and>
   qnx_channel_remove_message 20 9 demo_chan_state = Some (0, demo_chan_state)"
proof -
  have ok: "chans demo_chan_state 20 = Some demo_channel" "set (waiting demo_channel) \<subseteq> dom (msgs demo_chan_state)"
    by (auto simp: demo_chan_state_def demo_channel_def demo_msgs_def)
  have "qnx_channel_remove_message 20 1 demo_chan_state =
     Some (1, demo_chan_state\<lparr>chans := (chans demo_chan_state)(20 \<mapsto> demo_channel\<lparr>waiting := remove1 10 (waiting demo_channel),
       num_waiting := wrap32 (num_waiting demo_channel - 1)\<rparr>)\<rparr>)"
    using channel_remove_message_exact [OF ok, of 1]
    by (auto simp: demo_chan_state_def demo_channel_def demo_msgs_def fresh_msgsend_def)
  moreover have "qnx_channel_remove_message 20 9 demo_chan_state = Some (0, demo_chan_state)"
    using channel_remove_message_exact [OF ok, of 9]
    by (auto simp: demo_chan_state_def demo_channel_def demo_msgs_def fresh_msgsend_def)
  ultimately show ?thesis by (simp add: demo_channel_def wrap32_def)
qed

text \<open>
  C33. Giving back the last reference to a channel: every queued message with a waiting task
  gets the status \<open>-ESRCH\<close> and its task is woken, every queued pulse and message without reply
  is freed, and the channel is gone. The loop frees a message before it takes it off the list,
  so exactly the freed messages are touched after they were freed.
\<close>

theorem channel_last_release:
  assumes "chans s c = Some ch" and "ch_refcnt ch = 1"
    and "distinct (waiting ch)" and "set (waiting ch) \<subseteq> dom (msgs s)"
  shows "\<exists>s'. qnx_channel_release c s = Some s' \<and> chans s' = (chans s)(c := None) \<and>
    (\<forall>d m t. d \<in> set (waiting ch) \<and> msgs s d = Some m \<and> task m = Some t \<longrightarrow>
       msgs s' d = Some (m\<lparr>status := - ESRCH\<rparr>) \<and> running s' t) \<and>
    (\<forall>d m. d \<in> set (waiting ch) \<and> msgs s d = Some m \<and> task m = None \<longrightarrow> msgs s' d = None) \<and>
    (\<forall>d. d \<notin> set (waiting ch) \<longrightarrow> msgs s' d = msgs s d) \<and>
    uaf s' = rev (filter (no_task (msgs s)) (waiting ch)) @ uaf s"
proof -
  let ?s = "s\<lparr>chans := (chans s)(c \<mapsto> ch\<lparr>ch_refcnt := 0\<rparr>)\<rparr>"
  have "free_msg_list (waiting ch) ?s = Some (?s\<lparr>msgs := flush_msgs (waiting ch) (msgs s),
      running := (\<lambda>t. running s t \<or> woken_by (waiting ch) (msgs s) t),
      uaf := rev (filter (no_task (msgs s)) (waiting ch)) @ uaf s\<rparr>)"
    using free_msg_list_eq [OF assms(3), of ?s] assms(4) by simp
  then show ?thesis
    using assms(1,2) by (auto simp: qnx_channel_release_def qnx_channel_free_def flush_msgs_def woken_by_def)
qed

theorem channel_last_release_witness:
  "\<exists>s'. qnx_channel_release 20 (demo_chan_state\<lparr>chans := [20 \<mapsto> demo_channel\<lparr>waiting := [10, 12]\<rparr>]\<rparr>) = Some s' \<and>
    chans s' 20 = None \<and> running s' 5 \<and> msgs s' 12 = None \<and> uaf s' = [12]"
proof -
  let ?s = "demo_chan_state\<lparr>chans := [20 \<mapsto> demo_channel\<lparr>waiting := [10, 12]\<rparr>]\<rparr>"
  have ok: "chans ?s 20 = Some (demo_channel\<lparr>waiting := [10, 12]\<rparr>)" by simp
  have at: "msgs ?s 10 = Some (fresh_msgsend 1 7 (Some 5) (Msg zero_kmsg))"
    "msgs ?s 12 = Some (fresh_msgsend 0 7 None (Pulse \<lparr>mp_coid = 1, mp_code = 2, mp_value = 3\<rparr>))"
    by (simp_all add: demo_chan_state_def demo_msgs_def)
  have w: "waiting (demo_channel\<lparr>waiting := [10, 12]\<rparr>) = [10, 12]" by simp
  have pre: "ch_refcnt (demo_channel\<lparr>waiting := [10, 12]\<rparr>) = 1"
    "distinct (waiting (demo_channel\<lparr>waiting := [10, 12]\<rparr>))"
    "set (waiting (demo_channel\<lparr>waiting := [10, 12]\<rparr>)) \<subseteq> dom (msgs ?s)"
    using at by (auto simp: demo_channel_def)
  have uaf: "rev (filter (no_task (msgs ?s)) [10, 12]) @ uaf ?s = [12]"
    using at by (simp add: no_task_def fresh_msgsend_def) (simp add: demo_chan_state_def init_kstate_def)
  obtain s' where s': "qnx_channel_release 20 ?s = Some s'" "chans s' = (chans ?s)(20 := None)"
    "\<forall>d m t. d \<in> set [10, 12] \<and> msgs ?s d = Some m \<and> task m = Some t \<longrightarrow>
       msgs s' d = Some (m\<lparr>status := - ESRCH\<rparr>) \<and> running s' t"
    "\<forall>d m. d \<in> set [10, 12] \<and> msgs ?s d = Some m \<and> task m = None \<longrightarrow> msgs s' d = None"
    "uaf s' = rev (filter (no_task (msgs ?s)) [10, 12]) @ uaf ?s"
    using channel_last_release [OF ok pre] unfolding w by blast
  have "running s' 5"
    using s'(3) [rule_format, of 10, OF conjI, OF _ conjI, OF _ at(1)] by (simp add: fresh_msgsend_def)
  moreover have "msgs s' 12 = None"
    using s'(4) [rule_format, of 12, OF conjI, OF _ conjI, OF _ at(2)] by (simp add: fresh_msgsend_def)
  ultimately show ?thesis using s'(1,2,5) uaf by auto
qed

text \<open>
  References are balanced: taking a reference to a live channel and giving it back leaves
  the kernel state unchanged, and a channel with another holder survives a release with only
  its count changed.
\<close>

theorem channel_references_balanced:
  assumes "chans s c = Some ch" and "0 < ch_refcnt ch"
  shows "(\<exists>s1. channel_get c s = Some s1 \<and> qnx_channel_release c s1 = Some s) \<and>
    (1 < ch_refcnt ch \<longrightarrow> (\<exists>s1. qnx_channel_release c s = Some s1 \<and>
       chans s1 c = Some (ch\<lparr>ch_refcnt := ch_refcnt ch - 1\<rparr>)))"
proof (intro conjI impI)
  show "\<exists>s1. channel_get c s = Some s1 \<and> qnx_channel_release c s1 = Some s"
    by (rule cref.ref_unref [OF assms]) blast
  show "\<exists>s1. qnx_channel_release c s = Some s1 \<and> chans s1 c = Some (ch\<lparr>ch_refcnt := ch_refcnt ch - 1\<rparr>)"
    if "1 < ch_refcnt ch"
    by (rule cref.shared_survives [OF assms(1) that]) blast
qed

theorem channel_references_balanced_witness:
  "\<exists>s1. channel_get 20 demo_chan_state = Some s1 \<and> qnx_channel_release 20 s1 = Some demo_chan_state"
  using channel_references_balanced [OF demo_chan_state_simps(1)] by (simp add: demo_channel_def)

end
