(* ===== verification/Process_Entry.thy ===== *)
theory Process_Entry
  imports Channel
begin

text \<open>
  Process entries, \<^verbatim>\<open>src/kernel/process_entry.c\<close>, and the list of them,
  \<^verbatim>\<open>src/kernel/driver_data.c\<close>: the channels, connections, poll files and pending messages of
  one process, and the look-up of processes and channels. An entry is addressed by \<open>e\<close>; every
  operation that follows a pointer faults when the object is not alive.
\<close>

section \<open>Objects of a process\<close>

definition store_proc :: "addr \<Rightarrow> qnx_process_entry \<Rightarrow> kstate \<Rightarrow> kstate" where
  "store_proc e pe s = s\<lparr>procs := (procs s)(e \<mapsto> pe)\<rparr>"

text \<open>\<open>sizeof(struct qnx_connection_table_data) + sizeof(void*) * n\<close> on an LP64 machine.\<close>

definition table_bytes :: "nat \<Rightarrow> nat" where
  "table_bytes n = 24 + 8 * n"

definition get_num_channels_unlocked :: "qnx_process_entry \<Rightarrow> int" where
  "get_num_channels_unlocked pe = int (length (channels pe))"

text \<open>The entry of the calling process \<open>p\<close>; the result of the table's constructor is dropped.\<close>

definition qnx_process_entry_init :: "kenv \<Rightarrow> pid_t \<Rightarrow> kstate \<Rightarrow> qnx_process_entry" where
  "qnx_process_entry_init env p s =
     \<lparr>pe_refcnt = 1, pid = p, channels = [],
      connections = snd (qnx_connection_table_init (qnx_max_connections_per_process s)
                           (kmalloc env A_table (table_bytes (nat QNX_INITIAL_TABLE_SIZE)))),
      pending = [], pollfds = []\<rparr>"

text \<open>The loop that releases the channels of a dying process, head first.\<close>

fun release_channels :: "addr \<Rightarrow> addr list \<Rightarrow> kstate \<Rightarrow> kstate option" where
  "release_channels e [] s = Some s"
| "release_channels e (c # cs) s =
     do { pe \<leftarrow> procs s e;
          s1 \<leftarrow> qnx_channel_release c (store_proc e (pe\<lparr>channels := cs\<rparr>) s);
          release_channels e cs s1 }"

definition qnx_process_entry_free :: "addr \<Rightarrow> kstate \<Rightarrow> kstate option" where
  "qnx_process_entry_free e s =
     do { pe \<leftarrow> procs s e;
          s1 \<leftarrow> release_channels e (channels pe) s;
          s2 \<leftarrow> free_msg_list (pending pe) s1;
          freed \<leftarrow> qnx_connection_table_destroy (connections pe);
          Some (s2\<lparr>procs := (procs s2)(e := None)\<rparr>) }"

text \<open>\<open>kref_get(&entry->refcnt)\<close> and \<open>kref_put\<close> with \<open>qnx_process_entry_free\<close>.\<close>

definition process_entry_get :: "addr \<Rightarrow> kstate \<Rightarrow> kstate option" where
  "process_entry_get e s =
     do { pe \<leftarrow> procs s e; Some (store_proc e (pe\<lparr>pe_refcnt := Suc (pe_refcnt pe)\<rparr>) s) }"

definition qnx_process_entry_release :: "addr \<Rightarrow> kstate \<Rightarrow> kstate option" where
  "qnx_process_entry_release e s =
     do { pe \<leftarrow> procs s e;
          if pe_refcnt pe = 0 then None
          else if pe_refcnt pe = 1 then qnx_process_entry_free e (store_proc e (pe\<lparr>pe_refcnt := 0\<rparr>) s)
          else Some (store_proc e (pe\<lparr>pe_refcnt := pe_refcnt pe - 1\<rparr>) s) }"

section \<open>Channels\<close>

definition qnx_process_entry_is_channel_available :: "addr \<Rightarrow> int \<Rightarrow> kstate \<Rightarrow> bool option" where
  "qnx_process_entry_is_channel_available e i s =
     do { pe \<leftarrow> procs s e;
          hit \<leftarrow> list_search (chans s) (\<lambda>ch. chid ch = i) (channels pe);
          Some (hit \<noteq> None) }"

definition qnx_process_entry_find_channel :: "addr \<Rightarrow> int \<Rightarrow> kstate \<Rightarrow> (addr option \<times> kstate) option" where
  "qnx_process_entry_find_channel e i s =
     do { pe \<leftarrow> procs s e;
          hit \<leftarrow> list_search (chans s) (\<lambda>ch. chid ch = i) (channels pe);
          (case hit of
             None \<Rightarrow> Some (None, s)
           | Some c \<Rightarrow> do { s1 \<leftarrow> channel_get c s; Some (Some c, s1) }) }"

definition qnx_process_entry_add_channel :: "kenv \<Rightarrow> addr \<Rightarrow> kstate \<Rightarrow> (int \<times> kstate) option" where
  "qnx_process_entry_add_channel env e s =
     (if \<not> kmalloc env A_channel 0 then Some (- ENOMEM, s)
      else
        (let (c, s1) = alloc s; (i, ch, s2) = qnx_channel_init s1; s3 = store_chan c ch s2 in
         do { pe \<leftarrow> procs s3 e;
              let (rc, s4) =
                (if get_num_channels_unlocked pe < qnx_max_channels_per_process s3
                 then (i, store_proc e (pe\<lparr>channels := c # channels pe\<rparr>) s3)
                 else (- EMFILE, s3));
              Some (rc, if rc < 0 then s4\<lparr>chans := (chans s4)(c := None)\<rparr> else s4) }))"

definition qnx_process_entry_remove_channel :: "addr \<Rightarrow> int \<Rightarrow> kstate \<Rightarrow> (int \<times> kstate) option" where
  "qnx_process_entry_remove_channel e i s =
     do { pe \<leftarrow> procs s e;
          hit \<leftarrow> list_search (chans s) (\<lambda>ch. chid ch = i) (channels pe);
          (case hit of
             None \<Rightarrow> Some (- EINVAL, s)
           | Some c \<Rightarrow>
               do { s1 \<leftarrow> qnx_channel_release c
                            (store_proc e (pe\<lparr>channels := remove1 c (channels pe)\<rparr>) s);
                    Some (0, s1) }) }"

section \<open>Poll files\<close>

definition qnx_process_entry_add_pollfd ::
  "kenv \<Rightarrow> addr \<Rightarrow> file_t \<Rightarrow> int \<Rightarrow> kstate \<Rightarrow> (int \<times> kstate) option" where
  "qnx_process_entry_add_pollfd env e f i s =
     do { avail \<leftarrow> qnx_process_entry_is_channel_available e i s;
          if \<not> avail then Some (- ESRCH, s)
          else if \<not> kmalloc env A_pollfd 0 then Some (- ENOMEM, s)
          else do { pe \<leftarrow> procs s e;
                    Some (0, store_proc e (pe\<lparr>pollfds := \<lparr>pf_file = f, pf_chid = i\<rparr> # pollfds pe\<rparr>) s) } }"

definition qnx_process_entry_remove_pollfd :: "addr \<Rightarrow> file_t \<Rightarrow> kstate \<Rightarrow> (int \<times> kstate) option" where
  "qnx_process_entry_remove_pollfd e f s =
     do { pe \<leftarrow> procs s e;
          (case find (\<lambda>p. pf_file p = f) (pollfds pe) of
             None \<Rightarrow> Some (- EINVAL, s)
           | Some p \<Rightarrow> Some (0, store_proc e (pe\<lparr>pollfds := remove1 p (pollfds pe)\<rparr>) s)) }"

definition qnx_process_entry_find_channel_from_file ::
  "addr \<Rightarrow> file_t \<Rightarrow> kstate \<Rightarrow> (addr option \<times> kstate) option" where
  "qnx_process_entry_find_channel_from_file e f s =
     do { pe \<leftarrow> procs s e;
          (case find (\<lambda>p. pf_file p = f) (pollfds pe) of
             None \<Rightarrow> Some (None, s)
           | Some p \<Rightarrow> qnx_process_entry_find_channel e (pf_chid p) s) }"

section \<open>Pending messages\<close>

definition qnx_process_entry_add_pending :: "addr \<Rightarrow> addr \<Rightarrow> kstate \<Rightarrow> kstate option" where
  "qnx_process_entry_add_pending e d s =
     do { pe \<leftarrow> procs s e;
          m \<leftarrow> msgs s d;
          Some (store_proc e (pe\<lparr>pending := d # pending pe\<rparr>)
                  (s\<lparr>msgs := (msgs s)(d \<mapsto> m\<lparr>mstate := QNX_STATE_PENDING\<rparr>)\<rparr>)) }"

definition qnx_process_entry_release_pending :: "addr \<Rightarrow> int \<Rightarrow> kstate \<Rightarrow> (addr option \<times> kstate) option" where
  "qnx_process_entry_release_pending e r s =
     do { pe \<leftarrow> procs s e;
          hit \<leftarrow> list_search (msgs s) (\<lambda>m. rcvid m = r) (pending pe);
          (case hit of
             None \<Rightarrow> Some (None, s)
           | Some d \<Rightarrow> Some (Some d, store_proc e (pe\<lparr>pending := remove1 d (pending pe)\<rparr>) s)) }"

section \<open>The list of processes\<close>

definition qnx_driver_data_add_process :: "addr \<Rightarrow> kstate \<Rightarrow> kstate" where
  "qnx_driver_data_add_process e s = s\<lparr>process_entries := e # process_entries s\<rparr>"

definition qnx_driver_data_find_process :: "pid_t \<Rightarrow> kstate \<Rightarrow> (addr option \<times> kstate) option" where
  "qnx_driver_data_find_process p s =
     do { hit \<leftarrow> list_search (procs s) (\<lambda>pe. pid pe = p) (process_entries s);
          (case hit of
             None \<Rightarrow> Some (None, s)
           | Some e \<Rightarrow> do { s1 \<leftarrow> process_entry_get e s; Some (Some e, s1) }) }"

definition qnx_driver_data_is_process_available :: "pid_t \<Rightarrow> kstate \<Rightarrow> bool option" where
  "qnx_driver_data_is_process_available p s =
     do { hit \<leftarrow> list_search (procs s) (\<lambda>pe. pid pe = p) (process_entries s); Some (hit \<noteq> None) }"

definition qnx_driver_data_remove :: "pid_t \<Rightarrow> kstate \<Rightarrow> kstate option" where
  "qnx_driver_data_remove p s =
     do { hit \<leftarrow> list_search (procs s) (\<lambda>pe. pid pe = p) (process_entries s);
          (case hit of
             None \<Rightarrow> Some s
           | Some e \<Rightarrow> Some (s\<lparr>process_entries := remove1 e (process_entries s)\<rparr>)) }"

definition qnx_driver_data_find_channel :: "pid_t \<Rightarrow> int \<Rightarrow> kstate \<Rightarrow> (addr option \<times> kstate) option" where
  "qnx_driver_data_find_channel p i s =
     do { (proc, s1) \<leftarrow> qnx_driver_data_find_process p s;
          (case proc of
             None \<Rightarrow> Some (None, s1)
           | Some e \<Rightarrow>
               do { (chnl, s2) \<leftarrow> qnx_process_entry_find_channel e i s1;
                    s3 \<leftarrow> qnx_process_entry_release e s2;
                    Some (chnl, s3) }) }"

section \<open>Connections\<close>

definition qnx_process_entry_add_connection ::
  "kenv \<Rightarrow> addr \<Rightarrow> qnx_io_attach \<Rightarrow> kstate \<Rightarrow> (int \<times> kstate) option" where
  "qnx_process_entry_add_connection env e att s =
     do { (proc, s1) \<leftarrow> qnx_driver_data_find_process (att_pid att) s;
          (case proc of
             None \<Rightarrow> Some (- ESRCH, s1)
           | Some q \<Rightarrow>
               do { avail \<leftarrow> qnx_process_entry_is_channel_available q (att_chid att) s1;
                    (rc, s2) \<leftarrow>
                      (if \<not> avail then Some (- ESRCH, s1)
                       else if \<not> kmalloc env A_conn 0 then Some (- ENOMEM, s1)
                       else
                         do { pe \<leftarrow> procs s1 e;
                              let c = qnx_connection_init (att_pid att) (att_chid att);
                              let n = 2 * qnx_connection_table_get_capacity (connections pe);
                              (rc, t) \<leftarrow> qnx_connection_table_add (qnx_max_connections_per_process s1)
                                           (kmalloc env A_table (table_bytes n)) c (connections pe);
                              Some (rc, store_proc e (pe\<lparr>connections := t\<rparr>) s1) });
                    s3 \<leftarrow> qnx_process_entry_release q s2;
                    Some (rc, s3) }) }"

definition qnx_process_entry_remove_connection :: "addr \<Rightarrow> int \<Rightarrow> kstate \<Rightarrow> (int \<times> kstate) option" where
  "qnx_process_entry_remove_connection e coid s =
     do { pe \<leftarrow> procs s e;
          (rc, t) \<leftarrow> qnx_connection_table_remove coid (connections pe);
          Some (rc, store_proc e (pe\<lparr>connections := t\<rparr>) s) }"

definition qnx_process_entry_find_connection :: "addr \<Rightarrow> int \<Rightarrow> kstate \<Rightarrow> qnx_connection option" where
  "qnx_process_entry_find_connection e coid s =
     do { pe \<leftarrow> procs s e; qnx_connection_table_retrieve (connections pe) coid }"

section \<open>Reference counts\<close>

interpretation pref: refcounted procs pe_refcnt "\<lambda>n. pe_refcnt_update (\<lambda>_. n)" process_entry_get
  qnx_process_entry_release store_proc
proof unfold_locales
  fix s s' a x
  assume "procs s a = Some x" "pe_refcnt x = 1" "qnx_process_entry_release a s = Some s'"
  then show "procs s' a = None"
    by (auto simp: qnx_process_entry_release_def qnx_process_entry_free_def elim!: bind_eq_SomeE)
qed (auto simp: store_proc_def process_entry_get_def qnx_process_entry_release_def fun_upd_idem)

lemma store_proc_simps [simp]:
  "procs (store_proc e pe s) = (procs s)(e \<mapsto> pe)" "chans (store_proc e pe s) = chans s"
  "msgs (store_proc e pe s) = msgs s" "process_entries (store_proc e pe s) = process_entries s"
  "store_chan c ch (store_proc e pe s) = store_proc e pe (store_chan c ch s)"
  by (simp_all add: store_proc_def store_chan_def)

lemma store_chan_simps [simp]:
  "chans (store_chan c ch s) = (chans s)(c \<mapsto> ch)" "procs (store_chan c ch s) = procs s"
  "msgs (store_chan c ch s) = msgs s" "process_entries (store_chan c ch s) = process_entries s"
  by (simp_all add: store_chan_def)

end
