(* ===== verification/Handlers.thy ===== *)
theory Handlers
  imports Process_Entry
begin

text \<open>
  The message handlers of \<^verbatim>\<open>src/kernel/qnxcomm_driver.c\<close>. A handler that sleeps is cut where
  it sleeps: \<open>..._enter\<close> is the part before, the parts after take what the kernel reports when
  the thread runs again (the result of \<open>msleep_interruptible\<close> or of the wait on the channel, and
  whether a signal is pending). The whole handler composes the parts with an argument \<open>others\<close>
  for what the other threads do to the kernel state meanwhile.

  Data that a handler stores in user space is returned as a list of writes; what a copy to user
  space writes before it fails is not recorded. A copy from user space that fails fills the rest of
  its destination with zeros, so the destination has to be large enough in this case too.
\<close>

section \<open>Blocking a sender\<close>

datatype uwrite =
    Bytes uaddr "byte list"            \<comment> \<open>\<open>copy_to_user\<close> of message data\<close>
  | Put8 uaddr int                     \<comment> \<open>an \<open>int8_t\<close>\<close>
  | Put32 uaddr int                    \<comment> \<open>an \<open>int\<close>\<close>
  | Receive_info uaddr qnx_io_receive  \<comment> \<open>the argument structure of \<open>MsgReceive\<close>\<close>

text \<open>\<open>QNX_CONN_IS_VALID\<close>.\<close>

definition qnx_conn_is_valid :: "qnx_connection \<Rightarrow> bool" where
  "qnx_conn_is_valid c \<longleftrightarrow> conn_chid c > 0"

text \<open>\<open>handle_msgsend_internal_block\<close> up to the sleep; the result of adding is dropped.\<close>

definition block_enter :: "addr \<Rightarrow> addr \<Rightarrow> tid \<Rightarrow> kstate \<Rightarrow> kstate option" where
  "block_enter c d t s =
     do { (rc, s1) \<leftarrow> qnx_channel_add_new_message c d (set_interruptible t s); Some s1 }"

text \<open>
  Where an interrupted sender may have to wait for the receiver: a busy loop that another
  thread ends, or one that nothing ends.
\<close>

datatype block_result = Returns int | Spins int | Hangs

text \<open>The message is out of the queue: lines 135 to 160.\<close>

definition block_pending :: "int \<Rightarrow> addr \<Rightarrow> addr \<Rightarrow> kstate \<Rightarrow> (block_result \<times> kstate) option" where
  "block_pending rc c d s =
     do { m \<leftarrow> msgs s d;
          if mstate m = QNX_STATE_RECEIVING then Some (Spins rc, s)
          else
            do { (entry, s1) \<leftarrow> qnx_driver_data_find_process (receiver_pid m) s;
                 (case entry of
                    None \<Rightarrow> do { s2 \<leftarrow> qnx_channel_release c s1; Some (Returns rc, s2) }
                  | Some e \<Rightarrow>
                      do { (hit, s2) \<leftarrow> qnx_process_entry_release_pending e (rcvid m) s1;
                           m2 \<leftarrow> msgs s2 d;
                           if hit \<noteq> None \<and> mstate m2 = QNX_STATE_FINISHED then Some (Hangs, s2)
                           else
                             do { s3 \<leftarrow> qnx_process_entry_release e s2;
                                  s4 \<leftarrow> qnx_channel_release c s3;
                                  Some (Returns (if hit = None then status m2 else rc), s4) } }) } }"

text \<open>
  \<open>handle_msgsend_internal_block\<close> after the sleep. \<open>ms_left\<close> is the result of
  \<open>msleep_interruptible\<close>, used when the message has a timeout; \<open>sig\<close> is \<open>signal_pending\<close>.
\<close>

definition block_exit ::
  "nat \<Rightarrow> bool \<Rightarrow> addr \<Rightarrow> addr \<Rightarrow> kstate \<Rightarrow> (block_result \<times> kstate) option" where
  "block_exit ms_left sig c d s =
     do { m \<leftarrow> msgs s d;
          let timed_out = (km_timeout_ms (data_msg (data m)) > 0 \<and> ms_left = 0);
          if \<not> timed_out \<and> \<not> sig then
            do { s1 \<leftarrow> qnx_channel_release c s; Some (Returns (status m), s1) }
          else
            do { let rc = (if timed_out then - ETIMEDOUT else - ERESTARTSYS);
                 (removed, s1) \<leftarrow> qnx_channel_remove_message c (rcvid m) s;
                 if removed = 0 then block_pending rc c d s1
                 else do { s2 \<leftarrow> qnx_channel_release c s1; Some (Returns rc, s2) } } }"

section \<open>MsgSend\<close>

text \<open>Either the call is over, or the thread sleeps on the channel with its message.\<close>

datatype enter_result = Finished int | Blocked addr addr

definition handle_msgsend_enter ::
  "kenv \<Rightarrow> qnx_io_msgsend option \<Rightarrow> tid \<Rightarrow> addr \<Rightarrow> kstate \<Rightarrow> (enter_result \<times> kstate) option" where
  "handle_msgsend_enter env io t e s =
     do { pe \<leftarrow> procs s e;
          let (rc, mo, s1) = qnx_internal_msgsend_init env t io (pid pe) s;
          (case mo of
             None \<Rightarrow> Some (Finished rc, s1)
           | Some m \<Rightarrow>
               do { conn \<leftarrow> qnx_process_entry_find_connection e (km_coid (data_msg (data m))) s1;
                    if \<not> qnx_conn_is_valid conn then Some (Finished (- EBADF), s1)
                    else
                      do { (chnl, s2) \<leftarrow> qnx_driver_data_find_channel (conn_pid conn) (conn_chid conn) s1;
                           (case chnl of
                              None \<Rightarrow> Some (Finished (- EBADF), s2)
                            | Some c \<Rightarrow>
                                (let (d, s3) = alloc s2;
                                     s4 = s3\<lparr>msgs := (msgs s3)(d \<mapsto> m\<lparr>receiver_pid := conn_pid conn\<rparr>)\<rparr>
                                 in do { s5 \<leftarrow> block_enter c d t s4; Some (Blocked c d, s5) })) } }) }"

text \<open>After the block returned \<open>rc\<close>: copy the reply back, free the buffers, end the frame.\<close>

definition handle_msgsend_exit :: "kenv \<Rightarrow> int \<Rightarrow> addr \<Rightarrow> kstate \<Rightarrow> (int \<times> uwrite list \<times> kstate) option" where
  "handle_msgsend_exit env rc d s =
     do { m \<leftarrow> msgs s d;
          let s1 = s\<lparr>msgs := (msgs s)(d := None)\<rparr>;
          if rc \<ge> 0 \<and> reply_len m > 0 then
            do { let out = km_out (data_msg (data m));
                 let n = min (iov_len out) (reply_len m);
                 buf \<leftarrow> reply_base m;
                 if copy_to_user env (iov_base out) (take n buf)
                 then Some (rc, [Bytes (iov_base out) (take n buf)], s1)
                 else Some (- EFAULT, [], s1) }
          else Some (rc, [], s1) }"

text \<open>The whole call; \<open>None\<close> as the code means that the thread is in a busy loop.\<close>

definition handle_msgsend ::
  "kenv \<Rightarrow> qnx_io_msgsend option \<Rightarrow> tid \<Rightarrow> addr \<Rightarrow> (kstate \<Rightarrow> kstate) \<Rightarrow> nat \<Rightarrow> bool \<Rightarrow> kstate \<Rightarrow>
     (int option \<times> uwrite list \<times> kstate) option" where
  "handle_msgsend env io t e others ms_left sig s =
     do { (r, s1) \<leftarrow> handle_msgsend_enter env io t e s;
          (case r of
             Finished rc \<Rightarrow> Some (Some rc, [], s1)
           | Blocked c d \<Rightarrow>
               do { (b, s2) \<leftarrow> block_exit ms_left sig c d (others s1);
                    (case b of
                       Returns rc \<Rightarrow>
                         do { (rc', ws, s3) \<leftarrow> handle_msgsend_exit env rc d s2; Some (Some rc', ws, s3) }
                     | _ \<Rightarrow> Some (None, [], s2)) }) }"

section \<open>MsgSendPulse\<close>

definition handle_msgsendpulse ::
  "kenv \<Rightarrow> qnx_io_msgsendpulse option \<Rightarrow> addr \<Rightarrow> kstate \<Rightarrow> (int \<times> kstate) option" where
  "handle_msgsendpulse env io e s =
     (if \<not> kmalloc env A_msgsend 0 then Some (- ENOMEM, s)
      else
        do { pe \<leftarrow> procs s e;
             let (rc, mo) = qnx_internal_msgsend_init_pulse io (pid pe);
             (case mo of
                None \<Rightarrow> Some (rc, s)
              | Some m \<Rightarrow>
                  do { conn \<leftarrow> qnx_process_entry_find_connection e (mp_coid (data_pulse (data m))) s;
                       if \<not> qnx_conn_is_valid conn then Some (- EBADF, s)
                       else
                         do { (chnl, s1) \<leftarrow> qnx_driver_data_find_channel (conn_pid conn) (conn_chid conn) s;
                              (case chnl of
                                 None \<Rightarrow> Some (- EBADF, s1)
                               | Some c \<Rightarrow>
                                   (let (d, s2) = alloc s1; s3 = s2\<lparr>msgs := (msgs s2)(d \<mapsto> m)\<rparr> in
                                    do { (r, s4) \<leftarrow> qnx_channel_add_new_message c d s3;
                                         s5 \<leftarrow> qnx_channel_release c s4;
                                         Some (0, s5) })) } }) })"

section \<open>MsgSendNoReply\<close>

text \<open>
  \<open>busy_loop_add_new_message\<close>: each sleep of 50 ms is an element of \<open>wakes\<close>, whether a
  signal is pending after it and what the other threads did meanwhile. When the list is used
  up the thread is still in the loop, and there is no result.
\<close>

fun busy_loop_add_new_message ::
  "addr \<Rightarrow> addr \<Rightarrow> (bool \<times> (kstate \<Rightarrow> kstate)) list \<Rightarrow> kstate \<Rightarrow> (int option \<times> kstate) option" where
  "busy_loop_add_new_message c d [] s =
     do { (rc, s1) \<leftarrow> qnx_channel_add_new_message c d s;
          Some (if rc < 0 then None else Some rc, s1) }"
| "busy_loop_add_new_message c d ((sig, others) # wakes) s =
     do { (rc, s1) \<leftarrow> qnx_channel_add_new_message c d s;
          if rc < 0 then
            (let s2 = others s1 in
             if sig then Some (Some (- ERESTARTSYS), s2\<lparr>msgs := (msgs s2)(d := None)\<rparr>)
             else busy_loop_add_new_message c d wakes s2)
          else Some (Some rc, s1) }"

text \<open>Up to the loop, and the whole call. The result of the loop is dropped: the call returns 0 whenever the loop ends.\<close>

definition handle_msgsend_no_reply_enter ::
  "kenv \<Rightarrow> qnx_io_msgsend option \<Rightarrow> addr \<Rightarrow> kstate \<Rightarrow> (enter_result \<times> kstate) option" where
  "handle_msgsend_no_reply_enter env io e s =
     do { pe \<leftarrow> procs s e;
          (rc, mo, s1) \<leftarrow> qnx_internal_msgsend_init_noreply env io (pid pe) s;
          (case mo of
             None \<Rightarrow> Some (Finished rc, s1)
           | Some m \<Rightarrow>
               do { conn \<leftarrow> qnx_process_entry_find_connection e (km_coid (data_msg (data m))) s1;
                    if \<not> qnx_conn_is_valid conn then Some (Finished (- EBADF), s1)
                    else
                      do { (chnl, s2) \<leftarrow> qnx_driver_data_find_channel (conn_pid conn) (conn_chid conn) s1;
                           (case chnl of
                              None \<Rightarrow> Some (Finished (- EBADF), s2)
                            | Some c \<Rightarrow>
                                (let (d, s3) = alloc s2 in
                                 Some (Blocked c d, s3\<lparr>msgs := (msgs s3)(d \<mapsto> m\<lparr>receiver_pid := conn_pid conn\<rparr>)\<rparr>))) } }) }"

definition handle_msgsend_no_reply ::
  "kenv \<Rightarrow> qnx_io_msgsend option \<Rightarrow> addr \<Rightarrow> (bool \<times> (kstate \<Rightarrow> kstate)) list \<Rightarrow> kstate \<Rightarrow>
     (int option \<times> kstate) option" where
  "handle_msgsend_no_reply env io e wakes s =
     do { (r, s1) \<leftarrow> handle_msgsend_no_reply_enter env io e s;
          (case r of
             Finished rc \<Rightarrow> Some (Some rc, s1)
           | Blocked c d \<Rightarrow>
               do { (r, s2) \<leftarrow> busy_loop_add_new_message c d wakes s1;
                    (case r of
                       None \<Rightarrow> Some (None, s2)
                     | Some rc \<Rightarrow> do { s3 \<leftarrow> qnx_channel_release c s2; Some (Some 0, s3) }) }) }"

section \<open>MsgSendv\<close>

definition QNX_MAX_IOVEC_LEN :: int where
  "QNX_MAX_IOVEC_LEN = 5"

text \<open>
  Copying a vector of \<open>n\<close> elements into the kernel. The byte count is \<open>size_t\<close> arithmetic on
  a signed length; the destination has room for \<open>QNX_MAX_IOVEC_LEN\<close> elements when it is the
  buffer on the stack, and for \<open>n\<close> elements otherwise. A longer copy is a fault, whether or not
  the source can be read, since a failed copy fills its destination; the inner \<open>None\<close> is a copy
  that fails.
\<close>

definition vector_bytes :: "int \<Rightarrow> nat" where
  "vector_bytes n = to_size (16 * n)"

definition fetch_vector :: "kenv \<Rightarrow> uaddr \<Rightarrow> int \<Rightarrow> iovec list option option" where
  "fetch_vector env a n =
     (if vector_bytes n \<le> (if n > QNX_MAX_IOVEC_LEN then vector_bytes n else vector_bytes QNX_MAX_IOVEC_LEN)
      then Some (copy_iovec_from_user env a (vector_bytes n)) else None)"

definition handle_msgsendv_enter ::
  "kenv \<Rightarrow> qnx_io_msgsendv option \<Rightarrow> tid \<Rightarrow> addr \<Rightarrow> kstate \<Rightarrow>
     (enter_result \<times> iovec list \<times> kstate) option" where
  "handle_msgsendv_enter env io t e s =
     (case io of
        None \<Rightarrow> Some (Finished (- EFAULT), [], s)
      | Some v \<Rightarrow>
          if msv_in_len v > QNX_MAX_IOVEC_LEN \<and> \<not> kmalloc env A_iov_in (vector_bytes (msv_in_len v))
          then Some (Finished (- ENOMEM), [], s)
          else if msv_out_len v > QNX_MAX_IOVEC_LEN \<and> \<not> kmalloc env A_iov_out (vector_bytes (msv_out_len v))
          then Some (Finished (- ENOMEM), [], s)
          else
            do { ins \<leftarrow> fetch_vector env (msv_in v) (msv_in_len v);
                 outs \<leftarrow> (if ins = None then Some None
                          else fetch_vector env (msv_out v) (msv_out_len v));
                 (case (ins, outs) of
                    (Some ivs, Some ovs) \<Rightarrow>
                      do { conn \<leftarrow> qnx_process_entry_find_connection e (msv_coid v) s;
                           if \<not> qnx_conn_is_valid conn then Some (Finished (- EBADF), [], s)
                           else
                             do { (chnl, s1) \<leftarrow> qnx_driver_data_find_channel (conn_pid conn) (conn_chid conn) s;
                                  (case chnl of
                                     None \<Rightarrow> Some (Finished (- EBADF), [], s1)
                                   | Some c \<Rightarrow>
                                       do { pe \<leftarrow> procs s1 e;
                                            (rc, mo, s2) \<leftarrow> qnx_internal_msgsend_initv env t v ivs ovs (pid pe) s1;
                                            (case mo of
                                               None \<Rightarrow> Some (Finished rc, [], s2)
                                             | Some m \<Rightarrow>
                                                 (let (d, s3) = alloc s2;
                                                      s4 = s3\<lparr>msgs := (msgs s3)(d \<mapsto> m\<lparr>receiver_pid := conn_pid conn\<rparr>)\<rparr>
                                                  in do { s5 \<leftarrow> block_enter c d t s4;
                                                          Some (Blocked c d, ovs, s5) })) }) } }
                  | _ \<Rightarrow> Some (Finished (- EFAULT), [], s)) })"

definition handle_msgsendv_exit ::
  "kenv \<Rightarrow> int \<Rightarrow> addr \<Rightarrow> iovec list \<Rightarrow> kstate \<Rightarrow> (int \<times> uwrite list \<times> kstate) option" where
  "handle_msgsendv_exit env rc d outs s =
     do { m \<leftarrow> msgs s d;
          let s1 = s\<lparr>msgs := (msgs s)(d := None)\<rparr>;
          if rc \<ge> 0 \<and> reply_len m > 0 then
            do { let n = min (iov_len (km_out (data_msg (data m)))) (reply_len m);
                 buf \<leftarrow> reply_base m;
                 (r, ws) \<leftarrow> memcpy_toiovec env outs buf (wrap32 (int n));
                 Some (if r \<noteq> 0 then - EFAULT else rc, map (\<lambda>(a, bs). Bytes a bs) ws, s1) }
          else Some (rc, [], s1) }"

definition handle_msgsendv ::
  "kenv \<Rightarrow> qnx_io_msgsendv option \<Rightarrow> tid \<Rightarrow> addr \<Rightarrow> (kstate \<Rightarrow> kstate) \<Rightarrow> nat \<Rightarrow> bool \<Rightarrow> kstate \<Rightarrow>
     (int option \<times> uwrite list \<times> kstate) option" where
  "handle_msgsendv env io t e others ms_left sig s =
     do { (r, outs, s1) \<leftarrow> handle_msgsendv_enter env io t e s;
          (case r of
             Finished rc \<Rightarrow> Some (Some rc, [], s1)
           | Blocked c d \<Rightarrow>
               do { (b, s2) \<leftarrow> block_exit ms_left sig c d (others s1);
                    (case b of
                       Returns rc \<Rightarrow>
                         do { (rc', ws, s3) \<leftarrow> handle_msgsendv_exit env rc d outs s2; Some (Some rc', ws, s3) }
                     | _ \<Rightarrow> Some (None, [], s2)) }) }"

section \<open>MsgSendNoReplyv\<close>

text \<open>A constructor that fails with result 0 leaves \<open>snddata\<close> pointing to freed memory: a fault.\<close>

definition handle_msgsend_noreplyv_enter ::
  "kenv \<Rightarrow> qnx_io_msgsendv option \<Rightarrow> addr \<Rightarrow> kstate \<Rightarrow> (enter_result \<times> kstate) option" where
  "handle_msgsend_noreplyv_enter env io e s =
     (case io of
        None \<Rightarrow> Some (Finished (- EFAULT), s)
      | Some v \<Rightarrow>
          if msv_in_len v > QNX_MAX_IOVEC_LEN \<and> \<not> kmalloc env A_iov_in (vector_bytes (msv_in_len v))
          then Some (Finished (- ENOMEM), s)
          else
            do { ins \<leftarrow> fetch_vector env (msv_in v) (msv_in_len v);
                 (case ins of
                    None \<Rightarrow> Some (Finished (- EFAULT), s)
                  | Some ivs \<Rightarrow>
                      do { conn \<leftarrow> qnx_process_entry_find_connection e (msv_coid v) s;
                           if \<not> qnx_conn_is_valid conn then Some (Finished (- EBADF), s)
                           else
                             do { (chnl, s1) \<leftarrow> qnx_driver_data_find_channel (conn_pid conn) (conn_chid conn) s;
                                  (case chnl of
                                     None \<Rightarrow> Some (Finished (- EBADF), s1)
                                   | Some c \<Rightarrow>
                                       do { pe \<leftarrow> procs s1 e;
                                            (rc, mo, s2) \<leftarrow> qnx_internal_msgsend_init_noreplyv env v ivs (pid pe) s1;
                                            (case mo of
                                               None \<Rightarrow> if rc = 0 then None else Some (Finished rc, s2)
                                             | Some m \<Rightarrow>
                                                 (let (d, s3) = alloc s2 in
                                                  Some (Blocked c d, s3\<lparr>msgs := (msgs s3)(d \<mapsto>
                                                    m\<lparr>receiver_pid := conn_pid conn\<rparr>)\<rparr>))) }) } }) })"

definition handle_msgsend_noreplyv ::
  "kenv \<Rightarrow> qnx_io_msgsendv option \<Rightarrow> addr \<Rightarrow> (bool \<times> (kstate \<Rightarrow> kstate)) list \<Rightarrow> kstate \<Rightarrow>
     (int option \<times> kstate) option" where
  "handle_msgsend_noreplyv env io e wakes s =
     do { (r, s1) \<leftarrow> handle_msgsend_noreplyv_enter env io e s;
          (case r of
             Finished rc \<Rightarrow> Some (Some rc, s1)
           | Blocked c d \<Rightarrow>
               do { (r, s2) \<leftarrow> busy_loop_add_new_message c d wakes s1;
                    (case r of
                       None \<Rightarrow> Some (None, s2)
                     | Some rc \<Rightarrow> do { s3 \<leftarrow> qnx_channel_release c s2; Some (Some rc, s3) }) }) }"

lemmas no_reply_defs = handle_msgsend_no_reply_def handle_msgsend_no_reply_enter_def

lemmas noreplyv_defs = handle_msgsend_noreplyv_def handle_msgsend_noreplyv_enter_def

end
