(* ===== verification/Receive.thy ===== *)
theory Receive
  imports Handlers
begin

text \<open>
  The receiver's side of \<^verbatim>\<open>src/kernel/qnxcomm_driver.c\<close>: \<open>MsgReceive\<close>, \<open>MsgReply\<close>,
  \<open>MsgError\<close> and \<open>MsgRead\<close>. \<open>handle_msgreceive\<close> is cut at the wait on the channel and after
  the critical section that takes the message off the queue, since other threads may run there.
\<close>

section \<open>MsgReceive\<close>

datatype receive_enter_result = Refused int | Waits addr

definition handle_msgreceive_enter ::
  "qnx_io_receive option \<Rightarrow> addr \<Rightarrow> kstate \<Rightarrow> (receive_enter_result \<times> kstate) option" where
  "handle_msgreceive_enter io e s =
     (case io of
        None \<Rightarrow> Some (Refused (- EFAULT), s)
      | Some r \<Rightarrow>
          do { (chnl, s1) \<leftarrow> qnx_process_entry_find_channel e (rcv_chid r) s;
               (case chnl of
                  None \<Rightarrow> Some (Refused (- EBADF), s1)
                | Some c \<Rightarrow> Some (Waits c, s1)) })"

text \<open>
  The wait: \<open>wait_event_interruptible_timeout\<close> returns a \<open>long\<close>, negative for a signal, 0 for a
  timeout, else the remaining time in jiffies, and the handler keeps it in the \<open>int\<close> \<open>rc\<close>.
\<close>

definition receive_rc :: "int \<Rightarrow> int" where
  "receive_rc left = wrap32 left"

lemma receive_rc_small [simp]: "0 \<le> left \<Longrightarrow> left < 2 ^ 31 \<Longrightarrow> receive_rc left = left"
  by (simp add: receive_rc_def wrap32_small)

text \<open>After the wait, with its result in \<open>rc\<close>. The result is an error number, or the message taken.\<close>

definition handle_msgreceive_take :: "int \<Rightarrow> addr \<Rightarrow> kstate \<Rightarrow> ((int + addr) \<times> kstate) option" where
  "handle_msgreceive_take wait_rc c s =
     (if wait_rc < 0 then Some (Inl (- ERESTARTSYS), s)
      else
        do { ch \<leftarrow> chans s c;
             taken \<leftarrow> channel_dequeue (msgs s) ch;
             (case taken of
                None \<Rightarrow> Some (Inl (- ETIMEDOUT), s)
              | Some (d, ch') \<Rightarrow>
                  do { m \<leftarrow> msgs s d;
                       Some (Inr d, s\<lparr>chans := (chans s)(c \<mapsto> ch'),
                                     msgs := (msgs s)(d \<mapsto> m\<lparr>mstate := QNX_STATE_RECEIVING\<rparr>)\<rparr>) }) })"

definition zero_info :: msg_info where
  "zero_info =
     \<lparr>nd = 0, info_pid = 0, info_tid = 0, info_chid = 0, scoid = 0, info_coid = 0, msglen = 0,
      srcmsglen = 0, dstmsglen = 0, priority = 0, flags = 0, reserved = 0\<rparr>"

text \<open>
  \<open>struct _pulse\<close> on an LP64 machine: 24 bytes, \<open>code\<close> at 4, \<open>value\<close> at 8, \<open>scoid\<close> at 16.
  The three stores stop at the first that fails; the result says whether all succeeded.
\<close>

definition sizeof_pulse :: nat where
  "sizeof_pulse = 24"

definition store_pulse :: "kenv \<Rightarrow> uaddr \<Rightarrow> qnx_io_msgsendpulse \<Rightarrow> bool \<times> uwrite list" where
  "store_pulse env base p =
     (if \<not> store_to_user env (base + 4) then (False, [])
      else if \<not> store_to_user env (base + 16) then (False, [Put8 (base + 4) (wrap8 (mp_code p))])
      else if \<not> store_to_user env (base + 8)
      then (False, [Put8 (base + 4) (wrap8 (mp_code p)), Put32 (base + 16) (mp_coid p)])
      else (True, [Put8 (base + 4) (wrap8 (mp_code p)), Put32 (base + 16) (mp_coid p),
                   Put32 (base + 8) (mp_value p)]))"

text \<open>
  Delivering a pulse: lines 288 to 319. A buffer shorter than the structure leaves the result
  of the wait in \<open>rc\<close>.
\<close>

definition deliver_pulse ::
  "kenv \<Rightarrow> int \<Rightarrow> iovec \<Rightarrow> qnx_io_msgsendpulse \<Rightarrow> msg_info \<Rightarrow> int \<times> uwrite list \<times> msg_info" where
  "deliver_pulse env wait_rc out p info =
     (let info' = info\<lparr>scoid := mp_coid p, info_coid := mp_coid p, msglen := 8, srcmsglen := 8,
                       dstmsglen := 0\<rparr>
      in if iov_len out \<ge> sizeof_pulse then
           (let (ok, ws) = store_pulse env (iov_base out) p
            in (if ok then 0 else - EFAULT, ws, info'))
         else (wait_rc, [], info'))"

text \<open>Delivering a message: lines 322 to 349, without the release of the object.\<close>

definition deliver_message ::
  "kenv \<Rightarrow> iovec \<Rightarrow> qnx_internal_msgsend \<Rightarrow> msg_info \<Rightarrow> int \<times> uwrite list \<times> msg_info" where
  "deliver_message env out m info =
     (let k = data_msg (data m);
          info' = info\<lparr>scoid := km_coid k, info_coid := km_coid k,
                       msglen := wrap32 (int (km_in_len k)), srcmsglen := wrap32 (int (km_in_len k)),
                       dstmsglen := wrap32 (int (iov_len (km_out k))),
                       flags := (if task m = None then QNX_FLAG_NOREPLY else 0)\<rparr>;
          n = min (km_in_len k) (iov_len out);
          bytes = take n (km_in_buf k)
      in if copy_to_user env (iov_base out) bytes
         then (rcvid m, [Bytes (iov_base out) bytes], info')
         else (- EFAULT, [], info'))"

text \<open>Failing a taken message: lines 363 to 371.\<close>

definition fail_message :: "int \<Rightarrow> addr \<Rightarrow> kstate \<Rightarrow> kstate option" where
  "fail_message rc d s =
     do { m \<leftarrow> msgs s d;
          t \<leftarrow> task m;
          Some (wake_up_process t
                  (s\<lparr>msgs := (msgs s)(d \<mapsto> m\<lparr>reply_base := None, reply_len := 0, status := rc,
                                              mstate := QNX_STATE_FINISHED\<rparr>)\<rparr>)) }"

text \<open>
  The rest of the handler, for the message at \<open>d\<close>; \<open>ua\<close> is the address of the argument
  structure. A pulse and a message without reply are freed here.
\<close>

definition handle_msgreceive_finish ::
  "kenv \<Rightarrow> uaddr \<Rightarrow> qnx_io_receive \<Rightarrow> int \<Rightarrow> addr \<Rightarrow> addr \<Rightarrow> addr \<Rightarrow> kstate \<Rightarrow>
     (int \<times> uwrite list \<times> kstate) option" where
  "handle_msgreceive_finish env ua io wait_rc e c d s =
     do { m \<leftarrow> msgs s d;
          ch \<leftarrow> chans s c;
          let info = zero_info\<lparr>info_pid := sender_pid m, info_chid := chid ch\<rparr>;
          let (rc, ws, info') =
            (if rcvid m = 0 then deliver_pulse env wait_rc (rcv_out io) (data_pulse (data m)) info
             else deliver_message env (rcv_out io) m info);
          let freed = (rcvid m = 0 \<or> task m = None);
          let s1 = (if freed then s\<lparr>msgs := (msgs s)(d := None)\<rparr> else s);
          let (rc', ws') =
            (if rc \<ge> 0 then
               (if store_to_user env ua then (rc, ws @ [Receive_info ua (io\<lparr>rcv_info := info'\<rparr>)])
                else (- EFAULT, ws))
             else (rc, ws));
          s2 \<leftarrow> (if freed then Some s1
                 else if rc' > 0 then qnx_process_entry_add_pending e d s1
                 else fail_message rc' d s1);
          s3 \<leftarrow> qnx_channel_release c s2;
          Some (rc', ws', s3) }"

definition handle_msgreceive ::
  "kenv \<Rightarrow> uaddr \<Rightarrow> qnx_io_receive option \<Rightarrow> addr \<Rightarrow> (kstate \<Rightarrow> kstate) \<Rightarrow> int \<Rightarrow> kstate \<Rightarrow>
     (int \<times> uwrite list \<times> kstate) option" where
  "handle_msgreceive env ua io e others left s =
     do { (r, s1) \<leftarrow> handle_msgreceive_enter io e s;
          (case r of
             Refused rc \<Rightarrow> Some (rc, [], s1)
           | Waits c \<Rightarrow>
               do { (taken, s2) \<leftarrow> handle_msgreceive_take (receive_rc left) c (others s1);
                    (case taken of
                       Inl rc \<Rightarrow> do { s3 \<leftarrow> qnx_channel_release c s2; Some (rc, [], s3) }
                     | Inr d \<Rightarrow> handle_msgreceive_finish env ua (the io) (receive_rc left) e c d s2) }) }"

section \<open>MsgReply and MsgError\<close>

text \<open>
  The reply buffer that \<open>handle_msgreply\<close> sets up: the result code, \<open>reply.iov_base\<close> and
  \<open>reply.iov_len\<close>. When the copy fails the buffer stays allocated with no byte initialised.
\<close>

definition reply_buffer :: "kenv \<Rightarrow> iovec \<Rightarrow> iovec \<Rightarrow> int \<times> byte list option \<times> nat" where
  "reply_buffer env out src =
     (if iov_base out \<noteq> 0 \<and> iov_len out > 0 \<and> iov_len src > 0 then
        (if kmalloc env A_reply (iov_len src) then
           (case copy_from_user env (iov_base src) (iov_len src) of
              Some bs \<Rightarrow> (0, Some bs, iov_len src)
            | None \<Rightarrow> (- EFAULT, Some [], 0))
         else (- ENOMEM, None, 0))
      else (0, None, 0))"

text \<open>\<open>handle_msgreply\<close> after the message was taken off the pending list.\<close>

definition handle_msgreply_finish :: "kenv \<Rightarrow> qnx_io_reply \<Rightarrow> addr \<Rightarrow> kstate \<Rightarrow> (int \<times> kstate) option" where
  "handle_msgreply_finish env io d s =
     do { m \<leftarrow> msgs s d;
          let (rc, buf, n) = reply_buffer env (km_out (data_msg (data m))) (rep_in io);
          t \<leftarrow> task m;
          Some (rc, wake_up_process t
                      (s\<lparr>msgs := (msgs s)(d \<mapsto> m\<lparr>reply_base := buf, reply_len := n,
                           status := (if rc < 0 then rc else rep_status io),
                           mstate := QNX_STATE_FINISHED\<rparr>)\<rparr>)) }"

definition handle_msgreply :: "kenv \<Rightarrow> addr \<Rightarrow> qnx_io_reply \<Rightarrow> kstate \<Rightarrow> (int \<times> kstate) option" where
  "handle_msgreply env e io s =
     do { (hit, s1) \<leftarrow> qnx_process_entry_release_pending e (rep_rcvid io) s;
          (case hit of
             None \<Rightarrow> Some (- ESRCH, s1)
           | Some d \<Rightarrow> handle_msgreply_finish env io d s1) }"

text \<open>The status of an error reply; the negation is \<open>int\<close> arithmetic.\<close>

definition error_status :: "int \<Rightarrow> int" where
  "error_status x = (if x < 0 then x else wrap32 (- x))"

definition handle_msgerror :: "addr \<Rightarrow> qnx_io_error_reply \<Rightarrow> kstate \<Rightarrow> (int \<times> kstate) option" where
  "handle_msgerror e io s =
     do { (hit, s1) \<leftarrow> qnx_process_entry_release_pending e (err_rcvid io) s;
          (case hit of
             None \<Rightarrow> Some (- ESRCH, s1)
           | Some d \<Rightarrow> do { s2 \<leftarrow> fail_message (error_status (err_error io)) d s1; Some (0, s2) }) }"

section \<open>MsgRead\<close>

text \<open>
  The number of bytes is an \<open>int\<close> computed from \<open>size_t\<close> values; a read beyond the buffer is
  a fault.
\<close>

definition read_message :: "kenv \<Rightarrow> qnx_io_read \<Rightarrow> kmsg \<Rightarrow> (int \<times> uwrite list) option" where
  "read_message env io k =
     (if rd_offset io \<ge> 0 \<and> to_size (rd_offset io) \<le> km_in_len k then
        (let off = to_size (rd_offset io);
             n = wrap32 (int (min (km_in_len k - off) (iov_len (rd_out io))));
             bytes = take (to_size n) (drop off (km_in_buf k))
         in if off + to_size n > length (km_in_buf k) then None
            else if copy_to_user env (iov_base (rd_out io)) bytes
            then Some (n, [Bytes (iov_base (rd_out io)) bytes])
            else Some (- EFAULT, []))
      else Some (- EINVAL, []))"

definition handle_msgread :: "kenv \<Rightarrow> addr \<Rightarrow> qnx_io_read \<Rightarrow> kstate \<Rightarrow> (int \<times> uwrite list) option" where
  "handle_msgread env e io s =
     do { pe \<leftarrow> procs s e;
          hit \<leftarrow> list_search (msgs s) (\<lambda>m. rcvid m = rd_rcvid io) (pending pe);
          (case hit of
             None \<Rightarrow> Some (- ESRCH, [])
           | Some d \<Rightarrow> do { m \<leftarrow> msgs s d; read_message env io (data_msg (data m)) }) }"

end
