(* ===== verification/Driver.thy ===== *)
theory Driver
  imports Receive
begin

text \<open>
  The device file of \<^verbatim>\<open>src/kernel/qnxcomm_driver.c\<close>: opening, closing and polling it, the
  dispatch of \<open>ioctl\<close> commands to the handlers, the setter of the module parameters, and
  loading and unloading the module.
\<close>

section \<open>Open and close\<close>

text \<open>
  \<open>rdwr\<close> is the test \<open>f->f_mode & O_RDWR\<close>, \<open>p\<close> the process id of the caller. The result of
  opening is the return code and the new \<open>f->private_data\<close>, null before.
\<close>

text \<open>
  Opening the device, in the two parts that another thread can come between, since the allocation
  may sleep: the test and the allocation, with the return code, and the new entry put on the list.
\<close>

definition open_check :: "kenv \<Rightarrow> pid_t \<Rightarrow> kstate \<Rightarrow> int option" where
  "open_check env p s =
     do { known \<leftarrow> qnx_driver_data_is_process_available p s;
          Some (if known then - ENOSPC else if \<not> kmalloc env A_entry 0 then - ENOMEM else 0) }"

definition open_add :: "kenv \<Rightarrow> pid_t \<Rightarrow> kstate \<Rightarrow> addr \<times> kstate" where
  "open_add env p s =
     (let (e, s1) = alloc s; s2 = store_proc e (qnx_process_entry_init env p s1) s1
      in (e, qnx_driver_data_add_process e s2))"

text \<open>The whole call, when no other thread of the process comes between the two parts.\<close>

definition qnxcomm_open ::
  "kenv \<Rightarrow> bool \<Rightarrow> pid_t \<Rightarrow> kstate \<Rightarrow> (int \<times> addr option \<times> kstate) option" where
  "qnxcomm_open env rdwr p s =
     (if rdwr then
        do { rc \<leftarrow> open_check env p s;
             if rc < 0 then Some (rc, None, s)
             else (let (e, s1) = open_add env p s in Some (0, Some e, s1)) }
      else
        do { (entry, s1) \<leftarrow> qnx_driver_data_find_process p s; Some (0, entry, s1) })"

text \<open>Closing \<open>f\<close>, whose \<open>private_data\<close> is \<open>pd\<close>; the second result is the new \<open>private_data\<close>.\<close>

definition qnxcomm_close ::
  "bool \<Rightarrow> file_t \<Rightarrow> addr option \<Rightarrow> kstate \<Rightarrow> (int \<times> addr option \<times> kstate) option" where
  "qnxcomm_close rdwr f pd s =
     (case pd of
        None \<Rightarrow> Some (0, None, s)
      | Some e \<Rightarrow>
          if rdwr then
            do { pe \<leftarrow> procs s e;
                 s1 \<leftarrow> qnx_driver_data_remove (pid pe) s;
                 s2 \<leftarrow> qnx_process_entry_release e s1;
                 Some (0, None, s2) }
          else
            do { (rc, s1) \<leftarrow> qnx_process_entry_remove_pollfd e f s;
                 s2 \<leftarrow> qnx_process_entry_release e s1;
                 Some (rc, Some e, s2) })"

section \<open>Poll\<close>

definition POLLIN :: int where "POLLIN = 1"
definition POLLHUP :: int where "POLLHUP = 16"
definition POLLRDNORM :: int where "POLLRDNORM = 64"

definition qnxcomm_poll :: "file_t \<Rightarrow> addr option \<Rightarrow> kstate \<Rightarrow> (int \<times> kstate) option" where
  "qnxcomm_poll f pd s =
     do { e \<leftarrow> pd;
          (chnl, s1) \<leftarrow> qnx_process_entry_find_channel_from_file e f s;
          (case chnl of
             None \<Rightarrow> Some (POLLHUP, s1)
           | Some c \<Rightarrow>
               do { ch \<leftarrow> chans s1 c;
                    Some (if num_waiting ch > 0 then POLLIN + POLLRDNORM else 0, s1) }) }"

section \<open>Ioctl\<close>

datatype qnx_cmd =
    QNX_IO_CHANNELCREATE | QNX_IO_CHANNELDESTROY | QNX_IO_CONNECTATTACH | QNX_IO_CONNECTDETACH
  | QNX_IO_MSGSEND | QNX_IO_MSGSENDPULSE | QNX_IO_MSGRECEIVE | QNX_IO_MSGREPLY | QNX_IO_MSGERROR
  | QNX_IO_MSGREAD | QNX_IO_MSGSENDV | QNX_IO_REGISTER_POLLFD | QNX_IO_MSGSENDNOREPLY
  | QNX_IO_MSGSENDNOREPLYV | Other_cmd nat

text \<open>The structure that \<open>copy_from_user\<close> finds at the argument, \<open>None\<close> when it fails.\<close>

record uargs =
  read_attach :: "uaddr \<Rightarrow> qnx_io_attach option"
  read_msgsend :: "uaddr \<Rightarrow> qnx_io_msgsend option"
  read_msgsendv :: "uaddr \<Rightarrow> qnx_io_msgsendv option"
  read_pulse :: "uaddr \<Rightarrow> qnx_io_msgsendpulse option"
  read_receive :: "uaddr \<Rightarrow> qnx_io_receive option"
  read_reply :: "uaddr \<Rightarrow> qnx_io_reply option"
  read_error :: "uaddr \<Rightarrow> qnx_io_error_reply option"
  read_read :: "uaddr \<Rightarrow> qnx_io_read option"

text \<open>What happens while the call sleeps, for the handlers that do.\<close>

record sched =
  others :: "kstate \<Rightarrow> kstate"
  ms_left :: nat
  sig_pending :: bool
  wakes :: "(bool \<times> (kstate \<Rightarrow> kstate)) list"
  wait_left :: int

text \<open>
  A call by the task \<open>t\<close> of process \<open>p\<close> on the file \<open>f\<close>. The result code is \<open>None\<close> when the
  thread has not left a busy loop.
\<close>

type_synonym ioctl_result = "(int option \<times> uwrite list \<times> kstate) option"

definition no_write :: "(int \<times> kstate) option \<Rightarrow> ioctl_result" where
  "no_write r = do { (rc, s) \<leftarrow> r; Some (Some rc, [], s) }"

definition ioctl_dispatch ::
  "kenv \<Rightarrow> uargs \<Rightarrow> sched \<Rightarrow> tid \<Rightarrow> file_t \<Rightarrow> addr \<Rightarrow> qnx_cmd \<Rightarrow> nat \<Rightarrow> kstate \<Rightarrow> ioctl_result" where
  "ioctl_dispatch env ua sc t f e cmd arg s =
     (case cmd of
        QNX_IO_CHANNELCREATE \<Rightarrow> no_write (qnx_process_entry_add_channel env e s)
      | QNX_IO_CHANNELDESTROY \<Rightarrow> no_write (qnx_process_entry_remove_channel e (wrap32 (int arg)) s)
      | QNX_IO_CONNECTDETACH \<Rightarrow> no_write (qnx_process_entry_remove_connection e (wrap32 (int arg)) s)
      | QNX_IO_CONNECTATTACH \<Rightarrow>
          (case read_attach ua arg of
             None \<Rightarrow> Some (Some (- EFAULT), [], s)
           | Some att \<Rightarrow> no_write (qnx_process_entry_add_connection env e att s))
      | QNX_IO_MSGSEND \<Rightarrow>
          handle_msgsend env (read_msgsend ua arg) t e (others sc) (ms_left sc) (sig_pending sc) s
      | QNX_IO_MSGSENDNOREPLY \<Rightarrow>
          do { (rc, s1) \<leftarrow> handle_msgsend_no_reply env (read_msgsend ua arg) e (wakes sc) s; Some (rc, [], s1) }
      | QNX_IO_MSGSENDPULSE \<Rightarrow> no_write (handle_msgsendpulse env (read_pulse ua arg) e s)
      | QNX_IO_MSGRECEIVE \<Rightarrow>
          do { (rc, ws, s1) \<leftarrow> handle_msgreceive env arg (read_receive ua arg) e (others sc) (wait_left sc) s;
               Some (Some rc, ws, s1) }
      | QNX_IO_MSGREPLY \<Rightarrow>
          (case read_reply ua arg of
             None \<Rightarrow> Some (Some (- EFAULT), [], s)
           | Some io \<Rightarrow> no_write (handle_msgreply env e io s))
      | QNX_IO_MSGERROR \<Rightarrow>
          (case read_error ua arg of
             None \<Rightarrow> Some (Some (- EFAULT), [], s)
           | Some io \<Rightarrow> no_write (handle_msgerror e io s))
      | QNX_IO_MSGREAD \<Rightarrow>
          (case read_read ua arg of
             None \<Rightarrow> Some (Some (- EFAULT), [], s)
           | Some io \<Rightarrow> do { (rc, ws) \<leftarrow> handle_msgread env e io s; Some (Some rc, ws, s) })
      | QNX_IO_MSGSENDV \<Rightarrow>
          handle_msgsendv env (read_msgsendv ua arg) t e (others sc) (ms_left sc) (sig_pending sc) s
      | QNX_IO_MSGSENDNOREPLYV \<Rightarrow>
          do { (rc, s1) \<leftarrow> handle_msgsend_noreplyv env (read_msgsendv ua arg) e (wakes sc) s; Some (rc, [], s1) }
      | QNX_IO_REGISTER_POLLFD \<Rightarrow> no_write (qnx_process_entry_add_pollfd env e f (wrap32 (int arg)) s)
      | Other_cmd _ \<Rightarrow> Some (Some (- EINVAL), [], s))"

definition qnxcomm_ioctl ::
  "kenv \<Rightarrow> uargs \<Rightarrow> sched \<Rightarrow> tid \<Rightarrow> pid_t \<Rightarrow> file_t \<Rightarrow> addr option \<Rightarrow> qnx_cmd \<Rightarrow> nat \<Rightarrow> kstate \<Rightarrow> ioctl_result" where
  "qnxcomm_ioctl env ua sc t p f pd cmd arg s =
     (if arg = 0 then Some (Some (- EINVAL), [], s)
      else
        (case pd of
           None \<Rightarrow> Some (Some (- ENOTTY), [], s)
         | Some e \<Rightarrow>
             do { pe \<leftarrow> procs s e;
                  if p \<noteq> pid pe then Some (Some (- ENOSPC), [], s)
                  else ioctl_dispatch env ua sc t f e cmd arg s }))"

section \<open>Module parameters\<close>

text \<open>\<open>parsed\<close> is what \<open>kstrtoint\<close> reads; the result is the return code and the new value.\<close>

definition set_max_connetions :: "int option \<Rightarrow> int \<Rightarrow> int \<times> int" where
  "set_max_connetions parsed cur =
     (case parsed of
        Some m \<Rightarrow> if m > cur then (0, m) else (- EINVAL, cur)
      | None \<Rightarrow> (- EINVAL, cur))"

section \<open>Loading and unloading\<close>

text \<open>
  What \<open>qnxcomm_init\<close> holds: the device number region, the references to the \<open>kobject\<close> in
  the \<open>struct cdev\<close>, whether it is live in the system, and the rest of the registrations.
  \<open>cdev_alloc\<close> creates the object with one reference, \<open>cdev_del\<close> takes it out of the system
  and puts one reference. Putting a reference that is not held is a fault.
\<close>

record module_res =
  region :: bool
  kobj_refs :: nat
  cdev_live :: bool
  proc_dir :: bool
  dev_class :: bool
  list_ready :: bool

definition no_res :: module_res where
  "no_res = \<lparr>region = False, kobj_refs = 0, cdev_live = False, proc_dir = False, dev_class = False, list_ready = False\<rparr>"

definition kobject_put :: "module_res \<Rightarrow> module_res option" where
  "kobject_put r = (if kobj_refs r = 0 then None else Some (r\<lparr>kobj_refs := kobj_refs r - 1\<rparr>))"

definition cdev_del :: "module_res \<Rightarrow> module_res option" where
  "cdev_del r = kobject_put (r\<lparr>cdev_live := False\<rparr>)"

text \<open>The labels \<open>free_region\<close>, \<open>free_cdev\<close> and \<open>del_inst\<close>, each falling through to the next.\<close>

definition init_free_region :: "module_res \<Rightarrow> (int \<times> module_res) option" where
  "init_free_region r = Some (- EIO, r\<lparr>region := False\<rparr>)"

definition init_free_cdev :: "module_res \<Rightarrow> (int \<times> module_res) option" where
  "init_free_cdev r = do { r1 \<leftarrow> kobject_put r; init_free_region r1 }"

definition init_del_inst :: "module_res \<Rightarrow> (int \<times> module_res) option" where
  "init_del_inst r = do { r1 \<leftarrow> cdev_del r; init_free_cdev r1 }"

text \<open>The arguments say which of the four checked calls succeed.\<close>

definition qnxcomm_init :: "bool \<Rightarrow> bool \<Rightarrow> bool \<Rightarrow> bool \<Rightarrow> (int \<times> module_res) option" where
  "qnxcomm_init region_ok alloc_ok add_ok proc_ok =
     (if \<not> region_ok then Some (- EIO, no_res)
      else
        (let r = no_res\<lparr>region := True\<rparr> in
         if \<not> alloc_ok then init_free_region r
         else
           (let r1 = r\<lparr>kobj_refs := 1\<rparr> in
            if \<not> add_ok then init_free_cdev r1
            else
              (let r2 = r1\<lparr>cdev_live := True\<rparr> in
               if \<not> proc_ok then init_del_inst r2
               else Some (0, r2\<lparr>proc_dir := True, dev_class := True, list_ready := True\<rparr>)))))"

definition qnxcomm_cleanup :: "module_res \<Rightarrow> module_res option" where
  "qnxcomm_cleanup r =
     do { r1 \<leftarrow> cdev_del (r\<lparr>proc_dir := False, dev_class := False\<rparr>); Some (r1\<lparr>region := False\<rparr>) }"

end
