(* ===== verification/Proc_Fs.thy ===== *)
theory Proc_Fs
  imports Driver
begin

text \<open>
  The files under \<^verbatim>\<open>/proc/qnxcomm\<close>, \<^verbatim>\<open>src/kernel/proc.c\<close>: the text of the connections, the
  channels and the blocked tasks, the choice of the text by the name of the file, and the
  creation and removal of the files. The buffer of a \<open>seq_file\<close> is a string that grows as
  needed (\<open>seq_read\<close> repeats the call with a larger buffer); the text of a process is
  written while the list is traversed, as in the code.
\<close>

section \<open>Formatted output\<close>

definition nl :: char where
  "nl = CHR 0x0A"

fun show_nat :: "nat \<Rightarrow> string" where
  "show_nat n = (if n < 10 then [char_of (48 + n)] else show_nat (n div 10) @ [char_of (48 + n mod 10)])"

definition show_int :: "int \<Rightarrow> string" where
  "show_int i = (if i < 0 then CHR ''-'' # show_nat (nat (- i)) else show_nat (nat i))"

text \<open>The part of the \<open>printf\<close> language that the module uses: plain characters and \<open>%d\<close>.\<close>

fun format :: "string \<Rightarrow> int list \<Rightarrow> string" where
  "format [] xs = []"
| "format [c] xs = [c]"
| "format (c # c' # cs) xs =
     (if c = CHR ''%'' \<and> c' = CHR ''d'' then (case xs of [] \<Rightarrow> [] | x # xs' \<Rightarrow> show_int x @ format cs xs')
      else c # format (c' # cs) xs)"

definition seq_printf :: "string \<Rightarrow> string \<Rightarrow> int list \<Rightarrow> string" where
  "seq_printf buf fmt xs = buf @ format fmt xs"

declare show_nat.simps [simp del]

section \<open>Connections\<close>

definition print_connection :: "int \<Rightarrow> qnx_connection \<Rightarrow> string \<Rightarrow> string" where
  "print_connection coid c buf =
     seq_printf buf (''   %d => pid=%d, chid=%d'' @ [nl]) [coid, conn_pid c, conn_chid c]"

text \<open>The loop over the processes; the accumulator is \<open>have_output\<close> and the buffer.\<close>

fun show_connections_loop :: "addr list \<Rightarrow> kstate \<Rightarrow> bool \<times> string \<Rightarrow> (bool \<times> string) option" where
  "show_connections_loop [] s acc = Some acc"
| "show_connections_loop (e # es) s (have_output, buf) =
     do { pe \<leftarrow> procs s e;
          if qnx_connection_table_is_empty (connections pe) = 0 then
            do { (xs, n) \<leftarrow> qnx_connection_table_for_each (connections pe);
                 let buf1 = seq_printf buf (''pid=%d:'' @ [nl]) [pid pe];
                 let buf2 = fold (\<lambda>(coid, c). print_connection coid c) xs buf1;
                 show_connections_loop es s (True, seq_printf buf2 [nl] []) }
          else show_connections_loop es s (have_output, buf) }"

definition no_processes :: string where
  "no_processes = ''<no processes attached>'' @ [nl]"

definition qnx_show_connections :: "kstate \<Rightarrow> (int \<times> string) option" where
  "qnx_show_connections s =
     do { (have_output, buf) \<leftarrow> show_connections_loop (process_entries s) s (False, []);
          Some (0, if have_output then buf else seq_printf buf no_processes []) }"

section \<open>Blocked tasks\<close>

text \<open>The messages on the queue of one channel; those without a task are skipped.\<close>

fun show_waiting_loop ::
  "(tid \<Rightarrow> int) \<Rightarrow> pid_t \<Rightarrow> int \<Rightarrow> addr list \<Rightarrow> kstate \<Rightarrow> bool \<times> string \<Rightarrow> (bool \<times> string) option" where
  "show_waiting_loop nr p i [] s acc = Some acc"
| "show_waiting_loop nr p i (d # ds) s (have_output, buf) =
     do { m \<leftarrow> msgs s d;
          (case task m of
             None \<Rightarrow> show_waiting_loop nr p i ds s (have_output, buf)
           | Some t \<Rightarrow>
               show_waiting_loop nr p i ds s
                 (True, seq_printf buf (''tid=%d (coid=%d) => pid=%d, chid=%d [SEND]'' @ [nl])
                          [nr t, km_coid (data_msg (data m)), p, i])) }"

fun show_queues_loop ::
  "(tid \<Rightarrow> int) \<Rightarrow> pid_t \<Rightarrow> addr list \<Rightarrow> kstate \<Rightarrow> bool \<times> string \<Rightarrow> (bool \<times> string) option" where
  "show_queues_loop nr p [] s acc = Some acc"
| "show_queues_loop nr p (c # cs) s acc =
     do { ch \<leftarrow> chans s c;
          acc1 \<leftarrow> show_waiting_loop nr p (chid ch) (waiting ch) s acc;
          show_queues_loop nr p cs s acc1 }"

text \<open>The pending messages; the task is followed without a test.\<close>

fun show_pending_loop ::
  "(tid \<Rightarrow> int) \<Rightarrow> pid_t \<Rightarrow> addr list \<Rightarrow> kstate \<Rightarrow> bool \<times> string \<Rightarrow> (bool \<times> string) option" where
  "show_pending_loop nr p [] s acc = Some acc"
| "show_pending_loop nr p (d # ds) s (have_output, buf) =
     do { m \<leftarrow> msgs s d;
          t \<leftarrow> task m;
          show_pending_loop nr p ds s
            (True, seq_printf buf (''tid=%d (coid=%d) => pid=%d, chid=%d [REPLY]'' @ [nl])
                     [nr t, km_coid (data_msg (data m)), p, receiver_chid m]) }"

fun show_blocked_loop ::
  "(tid \<Rightarrow> int) \<Rightarrow> addr list \<Rightarrow> kstate \<Rightarrow> bool \<times> string \<Rightarrow> (bool \<times> string) option" where
  "show_blocked_loop nr [] s acc = Some acc"
| "show_blocked_loop nr (e # es) s acc =
     do { pe \<leftarrow> procs s e;
          acc1 \<leftarrow> show_queues_loop nr (pid pe) (channels pe) s acc;
          acc2 \<leftarrow> show_pending_loop nr (pid pe) (pending pe) s acc1;
          show_blocked_loop nr es s acc2 }"

text \<open>\<open>nr\<close> is \<open>current_get_tid_nr\<close>, the number of a task.\<close>

definition qnx_show_blocked_tasks :: "(tid \<Rightarrow> int) \<Rightarrow> kstate \<Rightarrow> (int \<times> string) option" where
  "qnx_show_blocked_tasks nr s =
     do { (have_output, buf) \<leftarrow> show_blocked_loop nr (process_entries s) s (False, []);
          Some (0, if have_output then buf else seq_printf buf no_processes []) }"

section \<open>Channels\<close>

fun show_chids_loop :: "addr list \<Rightarrow> kstate \<Rightarrow> string \<Rightarrow> string option" where
  "show_chids_loop [] s buf = Some buf"
| "show_chids_loop (c # cs) s buf =
     do { ch \<leftarrow> chans s c; show_chids_loop cs s (seq_printf buf ''%d '' [chid ch]) }"

fun show_channels_loop :: "addr list \<Rightarrow> kstate \<Rightarrow> bool \<times> string \<Rightarrow> (bool \<times> string) option" where
  "show_channels_loop [] s acc = Some acc"
| "show_channels_loop (e # es) s (have_output, buf) =
     do { pe \<leftarrow> procs s e;
          if channels pe \<noteq> [] then
            do { buf1 \<leftarrow> show_chids_loop (channels pe) s (seq_printf buf ''pid=%d: '' [pid pe]);
                 show_channels_loop es s (True, seq_printf buf1 [nl] []) }
          else show_channels_loop es s (have_output, buf) }"

definition qnx_show_channels :: "kstate \<Rightarrow> (int \<times> string) option" where
  "qnx_show_channels s =
     do { (have_output, buf) \<leftarrow> show_channels_loop (process_entries s) s (False, []);
          Some (0, if have_output then buf else seq_printf buf no_processes []) }"

section \<open>The files\<close>

definition QNX_PROC_CONNECTIONS :: string where "QNX_PROC_CONNECTIONS = ''connections''"
definition QNX_PROC_CHANNELS :: string where "QNX_PROC_CHANNELS = ''channels''"
definition QNX_PROC_BLOCKED_TASKS :: string where "QNX_PROC_BLOCKED_TASKS = ''blocked''"

text \<open>\<open>strncmp(a, b, n) == 0\<close> for strings without a null character inside.\<close>

fun strncmp_zero :: "string \<Rightarrow> string \<Rightarrow> nat \<Rightarrow> bool" where
  "strncmp_zero a b 0 = True"
| "strncmp_zero [] b (Suc n) = (b = [])"
| "strncmp_zero (x # xs) [] (Suc n) = False"
| "strncmp_zero (x # xs) (y # ys) (Suc n) = (x = y \<and> strncmp_zero xs ys n)"

datatype proc_view = Show_connections | Show_channels | Show_blocked

text \<open>
  Opening the file called \<open>name\<close>: the result and the function that \<open>single_open\<close> installs;
  \<open>ok\<close> says whether it finds memory. A file with another name is opened with nothing installed.
\<close>

definition single_open :: "bool \<Rightarrow> proc_view \<Rightarrow> int \<times> proc_view option" where
  "single_open ok v = (if ok then (0, Some v) else (- ENOMEM, None))"

definition qnx_open :: "string \<Rightarrow> bool \<Rightarrow> int \<times> proc_view option" where
  "qnx_open name ok =
     (if strncmp_zero QNX_PROC_CONNECTIONS name 2 then single_open ok Show_connections
      else if strncmp_zero QNX_PROC_CHANNELS name 2 then single_open ok Show_channels
      else if strncmp_zero QNX_PROC_BLOCKED_TASKS name 2 then single_open ok Show_blocked
      else (0, None))"

fun seq_show :: "(tid \<Rightarrow> int) \<Rightarrow> proc_view \<Rightarrow> kstate \<Rightarrow> (int \<times> string) option" where
  "seq_show nr Show_connections s = qnx_show_connections s"
| "seq_show nr Show_channels s = qnx_show_channels s"
| "seq_show nr Show_blocked s = qnx_show_blocked_tasks nr s"

text \<open>
  The directory \<^verbatim>\<open>/proc/qnxcomm\<close> and the names in it, \<open>None\<close> when it does not exist. The
  arguments say which of the calls succeed; the conjunction stops at the first that fails.
\<close>

type_synonym proc_tree = "string list option"

definition proc_create_data :: "bool \<Rightarrow> string \<Rightarrow> proc_tree \<Rightarrow> bool \<times> proc_tree" where
  "proc_create_data ok name t = (ok, if ok then map_option (\<lambda>fs. fs @ [name]) t else t)"

definition remove_proc_subtree :: "proc_tree \<Rightarrow> proc_tree" where
  "remove_proc_subtree t = None"

definition qnx_proc_init :: "bool \<Rightarrow> bool \<Rightarrow> bool \<Rightarrow> bool \<Rightarrow> int \<times> proc_tree" where
  "qnx_proc_init mkdir_ok ok1 ok2 ok3 =
     (let t = (if mkdir_ok then Some [] else None);
          (a, t1) = (if mkdir_ok then proc_create_data ok1 QNX_PROC_CONNECTIONS t else (False, t));
          (b, t2) = (if a then proc_create_data ok2 QNX_PROC_CHANNELS t1 else (False, t1));
          (c, t3) = (if b then proc_create_data ok3 QNX_PROC_BLOCKED_TASKS t2 else (False, t2))
      in if c then (1, t3) else (0, remove_proc_subtree t3))"

definition qnx_proc_destroy :: "proc_tree \<Rightarrow> proc_tree" where
  "qnx_proc_destroy t = remove_proc_subtree t"

end
