(* ===== verification/Heap_Inv.thy ===== *)
theory Heap_Inv
  imports Process_Entry
begin

text \<open>
  The invariant of the kernel state and that the operations of processes and channels keep
  it without a fault. The ghost argument \<open>H\<close> counts, for every channel, the references held
  outside the lists of the processes: by a thread that is inside a handler or blocked in it.
\<close>

section \<open>The invariant\<close>

type_synonym held = "addr \<Rightarrow> nat"

text \<open>One reference more to \<open>c\<close>.\<close>

definition holding :: "addr \<Rightarrow> held \<Rightarrow> held" where
  "holding c H = H(c := Suc (H c))"

lemma holding_simps [simp]:
  "holding c H c = Suc (H c)" "(holding c H)(c := H c) = H" "x \<noteq> c \<Longrightarrow> holding c H x = H x"
  by (simp_all add: holding_def)

text \<open>
  The list of processes: alive, with a positive reference count, without repetition, and at
  most one entry per process id.
\<close>

definition list_inv :: "addr list \<Rightarrow> (addr \<Rightarrow> qnx_process_entry option) \<Rightarrow> bool" where
  "list_inv es ps \<longleftrightarrow>
     distinct es \<and> set es \<subseteq> dom ps \<and> (\<forall>e \<in> set es. \<forall>pe. ps e = Some pe \<longrightarrow> 0 < pe_refcnt pe) \<and>
     (\<forall>e e' pe pe'. e \<in> set es \<and> e' \<in> set es \<and> ps e = Some pe \<and> ps e' = Some pe' \<and> pid pe = pid pe' \<longrightarrow> e = e')"

text \<open>
  One process entry: its channels are alive, its connection table is well formed, and its
  pending messages are alive, have a waiting task and are marked as pending.
\<close>

definition proc_inv ::
  "(addr \<Rightarrow> qnx_channel option) \<Rightarrow> (addr \<Rightarrow> qnx_internal_msgsend option) \<Rightarrow> qnx_process_entry \<Rightarrow> bool" where
  "proc_inv cs ms pe \<longleftrightarrow>
     distinct (channels pe) \<and> set (channels pe) \<subseteq> dom cs \<and>
     wf_table (connections pe) \<and> distinct (pending pe) \<and>
     (\<forall>d \<in> set (pending pe). \<exists>m. ms d = Some m \<and> task m \<noteq> None \<and> mstate m = QNX_STATE_PENDING)"

definition procs_inv ::
  "(addr \<Rightarrow> qnx_process_entry option) \<Rightarrow> (addr \<Rightarrow> qnx_channel option) \<Rightarrow>
     (addr \<Rightarrow> qnx_internal_msgsend option) \<Rightarrow> bool" where
  "procs_inv ps cs ms \<longleftrightarrow>
     (\<forall>e pe. ps e = Some pe \<longrightarrow> proc_inv cs ms pe) \<and>
     (\<forall>e e' pe pe'. ps e = Some pe \<and> ps e' = Some pe' \<and> e \<noteq> e' \<longrightarrow>
        set (channels pe) \<inter> set (channels pe') = {} \<and> set (pending pe) \<inter> set (pending pe') = {})"

text \<open>
  Reference counts: a channel's count is the reference of the process that lists it, if any,
  and the references held by threads.
\<close>

definition owned :: "(addr \<Rightarrow> qnx_process_entry option) \<Rightarrow> addr \<Rightarrow> bool" where
  "owned ps c \<longleftrightarrow> (\<exists>e pe. ps e = Some pe \<and> c \<in> set (channels pe))"

definition refs :: "held \<Rightarrow> (addr \<Rightarrow> qnx_process_entry option) \<Rightarrow> addr \<Rightarrow> nat" where
  "refs H ps c = (if owned ps c then 1 else 0) + H c"

definition refs_inv ::
  "held \<Rightarrow> (addr \<Rightarrow> qnx_process_entry option) \<Rightarrow> (addr \<Rightarrow> qnx_channel option) \<Rightarrow> bool" where
  "refs_inv H ps cs \<longleftrightarrow>
     (\<forall>c ch. cs c = Some ch \<longrightarrow> ch_refcnt ch = refs H ps c \<and> 0 < refs H ps c) \<and>
     (\<forall>c. 0 < H c \<longrightarrow> c \<in> dom cs)"

text \<open>The queues: the channel invariant, messages not yet taken, no message in two queues.\<close>

definition queue_inv ::
  "(addr \<Rightarrow> qnx_channel option) \<Rightarrow> (addr \<Rightarrow> qnx_internal_msgsend option) \<Rightarrow> nat \<Rightarrow> bool" where
  "queue_inv cs ms lim \<longleftrightarrow> lim < 2 ^ 31 \<and>
     (\<forall>c ch. cs c = Some ch \<longrightarrow> chan_inv ms lim ch \<and>
        (\<forall>d \<in> set (waiting ch). \<forall>m. ms d = Some m \<longrightarrow> mstate m = QNX_STATE_INITIAL)) \<and>
     (\<forall>c c' ch ch'. cs c = Some ch \<and> cs c' = Some ch' \<and> c \<noteq> c' \<longrightarrow> set (waiting ch) \<inter> set (waiting ch') = {})"

text \<open>Channel ids are positive and name one channel.\<close>

definition ids_inv :: "(addr \<Rightarrow> qnx_channel option) \<Rightarrow> int \<Rightarrow> bool" where
  "ids_inv cs n \<longleftrightarrow>
     0 \<le> n \<and> (\<forall>c ch. cs c = Some ch \<longrightarrow> 0 < chid ch \<and> chid ch \<le> n) \<and>
     (\<forall>c c' ch ch'. cs c = Some ch \<and> cs c' = Some ch' \<and> chid ch = chid ch' \<longrightarrow> c = c')"

text \<open>Messages are well formed and a receive id other than 0 names one message.\<close>

definition msgs_inv :: "(addr \<Rightarrow> qnx_internal_msgsend option) \<Rightarrow> int \<Rightarrow> bool" where
  "msgs_inv ms n \<longleftrightarrow>
     0 \<le> n \<and> (\<forall>d m. ms d = Some m \<longrightarrow> payload_ok m \<and> 0 \<le> rcvid m \<and> rcvid m \<le> n) \<and>
     (\<forall>d d' m m'. ms d = Some m \<and> ms d' = Some m' \<and> rcvid m = rcvid m' \<and> rcvid m \<noteq> 0 \<longrightarrow> d = d')"

definition fresh_inv :: "kstate \<Rightarrow> bool" where
  "fresh_inv s \<longleftrightarrow> (\<forall>a \<ge> next_addr s. procs s a = None \<and> chans s a = None \<and> msgs s a = None)"

text \<open>The limit on connections is an \<open>int\<close> that starts at 256 and is never lowered.\<close>

definition params_inv :: "int \<Rightarrow> bool" where
  "params_inv maxc \<longleftrightarrow> 0 \<le> maxc \<and> maxc < 2 ^ 31"

definition kinv :: "held \<Rightarrow> kstate \<Rightarrow> bool" where
  "kinv H s \<longleftrightarrow>
     list_inv (process_entries s) (procs s) \<and> procs_inv (procs s) (chans s) (msgs s) \<and>
     refs_inv H (procs s) (chans s) \<and> queue_inv (chans s) (msgs s) (qnx_max_noreply_msg_num s) \<and>
     ids_inv (chans s) (gbl_next_channel_id s) \<and> msgs_inv (msgs s) (gbl_next_rcvid s) \<and> fresh_inv s \<and>
     params_inv (qnx_max_connections_per_process s)"

lemma kinvI:
  assumes "list_inv (process_entries s) (procs s)" and "procs_inv (procs s) (chans s) (msgs s)"
    and "refs_inv H (procs s) (chans s)" and "queue_inv (chans s) (msgs s) (qnx_max_noreply_msg_num s)"
    and "ids_inv (chans s) (gbl_next_channel_id s)" and "msgs_inv (msgs s) (gbl_next_rcvid s)"
    and "fresh_inv s" and "params_inv (qnx_max_connections_per_process s)"
  shows "kinv H s"
  using assms by (simp add: kinv_def)

lemma kinvD:
  assumes "kinv H s"
  shows "list_inv (process_entries s) (procs s)" and "procs_inv (procs s) (chans s) (msgs s)"
    and "refs_inv H (procs s) (chans s)" and "queue_inv (chans s) (msgs s) (qnx_max_noreply_msg_num s)"
    and "ids_inv (chans s) (gbl_next_channel_id s)" and "msgs_inv (msgs s) (gbl_next_rcvid s)"
    and "fresh_inv s" and "params_inv (qnx_max_connections_per_process s)"
  using assms by (simp_all add: kinv_def)

lemma kinv_init: "kinv (\<lambda>_. 0) init_kstate"
  by (simp add: kinv_def init_kstate_def list_inv_def procs_inv_def refs_inv_def queue_inv_def ids_inv_def
      msgs_inv_def fresh_inv_def params_inv_def)

lemma payload_ok_upd [simp]:
  "payload_ok (m\<lparr>status := x\<rparr>) \<longleftrightarrow> payload_ok m" "payload_ok (m\<lparr>mstate := st\<rparr>) \<longleftrightarrow> payload_ok m"
  "payload_ok (m\<lparr>receiver_chid := x\<rparr>) \<longleftrightarrow> payload_ok m" "payload_ok (m\<lparr>receiver_pid := x\<rparr>) \<longleftrightarrow> payload_ok m"
  by (simp_all add: payload_ok_def split: payload.split)

section \<open>Facts read off the invariant\<close>

lemma kinv_proc: "kinv H s \<Longrightarrow> procs s e = Some pe \<Longrightarrow> proc_inv (chans s) (msgs s) pe"
  by (auto dest!: kinvD(2) simp: procs_inv_def)

lemma kinv_msg: "kinv H s \<Longrightarrow> msgs s d = Some m \<Longrightarrow> payload_ok m \<and> 0 \<le> rcvid m \<and> rcvid m \<le> gbl_next_rcvid s"
  by (auto dest!: kinvD(6) simp: msgs_inv_def)

lemma kinv_chan: "kinv H s \<Longrightarrow> chans s c = Some ch \<Longrightarrow> chan_inv (msgs s) (qnx_max_noreply_msg_num s) ch"
  by (auto dest!: kinvD(4) simp: queue_inv_def)

lemma kinv_held: "kinv H s \<Longrightarrow> 0 < H c \<Longrightarrow> \<exists>ch. chans s c = Some ch"
  by (drule kinvD(3)) (force simp: refs_inv_def)

lemma kinv_waiting_msg:
  "kinv H s \<Longrightarrow> chans s c = Some ch \<Longrightarrow> d \<in> set (waiting ch) \<Longrightarrow>
     \<exists>m. msgs s d = Some m \<and> mstate m = QNX_STATE_INITIAL"
  by (frule kinv_chan) (auto dest!: kinvD(4) simp: queue_inv_def chan_inv_def)

lemma kinv_pending_msg:
  "kinv H s \<Longrightarrow> procs s e = Some pe \<Longrightarrow> d \<in> set (pending pe) \<Longrightarrow>
     \<exists>m. msgs s d = Some m \<and> task m \<noteq> None \<and> mstate m = QNX_STATE_PENDING"
  by (frule (1) kinv_proc) (auto simp: proc_inv_def)

lemma kinv_entry_alive: "kinv H s \<Longrightarrow> e \<in> set (process_entries s) \<Longrightarrow> \<exists>pe. procs s e = Some pe"
  by (auto dest!: kinvD(1) simp: list_inv_def)

section \<open>Updates that keep the invariant\<close>

text \<open>Taking the next address, drawing ids and scheduling do not concern the invariant.\<close>

lemma kinv_alloc: "kinv H s \<Longrightarrow> alloc s = (a, s') \<Longrightarrow> kinv H s' \<and> a = next_addr s \<and> a < next_addr s'"
  by (auto simp: kinv_def alloc_def fresh_inv_def)

lemma kinv_wake [simp]: "kinv H (wake_up_process t s) \<longleftrightarrow> kinv H s"
  by (simp add: kinv_def wake_up_process_def fresh_inv_def)

lemma kinv_interruptible [simp]: "kinv H (set_interruptible t s) \<longleftrightarrow> kinv H s"
  by (simp add: kinv_def set_interruptible_def fresh_inv_def)

lemma kinv_uaf [simp]: "kinv H (s\<lparr>uaf := u\<rparr>) \<longleftrightarrow> kinv H s"
  by (simp add: kinv_def fresh_inv_def)

lemma kinv_draw_rcvid: "kinv H s \<Longrightarrow> gbl_next_rcvid s \<le> r \<Longrightarrow> kinv H (s\<lparr>gbl_next_rcvid := r\<rparr>)"
  by (force simp: kinv_def fresh_inv_def msgs_inv_def)

lemma kinv_draw_chid: "kinv H s \<Longrightarrow> gbl_next_channel_id s \<le> r \<Longrightarrow> kinv H (s\<lparr>gbl_next_channel_id := r\<rparr>)"
  by (force simp: kinv_def fresh_inv_def ids_inv_def)

text \<open>A process entry whose lists stay the same.\<close>

lemma owned_upd_same:
  "ps e = Some pe \<Longrightarrow> channels pe' = channels pe \<Longrightarrow> owned (ps(e \<mapsto> pe')) = owned ps"
  by (simp add: fun_eq_iff owned_def) (metis option.inject)

lemma refs_inv_cong: "owned ps' = owned ps \<Longrightarrow> refs_inv H ps' cs \<longleftrightarrow> refs_inv H ps cs"
  by (simp only: refs_inv_def refs_def)

lemma kinv_store_proc:
  assumes "kinv H s" and "procs s e = Some pe" and "channels pe' = channels pe" and "pending pe' = pending pe"
    and "pid pe' = pid pe" and "wf_table (connections pe')"
    and "e \<in> set (process_entries s) \<Longrightarrow> 0 < pe_refcnt pe'"
  shows "kinv H (store_proc e pe' s)"
proof (rule kinvI)
  show "list_inv (process_entries (store_proc e pe' s)) (procs (store_proc e pe' s))"
    using kinvD(1) [OF assms(1)] assms(2,5,7) by (auto simp: store_proc_def list_inv_def split: if_splits)
  show "procs_inv (procs (store_proc e pe' s)) (chans (store_proc e pe' s)) (msgs (store_proc e pe' s))"
    using kinvD(2) [OF assms(1)] assms(2-6)
    by (fastforce simp: store_proc_def procs_inv_def proc_inv_def)
  show "refs_inv H (procs (store_proc e pe' s)) (chans (store_proc e pe' s))"
    using kinvD(3) [OF assms(1)] refs_inv_cong [OF owned_upd_same [where ps = "procs s", OF assms(2,3)]]
    by (simp add: store_proc_def)
  show "fresh_inv (store_proc e pe' s)"
    using kinvD(7) [OF assms(1)] assms(2) by (auto simp: store_proc_def fresh_inv_def)
qed (use kinvD [OF assms(1)] in \<open>simp_all add: store_proc_def\<close>)

text \<open>A message that changes without leaving its list.\<close>

lemma noreply_at_upd':
  "ms d = Some m \<Longrightarrow> rcvid m' = rcvid m \<Longrightarrow> task m' = task m \<Longrightarrow>
     queue_inv cs ms lim \<Longrightarrow> (mstate m' = mstate m \<or> (\<forall>c ch. cs c = Some ch \<longrightarrow> d \<notin> set (waiting ch))) \<Longrightarrow>
     queue_inv cs (ms(d \<mapsto> m')) lim"
  by (auto simp: queue_inv_def chan_inv_upd)

definition in_no_list :: "addr \<Rightarrow> kstate \<Rightarrow> bool" where
  "in_no_list d s \<longleftrightarrow>
     (\<forall>c ch. chans s c = Some ch \<longrightarrow> d \<notin> set (waiting ch)) \<and>
     (\<forall>e pe. procs s e = Some pe \<longrightarrow> d \<notin> set (pending pe))"

lemma kinv_store_msg:
  assumes "kinv H s" and "msgs s d = Some m" and "rcvid m' = rcvid m" and "task m' = task m" and "payload_ok m'"
    and "mstate m' = mstate m \<or> in_no_list d s"
  shows "kinv H (s\<lparr>msgs := (msgs s)(d \<mapsto> m')\<rparr>)"
proof (rule kinvI)
  let ?s = "s\<lparr>msgs := (msgs s)(d \<mapsto> m')\<rparr>"
  show "procs_inv (procs ?s) (chans ?s) (msgs ?s)"
    using kinvD(2) [OF assms(1)] assms(2-4,6) by (fastforce simp: procs_inv_def proc_inv_def in_no_list_def)
  show "queue_inv (chans ?s) (msgs ?s) (qnx_max_noreply_msg_num ?s)"
    using noreply_at_upd' [where ms = "msgs s" and d = d, OF assms(2-4) kinvD(4) [OF assms(1)]] assms(6)
    by (auto simp: in_no_list_def)
  show "msgs_inv (msgs ?s) (gbl_next_rcvid ?s)"
    using kinvD(6) [OF assms(1)] assms(2,3,5) by (simp add: msgs_inv_def) metis
  show "fresh_inv ?s"
    using kinvD(7) [OF assms(1)] assms(2) by (auto simp: fresh_inv_def)
qed (use kinvD [OF assms(1)] in simp_all)

text \<open>A message that is created, and one that is freed while it is in no list.\<close>

lemma kinv_fresh_in_no_list: "kinv H s \<Longrightarrow> msgs s d = None \<Longrightarrow> in_no_list d s"
  unfolding in_no_list_def using kinv_waiting_msg kinv_pending_msg by fastforce

text \<open>The lists look at their own messages only.\<close>

lemma chan_inv_cong:
  assumes "\<And>d. d \<in> set (waiting ch) \<Longrightarrow> ms' d = ms d"
  shows "chan_inv ms' lim ch \<longleftrightarrow> chan_inv ms lim ch"
proof -
  have "filter (noreply_at ms') (waiting ch) = filter (noreply_at ms) (waiting ch)"
    using assms by (intro filter_cong) (auto simp: noreply_at_def)
  with assms show ?thesis by (auto simp: chan_inv_def)
qed

lemma queue_inv_cong:
  assumes "queue_inv cs ms lim" and "\<And>c ch d. cs c = Some ch \<Longrightarrow> d \<in> set (waiting ch) \<Longrightarrow> ms' d = ms d"
  shows "queue_inv cs ms' lim"
proof -
  have "chan_inv ms' lim ch \<and>
      (\<forall>x \<in> set (waiting ch). \<forall>m. ms' x = Some m \<longrightarrow> mstate m = QNX_STATE_INITIAL)"
    if "cs c = Some ch" for c ch
    using that assms chan_inv_cong [of ch ms' ms lim] by (auto simp: queue_inv_def)
  with assms(1) show ?thesis unfolding queue_inv_def by blast
qed

lemma procs_inv_cong:
  assumes "procs_inv ps cs ms" and "\<And>e pe d. ps e = Some pe \<Longrightarrow> d \<in> set (pending pe) \<Longrightarrow> ms' d = ms d"
    and "\<And>e pe c. ps e = Some pe \<Longrightarrow> c \<in> set (channels pe) \<Longrightarrow> c \<in> dom cs \<Longrightarrow> c \<in> dom cs'"
  shows "procs_inv ps cs' ms'"
proof -
  have "proc_inv cs' ms' pe" if pe: "ps e = Some pe" for e pe
  proof -
    have "proc_inv cs ms pe" using assms(1) pe by (auto simp: procs_inv_def)
    moreover have "set (channels pe) \<subseteq> dom cs \<Longrightarrow> set (channels pe) \<subseteq> dom cs'"
      using assms(3) [OF pe] by blast
    ultimately show ?thesis
      using assms(2) [OF pe] by (simp add: proc_inv_def)
  qed
  with assms(1) show ?thesis unfolding procs_inv_def by blast
qed

lemma kinv_new_msg:
  assumes "kinv H s" and "msgs s d = None" and "d < next_addr s" and "payload_ok m"
    and "0 \<le> rcvid m" and "rcvid m \<le> gbl_next_rcvid s"
    and "\<And>d' m'. msgs s d' = Some m' \<Longrightarrow> rcvid m' = rcvid m \<Longrightarrow> rcvid m = 0"
  shows "kinv H (s\<lparr>msgs := (msgs s)(d \<mapsto> m)\<rparr>)"
proof (rule kinvI)
  let ?s = "s\<lparr>msgs := (msgs s)(d \<mapsto> m)\<rparr>"
  have free: "\<forall>c ch. chans s c = Some ch \<longrightarrow> d \<notin> set (waiting ch)"
    "\<forall>e pe. procs s e = Some pe \<longrightarrow> d \<notin> set (pending pe)"
    using kinv_fresh_in_no_list [OF assms(1,2)] by (auto simp: in_no_list_def)
  show "procs_inv (procs ?s) (chans ?s) (msgs ?s)"
    using free(2) by (auto intro!: procs_inv_cong [OF kinvD(2) [OF assms(1)]])
  show "queue_inv (chans ?s) (msgs ?s) (qnx_max_noreply_msg_num ?s)"
    using free(1) by (auto intro!: queue_inv_cong [OF kinvD(4) [OF assms(1)]])
  show "msgs_inv (msgs ?s) (gbl_next_rcvid ?s)"
    using kinvD(6) [OF assms(1)] assms(4-7) by (auto simp: msgs_inv_def)
  show "fresh_inv ?s"
    using kinvD(7) [OF assms(1)] assms(3) by (auto simp: fresh_inv_def)
qed (use kinvD [OF assms(1)] in simp_all)

lemma kinv_free_msg:
  assumes "kinv H s" and "in_no_list d s"
  shows "kinv H (s\<lparr>msgs := (msgs s)(d := None)\<rparr>)"
proof (rule kinvI)
  let ?s = "s\<lparr>msgs := (msgs s)(d := None)\<rparr>"
  show "procs_inv (procs ?s) (chans ?s) (msgs ?s)"
    using assms(2) by (auto simp: in_no_list_def intro!: procs_inv_cong [OF kinvD(2) [OF assms(1)]])
  show "queue_inv (chans ?s) (msgs ?s) (qnx_max_noreply_msg_num ?s)"
    using assms(2) by (auto simp: in_no_list_def intro!: queue_inv_cong [OF kinvD(4) [OF assms(1)]])
  show "msgs_inv (msgs ?s) (gbl_next_rcvid ?s)"
    using kinvD(6) [OF assms(1)] by (auto simp: msgs_inv_def)
  show "fresh_inv ?s"
    using kinvD(7) [OF assms(1)] by (auto simp: fresh_inv_def)
qed (use kinvD [OF assms(1)] in simp_all)

text \<open>A channel whose queue and id stay the same, while the references held change.\<close>

lemma refs_upd: "refs (H(c := k)) ps x = (if x = c then (if owned ps c then 1 else 0) + k else refs H ps x)"
  by (simp add: refs_def)

lemma chan_inv_refcnt [simp]: "chan_inv ms lim (ch\<lparr>ch_refcnt := n\<rparr>) \<longleftrightarrow> chan_inv ms lim ch"
  by (simp add: chan_inv_def)

lemma queue_invD:
  assumes "queue_inv cs ms lim" and "cs c = Some ch"
  shows "chan_inv ms lim ch"
    and "d \<in> set (waiting ch) \<Longrightarrow> ms d = Some m \<Longrightarrow> mstate m = QNX_STATE_INITIAL"
    and "cs c' = Some ch' \<Longrightarrow> c' \<noteq> c \<Longrightarrow> set (waiting ch) \<inter> set (waiting ch') = {}"
  using assms unfolding queue_inv_def by blast+

lemma queue_inv_upd:
  assumes "queue_inv cs ms lim" and "chan_inv ms lim ch'"
    and "\<forall>d \<in> set (waiting ch'). \<forall>m. ms d = Some m \<longrightarrow> mstate m = QNX_STATE_INITIAL"
    and "\<And>x chx. cs x = Some chx \<Longrightarrow> x \<noteq> c \<Longrightarrow> set (waiting ch') \<inter> set (waiting chx) = {}"
  shows "queue_inv (cs(c \<mapsto> ch')) ms lim"
proof -
  have old: "chan_inv ms lim ch1 \<and> (\<forall>d \<in> set (waiting ch1). \<forall>m. ms d = Some m \<longrightarrow> mstate m = QNX_STATE_INITIAL)"
    if "(cs(c \<mapsto> ch')) x = Some ch1" for x ch1
    using that assms(1-3) by (cases "x = c") (auto simp: queue_inv_def)
  have disj: "set (waiting ch1) \<inter> set (waiting ch2) = {}"
    if "(cs(c \<mapsto> ch')) x = Some ch1" "(cs(c \<mapsto> ch')) y = Some ch2" "x \<noteq> y" for x y ch1 ch2
  proof -
    consider "x = c" | "y = c" | "x \<noteq> c" "y \<noteq> c" by blast
    then show ?thesis
    proof cases
      case 1
      with that assms(4) [of y ch2] show ?thesis by auto
    next
      case 2
      with that assms(4) [of x ch1] show ?thesis by auto
    next
      case 3
      with that assms(1) show ?thesis unfolding queue_inv_def by simp
    qed
  qed
  have "lim < 2 ^ 31" using assms(1) by (simp add: queue_inv_def)
  then show ?thesis
    unfolding queue_inv_def using old disj by blast
qed

lemma kinv_store_refcnt:
  assumes "kinv H s" and "chans s c = Some ch" and "0 < n" and "n = (if owned (procs s) c then 1 else 0) + k"
  shows "kinv (H(c := k)) (store_chan c (ch\<lparr>ch_refcnt := n\<rparr>) s)"
proof (rule kinvI)
  let ?s = "store_chan c (ch\<lparr>ch_refcnt := n\<rparr>) s"
  have "proc_inv (chans ?s) (msgs s) pe" if "procs s e = Some pe" for e pe
    using kinv_proc [OF assms(1) that] assms(2) by (auto simp: proc_inv_def store_chan_def)
  then show "procs_inv (procs ?s) (chans ?s) (msgs ?s)"
    using kinvD(2) [OF assms(1)] by (simp add: procs_inv_def store_chan_def)
  show "refs_inv (H(c := k)) (procs ?s) (chans ?s)"
    using kinvD(3) [OF assms(1)] assms(2-4) by (auto simp: refs_inv_def store_chan_def refs_upd)
  show "queue_inv (chans ?s) (msgs ?s) (qnx_max_noreply_msg_num ?s)"
    using queue_inv_upd [OF kinvD(4) [OF assms(1)], of "ch\<lparr>ch_refcnt := n\<rparr>" c]
      queue_invD [OF kinvD(4) [OF assms(1)] assms(2)]
    by (simp add: store_chan_def)
  show "ids_inv (chans ?s) (gbl_next_channel_id ?s)"
    using kinvD(5) [OF assms(1)] assms(2) by (auto simp: ids_inv_def store_chan_def)
  show "fresh_inv ?s"
    using kinvD(7) [OF assms(1)] assms(2) by (auto simp: fresh_inv_def store_chan_def)
qed (use kinvD [OF assms(1)] in \<open>simp_all add: store_chan_def\<close>)

lemma kinv_channel_get:
  assumes "kinv H s" and "chans s c = Some ch"
  shows "channel_get c s = Some (store_chan c (ch\<lparr>ch_refcnt := Suc (ch_refcnt ch)\<rparr>) s)"
    and "kinv (holding c H) (store_chan c (ch\<lparr>ch_refcnt := Suc (ch_refcnt ch)\<rparr>) s)"
proof -
  show "channel_get c s = Some (store_chan c (ch\<lparr>ch_refcnt := Suc (ch_refcnt ch)\<rparr>) s)"
    using cref.ref_live [OF assms(2)] by simp
  show "kinv (holding c H) (store_chan c (ch\<lparr>ch_refcnt := Suc (ch_refcnt ch)\<rparr>) s)"
    unfolding holding_def
    by (rule kinv_store_refcnt [OF assms])
      (use kinvD(3) [OF assms(1)] assms(2) in \<open>auto simp: refs_inv_def refs_def\<close>)
qed

section \<open>Giving back a channel\<close>

text \<open>
  What a step leaves alone: processes, ids, limits, the messages that are in no list, and the
  messages of blocked senders, which stay alive with their receive id and task.
\<close>

definition sender_frame :: "kstate \<Rightarrow> kstate \<Rightarrow> bool" where
  "sender_frame s s' \<longleftrightarrow>
     (\<forall>d m. msgs s d = Some m \<and> task m \<noteq> None \<longrightarrow>
        (\<exists>m'. msgs s' d = Some m' \<and> task m' = task m \<and> rcvid m' = rcvid m \<and> data m' = data m \<and>
              receiver_pid m' = receiver_pid m)) \<and>
     (\<forall>d. in_no_list d s \<longrightarrow> msgs s' d = msgs s d)"

definition procs_frame :: "kstate \<Rightarrow> kstate \<Rightarrow> bool" where
  "procs_frame s s' \<longleftrightarrow>
     process_entries s' = process_entries s \<and> procs s' = procs s \<and> next_addr s' = next_addr s \<and>
     gbl_next_channel_id s' = gbl_next_channel_id s \<and> gbl_next_rcvid s' = gbl_next_rcvid s \<and>
     qnx_max_noreply_msg_num s' = qnx_max_noreply_msg_num s \<and>
     qnx_max_connections_per_process s' = qnx_max_connections_per_process s \<and>
     qnx_max_channels_per_process s' = qnx_max_channels_per_process s"

lemma flush_inv:
  assumes "msgs_inv ms n"
  shows "msgs_inv (flush_msgs as ms) n"
proof -
  have sub: "\<exists>m0. ms d = Some m0 \<and> rcvid m = rcvid m0 \<and> (payload_ok m0 \<longrightarrow> payload_ok m)"
    if "flush_msgs as ms d = Some m" for d m
    using that by (auto simp: flush_msgs_def elim!: bind_eq_SomeE split: if_splits)
  show ?thesis
    using assms sub unfolding msgs_inv_def by (smt (verit, ccfv_threshold))
qed

lemma kinv_free_channel:
  assumes "kinv H s" and "chans s c = Some ch" and "\<not> owned (procs s) c"
  shows "kinv (H(c := 0)) (s\<lparr>chans := (chans s)(c := None), msgs := flush_msgs (waiting ch) (msgs s),
           running := r, uaf := u\<rparr>)"
proof (rule kinvI)
  let ?ms = "flush_msgs (waiting ch) (msgs s)"
  let ?s = "s\<lparr>chans := (chans s)(c := None), msgs := ?ms, running := r, uaf := u\<rparr>"
  note q = queue_invD [OF kinvD(4) [OF assms(1)] assms(2)]
  have "procs_inv (procs s) ((chans s)(c := None)) ?ms"
  proof (rule procs_inv_cong [OF kinvD(2) [OF assms(1)]])
    show "?ms d = msgs s d" if "procs s e = Some pe" "d \<in> set (pending pe)" for e pe d
      using kinv_pending_msg [OF assms(1) that] q(2) [of d] by (auto simp: flush_msgs_def)
    show "x \<in> dom ((chans s)(c := None))" if "procs s e = Some pe" "x \<in> set (channels pe)" "x \<in> dom (chans s)" for e pe x
      using that assms(3) by (auto simp: owned_def)
  qed
  then show "procs_inv (procs ?s) (chans ?s) (msgs ?s)" by simp
  show "refs_inv (H(c := 0)) (procs ?s) (chans ?s)"
    using kinvD(3) [OF assms(1)] by (auto simp: refs_inv_def refs_upd)
  have "queue_inv ((chans s)(c := None)) (msgs s) (qnx_max_noreply_msg_num s)"
    using kinvD(4) [OF assms(1)] by (auto simp: queue_inv_def)
  then have "queue_inv ((chans s)(c := None)) ?ms (qnx_max_noreply_msg_num s)"
  proof (rule queue_inv_cong)
    show "?ms d = msgs s d" if "((chans s)(c := None)) x = Some chx" "d \<in> set (waiting chx)" for x chx d
      using that q(3) [of x chx] by (auto simp: flush_msgs_def split: if_splits)
  qed
  then show "queue_inv (chans ?s) (msgs ?s) (qnx_max_noreply_msg_num ?s)" by simp
  show "ids_inv (chans ?s) (gbl_next_channel_id ?s)"
    using kinvD(5) [OF assms(1)] by (auto simp: ids_inv_def)
  show "msgs_inv (msgs ?s) (gbl_next_rcvid ?s)"
    using flush_inv [OF kinvD(6) [OF assms(1)]] by simp
  show "fresh_inv ?s"
    using kinvD(7) [OF assms(1)] by (auto simp: fresh_inv_def flush_msgs_def)
qed (use kinvD [OF assms(1)] in simp_all)

lemma refs_at: "kinv H s \<Longrightarrow> chans s c = Some ch \<Longrightarrow> ch_refcnt ch = refs H (procs s) c"
  by (auto dest!: kinvD(3) simp: refs_inv_def)

lemma kinv_channel_release:
  assumes "kinv H s" and "0 < H c"
  obtains s' where "qnx_channel_release c s = Some s'" and "kinv (H(c := H c - 1)) s'"
    and "procs_frame s s'" and "sender_frame s s'" and "\<And>x. x \<noteq> c \<Longrightarrow> chans s' x = chans s x"
    and "\<And>t. running s t \<Longrightarrow> running s' t" and "\<And>d. in_no_list d s \<Longrightarrow> in_no_list d s'"
proof -
  obtain ch where ch: "chans s c = Some ch" using kinv_held [OF assms] by blast
  have rc: "ch_refcnt ch = refs H (procs s) c" by (rule refs_at [OF assms(1) ch])
  show thesis
  proof (cases "ch_refcnt ch = 1")
    case False
    then have more: "1 < ch_refcnt ch" using rc assms(2) by (auto simp: refs_def split: if_splits)
    let ?s = "store_chan c (ch\<lparr>ch_refcnt := ch_refcnt ch - 1\<rparr>) s"
    have "qnx_channel_release c s = Some ?s"
      using cref.unref_shared [OF ch more] by simp
    moreover have "kinv (H(c := H c - 1)) ?s"
      by (rule kinv_store_refcnt [OF assms(1) ch])
        (use more rc assms(2) in \<open>auto simp: refs_def split: if_splits\<close>)
    ultimately show thesis
      by (rule that) (use ch in \<open>auto simp: store_chan_def procs_frame_def sender_frame_def in_no_list_def\<close>)
  next
    case True
    then have no: "\<not> owned (procs s) c" "H c = 1" using rc assms(2) by (auto simp: refs_def split: if_splits)
    let ?zero = "s\<lparr>chans := (chans s)(c \<mapsto> ch\<lparr>ch_refcnt := 0\<rparr>)\<rparr>"
    let ?s = "s\<lparr>chans := (chans s)(c := None), msgs := flush_msgs (waiting ch) (msgs s),
      running := (\<lambda>t. running s t \<or> woken_by (waiting ch) (msgs s) t),
      uaf := rev (filter (no_task (msgs s)) (waiting ch)) @ uaf s\<rparr>"
    have live: "distinct (waiting ch)" "set (waiting ch) \<subseteq> dom (msgs s)"
      using kinv_chan [OF assms(1) ch] by (auto simp: chan_inv_def)
    have "qnx_channel_release c s = Some ?s"
      using free_msg_list_eq [of "waiting ch" ?zero] live ch True
      by (simp add: qnx_channel_release_def qnx_channel_free_def)
    moreover have "kinv (H(c := H c - 1)) ?s"
      using kinv_free_channel [OF assms(1) ch no(1)] no(2) by simp
    moreover have "procs_frame s ?s" by (simp add: procs_frame_def)
    moreover have "sender_frame s ?s"
      using ch by (auto simp: sender_frame_def flush_msgs_def in_no_list_def)
    ultimately show thesis
      by (rule that) (auto simp: in_no_list_def split: if_splits)
  qed
qed

section \<open>Looking up processes and channels\<close>

lemma kinv_find_process:
  assumes "kinv H s"
  obtains (none) "qnx_driver_data_find_process p s = Some (None, s)"
      and "\<And>e pe. e \<in> set (process_entries s) \<Longrightarrow> procs s e = Some pe \<Longrightarrow> pid pe \<noteq> p"
  | (found) e pe where "e \<in> set (process_entries s)" and "procs s e = Some pe" and "pid pe = p"
      and "qnx_driver_data_find_process p s = Some (Some e, store_proc e (pe\<lparr>pe_refcnt := Suc (pe_refcnt pe)\<rparr>) s)"
proof -
  have "set (process_entries s) \<subseteq> dom (procs s)" using kinvD(1) [OF assms] by (simp add: list_inv_def)
  then obtain h where h: "list_search (procs s) (\<lambda>pe. pid pe = p) (process_entries s) = Some h"
    using list_search_total by blast
  show thesis
  proof (cases h)
    case None
    with h show thesis
      using list_search_NoneD [of "procs s" "\<lambda>pe. pid pe = p" "process_entries s"]
      by (intro none) (fastforce simp: qnx_driver_data_find_process_def)+
  next
    case (Some e)
    then obtain pe where pe: "e \<in> set (process_entries s)" "procs s e = Some pe" "pid pe = p"
      using h list_search_SomeD [of "procs s" "\<lambda>pe. pid pe = p" "process_entries s" e] by auto
    with h Some show thesis
      using pref.ref_live [OF pe(2)] by (intro found [of e pe]) (auto simp: qnx_driver_data_find_process_def)
  qed
qed

lemma kinv_search_channel:
  assumes "kinv H s" and "procs s e = Some pe"
  obtains (none) "list_search (chans s) (\<lambda>ch. chid ch = i) (channels pe) = Some None"
      and "\<And>c ch. c \<in> set (channels pe) \<Longrightarrow> chans s c = Some ch \<Longrightarrow> chid ch \<noteq> i"
  | (found) c ch where "list_search (chans s) (\<lambda>ch. chid ch = i) (channels pe) = Some (Some c)"
      and "c \<in> set (channels pe)" and "chans s c = Some ch" and "chid ch = i"
proof -
  have "set (channels pe) \<subseteq> dom (chans s)" using kinv_proc [OF assms] by (simp add: proc_inv_def)
  then obtain h where h: "list_search (chans s) (\<lambda>ch. chid ch = i) (channels pe) = Some h"
    using list_search_total by blast
  show thesis
  proof (cases h)
    case None
    with h show thesis
      using none list_search_NoneD [of "chans s" "\<lambda>ch. chid ch = i" "channels pe"] by fastforce
  next
    case (Some c)
    with h show thesis
      using found list_search_SomeD [of "chans s" "\<lambda>ch. chid ch = i" "channels pe" c] by blast
  qed
qed

text \<open>
  The channel \<open>c\<close> of the process \<open>e\<close> with id \<open>i\<close>, and the state in which one reference more
  to \<open>c\<close> is held.
\<close>

definition channel_of :: "kstate \<Rightarrow> addr \<Rightarrow> int \<Rightarrow> addr \<Rightarrow> bool" where
  "channel_of s e i c \<longleftrightarrow>
     (\<exists>pe ch. procs s e = Some pe \<and> c \<in> set (channels pe) \<and> chans s c = Some ch \<and> chid ch = i)"

definition hold :: "addr \<Rightarrow> kstate \<Rightarrow> kstate" where
  "hold c s = store_chan c ((the (chans s c))\<lparr>ch_refcnt := Suc (ch_refcnt (the (chans s c)))\<rparr>) s"

lemma hold_store_proc: "hold c (store_proc e pe s) = store_proc e pe (hold c s)"
  by (simp add: hold_def)

lemma hold_simps [simp]:
  "procs (hold c s) = procs s" "msgs (hold c s) = msgs s" "process_entries (hold c s) = process_entries s"
  "next_addr (hold c s) = next_addr s" "gbl_next_rcvid (hold c s) = gbl_next_rcvid s"
  "running (hold c s) = running s" "x \<noteq> c \<Longrightarrow> chans (hold c s) x = chans s x"
  by (simp_all add: hold_def store_chan_def)

lemma kinv_hold: "kinv H s \<Longrightarrow> chans s c = Some ch \<Longrightarrow> kinv (holding c H) (hold c s)"
  using kinv_channel_get(2) by (simp add: hold_def)

lemma kinv_entry_find_channel:
  assumes "kinv H s" and "procs s e = Some pe"
  obtains (none) "qnx_process_entry_find_channel e i s = Some (None, s)" and "\<And>c. \<not> channel_of s e i c"
  | (found) c where "qnx_process_entry_find_channel e i s = Some (Some c, hold c s)"
      and "channel_of s e i c" and "kinv (holding c H) (hold c s)"
  using assms(1,2)
proof (cases rule: kinv_search_channel [where i = i])
  case none
  then show thesis
    using that(1) assms(2) by (force simp: qnx_process_entry_find_channel_def channel_of_def)
next
  case (found c ch)
  then show thesis
    using that(2) [of c] assms kinv_channel_get [OF assms(1), of c ch]
    by (auto simp: qnx_process_entry_find_channel_def channel_of_def hold_def)
qed

lemma kinv_driver_find_channel:
  assumes "kinv H s"
  obtains (none) "qnx_driver_data_find_channel p i s = Some (None, s)"
      and "\<And>e pe c. e \<in> set (process_entries s) \<Longrightarrow> procs s e = Some pe \<Longrightarrow> pid pe = p \<Longrightarrow> \<not> channel_of s e i c"
  | (found) e pe c where "qnx_driver_data_find_channel p i s = Some (Some c, hold c s)"
      and "e \<in> set (process_entries s)" and "procs s e = Some pe" and "pid pe = p" and "channel_of s e i c"
      and "kinv (holding c H) (hold c s)"
  using assms
proof (cases rule: kinv_find_process [where p = p])
  case none
  then show thesis using that(1) by (auto simp: qnx_driver_data_find_channel_def)
next
  case (found e pe)
  let ?pe = "pe\<lparr>pe_refcnt := Suc (pe_refcnt pe)\<rparr>"
  let ?s = "store_proc e ?pe s"
  have pos: "0 < pe_refcnt pe" using kinvD(1) [OF assms] found(1,2) by (simp add: list_inv_def)
  have inv: "kinv H ?s"
    using kinv_proc [OF assms found(2)] by (intro kinv_store_proc [OF assms found(2)]) (auto simp: proc_inv_def)
  have rel: "qnx_process_entry_release e (store_proc e ?pe s') = Some s'" if "procs s' e = Some pe" for s'
    using pref.unref_shared [of "store_proc e ?pe s'" e ?pe] pos pref.store_id [OF that]
    by (simp add: pref.store_store)
  have uniq: "e' = e" if "e' \<in> set (process_entries s)" "procs s e' = Some pe'" "pid pe' = p" for e' pe'
    using kinvD(1) [OF assms] found(1-3) that unfolding list_inv_def by metis
  have at: "procs ?s e = Some ?pe" by simp
  show thesis
    using inv at
  proof (cases rule: kinv_entry_find_channel [where i = i])
    case none
    have "qnx_driver_data_find_channel p i s = Some (None, s)"
      using found(4) none(1) rel [OF found(2)] by (simp add: qnx_driver_data_find_channel_def)
    moreover have "\<not> channel_of s e i c" for c using none(2) [of c] found(2) by (auto simp: channel_of_def)
    ultimately show thesis using that(1) uniq by metis
  next
    case (found c)
    then obtain ch where ch: "channel_of s e i c" "chans s c = Some ch"
      using \<open>procs s e = Some pe\<close> by (auto simp: channel_of_def)
    have "qnx_driver_data_find_channel p i s = Some (Some c, hold c s)"
      using \<open>qnx_driver_data_find_process p s = _\<close> found(1) rel [of "hold c s"] \<open>procs s e = Some pe\<close>
      by (simp add: qnx_driver_data_find_channel_def hold_store_proc)
    then show thesis
      using that(2) \<open>e \<in> _\<close> \<open>procs s e = _\<close> \<open>pid pe = p\<close> ch kinv_hold [OF assms ch(2)] by blast
  qed
qed

section \<open>Queueing, taking and cancelling\<close>

text \<open>A channel whose queue changes: it may lose elements, and gain messages that were in no list.\<close>

lemma kinv_store_queue:
  assumes "kinv H s" and "chans s c = Some ch" and "ch_refcnt ch' = ch_refcnt ch" and "chid ch' = chid ch"
    and "chan_inv (msgs s) (qnx_max_noreply_msg_num s) ch'"
    and new: "\<And>d. d \<in> set (waiting ch') \<Longrightarrow> d \<in> set (waiting ch) \<or>
      in_no_list d s \<and> (\<forall>m. msgs s d = Some m \<longrightarrow> mstate m = QNX_STATE_INITIAL)"
  shows "kinv H (store_chan c ch' s)"
proof (rule kinvI)
  note q = queue_invD [OF kinvD(4) [OF assms(1)] assms(2)]
  show "procs_inv (procs (store_chan c ch' s)) (chans (store_chan c ch' s)) (msgs (store_chan c ch' s))"
    by (simp, rule procs_inv_cong [OF kinvD(2) [OF assms(1)]]) auto
  show "refs_inv H (procs (store_chan c ch' s)) (chans (store_chan c ch' s))"
    using kinvD(3) [OF assms(1)] assms(2,3) by (auto simp: refs_inv_def)
  have "queue_inv ((chans s)(c \<mapsto> ch')) (msgs s) (qnx_max_noreply_msg_num s)"
  proof (rule queue_inv_upd [OF kinvD(4) [OF assms(1)] assms(5)])
    show "\<forall>d \<in> set (waiting ch'). \<forall>m. msgs s d = Some m \<longrightarrow> mstate m = QNX_STATE_INITIAL"
      using new q(2) by blast
    show "set (waiting ch') \<inter> set (waiting chx) = {}" if "chans s x = Some chx" "x \<noteq> c" for x chx
      using new q(3) [OF that] that(1) unfolding in_no_list_def by blast
  qed
  then show "queue_inv (chans (store_chan c ch' s)) (msgs (store_chan c ch' s))
      (qnx_max_noreply_msg_num (store_chan c ch' s))"
    by (simp add: store_chan_def)
  show "ids_inv (chans (store_chan c ch' s)) (gbl_next_channel_id (store_chan c ch' s))"
    using kinvD(5) [OF assms(1)] assms(2,4) by (auto simp: ids_inv_def store_chan_def)
  show "fresh_inv (store_chan c ch' s)"
    using kinvD(7) [OF assms(1)] assms(2) by (auto simp: fresh_inv_def store_chan_def)
qed (use kinvD [OF assms(1)] in \<open>simp_all add: store_chan_def\<close>)

lemma kinv_add_new_message:
  assumes "kinv H s" and "chans s c = Some ch" and "msgs s d = Some m" and "in_no_list d s"
    and "mstate m = QNX_STATE_INITIAL"
  obtains rc ch' where "channel_enqueue (qnx_max_noreply_msg_num s) d m ch = (rc, ch')"
    and "qnx_channel_add_new_message c d s =
      Some (rc, store_chan c ch' (s\<lparr>msgs := (msgs s)(d \<mapsto> m\<lparr>receiver_chid := chid ch\<rparr>)\<rparr>))"
    and "kinv H (store_chan c ch' (s\<lparr>msgs := (msgs s)(d \<mapsto> m\<lparr>receiver_chid := chid ch\<rparr>)\<rparr>))"
    and "chid ch' = chid ch" and "ch_refcnt ch' = ch_refcnt ch"
    and "waiting ch' = (if rc = 0 then waiting ch @ [d] else waiting ch)"
    and "rc = 0 \<or> rc = - 1 \<and> noreply_at (msgs s) d"
proof -
  let ?m = "m\<lparr>receiver_chid := chid ch\<rparr>"
  let ?s = "s\<lparr>msgs := (msgs s)(d \<mapsto> ?m)\<rparr>"
  note inv = kinv_chan [OF assms(1,2)]
  have free: "d \<notin> set (waiting ch)" using assms(2,4) by (auto simp: in_no_list_def)
  have enq: "enqueueable (msgs s) d ch"
    using free assms(3) kinv_msg [OF assms(1,3)] by (auto simp: enqueueable_def)
  obtain rc ch' where e: "channel_enqueue (qnx_max_noreply_msg_num s) d m ch = (rc, ch')" by fastforce
  then have ch': "chid ch' = chid ch" "ch_refcnt ch' = ch_refcnt ch"
      "waiting ch' = (if rc = 0 then waiting ch @ [d] else waiting ch)"
      "rc = 0 \<or> rc = - 1 \<and> noreply_at (msgs s) d"
    by (auto simp: enqueue_cases [OF inv assms(3)] split: if_splits)
  have step: "kinv H ?s"
    by (rule kinv_store_msg [OF assms(1,3)]) (use kinv_msg [OF assms(1,3)] in simp_all)
  have "chan_inv (msgs ?s) (qnx_max_noreply_msg_num ?s) ch'"
    using enqueue_inv [OF inv enq assms(3)] e chan_inv_upd [where ms = "msgs s" and d = d, OF assms(3)] by simp
  then have "kinv H (store_chan c ch' ?s)"
    by (rule kinv_store_queue [OF step, rotated 3])
      (use assms(2-5) ch' in \<open>auto simp: in_no_list_def split: if_splits\<close>)
  then show thesis
    using that [OF e] ch' e by (auto simp: add_new_message_eq [OF assms(2,3)] store_chan_def)
qed

lemma store_chan_msgs: "(store_chan c ch s)\<lparr>msgs := ms\<rparr> = store_chan c ch (s\<lparr>msgs := ms\<rparr>)"
  by (simp add: store_chan_def)

lemma kinv_take:
  assumes "kinv H s" and "chans s c = Some ch" and "waiting ch = d # ds"
  obtains m ch' where "msgs s d = Some m" and "channel_dequeue (msgs s) ch = Some (Some (d, ch'))"
    and "waiting ch' = ds" and "chid ch' = chid ch"
    and "kinv H (store_chan c ch' (s\<lparr>msgs := (msgs s)(d \<mapsto> m\<lparr>mstate := st\<rparr>)\<rparr>))"
    and "in_no_list d (store_chan c ch' (s\<lparr>msgs := (msgs s)(d \<mapsto> m\<lparr>mstate := st\<rparr>)\<rparr>))"
proof -
  note inv = kinv_chan [OF assms(1,2)]
  let ?ch = "ch\<lparr>waiting := ds, num_waiting := wrap32 (num_waiting ch - 1),
      num_waiting_noreply := num_waiting_noreply ch - (if noreply_at (msgs s) d then 1 else 0)\<rparr>"
  obtain m where m: "msgs s d = Some m" "mstate m = QNX_STATE_INITIAL"
    using kinv_waiting_msg [OF assms(1,2)] assms(3) by auto
  have nd: "d \<notin> set ds" using inv assms(3) by (simp add: chan_inv_def)
  have k1: "kinv H (store_chan c ?ch s)"
    by (rule kinv_store_queue [OF assms(1,2)]) (use dequeue_front [OF inv assms(3)] assms(3) in auto)
  have out: "in_no_list d (store_chan c ?ch s)"
  proof -
    have "d \<notin> set (pending pe)" if "procs s e = Some pe" for e pe
      using kinv_pending_msg [OF assms(1) that] m by fastforce
    moreover have "d \<notin> set (waiting chx)" if "chans s x = Some chx" "x \<noteq> c" for x chx
      using queue_invD(3) [OF kinvD(4) [OF assms(1)] assms(2) that] assms(3) by auto
    ultimately show ?thesis using nd by (auto simp: in_no_list_def)
  qed
  have "kinv H ((store_chan c ?ch s)\<lparr>msgs := (msgs (store_chan c ?ch s))(d \<mapsto> m\<lparr>mstate := st\<rparr>)\<rparr>)"
    by (rule kinv_store_msg [OF k1]) (use m out kinv_msg [OF assms(1) m(1)] in simp_all)
  then have "kinv H (store_chan c ?ch (s\<lparr>msgs := (msgs s)(d \<mapsto> m\<lparr>mstate := st\<rparr>)\<rparr>))"
    by (simp only: store_chan_msgs store_chan_simps)
  moreover have "in_no_list d (store_chan c ?ch (s\<lparr>msgs := (msgs s)(d \<mapsto> m\<lparr>mstate := st\<rparr>)\<rparr>))"
    using out by (simp add: in_no_list_def)
  ultimately show thesis
    using that [OF m(1) dequeue_front(1) [OF inv assms(3)]] by simp
qed

lemma kinv_remove_message:
  assumes "kinv H s" and "chans s c = Some ch" and "msgs s d = Some m" and "task m \<noteq> None"
  obtains (removed) ch' where "qnx_channel_remove_message c (rcvid m) s = Some (1, store_chan c ch' s)"
      and "kinv H (store_chan c ch' s)" and "in_no_list d (store_chan c ch' s)"
      and "d \<in> set (waiting ch)" and "waiting ch' = remove1 d (waiting ch)"
  | (gone) "qnx_channel_remove_message c (rcvid m) s = Some (0, s)" and "d \<notin> set (waiting ch)"
proof -
  note inv = kinv_chan [OF assms(1,2)]
  have rid: "rcvid m \<noteq> 0"
    using kinv_msg [OF assms(1,3)] assms(4) by (auto simp: payload_ok_def split: payload.splits)
  have uniq: "x = d" if "msgs s x = Some mx" "rcvid mx = rcvid m" for x mx
    using kinvD(6) [OF assms(1)] that assms(3) rid unfolding msgs_inv_def by metis
  have live: "set (waiting ch) \<subseteq> dom (msgs s)" using inv by (auto simp: chan_inv_def)
  show thesis
  proof (cases "d \<in> set (waiting ch)")
    case True
    have hit: "list_search (msgs s) (\<lambda>x. rcvid x = rcvid m) (waiting ch) = Some (Some d)"
      by (rule list_search_unique [OF live True assms(3)]) (use uniq in auto)
    let ?ch = "ch\<lparr>waiting := remove1 d (waiting ch), num_waiting := wrap32 (num_waiting ch - 1)\<rparr>"
    have dist: "distinct (waiting ch)" using inv by (simp add: chan_inv_def)
    have "\<not> noreply_at (msgs s) d" using assms(3,4) by (simp add: noreply_at_def)
    then have "filter (noreply_at (msgs s)) (remove1 d (waiting ch)) = filter (noreply_at (msgs s)) (waiting ch)"
      by (simp add: filter_remove1 remove1_idem)
    then have "chan_inv (msgs s) (qnx_max_noreply_msg_num s) ?ch"
      using inv dist by (auto simp: chan_inv_def dest: notin_set_remove1)
    then have k: "kinv H (store_chan c ?ch s)"
      by (rule kinv_store_queue [OF assms(1,2), rotated 2]) (auto dest: notin_set_remove1)
    have "d \<notin> set (pending pe)" if "procs s e = Some pe" for e pe
      using kinv_pending_msg [OF assms(1) that] kinv_waiting_msg [OF assms(1,2) True] by fastforce
    moreover have "d \<notin> set (waiting chx)" if "chans s x = Some chx" "x \<noteq> c" for x chx
      using queue_invD(3) [OF kinvD(4) [OF assms(1)] assms(2) that] True by auto
    ultimately have "in_no_list d (store_chan c ?ch s)"
      using dist by (auto simp: in_no_list_def)
    with k show thesis
      using removed [of ?ch] hit assms(2) True by (simp add: qnx_channel_remove_message_def store_chan_def)
  next
    case False
    obtain h where h: "list_search (msgs s) (\<lambda>x. rcvid x = rcvid m) (waiting ch) = Some h"
      using list_search_total [OF live] by blast
    have "h = None"
      using list_search_SomeD [of "msgs s" "\<lambda>x. rcvid x = rcvid m" "waiting ch"] h uniq False
      by (cases h) auto
    then show thesis
      using gone h assms(2) False by (simp add: qnx_channel_remove_message_def)
  qed
qed

end
