(* ===== verification/Process_Inv.thy ===== *)
theory Process_Inv
  imports Heap_Inv
begin

text \<open>
  The operations on process entries keep the invariant of the kernel state: pending messages,
  channels, connections and poll files, the list of processes, and the end of a process.
\<close>

section \<open>Pending messages\<close>

lemma kinv_store_pending:
  assumes "kinv H s" and "procs s e = Some pe" and "channels pe' = channels pe" and "pid pe' = pid pe"
    and "connections pe' = connections pe" and "pe_refcnt pe' = pe_refcnt pe" and "distinct (pending pe')"
    and new: "\<And>d. d \<in> set (pending pe') \<Longrightarrow> d \<in> set (pending pe) \<or>
      in_no_list d s \<and> (\<exists>m. msgs s d = Some m \<and> task m \<noteq> None \<and> mstate m = QNX_STATE_PENDING)"
  shows "kinv H (store_proc e pe' s)"
proof (rule kinvI)
  have "proc_inv (chans s) (msgs s) pe'"
    using kinv_proc [OF assms(1,2)] assms(3,5-7) new unfolding proc_inv_def by simp blast
  moreover have "set (channels pe') \<inter> set (channels px) = {} \<and> set (pending pe') \<inter> set (pending px) = {}"
    if "procs s x = Some px" "x \<noteq> e" for x px
  proof -
    have "set (channels pe) \<inter> set (channels px) = {}" "set (pending pe) \<inter> set (pending px) = {}"
      using kinvD(2) [OF assms(1)] assms(2) that unfolding procs_inv_def by blast+
    then show ?thesis using assms(3) new that(1) unfolding in_no_list_def by simp blast
  qed
  ultimately show "procs_inv (procs (store_proc e pe' s)) (chans (store_proc e pe' s)) (msgs (store_proc e pe' s))"
    using kinvD(2) [OF assms(1)] unfolding procs_inv_def by (simp add: Int_commute)
  show "list_inv (process_entries (store_proc e pe' s)) (procs (store_proc e pe' s))"
    using kinvD(1) [OF assms(1)] assms(2,4,6) by (auto simp: list_inv_def split: if_splits)
  show "refs_inv H (procs (store_proc e pe' s)) (chans (store_proc e pe' s))"
    using kinvD(3) [OF assms(1)] refs_inv_cong [OF owned_upd_same [where ps = "procs s", OF assms(2,3)]] by simp
  show "fresh_inv (store_proc e pe' s)"
    using kinvD(7) [OF assms(1)] assms(2) by (auto simp: store_proc_def fresh_inv_def)
qed (use kinvD [OF assms(1)] in \<open>simp_all add: store_proc_def\<close>)

lemma kinv_add_pending:
  assumes "kinv H s" and "procs s e = Some pe" and "msgs s d = Some m" and "task m \<noteq> None" and "in_no_list d s"
  obtains s' where "s' = store_proc e (pe\<lparr>pending := d # pending pe\<rparr>)
      (s\<lparr>msgs := (msgs s)(d \<mapsto> m\<lparr>mstate := QNX_STATE_PENDING\<rparr>)\<rparr>)"
    and "qnx_process_entry_add_pending e d s = Some s'" and "kinv H s'"
proof -
  let ?s = "s\<lparr>msgs := (msgs s)(d \<mapsto> m\<lparr>mstate := QNX_STATE_PENDING\<rparr>)\<rparr>"
  have k: "kinv H ?s"
    by (rule kinv_store_msg [OF assms(1,3)]) (use kinv_msg [OF assms(1,3)] assms(5) in simp_all)
  have pe: "procs ?s e = Some pe" using assms(2) by simp
  have "kinv H (store_proc e (pe\<lparr>pending := d # pending pe\<rparr>) ?s)"
    by (rule kinv_store_pending [OF k pe])
      (use assms kinv_proc [OF assms(1,2)] in \<open>auto simp: in_no_list_def proc_inv_def\<close>)
  then show thesis
    using that assms(2,3) by (simp add: qnx_process_entry_add_pending_def)
qed

lemma kinv_release_pending:
  assumes "kinv H s" and "procs s e = Some pe"
  obtains (none) "qnx_process_entry_release_pending e r s = Some (None, s)"
      and "\<And>d m. d \<in> set (pending pe) \<Longrightarrow> msgs s d = Some m \<Longrightarrow> rcvid m \<noteq> r"
  | (hit) d m s' where "d \<in> set (pending pe)" and "msgs s d = Some m" and "rcvid m = r" and "task m \<noteq> None"
      and "mstate m = QNX_STATE_PENDING" and "s' = store_proc e (pe\<lparr>pending := remove1 d (pending pe)\<rparr>) s"
      and "qnx_process_entry_release_pending e r s = Some (Some d, s')" and "kinv H s'" and "in_no_list d s'"
proof -
  have live: "set (pending pe) \<subseteq> dom (msgs s)"
    using kinv_proc [OF assms] by (auto simp: proc_inv_def)
  obtain h where h: "list_search (msgs s) (\<lambda>m. rcvid m = r) (pending pe) = Some h"
    using list_search_total [OF live] by blast
  show thesis
  proof (cases h)
    case None
    with h show thesis
      using none assms(2) list_search_NoneD [of "msgs s" "\<lambda>m. rcvid m = r" "pending pe"]
      by (force simp: qnx_process_entry_release_pending_def)
  next
    case (Some d)
    then obtain m where m: "d \<in> set (pending pe)" "msgs s d = Some m" "rcvid m = r"
      using h list_search_SomeD [of "msgs s" "\<lambda>m. rcvid m = r" "pending pe" d] by auto
    have st: "task m \<noteq> None" "mstate m = QNX_STATE_PENDING"
      using kinv_pending_msg [OF assms m(1)] m(2) by auto
    have dist: "distinct (pending pe)" using kinv_proc [OF assms] by (simp add: proc_inv_def)
    let ?s = "store_proc e (pe\<lparr>pending := remove1 d (pending pe)\<rparr>) s"
    have k: "kinv H ?s"
      by (rule kinv_store_pending [OF assms]) (use dist in \<open>auto dest: notin_set_remove1\<close>)
    have "d \<notin> set (waiting ch)" if "chans s c = Some ch" for c ch
      using kinv_waiting_msg [OF assms(1) that] m(2) st(2) by fastforce
    moreover have "d \<notin> set (pending px)" if "procs s x = Some px" "x \<noteq> e" for x px
      using kinvD(2) [OF assms(1)] assms(2) that m(1) unfolding procs_inv_def by blast
    ultimately have "in_no_list d ?s" using dist by (auto simp: in_no_list_def)
    with k show thesis
      using hit [OF m st] h Some assms(2) by (simp add: qnx_process_entry_release_pending_def)
  qed
qed

section \<open>Creating and destroying channels\<close>

lemma owned_iff: "procs s e = Some pe \<Longrightarrow> c \<in> set (channels pe) \<Longrightarrow> owned (procs s) c"
  by (auto simp: owned_def)

lemma kinv_own_channel:
  assumes "kinv H s" and "procs s e = Some pe" and "chans s c = None" and "c < next_addr s"
    and "ch = \<lparr>ch_refcnt = 1, chid = i, waiting = [], num_waiting = 0, num_waiting_noreply = 0\<rparr>"
    and "0 < i" and "i \<le> gbl_next_channel_id s" and "\<And>x chx. chans s x = Some chx \<Longrightarrow> chid chx \<noteq> i"
  shows "kinv H (store_proc e (pe\<lparr>channels := c # channels pe\<rparr>) (store_chan c ch s))"
proof (rule kinvI)
  let ?pe = "pe\<lparr>channels := c # channels pe\<rparr>"
  let ?s = "store_proc e ?pe (store_chan c ch s)"
  have no: "\<not> owned (procs s) c"
    using kinv_proc [OF assms(1)] assms(3) by (fastforce simp: owned_def proc_inv_def)
  have H: "H c = 0" using kinvD(3) [OF assms(1)] assms(3) by (auto simp: refs_inv_def)
  have own: "owned (procs ?s) x \<longleftrightarrow> x = c \<or> owned (procs s) x" for x
    using assms(2) by (simp add: owned_def) (metis option.inject)
  have proc: "proc_inv (chans ?s) (msgs s) px" if "procs s x = Some px" for x px
    using kinv_proc [OF assms(1) that] by (auto simp: proc_inv_def)
  have notin: "c \<notin> set (channels px)" if "procs s x = Some px" for x px
    using no that by (auto simp: owned_def)
  have "proc_inv (chans ?s) (msgs s) ?pe"
    using proc [OF assms(2)] notin [OF assms(2)] by (auto simp: proc_inv_def)
  then show "procs_inv (procs ?s) (chans ?s) (msgs ?s)"
    using kinvD(2) [OF assms(1)] proc notin assms(2) unfolding procs_inv_def by simp blast
  show "refs_inv H (procs ?s) (chans ?s)"
    using kinvD(3) [OF assms(1)] H no assms(5) unfolding refs_inv_def refs_def own by auto
  have "chan_inv (msgs s) (qnx_max_noreply_msg_num s) ch"
    using kinvD(4) [OF assms(1)] assms(5) by (simp add: chan_inv_def queue_inv_def)
  then have "queue_inv ((chans s)(c \<mapsto> ch)) (msgs s) (qnx_max_noreply_msg_num s)"
    by (rule queue_inv_upd [OF kinvD(4) [OF assms(1)]]) (simp_all add: assms(5))
  then show "queue_inv (chans ?s) (msgs ?s) (qnx_max_noreply_msg_num ?s)"
    by (simp add: store_proc_def store_chan_def)
  show "ids_inv (chans ?s) (gbl_next_channel_id ?s)"
    using kinvD(5) [OF assms(1)] assms(5-8) by (auto simp: ids_inv_def store_proc_def store_chan_def)
  show "list_inv (process_entries ?s) (procs ?s)"
    using kinvD(1) [OF assms(1)] assms(2) by (auto simp: list_inv_def split: if_splits)
  show "fresh_inv ?s"
    using kinvD(7) [OF assms(1)] assms(2,4) by (auto simp: fresh_inv_def store_proc_def store_chan_def)
qed (use kinvD [OF assms(1)] in \<open>simp_all add: store_proc_def store_chan_def\<close>)

lemma kinv_disown_channel:
  assumes "kinv H s" and "procs s e = Some pe" and "c \<in> set (channels pe)"
  shows "kinv (holding c H) (store_proc e (pe\<lparr>channels := remove1 c (channels pe)\<rparr>) s)"
proof (rule kinvI)
  let ?pe = "pe\<lparr>channels := remove1 c (channels pe)\<rparr>"
  let ?s = "store_proc e ?pe s"
  note pinv = kinv_proc [OF assms(1,2)]
  have dist: "distinct (channels pe)" using pinv by (simp add: proc_inv_def)
  have others: "set (channels pe) \<inter> set (channels px) = {}" if "procs s x = Some px" "x \<noteq> e" for x px
    using kinvD(2) [OF assms(1)] assms(2) that unfolding procs_inv_def by blast
  have own: "owned (procs ?s) x \<longleftrightarrow> x \<noteq> c \<and> owned (procs s) x" for x
  proof
    assume "owned (procs ?s) x"
    then show "x \<noteq> c \<and> owned (procs s) x"
      using assms(2,3) dist others unfolding owned_def by (auto split: if_splits)
  next
    assume "x \<noteq> c \<and> owned (procs s) x"
    then obtain e1 p1 where "x \<noteq> c" "procs s e1 = Some p1" "x \<in> set (channels p1)" by (auto simp: owned_def)
    then show "owned (procs ?s) x"
      using assms(2) by (cases "e1 = e") (auto simp: owned_def)
  qed
  have "owned (procs s) c" by (rule owned_iff [OF assms(2,3)])
  then have "refs (holding c H) (procs ?s) x = refs H (procs s) x" for x
    unfolding refs_def own by simp
  moreover have "c \<in> dom (chans s)" using pinv assms(3) by (auto simp: proc_inv_def)
  moreover have "x = c" if "0 < holding c H x" "\<not> 0 < H x" for x
    using that by (cases "x = c") simp_all
  ultimately show "refs_inv (holding c H) (procs ?s) (chans ?s)"
    using kinvD(3) [OF assms(1)] unfolding refs_inv_def store_proc_simps by metis
  have "proc_inv (chans s) (msgs s) ?pe"
    using pinv by (auto simp: proc_inv_def dest: notin_set_remove1)
  then show "procs_inv (procs ?s) (chans ?s) (msgs ?s)"
    using kinvD(2) [OF assms(1)] assms(2) set_remove1_subset [of c "channels pe"]
    unfolding procs_inv_def by simp blast
  show "list_inv (process_entries ?s) (procs ?s)"
    using kinvD(1) [OF assms(1)] assms(2) by (auto simp: list_inv_def split: if_splits)
  show "fresh_inv ?s"
    using kinvD(7) [OF assms(1)] assms(2) by (auto simp: fresh_inv_def store_proc_def)
qed (use kinvD [OF assms(1)] in \<open>simp_all add: store_proc_def\<close>)

text \<open>\<open>ChannelCreate\<close> and \<open>ChannelDestroy\<close>.\<close>

lemma kinv_add_channel:
  assumes "kinv H s" and "procs s e = Some pe" and "gbl_next_channel_id s < 2 ^ 31 - 1"
  obtains (nomem) "\<not> kmalloc env A_channel 0" and "qnx_process_entry_add_channel env e s = Some (- ENOMEM, s)"
  | (limit) s' where "kmalloc env A_channel 0"
      and "qnx_max_channels_per_process s \<le> get_num_channels_unlocked pe"
      and "qnx_process_entry_add_channel env e s = Some (- EMFILE, s')" and "kinv H s'"
      and "chans s' = chans s" and "procs s' = procs s" and "msgs s' = msgs s"
      and "process_entries s' = process_entries s"
  | (made) s' c ch where "kmalloc env A_channel 0"
      and "get_num_channels_unlocked pe < qnx_max_channels_per_process s"
      and "qnx_process_entry_add_channel env e s = Some (gbl_next_channel_id s + 1, s')" and "kinv H s'"
      and "chans s c = None" and "chid ch = gbl_next_channel_id s + 1" and "waiting ch = []"
      and "chans s' = (chans s)(c \<mapsto> ch)" and "procs s' = (procs s)(e \<mapsto> pe\<lparr>channels := c # channels pe\<rparr>)"
      and "msgs s' = msgs s" and "process_entries s' = process_entries s"
proof -
  let ?i = "gbl_next_channel_id s + 1"
  let ?c = "next_addr s"
  let ?ch = "\<lparr>ch_refcnt = 1, chid = ?i, waiting = [], num_waiting = 0, num_waiting_noreply = 0\<rparr>"
  let ?s = "s\<lparr>next_addr := Suc ?c, gbl_next_channel_id := ?i\<rparr>"
  have pos: "0 \<le> gbl_next_channel_id s" using kinvD(5) [OF assms(1)] by (simp add: ids_inv_def)
  have fresh: "chans s ?c = None" using kinvD(7) [OF assms(1)] by (simp add: fresh_inv_def)
  have k: "kinv H (s\<lparr>next_addr := Suc ?c\<rparr>)" using kinv_alloc [OF assms(1)] by (simp add: alloc_def)
  have k1: "kinv H ?s" using kinv_draw_chid [OF k, of ?i] by simp
  have new: "chid chx \<noteq> ?i" if "chans s x = Some chx" for x chx
    using kinvD(5) [OF assms(1)] that by (force simp: ids_inv_def)
  have init: "qnx_channel_init (snd (alloc s)) = (?i, ?ch, ?s)"
    using pos assms(3) by (simp add: qnx_channel_init_def get_new_channel_id_def alloc_def Let_def wrap32_small)
  have eq: "qnx_process_entry_add_channel env e s =
      (if \<not> kmalloc env A_channel 0 then Some (- ENOMEM, s)
       else if get_num_channels_unlocked pe < qnx_max_channels_per_process s
       then Some (?i, store_proc e (pe\<lparr>channels := ?c # channels pe\<rparr>) (store_chan ?c ?ch ?s))
       else Some (- EMFILE, ?s))"
    using init assms(2) pos fresh
    by (simp add: qnx_process_entry_add_channel_def alloc_def Let_def store_chan_def fun_upd_idem_iff)
  have "kinv H (store_proc e (pe\<lparr>channels := ?c # channels pe\<rparr>) (store_chan ?c ?ch ?s))"
    by (rule kinv_own_channel [OF k1 _ _ _ refl]) (use assms(2) fresh pos new in auto)
  note k2 = this
  show thesis
  proof (cases "kmalloc env A_channel 0")
    case False
    then show thesis by (intro nomem) (simp_all add: eq)
  next
    case mem: True
    show thesis
    proof (cases "get_num_channels_unlocked pe < qnx_max_channels_per_process s")
      case True
      show thesis
        by (rule made [OF mem True _ k2 fresh, of ?ch]) (use mem True in \<open>simp_all add: eq store_proc_def\<close>)
    next
      case False
      show thesis
        by (rule limit [OF mem _ _ k1]) (use mem False in \<open>simp_all add: eq\<close>)
    qed
  qed
qed

lemma kinv_remove_channel:
  assumes "kinv H s" and "procs s e = Some pe"
  obtains (none) "qnx_process_entry_remove_channel e i s = Some (- EINVAL, s)" and "\<And>c. \<not> channel_of s e i c"
  | (removed) c s' where "channel_of s e i c" and "qnx_process_entry_remove_channel e i s = Some (0, s')"
      and "kinv H s'" and "procs s' = (procs s)(e \<mapsto> pe\<lparr>channels := remove1 c (channels pe)\<rparr>)"
      and "process_entries s' = process_entries s" and "\<And>x. x \<noteq> c \<Longrightarrow> chans s' x = chans s x"
      and "sender_frame s s'"
  using assms
proof (cases rule: kinv_search_channel [where i = i])
  case none
  then show thesis
    using that(1) assms(2) by (force simp: qnx_process_entry_remove_channel_def channel_of_def)
next
  case (found c ch)
  let ?s = "store_proc e (pe\<lparr>channels := remove1 c (channels pe)\<rparr>) s"
  have "kinv (holding c H) ?s" by (rule kinv_disown_channel [OF assms found(2)])
  moreover have "0 < (holding c H) c" by simp
  ultimately obtain s' where s': "qnx_channel_release c ?s = Some s'"
    "kinv ((holding c H)(c := (holding c H) c - 1)) s'" "procs_frame ?s s'" "sender_frame ?s s'"
    "\<And>x. x \<noteq> c \<Longrightarrow> chans s' x = chans ?s x"
    by (rule kinv_channel_release) blast
  have "in_no_list d ?s" if "in_no_list d s" for d
    using that assms(2) by (auto simp: in_no_list_def)
  then have "sender_frame s s'"
    using s'(4) by (auto simp: sender_frame_def)
  moreover have "channel_of s e i c" using found assms(2) by (auto simp: channel_of_def)
  ultimately show thesis
    using that(2) [of c s'] s' found assms(2)
    by (simp add: qnx_process_entry_remove_channel_def procs_frame_def)
qed

section \<open>Connections\<close>

lemma kinv_find_connection:
  assumes "kinv H s" and "procs s e = Some pe" and "int_range coid"
  shows "qnx_process_entry_find_connection e coid s =
    Some (case table_map (connections pe) coid of Some c \<Rightarrow> c | None \<Rightarrow> \<lparr>conn_pid = 0, conn_chid = 0\<rparr>)"
  using retrieve_table_map [OF _ assms(3)] kinv_proc [OF assms(1,2)] assms(2)
  by (simp add: qnx_process_entry_find_connection_def proc_inv_def)

lemma kinv_store_connections:
  assumes "kinv H s" and "procs s e = Some pe" and "wf_table t"
  shows "kinv H (store_proc e (pe\<lparr>connections := t\<rparr>) s)"
  by (rule kinv_store_proc [OF assms(1,2)])
    (use assms(2,3) kinvD(1) [OF assms(1)] in \<open>auto simp: list_inv_def\<close>)

lemma kinv_remove_connection:
  assumes "kinv H s" and "procs s e = Some pe" and "int_range coid"
  obtains t where "qnx_process_entry_remove_connection e coid s =
      Some (if table_map (connections pe) coid = None then - EINVAL else 0, store_proc e (pe\<lparr>connections := t\<rparr>) s)"
    and "kinv H (store_proc e (pe\<lparr>connections := t\<rparr>) s)"
    and "table_map t = (table_map (connections pe))(coid := None)"
proof -
  have wf: "wf_table (connections pe)" using kinv_proc [OF assms(1,2)] by (simp add: proc_inv_def)
  obtain t where "qnx_connection_table_remove coid (connections pe) =
      Some (if table_map (connections pe) coid = None then - EINVAL else 0, t)" "wf_table t"
    "table_map t = (table_map (connections pe))(coid := None)"
    by (rule remove_table_map [OF wf assms(3)])
  then show thesis
    using that kinv_store_connections [OF assms(1,2)] assms(2)
    by (simp add: qnx_process_entry_remove_connection_def)
qed

text \<open>
  Attaching: the reference to the target process is given back on every path, so that only the
  table of the caller changes.
\<close>

lemma kinv_process_target:
  assumes "kinv H s" and "q \<in> set (process_entries s)" and "procs s q = Some qe"
  shows "kinv H (store_proc q (qe\<lparr>pe_refcnt := Suc (pe_refcnt qe)\<rparr>) s)"
    and "0 < pe_refcnt qe"
proof -
  show "0 < pe_refcnt qe" using kinvD(1) [OF assms(1)] assms(2,3) by (simp add: list_inv_def)
  show "kinv H (store_proc q (qe\<lparr>pe_refcnt := Suc (pe_refcnt qe)\<rparr>) s)"
    by (rule kinv_store_proc [OF assms(1,3)])
      (use kinv_proc [OF assms(1,3)] in \<open>auto simp: proc_inv_def\<close>)
qed

lemma release_other_changes:
  assumes "procs s q = Some qe" and "0 < pe_refcnt qe" and "procs s e = Some pe"
    and "procs (store_proc q (qe\<lparr>pe_refcnt := Suc (pe_refcnt qe)\<rparr>) s) e = Some pe1"
  shows "qnx_process_entry_release q
      (store_proc e (pe1\<lparr>connections := t\<rparr>) (store_proc q (qe\<lparr>pe_refcnt := Suc (pe_refcnt qe)\<rparr>) s)) =
    Some (store_proc e (pe\<lparr>connections := t\<rparr>) s)"
  using assms
  by (cases "q = e")
    (auto simp: qnx_process_entry_release_def store_proc_def fun_upd_twist fun_upd_idem)

lemma kinv_add_connection:
  assumes "kinv H s" and "procs s e = Some pe"
  obtains (dead) "qnx_process_entry_add_connection env e att s = Some (- ESRCH, s)"
      and "\<And>q qe c. q \<in> set (process_entries s) \<Longrightarrow> procs s q = Some qe \<Longrightarrow> pid qe = att_pid att \<Longrightarrow>
             \<not> channel_of s q (att_chid att) c"
  | (nomem) "qnx_process_entry_add_connection env e att s = Some (- ENOMEM, s)" and "\<not> kmalloc env A_conn 0"
  | (added) rc t s' q qe c where "q \<in> set (process_entries s)" and "procs s q = Some qe"
      and "pid qe = att_pid att" and "channel_of s q (att_chid att) c"
      and "qnx_connection_table_add (qnx_max_connections_per_process s)
             (kmalloc env A_table (table_bytes (2 * qnx_connection_table_get_capacity (connections pe))))
             (qnx_connection_init (att_pid att) (att_chid att)) (connections pe) = Some (rc, t)"
      and "s' = store_proc e (pe\<lparr>connections := t\<rparr>) s"
      and "qnx_process_entry_add_connection env e att s = Some (rc, s')" and "kinv H s'"
  using assms(1)
proof (cases rule: kinv_find_process [where p = "att_pid att"])
  case none
  then show thesis by (intro dead) (auto simp: qnx_process_entry_add_connection_def)
next
  case (found q qe)
  let ?qe = "qe\<lparr>pe_refcnt := Suc (pe_refcnt qe)\<rparr>"
  let ?s = "store_proc q ?qe s"
  note tgt = kinv_process_target [OF assms(1) found(1,2)]
  have atq: "procs ?s q = Some ?qe" by simp
  have rel: "qnx_process_entry_release q ?s = Some s"
    using pref.unref_shared [of ?s q ?qe] tgt(2) pref.store_id [OF found(2)] by (simp add: pref.store_store)
  have uniq: "q' = q" if "q' \<in> set (process_entries s)" "procs s q' = Some qe'" "pid qe' = att_pid att" for q' qe'
    using kinvD(1) [OF assms(1)] found(1-3) that unfolding list_inv_def by metis
  show thesis
    using tgt(1) atq
  proof (cases rule: kinv_search_channel [where i = "att_chid att"])
    case none
    have "\<not> channel_of s q (att_chid att) c" for c
      using none(2) found(2) by (auto simp: channel_of_def)
    then show thesis
      using none(1) found(4) rel uniq
      by (intro dead) (auto simp: qnx_process_entry_add_connection_def qnx_process_entry_is_channel_available_def)
  next
    case hit: (found c ch)
    have av: "qnx_process_entry_is_channel_available q (att_chid att) ?s = Some True"
      using hit(1) by (simp add: qnx_process_entry_is_channel_available_def)
    show thesis
    proof (cases "kmalloc env A_conn 0")
      case False
      then show thesis
        using found(4) av rel by (intro nomem) (auto simp: qnx_process_entry_add_connection_def)
    next
      case True
      obtain pe1 where pe1: "procs ?s e = Some pe1" "connections pe1 = connections pe"
        using assms(2) found(2) by (cases "q = e") auto
      have wf: "wf_table (connections pe)" using kinv_proc [OF assms] by (simp add: proc_inv_def)
      have max: "0 \<le> qnx_max_connections_per_process s" "qnx_max_connections_per_process s < 2 ^ 31"
        using kinvD(8) [OF assms(1)] by (simp_all add: params_inv_def)
      obtain rc t where add: "qnx_connection_table_add (qnx_max_connections_per_process s)
             (kmalloc env A_table (table_bytes (2 * qnx_connection_table_get_capacity (connections pe))))
             (qnx_connection_init (att_pid att) (att_chid att)) (connections pe) = Some (rc, t)" "wf_table t"
        using add_wf [OF wf max] by blast
      have "qnx_process_entry_add_connection env e att s = Some (rc, store_proc e (pe\<lparr>connections := t\<rparr>) s)"
        using found(4) av True pe1 add(1) release_other_changes [OF found(2) tgt(2) assms(2) pe1(1)]
        by (simp add: qnx_process_entry_add_connection_def store_proc_def)
      moreover have "channel_of s q (att_chid att) c"
        using hit found(2) by (auto simp: channel_of_def)
      ultimately show thesis
        using added [OF found(1-3) _ add(1) refl] kinv_store_connections [OF assms add(2)] by blast
    qed
  qed
qed

section \<open>Poll files\<close>

lemma kinv_store_pollfds:
  assumes "kinv H s" and "procs s e = Some pe"
  shows "kinv H (store_proc e (pe\<lparr>pollfds := fs\<rparr>) s)"
  by (rule kinv_store_proc [OF assms])
    (use assms(2) kinvD(1) [OF assms(1)] kinv_proc [OF assms] in \<open>auto simp: list_inv_def proc_inv_def\<close>)

lemma kinv_pollfd_ops:
  assumes "kinv H s" and "procs s e = Some pe"
  shows "\<exists>rc s'. qnx_process_entry_add_pollfd env e f i s = Some (rc, s') \<and> kinv H s'"
    and "\<exists>rc s'. qnx_process_entry_remove_pollfd e f s = Some (rc, s') \<and> kinv H s' \<and>
           (\<exists>fs. procs s' = (procs s)(e \<mapsto> pe\<lparr>pollfds := fs\<rparr>)) \<and> process_entries s' = process_entries s"
proof -
  obtain h where "list_search (chans s) (\<lambda>ch. chid ch = i) (channels pe) = Some h"
    by (rule kinv_search_channel [OF assms, of i])
  then show "\<exists>rc s'. qnx_process_entry_add_pollfd env e f i s = Some (rc, s') \<and> kinv H s'"
    using assms kinv_store_pollfds [OF assms]
    by (auto simp: qnx_process_entry_add_pollfd_def qnx_process_entry_is_channel_available_def)
  show "\<exists>rc s'. qnx_process_entry_remove_pollfd e f s = Some (rc, s') \<and> kinv H s' \<and>
           (\<exists>fs. procs s' = (procs s)(e \<mapsto> pe\<lparr>pollfds := fs\<rparr>)) \<and> process_entries s' = process_entries s"
  proof (cases "find (\<lambda>p. pf_file p = f) (pollfds pe)")
    case None
    have "procs s = (procs s)(e \<mapsto> pe\<lparr>pollfds := pollfds pe\<rparr>)"
      using assms(2) by (simp add: fun_upd_idem)
    moreover have "qnx_process_entry_remove_pollfd e f s = Some (- EINVAL, s)"
      using None assms(2) by (simp add: qnx_process_entry_remove_pollfd_def)
    ultimately show ?thesis using assms(1) by blast
  next
    case (Some p)
    with assms show ?thesis
      using kinv_store_pollfds [OF assms, of "remove1 p (pollfds pe)"]
      by (simp add: qnx_process_entry_remove_pollfd_def) blast
  qed
qed

section \<open>The beginning and the end of a process\<close>

lemma kinv_add_process:
  assumes "kinv H s" and "procs s e = None" and "e < next_addr s" and "channels pe = []" and "pending pe = []"
    and "0 < pe_refcnt pe" and "wf_table (connections pe)"
    and "\<And>x px. x \<in> set (process_entries s) \<Longrightarrow> procs s x = Some px \<Longrightarrow> pid px \<noteq> pid pe"
  shows "kinv H (qnx_driver_data_add_process e (store_proc e pe s))"
proof (rule kinvI)
  let ?s = "qnx_driver_data_add_process e (store_proc e pe s)"
  have notin: "e \<notin> set (process_entries s)" using kinvD(1) [OF assms(1)] assms(2) by (auto simp: list_inv_def)
  have lst: "process_entries ?s = e # process_entries s" "procs ?s = (procs s)(e \<mapsto> pe)"
    by (simp_all add: qnx_driver_data_add_process_def)
  have old: "procs ?s x = procs s x" if "x \<in> set (process_entries s)" for x
    using notin that by (auto simp: lst)
  show "list_inv (process_entries ?s) (procs ?s)"
    unfolding list_inv_def
  proof (intro conjI allI impI ballI; (elim conjE)?)
    fix x y px py
    assume "x \<in> set (process_entries ?s)" "y \<in> set (process_entries ?s)" "procs ?s x = Some px"
      "procs ?s y = Some py" "pid px = pid py"
    then show "x = y"
      using kinvD(1) [OF assms(1)] assms(8) [of x px] assms(8) [of y py] old notin
      unfolding lst list_inv_def by (auto split: if_splits)
  qed (use kinvD(1) [OF assms(1)] notin assms(6) old in \<open>auto simp: lst list_inv_def\<close>)
  have "owned (procs ?s) = owned (procs s)"
    unfolding lst using assms(2,4) by (intro ext) (simp add: owned_def, metis option.distinct(1))
  from refs_inv_cong [OF this] show "refs_inv H (procs ?s) (chans ?s)"
    using kinvD(3) [OF assms(1)] by (simp add: qnx_driver_data_add_process_def)
  show "procs_inv (procs ?s) (chans ?s) (msgs ?s)"
    using kinvD(2) [OF assms(1)] assms(4,5,7)
    by (auto simp: procs_inv_def proc_inv_def qnx_driver_data_add_process_def)
  show "fresh_inv ?s"
    using kinvD(7) [OF assms(1)] assms(3)
    by (auto simp: fresh_inv_def qnx_driver_data_add_process_def store_proc_def)
qed (use kinvD [OF assms(1)] in \<open>simp_all add: store_proc_def qnx_driver_data_add_process_def\<close>)

lemma sender_frame_trans:
  assumes "sender_frame s s1" and "sender_frame s1 s2" and "\<And>d. in_no_list d s \<Longrightarrow> in_no_list d s1"
  shows "sender_frame s s2"
  using assms unfolding sender_frame_def by metis

lemma sender_frame_store_proc:
  "sender_frame (store_proc e pe s) s' \<Longrightarrow> procs s e = Some pe0 \<Longrightarrow> pending pe = pending pe0 \<Longrightarrow> sender_frame s s'"
  unfolding sender_frame_def in_no_list_def by simp

text \<open>A channel that threads hold survives the release of another reference, with its queue.\<close>

lemma release_keeps_queue:
  assumes "kinv (holding c H) s" and "0 < H x" and "chans s x = Some ch" and "qnx_channel_release c s = Some s'"
    and "\<And>y. y \<noteq> c \<Longrightarrow> chans s' y = chans s y"
  shows "\<exists>ch'. chans s' x = Some ch' \<and> waiting ch' = waiting ch"
proof (cases "x = c")
  case True
  have "1 < ch_refcnt ch" using refs_at [OF assms(1,3)] assms(2) True by (simp add: refs_def holding_def)
  then have "s' = store_chan c (ch\<lparr>ch_refcnt := ch_refcnt ch - 1\<rparr>) s"
    using cref.unref_shared [of s c ch] assms(3,4) True by simp
  then show ?thesis using True by simp
qed (use assms(3,5) in simp)

lemma kinv_release_channels:
  assumes "kinv H s" and "procs s e = Some pe" and "channels pe = cs"
  shows "\<exists>s'. release_channels e cs s = Some s' \<and> kinv H s' \<and>
    procs s' = (procs s)(e \<mapsto> pe\<lparr>channels := []\<rparr>) \<and> process_entries s' = process_entries s \<and>
    (\<forall>d. in_no_list d s \<longrightarrow> in_no_list d s') \<and> sender_frame s s' \<and> (\<forall>t. running s t \<longrightarrow> running s' t) \<and>
    (\<forall>x ch. 0 < H x \<and> chans s x = Some ch \<longrightarrow> (\<exists>ch'. chans s' x = Some ch' \<and> waiting ch' = waiting ch))"
  using assms
proof (induction cs arbitrary: s pe)
  case Nil
  then show ?case by (auto simp: fun_upd_idem sender_frame_def)
next
  case (Cons c cs)
  let ?s = "store_proc e (pe\<lparr>channels := cs\<rparr>) s"
  have disowned: "kinv (holding c H) ?s"
    using kinv_disown_channel [OF Cons.prems(1,2), of c] Cons.prems(3) by simp
  have pos: "0 < (holding c H) c" by simp
  obtain s1 where s1: "qnx_channel_release c ?s = Some s1"
    "kinv ((holding c H)(c := (holding c H) c - 1)) s1" "procs_frame ?s s1" "sender_frame ?s s1"
    "\<And>x. x \<noteq> c \<Longrightarrow> chans s1 x = chans ?s x" "\<And>t. running ?s t \<Longrightarrow> running s1 t"
    "\<And>d. in_no_list d ?s \<Longrightarrow> in_no_list d s1"
    by (rule kinv_channel_release [OF disowned pos]) blast
  have k: "kinv H s1" using s1(2) by simp
  have ps: "procs s1 = (procs s)(e \<mapsto> pe\<lparr>channels := cs\<rparr>)" "process_entries s1 = process_entries s"
    using s1(3) by (simp_all add: procs_frame_def)
  have at: "procs s1 e = Some (pe\<lparr>channels := cs\<rparr>)" and chs: "channels (pe\<lparr>channels := cs\<rparr>) = cs"
    and upd: "pe\<lparr>channels := cs\<rparr>\<lparr>channels := []\<rparr> = pe\<lparr>channels := []\<rparr>"
    by (simp_all add: ps)
  obtain s' where s': "release_channels e cs s1 = Some s'" "kinv H s'"
      "procs s' = (procs s1)(e \<mapsto> pe\<lparr>channels := []\<rparr>)" "process_entries s' = process_entries s1"
      "\<forall>d. in_no_list d s1 \<longrightarrow> in_no_list d s'" "sender_frame s1 s'" "\<forall>t. running s1 t \<longrightarrow> running s' t"
      "\<forall>x ch. 0 < H x \<and> chans s1 x = Some ch \<longrightarrow> (\<exists>ch'. chans s' x = Some ch' \<and> waiting ch' = waiting ch)"
    using Cons.IH [OF k at chs] unfolding upd by blast
  have queues: "\<exists>ch'. chans s' x = Some ch' \<and> waiting ch' = waiting ch" if "0 < H x" "chans s x = Some ch" for x ch
  proof -
    have "chans ?s x = Some ch" using that(2) by simp
    from release_keeps_queue [OF disowned that(1) this s1(1,5)] show ?thesis using s'(8) that(1) by metis
  qed
  have frame: "sender_frame s s1"
    by (rule sender_frame_store_proc [OF s1(4) Cons.prems(2)]) simp
  have out: "in_no_list d s1" if "in_no_list d s" for d
    by (rule s1(7)) (use that Cons.prems(2) in \<open>auto simp: in_no_list_def\<close>)
  have "release_channels e (c # cs) s = Some s'"
    using s'(1) s1(1) Cons.prems(2) by simp
  moreover have "procs s' = (procs s)(e \<mapsto> pe\<lparr>channels := []\<rparr>)" "process_entries s' = process_entries s"
    using s'(3,4) by (simp_all add: ps)
  moreover have "\<forall>d. in_no_list d s \<longrightarrow> in_no_list d s'" using out s'(5) by blast
  moreover have "sender_frame s s'" by (rule sender_frame_trans [OF frame s'(6) out])
  moreover have "\<forall>t. running s t \<longrightarrow> running s' t" using s1(6) s'(7) by (simp add: store_proc_def)
  ultimately show ?case using s'(2) queues by blast
qed

lemma kinv_end_process:
  assumes "kinv H s" and "procs s e = Some pe" and "channels pe = []" and "e \<notin> set (process_entries s)"
  shows "kinv H (s\<lparr>procs := (procs s)(e := None), msgs := flush_msgs (pending pe) (msgs s), running := r, uaf := u\<rparr>)"
proof (rule kinvI)
  let ?ms = "flush_msgs (pending pe) (msgs s)"
  let ?s = "s\<lparr>procs := (procs s)(e := None), msgs := ?ms, running := r, uaf := u\<rparr>"
  have "procs_inv ((procs s)(e := None)) (chans s) (msgs s)"
    using kinvD(2) [OF assms(1)] by (auto simp: procs_inv_def)
  then have "procs_inv ((procs s)(e := None)) (chans s) ?ms"
  proof (rule procs_inv_cong)
    show "?ms d = msgs s d" if "((procs s)(e := None)) x = Some px" "d \<in> set (pending px)" for x px d
    proof -
      have "set (pending px) \<inter> set (pending pe) = {}"
        using kinvD(2) [OF assms(1)] assms(2) that(1) unfolding procs_inv_def by (auto split: if_splits)
      with that(2) show ?thesis by (auto simp: flush_msgs_def)
    qed
  qed
  then show "procs_inv (procs ?s) (chans ?s) (msgs ?s)" by simp
  have "queue_inv (chans s) ?ms (qnx_max_noreply_msg_num s)"
  proof (rule queue_inv_cong [OF kinvD(4) [OF assms(1)]])
    show "?ms d = msgs s d" if "chans s c = Some ch" "d \<in> set (waiting ch)" for c ch d
      using kinv_waiting_msg [OF assms(1) that] kinv_pending_msg [OF assms(1,2), of d] by (auto simp: flush_msgs_def)
  qed
  then show "queue_inv (chans ?s) (msgs ?s) (qnx_max_noreply_msg_num ?s)" by simp
  have "owned ((procs s)(e := None)) = owned (procs s)"
    using assms(2,3) by (intro ext) (simp add: owned_def, metis empty_iff list.set(1) option.inject)
  from refs_inv_cong [OF this] show "refs_inv H (procs ?s) (chans ?s)"
    using kinvD(3) [OF assms(1)] by simp
  show "list_inv (process_entries ?s) (procs ?s)"
    using kinvD(1) [OF assms(1)] assms(4) by (auto simp: list_inv_def split: if_splits)
  show "fresh_inv ?s"
    using kinvD(7) [OF assms(1)] by (auto simp: fresh_inv_def flush_msgs_def)
qed (use kinvD [OF assms(1)] flush_inv in simp_all)

lemma table_destroy_total: "wf_table t \<Longrightarrow> \<exists>cs. qnx_connection_table_destroy t = Some cs"
  by (cases t) (auto simp: qnx_connection_table_destroy_def wf_table_def destroy_loop_eq)

lemma kinv_last_release:
  assumes "kinv H s" and "procs s e = Some pe" and "pe_refcnt pe = 1" and "e \<notin> set (process_entries s)"
  obtains s' where "qnx_process_entry_release e s = Some s'" and "kinv H s'"
    and "procs s' = (procs s)(e := None)" and "process_entries s' = process_entries s"
    and "sender_frame s s'" and "\<And>t. running s t \<Longrightarrow> running s' t"
    and "\<And>d m t. d \<in> set (pending pe) \<Longrightarrow> msgs s d = Some m \<Longrightarrow> task m = Some t \<Longrightarrow>
           running s' t \<and> (\<exists>m'. msgs s' d = Some m' \<and> status m' = - ESRCH \<and> task m' = Some t)"
    and "\<And>x ch. 0 < H x \<Longrightarrow> chans s x = Some ch \<Longrightarrow> \<exists>ch'. chans s' x = Some ch' \<and> waiting ch' = waiting ch"
proof -
  let ?z = "store_proc e (pe\<lparr>pe_refcnt := 0\<rparr>) s"
  have k0: "kinv H ?z"
    by (rule kinv_store_proc [OF assms(1,2)])
      (use assms(4) kinv_proc [OF assms(1,2)] in \<open>auto simp: proc_inv_def\<close>)
  have at0: "procs ?z e = Some (pe\<lparr>pe_refcnt := 0\<rparr>)" by simp
  obtain s1 where s1: "release_channels e (channels pe) ?z = Some s1" "kinv H s1"
      "procs s1 = (procs ?z)(e \<mapsto> pe\<lparr>pe_refcnt := 0, channels := []\<rparr>)" "process_entries s1 = process_entries ?z"
      "\<forall>d. in_no_list d ?z \<longrightarrow> in_no_list d s1" "sender_frame ?z s1" "\<forall>t. running ?z t \<longrightarrow> running s1 t"
      "\<forall>x ch. 0 < H x \<and> chans ?z x = Some ch \<longrightarrow> (\<exists>ch'. chans s1 x = Some ch' \<and> waiting ch' = waiting ch)"
    using kinv_release_channels [OF k0 at0, of "channels pe"] by (simp del: fun_upd_apply) blast
  let ?pe = "pe\<lparr>pe_refcnt := 0, channels := []\<rparr>"
  have at1: "procs s1 e = Some ?pe" by (simp add: s1(3))
  have pend: "distinct (pending pe)" "\<forall>d \<in> set (pending pe). \<exists>m. msgs s1 d = Some m \<and> task m \<noteq> None"
    using kinv_proc [OF s1(2) at1] by (auto simp: proc_inv_def)
  then have live: "set (pending pe) \<subseteq> dom (msgs s1)" by auto
  let ?f = "s1\<lparr>msgs := flush_msgs (pending pe) (msgs s1),
    running := (\<lambda>t. running s1 t \<or> woken_by (pending pe) (msgs s1) t),
    uaf := rev (filter (no_task (msgs s1)) (pending pe)) @ uaf s1\<rparr>"
  let ?s = "?f\<lparr>procs := (procs s1)(e := None)\<rparr>"
  obtain cs where cs: "qnx_connection_table_destroy (connections pe) = Some cs"
    using table_destroy_total [of "connections pe"] kinv_proc [OF assms(1,2)] by (auto simp: proc_inv_def)
  have run: "qnx_process_entry_release e s = Some ?s"
    using assms(2,3) s1(1) free_msg_list_eq [OF pend(1) live] cs
    by (simp add: qnx_process_entry_release_def qnx_process_entry_free_def)
  have eq: "?s = s1\<lparr>procs := (procs s1)(e := None), msgs := flush_msgs (pending pe) (msgs s1),
      running := (\<lambda>t. running s1 t \<or> woken_by (pending pe) (msgs s1) t),
      uaf := rev (filter (no_task (msgs s1)) (pending pe)) @ uaf s1\<rparr>"
    by (rule kstate.equality) simp_all
  have np: "e \<notin> set (process_entries s1)" using s1(4) assms(4) by simp
  have k: "kinv H ?s"
    unfolding eq using kinv_end_process [OF s1(2) at1 _ np] by simp
  have fr: "sender_frame s s1" by (rule sender_frame_store_proc [OF s1(6) assms(2)]) simp
  have "sender_frame s ?s"
    unfolding sender_frame_def
  proof (intro conjI allI impI)
    fix d m
    assume "msgs s d = Some m \<and> task m \<noteq> None"
    then obtain m1 where "msgs s1 d = Some m1" "task m1 = task m" "rcvid m1 = rcvid m" "data m1 = data m"
        "receiver_pid m1 = receiver_pid m" "task m1 \<noteq> None"
      using fr unfolding sender_frame_def by metis
    then show "\<exists>m'. msgs ?s d = Some m' \<and> task m' = task m \<and> rcvid m' = rcvid m \<and> data m' = data m \<and>
        receiver_pid m' = receiver_pid m"
      by (auto simp: flush_msgs_def)
  next
    fix d
    assume "in_no_list d s"
    then have "msgs s1 d = msgs s d" "d \<notin> set (pending pe)"
      using fr assms(2) by (auto simp: sender_frame_def in_no_list_def)
    then show "msgs ?s d = msgs s d" by (simp add: flush_msgs_def)
  qed
  moreover have "running ?s t \<and> (\<exists>m'. msgs ?s d = Some m' \<and> status m' = - ESRCH \<and> task m' = Some t)"
    if pen: "d \<in> set (pending pe)" and live: "msgs s d = Some m" "task m = Some t" for d m t
  proof -
    obtain m1 where "msgs s1 d = Some m1" "task m1 = Some t"
      using fr live unfolding sender_frame_def by fastforce
    with pen show ?thesis by (auto simp: flush_msgs_def woken_by_def)
  qed
  moreover have "procs ?s = (procs s)(e := None)" "process_entries ?s = process_entries s"
    using s1(3,4) by simp_all
  moreover have "running ?s t" if "running s t" for t
    using s1(7) that by (simp add: store_proc_def)
  moreover have "\<exists>ch'. chans ?s x = Some ch' \<and> waiting ch' = waiting ch" if "0 < H x" "chans s x = Some ch" for x ch
    using s1(8) that by simp
  ultimately show thesis
    using that [OF run k] by blast
qed

section \<open>Properties\<close>

text \<open>
  A kernel with a server, process 7 with one channel of id 1, and a client, process 8, whose
  connection 1 leads to that channel.
\<close>

definition demo_server :: qnx_process_entry where
  "demo_server = \<lparr>pe_refcnt = 1, pid = 7, channels = [2], connections = None, pending = [], pollfds = []\<rparr>"

definition demo_client :: qnx_process_entry where
  "demo_client = \<lparr>pe_refcnt = 1, pid = 8, channels = [], connections = small_table, pending = [], pollfds = []\<rparr>"

definition demo_kernel :: kstate where
  "demo_kernel = init_kstate\<lparr>process_entries := [3, 1], procs := [1 \<mapsto> demo_server, 3 \<mapsto> demo_client],
     chans := [2 \<mapsto> \<lparr>ch_refcnt = 1, chid = 1, waiting = [], num_waiting = 0, num_waiting_noreply = 0\<rparr>],
     next_addr := 4, gbl_next_channel_id := 1\<rparr>"

lemmas demo_defs = demo_kernel_def demo_server_def demo_client_def init_kstate_def

lemma demo_kernel_inv: "kinv (\<lambda>_. 0) demo_kernel"
proof (rule kinvI)
  have own: "owned (procs demo_kernel) c \<longleftrightarrow> c = 2" for c
    by (auto simp: owned_def demo_defs)
  then show "refs_inv (\<lambda>_. 0) (procs demo_kernel) (chans demo_kernel)"
    by (simp add: refs_inv_def refs_def own) (simp add: demo_defs)
qed (auto simp: demo_defs list_inv_def procs_inv_def proc_inv_def queue_inv_def chan_inv_def ids_inv_def msgs_inv_def
    fresh_inv_def params_inv_def wf_small_table, simp_all add: wf_table_def)

lemma demo_kernel_procs: "procs demo_kernel 1 = Some demo_server" "procs demo_kernel 3 = Some demo_client"
  by (simp_all add: demo_kernel_def)

text \<open>
  The operations of a process on its channels, connections and poll files never follow a
  dead pointer, never index outside the connection table, and keep the invariant of the kernel
  state with no reference gained or lost, on every branch.
\<close>

theorem process_operations_safe:
  assumes "kinv H s" and "procs s e = Some pe" and "int_range coid" and "gbl_next_channel_id s < 2 ^ 31 - 1"
  shows "(\<exists>rc s'. qnx_process_entry_add_channel env e s = Some (rc, s') \<and> kinv H s') \<and>
    (\<exists>rc s'. qnx_process_entry_remove_channel e i s = Some (rc, s') \<and> kinv H s') \<and>
    (\<exists>rc s'. qnx_process_entry_add_connection env e att s = Some (rc, s') \<and> kinv H s') \<and>
    (\<exists>rc s'. qnx_process_entry_remove_connection e coid s = Some (rc, s') \<and> kinv H s') \<and>
    (\<exists>rc s'. qnx_process_entry_add_pollfd env e f i s = Some (rc, s') \<and> kinv H s') \<and>
    (\<exists>rc s'. qnx_process_entry_remove_pollfd e f s = Some (rc, s') \<and> kinv H s')"
proof (intro conjI)
  show "\<exists>rc s'. qnx_process_entry_add_channel env e s = Some (rc, s') \<and> kinv H s'"
    by (rule kinv_add_channel [OF assms(1,2,4), of env]) (use assms(1) in auto)
  show "\<exists>rc s'. qnx_process_entry_remove_channel e i s = Some (rc, s') \<and> kinv H s'"
    by (rule kinv_remove_channel [OF assms(1,2), of i]) (use assms(1) in auto)
  show "\<exists>rc s'. qnx_process_entry_add_connection env e att s = Some (rc, s') \<and> kinv H s'"
    by (rule kinv_add_connection [OF assms(1,2), of env att]) (use assms(1) in auto)
  show "\<exists>rc s'. qnx_process_entry_remove_connection e coid s = Some (rc, s') \<and> kinv H s'"
    by (rule kinv_remove_connection [OF assms(1-3)]) auto
qed (use kinv_pollfd_ops [OF assms(1,2)] in blast)+

theorem process_operations_safe_witness:
  "(\<exists>rc s'. qnx_process_entry_add_channel demo_env 1 demo_kernel = Some (rc, s') \<and> kinv (\<lambda>_. 0) s') \<and>
   (\<exists>rc s'. qnx_process_entry_remove_channel 1 1 demo_kernel = Some (rc, s') \<and> kinv (\<lambda>_. 0) s') \<and>
   (\<exists>rc s'. qnx_process_entry_remove_connection 1 5 demo_kernel = Some (rc, s') \<and> kinv (\<lambda>_. 0) s')"
  using process_operations_safe [OF demo_kernel_inv demo_kernel_procs(1), of 5 demo_env 1]
  by (simp add: int_range_def demo_kernel_def)

text \<open>
  Looking up a channel by process and channel id takes exactly one reference: the channel
  found belongs to a listed process with that id, its count grows by one and nothing else
  changes, in particular the count of the process; when the look-up fails the state is
  unchanged and no listed process with that id has such a channel.
\<close>

theorem find_channel_takes_one_reference:
  assumes "kinv H s"
  shows "(\<exists>e pe c ch. qnx_driver_data_find_channel p i s =
        Some (Some c, s\<lparr>chans := (chans s)(c \<mapsto> ch\<lparr>ch_refcnt := Suc (ch_refcnt ch)\<rparr>)\<rparr>) \<and>
      e \<in> set (process_entries s) \<and> procs s e = Some pe \<and> pid pe = p \<and> c \<in> set (channels pe) \<and>
      chans s c = Some ch \<and> chid ch = i) \<or>
    (qnx_driver_data_find_channel p i s = Some (None, s) \<and>
      \<not> (\<exists>e pe c ch. e \<in> set (process_entries s) \<and> procs s e = Some pe \<and> pid pe = p \<and>
           c \<in> set (channels pe) \<and> chans s c = Some ch \<and> chid ch = i))"
  using assms
proof (cases rule: kinv_driver_find_channel [where p = p and i = i])
  case none
  then show ?thesis unfolding channel_of_def by blast
next
  case (found e pe c)
  then obtain ch where "c \<in> set (channels pe)" "chans s c = Some ch" "chid ch = i"
    by (auto simp: channel_of_def)
  with found show ?thesis
    by (intro disjI1 exI [of _ e] exI [of _ pe] exI [of _ c] exI [of _ ch]) (simp add: hold_def store_chan_def)
qed

theorem find_channel_takes_one_reference_witness:
  "qnx_driver_data_find_channel 7 1 demo_kernel \<noteq> None \<and>
   qnx_driver_data_find_channel 9 1 demo_kernel = Some (None, demo_kernel)"
  using find_channel_takes_one_reference [OF demo_kernel_inv, of 7 1]
    find_channel_takes_one_reference [OF demo_kernel_inv, of 9 1]
  by (auto simp: demo_defs)

text \<open>
  \<open>ChannelCreate\<close> on every branch: without memory it fails with \<open>ENOMEM\<close> and nothing
  changes; at the limit on channels per process it fails with \<open>EMFILE\<close> and every channel,
  process and message is as before; otherwise the result is an id that is larger than every
  channel id in use, and the process owns a new empty channel with that id.
\<close>

theorem channel_create_spec:
  assumes "kinv H s" and "procs s e = Some pe" and "gbl_next_channel_id s < 2 ^ 31 - 1"
  shows "\<exists>rc s'. qnx_process_entry_add_channel env e s = Some (rc, s') \<and>
    (if \<not> kmalloc env A_channel 0 then rc = - ENOMEM \<and> s' = s
     else if int (length (channels pe)) \<ge> qnx_max_channels_per_process s then
       rc = - EMFILE \<and> chans s' = chans s \<and> procs s' = procs s \<and> msgs s' = msgs s
     else 0 < rc \<and> (\<forall>c ch. chans s c = Some ch \<longrightarrow> chid ch < rc) \<and>
       (\<exists>c ch. chans s c = None \<and> chans s' = (chans s)(c \<mapsto> ch) \<and> chid ch = rc \<and> waiting ch = [] \<and>
          procs s' = (procs s)(e \<mapsto> pe\<lparr>channels := c # channels pe\<rparr>)))"
  using assms
proof (cases rule: kinv_add_channel [where env = env])
  case (made s' c ch)
  have "0 \<le> gbl_next_channel_id s" "\<forall>c ch. chans s c = Some ch \<longrightarrow> chid ch < gbl_next_channel_id s + 1"
    using kinvD(5) [OF assms(1)] by (auto simp: ids_inv_def)
  moreover have "\<exists>c ch. chans s c = None \<and> chans s' = (chans s)(c \<mapsto> ch) \<and> chid ch = gbl_next_channel_id s + 1 \<and>
      waiting ch = [] \<and> procs s' = (procs s)(e \<mapsto> pe\<lparr>channels := c # channels pe\<rparr>)"
    using made(5-9) by blast
  ultimately show ?thesis
    using made(1-3) by (auto simp: get_num_channels_unlocked_def)
qed (auto simp: get_num_channels_unlocked_def)

theorem channel_create_spec_witness:
  "\<exists>rc s'. qnx_process_entry_add_channel demo_env 1 demo_kernel = Some (rc, s') \<and> 1 < rc"
proof -
  have "int (length (channels demo_server)) < qnx_max_channels_per_process demo_kernel" "kmalloc demo_env A_channel 0"
    "chans demo_kernel 2 = Some \<lparr>ch_refcnt = 1, chid = 1, waiting = [], num_waiting = 0, num_waiting_noreply = 0\<rparr>"
    "gbl_next_channel_id demo_kernel < 2 ^ 31 - 1"
    by (simp_all add: demo_defs demo_env_def)
  then show ?thesis
    using channel_create_spec [OF demo_kernel_inv demo_kernel_procs(1), of demo_env] by force
qed

text \<open>
  The end of a process: when the last reference to a process that has left the list is
  given back, the process is gone, every sender whose message it had received and not yet
  answered is awake with status \<open>-ESRCH\<close>, the messages of all other blocked senders are still
  alive, and the kernel invariant holds.
\<close>

theorem process_end_wakes_senders:
  assumes "kinv H s" and "procs s e = Some pe" and "pe_refcnt pe = 1" and "e \<notin> set (process_entries s)"
  shows "\<exists>s'. qnx_process_entry_release e s = Some s' \<and> kinv H s' \<and> procs s' = (procs s)(e := None) \<and>
    (\<forall>d m t. d \<in> set (pending pe) \<and> msgs s d = Some m \<and> task m = Some t \<longrightarrow>
       running s' t \<and> (\<exists>m'. msgs s' d = Some m' \<and> status m' = - ESRCH \<and> task m' = Some t)) \<and>
    (\<forall>d m. msgs s d = Some m \<and> task m \<noteq> None \<longrightarrow> (\<exists>m'. msgs s' d = Some m' \<and> rcvid m' = rcvid m))"
proof (rule kinv_last_release [OF assms])
  fix s'
  assume r: "qnx_process_entry_release e s = Some s'" "kinv H s'" "procs s' = (procs s)(e := None)" "sender_frame s s'"
    "\<And>d m t. d \<in> set (pending pe) \<Longrightarrow> msgs s d = Some m \<Longrightarrow> task m = Some t \<Longrightarrow>
       running s' t \<and> (\<exists>m'. msgs s' d = Some m' \<and> status m' = - ESRCH \<and> task m' = Some t)"
  then have "\<forall>d m. msgs s d = Some m \<and> task m \<noteq> None \<longrightarrow> (\<exists>m'. msgs s' d = Some m' \<and> rcvid m' = rcvid m)"
    unfolding sender_frame_def by metis
  with r show ?thesis by blast
qed

text \<open>The server of the example after it received message 9 of task 5 and left the list.\<close>

definition demo_leaving :: kstate where
  "demo_leaving = demo_kernel\<lparr>process_entries := [3], procs := [1 \<mapsto> demo_server\<lparr>pending := [9]\<rparr>, 3 \<mapsto> demo_client],
     msgs := [9 \<mapsto> (fresh_msgsend 1 8 (Some 5) (Msg zero_kmsg))\<lparr>mstate := QNX_STATE_PENDING\<rparr>],
     next_addr := 10, gbl_next_rcvid := 1\<rparr>"

lemma demo_leaving_inv: "kinv (\<lambda>_. 0) demo_leaving"
proof (rule kinvI)
  have own: "owned (procs demo_leaving) c \<longleftrightarrow> c = 2" for c
    by (auto simp: owned_def demo_leaving_def demo_defs)
  then show "refs_inv (\<lambda>_. 0) (procs demo_leaving) (chans demo_leaving)"
    by (simp add: refs_inv_def refs_def own) (simp add: demo_leaving_def demo_defs)
  show "msgs_inv (msgs demo_leaving) (gbl_next_rcvid demo_leaving)"
    by (auto simp: demo_leaving_def msgs_inv_def payload_ok_fresh_msg zero_kmsg_def) (simp_all add: fresh_msgsend_def)
qed (auto simp: demo_leaving_def demo_defs list_inv_def procs_inv_def proc_inv_def queue_inv_def chan_inv_def ids_inv_def
    fresh_inv_def params_inv_def wf_small_table fresh_msgsend_def, simp_all add: wf_table_def)

theorem process_end_wakes_senders_witness:
  "\<exists>s' m'. qnx_process_entry_release 1 demo_leaving = Some s' \<and> procs s' 1 = None \<and> running s' 5 \<and>
     msgs s' 9 = Some m' \<and> status m' = - ESRCH"
proof -
  have at: "procs demo_leaving 1 = Some (demo_server\<lparr>pending := [9]\<rparr>)"
    "pe_refcnt (demo_server\<lparr>pending := [9]\<rparr>) = 1" "1 \<notin> set (process_entries demo_leaving)"
    by (simp_all add: demo_leaving_def demo_server_def)
  have m: "9 \<in> set (pending (demo_server\<lparr>pending := [9]\<rparr>))"
    "\<exists>m. msgs demo_leaving 9 = Some m \<and> task m = Some 5"
    by (simp_all add: demo_leaving_def fresh_msgsend_def)
  from process_end_wakes_senders [OF demo_leaving_inv at] m show ?thesis by fastforce
qed

text \<open>
  C37. \<open>ChannelDestroy\<close> does not reach the senders that wait on the channel: each of them holds
  a reference, so the destructor, which would wake them, does not run. The call reports success,
  the channel lives on with its queue unchanged, no task is woken, and no process can find the
  channel any more to receive the queued messages.
\<close>

theorem destroyed_channel_strands_senders:
  assumes "kinv H s" and "procs s e = Some pe" and "c \<in> set (channels pe)" and "chans s c = Some ch" and "0 < H c"
  shows "\<exists>s' ch'. qnx_process_entry_remove_channel e (chid ch) s = Some (0, s') \<and>
    chans s' c = Some ch' \<and> waiting ch' = waiting ch \<and> running s' = running s \<and> msgs s' = msgs s \<and>
    (\<forall>p. qnx_driver_data_find_channel p (chid ch) s' = Some (None, s')) \<and>
    (\<forall>x px. procs s' x = Some px \<longrightarrow> qnx_process_entry_find_channel x (chid ch) s' = Some (None, s'))"
proof -
  let ?s = "store_proc e (pe\<lparr>channels := remove1 c (channels pe)\<rparr>) s"
  let ?ch = "ch\<lparr>ch_refcnt := ch_refcnt ch - 1\<rparr>"
  have uniq: "x = c" if "chans s x = Some chx" "chid chx = chid ch" for x chx
    using kinvD(5) [OF assms(1)] assms(4) that unfolding ids_inv_def by blast
  have "owned (procs s) c" by (rule owned_iff [OF assms(2,3)])
  then have more: "1 < ch_refcnt ch" using refs_at [OF assms(1,4)] assms(5) by (simp add: refs_def)
  have hit: "list_search (chans s) (\<lambda>x. chid x = chid ch) (channels pe) = Some (Some c)"
  proof (rule list_search_unique)
    show "set (channels pe) \<subseteq> dom (chans s)" using kinv_proc [OF assms(1,2)] by (simp add: proc_inv_def)
    show "y = c" if "chans s y = Some w" "chid w = chid ch" for y w by (rule uniq [OF that])
  qed (use assms(3,4) in simp_all)
  have at: "chans ?s c = Some ch" using assms(4) by simp
  have run: "qnx_process_entry_remove_channel e (chid ch) s = Some (0, store_chan c ?ch ?s)"
    using hit assms(2) cref.unref_shared [OF at more] by (simp add: qnx_process_entry_remove_channel_def)
  have k: "kinv (holding c H) ?s" by (rule kinv_disown_channel [OF assms(1-3)])
  have "kinv ((holding c H)(c := H c)) (store_chan c ?ch ?s)"
    using more refs_at [OF k at] by (intro kinv_store_refcnt [OF k at]) (auto simp: refs_def)
  then have k2: "kinv H (store_chan c ?ch ?s)" by simp
  have gone: "c \<notin> set (channels px)" if "procs (store_chan c ?ch ?s) x = Some px" for x px
  proof (cases "x = e")
    case True
    then show ?thesis using that kinv_proc [OF assms(1,2)] by (auto simp: proc_inv_def)
  next
    case False
    then have "procs s x = Some px" using that by simp
    then show ?thesis using False assms(2,3) kinvD(2) [OF assms(1)] unfolding procs_inv_def by blast
  qed
  have none: "\<not> channel_of (store_chan c ?ch ?s) x (chid ch) y" for x y
  proof
    assume "channel_of (store_chan c ?ch ?s) x (chid ch) y"
    then obtain px chx where p: "procs (store_chan c ?ch ?s) x = Some px" "y \<in> set (channels px)"
      "chans (store_chan c ?ch ?s) y = Some chx" "chid chx = chid ch"
      unfolding channel_of_def by blast
    then have "y = c" using uniq [of y chx] by (cases "y = c") simp_all
    then show False using gone [OF p(1)] p(2) by simp
  qed
  have a: "\<forall>p. qnx_driver_data_find_channel p (chid ch) (store_chan c ?ch ?s) = Some (None, store_chan c ?ch ?s)"
    by (intro allI, rule kinv_driver_find_channel [OF k2]) (use none in blast)+
  have b: "\<forall>x px. procs (store_chan c ?ch ?s) x = Some px \<longrightarrow>
      qnx_process_entry_find_channel x (chid ch) (store_chan c ?ch ?s) = Some (None, store_chan c ?ch ?s)"
    by (intro allI impI, rule kinv_entry_find_channel [OF k2]) (use none in blast)+
  show ?thesis
    using run a b
    by (intro exI [of _ "store_chan c ?ch ?s"] exI [of _ ?ch]) (simp add: store_chan_def store_proc_def)
qed

theorem destroyed_channel_strands_senders_witness:
  "\<exists>s' ch'. qnx_process_entry_remove_channel 1 1 (hold 2 demo_kernel) = Some (0, s') \<and> chans s' 2 = Some ch' \<and>
     qnx_driver_data_find_channel 7 1 s' = Some (None, s')"
proof -
  let ?ch = "\<lparr>ch_refcnt = 1, chid = 1, waiting = [], num_waiting = 0, num_waiting_noreply = 0\<rparr>"
  have ch: "chans demo_kernel 2 = Some ?ch" by (simp add: demo_kernel_def)
  have at: "procs (hold 2 demo_kernel) 1 = Some demo_server" "2 \<in> set (channels demo_server)"
    "chans (hold 2 demo_kernel) 2 = Some (?ch\<lparr>ch_refcnt := 2\<rparr>)" "0 < holding 2 (\<lambda>_. 0) 2"
    by (simp_all add: hold_def ch) (simp_all add: demo_kernel_def demo_server_def)
  from destroyed_channel_strands_senders [OF kinv_hold [OF demo_kernel_inv ch] at] show ?thesis by auto
qed

end
