(* ===== verification/Send_Safety.thy ===== *)
theory Send_Safety
  imports Process_Inv Handlers
begin

text \<open>
  The sending handlers keep the invariant of the kernel state and never fault: every pointer
  they follow is alive, every reference they take is given back or held by the blocked thread,
  and every message they build is in exactly one place.
\<close>

section \<open>Building and queueing a message\<close>

lemma kinv_same_but_ids:
  assumes "kinv H s" and "same_but_ids s s'" and "gbl_next_rcvid s \<le> gbl_next_rcvid s'"
  shows "kinv H s'"
proof -
  have eq: "s' = s\<lparr>next_addr := next_addr s', gbl_next_rcvid := gbl_next_rcvid s'\<rparr>"
    and le: "next_addr s \<le> next_addr s'" using assms(2) by (simp_all add: same_but_ids_def)
  have "kinv H (s\<lparr>next_addr := next_addr s'\<rparr>)"
    using assms(1) le by (auto simp: kinv_def fresh_inv_def)
  then show ?thesis
    by (subst eq) (rule kinv_draw_rcvid, use assms(3) in simp_all)
qed

lemma same_but_ids_frame:
  assumes "same_but_ids s s'"
  shows "msgs s' = msgs s" "chans s' = chans s" "procs s' = procs s" "process_entries s' = process_entries s"
    "qnx_max_noreply_msg_num s' = qnx_max_noreply_msg_num s" "running s' = running s" "uaf s' = uaf s"
proof -
  have eq: "s' = s\<lparr>next_addr := next_addr s', gbl_next_rcvid := gbl_next_rcvid s'\<rparr>"
    using assms by (simp add: same_but_ids_def)
  show "msgs s' = msgs s" "chans s' = chans s" "procs s' = procs s" "process_entries s' = process_entries s"
    "qnx_max_noreply_msg_num s' = qnx_max_noreply_msg_num s" "running s' = running s" "uaf s' = uaf s"
    by (subst eq, simp)+
qed

text \<open>The state with the message \<open>m\<close> at a new address.\<close>

definition post :: "qnx_internal_msgsend \<Rightarrow> kstate \<Rightarrow> kstate" where
  "post m s = s\<lparr>next_addr := Suc (next_addr s), msgs := (msgs s)(next_addr s \<mapsto> m)\<rparr>"

definition newest :: "qnx_internal_msgsend \<Rightarrow> kstate \<Rightarrow> bool" where
  "newest m s \<longleftrightarrow>
     payload_ok m \<and> mstate m = QNX_STATE_INITIAL \<and> 0 \<le> rcvid m \<and> rcvid m \<le> gbl_next_rcvid s \<and>
     (rcvid m = 0 \<or> (\<forall>d m'. msgs s d = Some m' \<longrightarrow> rcvid m' < rcvid m))"

lemma kinv_post:
  assumes "kinv H s" and "newest m s"
  shows "kinv H (post m s)" and "msgs (post m s) (next_addr s) = Some m" and "in_no_list (next_addr s) (post m s)"
proof -
  let ?s = "s\<lparr>next_addr := Suc (next_addr s)\<rparr>"
  have k: "kinv H ?s" using kinv_alloc [OF assms(1)] by (simp add: alloc_def)
  have free: "msgs ?s (next_addr s) = None" using kinvD(7) [OF assms(1)] by (simp add: fresh_inv_def)
  have "kinv H (?s\<lparr>msgs := (msgs ?s)(next_addr s \<mapsto> m)\<rparr>)"
    by (rule kinv_new_msg [OF k free]) (use assms(2) in \<open>force simp: newest_def\<close>)+
  then show "kinv H (post m s)" by (simp add: post_def)
  show "msgs (post m s) (next_addr s) = Some m" by (simp add: post_def)
  show "in_no_list (next_addr s) (post m s)"
    using kinv_fresh_in_no_list [OF k free] by (simp add: in_no_list_def post_def)
qed

lemma newest_of_constructor:
  assumes "kinv H s" and "new_message_ok t p s rc (Some m) s1"
  shows "newest (m\<lparr>receiver_pid := q\<rparr>) s1" and "kinv H s1" and "same_but_ids s s1"
proof -
  have m: "payload_ok m" "rcvid m = gbl_next_rcvid s + 1" "gbl_next_rcvid s1 = rcvid m"
      "mstate m = QNX_STATE_INITIAL" "same_but_ids s s1"
    using assms(2) by (simp_all add: new_message_ok_def)
  have old: "rcvid m' < rcvid m" if "msgs s d = Some m'" for d m'
    using kinv_msg [OF assms(1) that] m(2) by simp
  have "0 \<le> gbl_next_rcvid s" using kinvD(6) [OF assms(1)] by (simp add: msgs_inv_def)
  then show "newest (m\<lparr>receiver_pid := q\<rparr>) s1"
    using m old same_but_ids_frame(1) [OF m(5)] by (simp add: newest_def)
  show "kinv H s1" by (rule kinv_same_but_ids [OF assms(1) m(5)]) (simp add: m(2,3))
  show "same_but_ids s s1" by (rule m(5))
qed

text \<open>Going to sleep: the message of a task is always queued.\<close>

definition sleeps_on :: "kstate \<Rightarrow> tid \<Rightarrow> addr \<Rightarrow> addr \<Rightarrow> bool" where
  "sleeps_on s t c d \<longleftrightarrow>
     (\<exists>m ch ds. msgs s d = Some m \<and> task m = Some t \<and> mstate m = QNX_STATE_INITIAL \<and>
        chans s c = Some ch \<and> waiting ch = ds @ [d]) \<and> \<not> running s t"

lemma kinv_block_enter:
  assumes "kinv H s" and "chans s c = Some ch" and "newest m s" and "task m = Some t"
  obtains ch' where "block_enter c (next_addr s) t (post m s) =
      Some (set_interruptible t (store_chan c ch' (post (m\<lparr>receiver_chid := chid ch\<rparr>) s)))"
    and "kinv H (set_interruptible t (store_chan c ch' (post (m\<lparr>receiver_chid := chid ch\<rparr>) s)))"
    and "sleeps_on (set_interruptible t (store_chan c ch' (post (m\<lparr>receiver_chid := chid ch\<rparr>) s))) t c (next_addr s)"
    and "waiting ch' = waiting ch @ [next_addr s]" and "chid ch' = chid ch"
proof -
  let ?d = "next_addr s"
  let ?s = "set_interruptible t (post m s)"
  note p = kinv_post [OF assms(1,3)]
  have k: "kinv H ?s" using p(1) by simp
  have at: "chans ?s c = Some ch" "msgs ?s ?d = Some m" "in_no_list ?d ?s" "mstate m = QNX_STATE_INITIAL"
    using assms(2,3) p(2,3) by (simp_all add: set_interruptible_def post_def newest_def in_no_list_def)
  obtain rc ch' where r: "qnx_channel_add_new_message c ?d ?s =
      Some (rc, store_chan c ch' (?s\<lparr>msgs := (msgs ?s)(?d \<mapsto> m\<lparr>receiver_chid := chid ch\<rparr>)\<rparr>))"
    "kinv H (store_chan c ch' (?s\<lparr>msgs := (msgs ?s)(?d \<mapsto> m\<lparr>receiver_chid := chid ch\<rparr>)\<rparr>))"
    "chid ch' = chid ch" "waiting ch' = (if rc = 0 then waiting ch @ [?d] else waiting ch)"
    "rc = 0 \<or> rc = - 1 \<and> noreply_at (msgs ?s) ?d"
    by (rule kinv_add_new_message [OF k at]) blast
  have rc: "rc = 0" using r(5) at(2) assms(4) by (simp add: noreply_at_def)
  let ?r = "set_interruptible t (store_chan c ch' (post (m\<lparr>receiver_chid := chid ch\<rparr>) s))"
  have eq: "store_chan c ch' (?s\<lparr>msgs := (msgs ?s)(?d \<mapsto> m\<lparr>receiver_chid := chid ch\<rparr>)\<rparr>) = ?r"
    by (rule kstate.equality) (simp_all add: set_interruptible_def post_def store_chan_def)
  have "block_enter c ?d t (post m s) = Some ?r"
    using r(1) unfolding block_enter_def eq by simp
  moreover have "sleeps_on ?r t c ?d"
    using r(4) rc at(4) assms(4) by (simp add: sleeps_on_def set_interruptible_def post_def)
  ultimately show thesis
    using that r(2-4) rc unfolding eq by simp
qed

section \<open>From a connection id to a channel\<close>

definition routes :: "kstate \<Rightarrow> addr \<Rightarrow> int \<Rightarrow> qnx_connection \<Rightarrow> addr \<Rightarrow> bool" where
  "routes s e coid cn c \<longleftrightarrow>
     (\<exists>pe q qe. procs s e = Some pe \<and> table_map (connections pe) coid = Some cn \<and> 0 < conn_chid cn \<and>
        q \<in> set (process_entries s) \<and> procs s q = Some qe \<and> pid qe = conn_pid cn \<and>
        channel_of s q (conn_chid cn) c)"

lemma kinv_route:
  assumes "kinv H s" and "procs s e = Some pe" and "int_range coid"
  obtains (invalid) cn where "qnx_process_entry_find_connection e coid s = Some cn" and "\<not> qnx_conn_is_valid cn"
      and "\<And>cn c. \<not> routes s e coid cn c"
  | (unreachable) cn where "qnx_process_entry_find_connection e coid s = Some cn" and "qnx_conn_is_valid cn"
      and "qnx_driver_data_find_channel (conn_pid cn) (conn_chid cn) s = Some (None, s)"
      and "\<And>cn c. \<not> routes s e coid cn c"
  | (routed) cn c ch where "qnx_process_entry_find_connection e coid s = Some cn" and "qnx_conn_is_valid cn"
      and "qnx_driver_data_find_channel (conn_pid cn) (conn_chid cn) s = Some (Some c, hold c s)"
      and "chans s c = Some ch" and "kinv (holding c H) (hold c s)" and "routes s e coid cn c"
proof -
  let ?cn = "case table_map (connections pe) coid of Some c \<Rightarrow> c | None \<Rightarrow> \<lparr>conn_pid = 0, conn_chid = 0\<rparr>"
  note fc = kinv_find_connection [OF assms]
  show thesis
  proof (cases "qnx_conn_is_valid ?cn")
    case False
    then have "\<not> routes s e coid cn c" for cn c
      using assms(2) by (auto simp: routes_def qnx_conn_is_valid_def)
    then show thesis by (rule invalid [OF fc False])
  next
    case valid: True
    then have tm: "table_map (connections pe) coid = Some ?cn"
      by (auto simp: qnx_conn_is_valid_def split: option.splits)
    show thesis
      using assms(1)
    proof (cases rule: kinv_driver_find_channel [where p = "conn_pid ?cn" and i = "conn_chid ?cn"])
      case none
      have "\<not> routes s e coid cn c" for cn c
        using none(2) tm assms(2) by (auto simp: routes_def)
      then show thesis by (rule unreachable [OF fc valid none(1)])
    next
      case (found q qe c)
      obtain ch where ch: "chans s c = Some ch" using found(5) by (auto simp: channel_of_def)
      have "routes s e coid ?cn c"
        unfolding routes_def using assms(2) tm valid found(2-5) by (auto simp: qnx_conn_is_valid_def)
      then show thesis by (rule routed [OF fc valid found(1) ch found(6)])
    qed
  qed
qed

lemma chans_hold: "chans s c = Some ch \<Longrightarrow> chans (hold c s) c = Some (ch\<lparr>ch_refcnt := Suc (ch_refcnt ch)\<rparr>)"
  by (simp add: hold_def)

lemma newest_hold [simp]: "newest m (hold c s) \<longleftrightarrow> newest m s"
  by (simp add: newest_def)

section \<open>MsgSend and MsgSendv\<close>

text \<open>
  The result of the part before the sleep: an error with nothing held, or a thread that sleeps
  on a channel with its message queued and one reference held.
\<close>

definition entered_ok :: "held \<Rightarrow> tid \<Rightarrow> enter_result \<Rightarrow> kstate \<Rightarrow> bool" where
  "entered_ok H t r s' \<longleftrightarrow>
     (case r of
        Finished rc \<Rightarrow> rc < 0 \<and> kinv H s'
      | Blocked c d \<Rightarrow> kinv (holding c H) s' \<and> sleeps_on s' t c d)"

lemma block_enter_ok:
  assumes "kinv H s" and "chans s c = Some ch" and "newest m s" and "task m = Some t"
  shows "\<exists>s'. block_enter c (next_addr s) t (post m s) = Some s' \<and> kinv H s' \<and> sleeps_on s' t c (next_addr s)"
  by (rule kinv_block_enter [OF assms]) blast

lemma msgsend_enter_ok:
  assumes "kenv_ok env" and "kinv H s" and "procs s e = Some pe" and "gbl_next_rcvid s < 2 ^ 31 - 1"
    and "\<And>m. io = Some m \<Longrightarrow> int_range (ms_coid m)"
  shows "\<exists>r s'. handle_msgsend_enter env io t e s = Some (r, s') \<and> entered_ok H t r s'"
proof -
  have r0: "0 \<le> gbl_next_rcvid s" using kinvD(6) [OF assms(2)] by (simp add: msgs_inv_def)
  obtain rc mo s1 where i: "qnx_internal_msgsend_init env t io (pid pe) s = (rc, mo, s1)"
    by (metis prod_cases3)
  have ok: "new_message_ok (Some t) (pid pe) s rc mo s1" by (rule init_ok [OF assms(1) r0 assms(4) i])
  show ?thesis
  proof (cases mo)
    case None
    then have "rc < 0" "kinv H s1"
      using ok kinv_same_but_ids [OF assms(2), of s1] by (simp_all add: new_message_ok_def)
    then show ?thesis using i None assms(3) by (simp add: handle_msgsend_enter_def entered_ok_def)
  next
    case (Some m)
    have tm: "task m = Some t" using ok Some by (simp add: new_message_ok_def)
    note new = newest_of_constructor [OF assms(2) ok [unfolded Some]]
    have coid: "int_range (km_coid (data_msg (data m)))"
      using i Some assms(5) by (auto simp: qnx_internal_msgsend_init_def fresh_msgsend_def Let_def case_prod_beta
          split: option.splits if_splits)
    have pe: "procs s1 e = Some pe" using assms(3) same_but_ids_frame(3) [OF new(3)] by simp
    show ?thesis
      using new(2) pe coid
    proof (cases rule: kinv_route)
      case (routed cn c ch)
      let ?m = "m\<lparr>receiver_pid := conn_pid cn\<rparr>"
      have "\<exists>s'. block_enter c (next_addr (hold c s1)) t (post ?m (hold c s1)) = Some s' \<and>
          kinv (holding c H) s' \<and> sleeps_on s' t c (next_addr (hold c s1))"
        by (rule block_enter_ok [OF routed(5) chans_hold [OF routed(4)]]) (use new(1) tm in simp_all)
      then show ?thesis
        using i Some assms(3) routed(1-3)
        by (auto simp: handle_msgsend_enter_def entered_ok_def Let_def alloc_def post_def)
    qed (use i Some assms(3) new(2) in \<open>auto simp: handle_msgsend_enter_def entered_ok_def\<close>)
  qed
qed

text \<open>
  A vector that is copied has as many elements as announced, and it fits its buffer. A negative
  number of elements passes the test for the size of the buffer and becomes a huge number of bytes.
\<close>

lemma vector_bytes_nonneg: "0 \<le> n \<Longrightarrow> int_range n \<Longrightarrow> int (vector_bytes n) = 16 * n"
  by (simp add: vector_bytes_def to_size_def int_range_def)

lemma vector_bytes_neg:
  assumes "n < 0" and "int_range n"
  shows "2 ^ 63 \<le> vector_bytes n"
proof -
  have "(16 * n) mod 2 ^ 64 = 16 * n + 2 ^ 64"
    using assms mod_pos_pos_trivial [of "16 * n + 2 ^ 64" "2 ^ 64"] by (simp add: int_range_def)
  then show ?thesis using assms by (simp add: vector_bytes_def to_size_def int_range_def le_nat_iff)
qed

lemma fetch_vector_fits:
  assumes "0 \<le> n" and "int_range n"
  shows "fetch_vector env a n = Some (copy_iovec_from_user env a (vector_bytes n))"
proof -
  have "vector_bytes n \<le> vector_bytes QNX_MAX_IOVEC_LEN" if "\<not> QNX_MAX_IOVEC_LEN < n"
    using vector_bytes_nonneg [OF assms] that by (simp add: QNX_MAX_IOVEC_LEN_def vector_bytes_def to_size_def)
  then show ?thesis by (simp add: fetch_vector_def)
qed

lemma fetch_vector_overruns:
  assumes "n < 0" and "int_range n"
  shows "fetch_vector env a n = None"
  using vector_bytes_neg [OF assms] assms(1) by (simp add: fetch_vector_def QNX_MAX_IOVEC_LEN_def vector_bytes_def to_size_def)

lemma fetch_vector_ok:
  assumes "kenv_ok env" and "int_range n" and "0 \<le> n"
  shows "fetch_vector env a n = Some None \<or> (\<exists>vs. fetch_vector env a n = Some (Some vs) \<and> int (length vs) = n)"
proof (cases "copy_iovec_from_user env a (vector_bytes n)")
  case None
  then show ?thesis using fetch_vector_fits [OF assms(3,2)] by simp
next
  case (Some vs)
  have "16 * length vs = vector_bytes n" using kenv_okD(3) [OF assms(1) Some] by simp
  then have "int (length vs) = n" using vector_bytes_nonneg [OF assms(3,2)] by simp
  then show ?thesis using fetch_vector_fits [OF assms(3,2)] Some by simp
qed

text \<open>
  The vector handler takes its reference to the channel before it builds the message and keeps
  it when that fails.
\<close>

lemma msgsendv_enter_ok:
  assumes "kenv_ok env" and "kinv H s" and "procs s e = Some pe" and "gbl_next_rcvid s < 2 ^ 31 - 1"
    and "\<And>v. io = Some v \<Longrightarrow> int_range (msv_coid v) \<and> int_range (msv_in_len v) \<and> int_range (msv_out_len v) \<and>
      0 \<le> msv_in_len v \<and> 0 \<le> msv_out_len v"
  shows "\<exists>r outs s'. handle_msgsendv_enter env io t e s = Some (r, outs, s') \<and>
    (entered_ok H t r s' \<or> (\<exists>rc c. r = Finished rc \<and> rc < 0 \<and> kinv (holding c H) s'))"
proof (cases io)
  case None
  then show ?thesis using assms(2) by (simp add: handle_msgsendv_enter_def entered_ok_def)
next
  case io: (Some v)
  note rng = assms(5) [OF io]
  have r0: "0 \<le> gbl_next_rcvid s" using kinvD(6) [OF assms(2)] by (simp add: msgs_inv_def)
  let ?nomem = "msv_in_len v > QNX_MAX_IOVEC_LEN \<and> \<not> kmalloc env A_iov_in (vector_bytes (msv_in_len v)) \<or>
    msv_out_len v > QNX_MAX_IOVEC_LEN \<and> \<not> kmalloc env A_iov_out (vector_bytes (msv_out_len v))"
  obtain ins where ins: "fetch_vector env (msv_in v) (msv_in_len v) = Some ins"
    using fetch_vector_ok [OF assms(1), of "msv_in_len v" "msv_in v"] rng by auto
  obtain outs where outs: "fetch_vector env (msv_out v) (msv_out_len v) = Some outs"
    using fetch_vector_ok [OF assms(1), of "msv_out_len v" "msv_out v"] rng by auto
  show ?thesis
  proof (cases "?nomem \<or> ins = None \<or> outs = None")
    case True
    then show ?thesis
      using assms(2) io ins outs
      by (auto simp: handle_msgsendv_enter_def entered_ok_def split: option.splits)
  next
    case False
    then obtain ivs ovs where vs: "ins = Some ivs" "outs = Some ovs" by auto
    have coid: "int_range (msv_coid v)" using rng by simp
    show ?thesis
      using assms(2,3) coid
    proof (cases rule: kinv_route)
      case (routed cn c ch)
      let ?s = "hold c s"
      obtain rc mo s2 where i: "qnx_internal_msgsend_initv env t v ivs ovs (pid pe) ?s = Some (rc, mo, s2)"
        "new_message_ok (Some t) (pid pe) ?s rc mo s2"
        using initv_ok [OF assms(1), of ?s] r0 assms(4) by fastforce
      have run: "handle_msgsendv_enter env io t e s =
          (case mo of
             None \<Rightarrow> Some (Finished rc, [], s2)
           | Some m \<Rightarrow> do { s5 \<leftarrow> block_enter c (next_addr s2) t (post (m\<lparr>receiver_pid := conn_pid cn\<rparr>) s2);
                            Some (Blocked c (next_addr s2), ovs, s5) })"
        using False io ins outs vs routed(1-3) assms(3) i(1)
        by (auto simp: handle_msgsendv_enter_def alloc_def post_def Let_def split: option.splits)
      show ?thesis
      proof (cases mo)
        case None
        then have "rc < 0" "kinv (holding c H) s2"
          using i(2) kinv_same_but_ids [OF routed(5), of s2] by (simp_all add: new_message_ok_def)
        then show ?thesis using run None by auto
      next
        case (Some m)
        note new = newest_of_constructor [OF routed(5) i(2) [unfolded Some]]
        have "chans s2 c = Some (ch\<lparr>ch_refcnt := Suc (ch_refcnt ch)\<rparr>)"
          using chans_hold [OF routed(4)] same_but_ids_frame(2) [OF new(3)] by simp
        then have "\<exists>s'. block_enter c (next_addr s2) t (post (m\<lparr>receiver_pid := conn_pid cn\<rparr>) s2) = Some s' \<and>
            kinv (holding c H) s' \<and> sleeps_on s' t c (next_addr s2)"
          by (rule block_enter_ok [OF new(2)]) (use new(1) i(2) Some in \<open>simp_all add: new_message_ok_def\<close>)
        then show ?thesis using run Some by (auto simp: entered_ok_def)
      qed
    qed (use False io ins outs vs assms(2) in \<open>auto simp: handle_msgsendv_enter_def entered_ok_def\<close>)
  qed
qed

section \<open>Pulses and messages without reply\<close>

lemma kinv_put_back:
  assumes "kinv (holding c H) s"
  obtains s' where "qnx_channel_release c s = Some s'" and "kinv H s'" and "procs_frame s s'"
    and "sender_frame s s'" and "\<And>d. in_no_list d s \<Longrightarrow> in_no_list d s'" and "\<And>t. running s t \<Longrightarrow> running s' t"
    and "\<And>x. x \<noteq> c \<Longrightarrow> chans s' x = chans s x"
proof -
  have "0 < (holding c H) c" by simp
  with assms show thesis
    by (rule kinv_channel_release) (use that in \<open>auto simp: fun_upd_idem\<close>)
qed

lemma kinv_post_pulse: "kinv H s \<Longrightarrow> newest (fresh_msgsend 0 p None (Pulse pl)) s"
  using kinvD(6) [of H s] payload_ok_fresh_pulse [of p pl]
  by (simp add: newest_def msgs_inv_def) (simp add: fresh_msgsend_def)

lemma msgsendpulse_ok:
  assumes "kinv H s" and "procs s e = Some pe" and "\<And>p. io = Some p \<Longrightarrow> int_range (mp_coid p)"
  shows "\<exists>rc s'. handle_msgsendpulse env io e s = Some (rc, s') \<and> kinv H s' \<and> rc \<le> 0"
proof (cases "kmalloc env A_msgsend 0 \<and> io \<noteq> None")
  case False
  then show ?thesis
    using assms(1,2) by (auto simp: handle_msgsendpulse_def qnx_internal_msgsend_init_pulse_def)
next
  case True
  then obtain p where io: "io = Some p" by auto
  let ?m = "fresh_msgsend 0 (pid pe) None (Pulse p)"
  have coid: "int_range (mp_coid p)" using assms(3) io by simp
  show ?thesis
    using assms(1,2) coid
  proof (cases rule: kinv_route)
    case (routed cn c ch)
    let ?s = "hold c s"
    note po = kinv_post [OF routed(5) kinv_post_pulse [OF routed(5)], of "pid pe" p]
    have at: "chans (post ?m ?s) c = Some (ch\<lparr>ch_refcnt := Suc (ch_refcnt ch)\<rparr>)" "mstate ?m = QNX_STATE_INITIAL"
      using chans_hold [OF routed(4)] by (simp_all add: post_def fresh_msgsend_def)
    obtain rc s2 where s2: "qnx_channel_add_new_message c (next_addr ?s) (post ?m ?s) = Some (rc, s2)"
        "kinv (holding c H) s2"
      by (rule kinv_add_new_message [OF po(1) at(1) po(2,3) at(2)]) blast
    obtain s3 where "qnx_channel_release c s2 = Some s3" "kinv H s3"
      by (rule kinv_put_back [OF s2(2)])
    then show ?thesis
      using True io routed(1-3) assms(2) s2(1)
      by (simp add: handle_msgsendpulse_def qnx_internal_msgsend_init_pulse_def fresh_msgsend_def alloc_def
          post_def Let_def)
  qed (use True io assms(1,2) in
    \<open>auto simp: handle_msgsendpulse_def qnx_internal_msgsend_init_pulse_def fresh_msgsend_def\<close>)
qed

text \<open>
  What the loop of a sender without reply expects of the other threads while it sleeps: they
  keep the invariant and do not touch the message, which only this thread knows. \<open>R\<close> is any set
  of reference counts that the other threads do not leave: the one of the start when they give
  back what they take, or all.
\<close>

definition quiet :: "(held \<Rightarrow> bool) \<Rightarrow> addr \<Rightarrow> addr \<Rightarrow> (kstate \<Rightarrow> kstate) \<Rightarrow> bool" where
  "quiet R c d f \<longleftrightarrow>
     (\<forall>H s. R H \<and> kinv (holding c H) s \<and> in_no_list d s \<longrightarrow>
        (\<exists>H'. R H' \<and> kinv (holding c H') (f s)) \<and> msgs (f s) d = msgs s d \<and> in_no_list d (f s))"

lemma quiet_id: "quiet R c d (\<lambda>s. s)"
  by (auto simp: quiet_def)

lemma busy_loop_ok:
  assumes "kinv (holding c H) s" and "msgs s d = Some m" and "in_no_list d s"
    and "mstate m = QNX_STATE_INITIAL" and "\<forall>w \<in> set wakes. quiet R c d (snd w)" and "R H"
  shows "\<exists>r s' H'. busy_loop_add_new_message c d wakes s = Some (r, s') \<and> R H' \<and> kinv (holding c H') s' \<and>
    (r = None \<or> r = Some 0 \<or> r = Some (- ERESTARTSYS) \<and> msgs s' d = None)"
  using assms
proof (induction wakes arbitrary: s m H)
  case Nil
  obtain ch where ch: "chans s c = Some ch" using kinv_held [OF Nil.prems(1), of c] by auto
  show ?case
    by (rule kinv_add_new_message [OF Nil.prems(1) ch Nil.prems(2-4)]) (use Nil.prems(1,6) in fastforce)
next
  case (Cons w wakes)
  obtain sg f where w: "w = (sg, f)" by (cases w)
  obtain ch where ch: "chans s c = Some ch" using kinv_held [OF Cons.prems(1), of c] by auto
  obtain rc ch' where r: "qnx_channel_add_new_message c d s =
      Some (rc, store_chan c ch' (s\<lparr>msgs := (msgs s)(d \<mapsto> m\<lparr>receiver_chid := chid ch\<rparr>)\<rparr>))"
    "kinv (holding c H) (store_chan c ch' (s\<lparr>msgs := (msgs s)(d \<mapsto> m\<lparr>receiver_chid := chid ch\<rparr>)\<rparr>))"
    "waiting ch' = (if rc = 0 then waiting ch @ [d] else waiting ch)" "rc = 0 \<or> rc = - 1 \<and> noreply_at (msgs s) d"
    by (rule kinv_add_new_message [OF Cons.prems(1) ch Cons.prems(2-4)]) blast
  let ?s = "store_chan c ch' (s\<lparr>msgs := (msgs s)(d \<mapsto> m\<lparr>receiver_chid := chid ch\<rparr>)\<rparr>)"
  show ?case
  proof (cases "rc = 0")
    case True
    then show ?thesis using r(1,2) w Cons.prems(6) by auto
  next
    case False
    then have rc: "rc = - 1" "waiting ch' = waiting ch" using r(3,4) by auto
    have "in_no_list d ?s" using Cons.prems(3) ch rc(2) by (auto simp: in_no_list_def)
    moreover have "quiet R c d f" using Cons.prems(5) w by simp
    ultimately obtain H' where f: "kinv (holding c H') (f ?s)" "msgs (f ?s) d = msgs ?s d" "in_no_list d (f ?s)" "R H'"
      using r(2) Cons.prems(6) unfolding quiet_def by meson
    show ?thesis
    proof (cases sg)
      case True
      then show ?thesis
        using r(1) rc(1) w f(4) kinv_free_msg [OF f(1,3)] by (auto simp: Let_def)
    next
      case False
      have at: "msgs (f ?s) d = Some (m\<lparr>receiver_chid := chid ch\<rparr>)" using f(2) by simp
      obtain r' s' H2 where "busy_loop_add_new_message c d wakes (f ?s) = Some (r', s')"
          "kinv (holding c H2) s'" "R H2" "r' = None \<or> r' = Some 0 \<or> r' = Some (- ERESTARTSYS) \<and> msgs s' d = None"
        using Cons.IH [OF f(1) at f(3) _ _ f(4)] Cons.prems(4,5) by force
      then show ?thesis using r(1) rc(1) w False by (auto simp: Let_def)
    qed
  qed
qed

text \<open>Queueing with the loop and giving the channel back, for a message that was just built.\<close>

lemma send_noreply_ok:
  assumes "kinv (holding c H) s" and "newest m s" and "\<forall>w \<in> set wakes. quiet R c (next_addr s) (snd w)" and "R H"
  shows "\<exists>r s5. busy_loop_add_new_message c (next_addr s) wakes (post m s) = Some (r, s5) \<and>
    (r = None \<and> (\<exists>H'. R H' \<and> kinv (holding c H') s5) \<or>
     (r = Some 0 \<or> r = Some (- ERESTARTSYS)) \<and> (\<exists>H' s6. R H' \<and> qnx_channel_release c s5 = Some s6 \<and> kinv H' s6))"
proof -
  note po = kinv_post [OF assms(1,2)]
  have st: "mstate m = QNX_STATE_INITIAL" using assms(2) by (simp add: newest_def)
  obtain r s5 H' where b: "busy_loop_add_new_message c (next_addr s) wakes (post m s) = Some (r, s5)"
      "kinv (holding c H') s5" "r = None \<or> r = Some 0 \<or> r = Some (- ERESTARTSYS) \<and> msgs s5 (next_addr s) = None" "R H'"
    using busy_loop_ok [OF po(1-3) st assms(3,4)] by blast
  obtain s6 where "qnx_channel_release c s5 = Some s6" "kinv H' s6" by (rule kinv_put_back [OF b(2)])
  with b show ?thesis by blast
qed

lemma msgsend_no_reply_ok:
  assumes "kenv_ok env" and "kinv H s" and "procs s e = Some pe" and "gbl_next_rcvid s < 2 ^ 31 - 1"
    and "\<And>m. io = Some m \<Longrightarrow> int_range (ms_coid m) \<and> iov_len (ms_in m) < 2 ^ 64 - sizeof_msgsend"
    and "\<forall>w \<in> set wakes. \<forall>c d. quiet R c d (snd w)" and "R H"
  shows "\<exists>r s' H'. handle_msgsend_no_reply env io e wakes s = Some (r, s') \<and> R H' \<and>
    (if r = None then \<exists>c. kinv (holding c H') s' else kinv H' s')"
proof -
  have r0: "0 \<le> gbl_next_rcvid s" using kinvD(6) [OF assms(2)] by (simp add: msgs_inv_def)
  obtain rc mo s1 where i: "qnx_internal_msgsend_init_noreply env io (pid pe) s = Some (rc, mo, s1)"
    and ok: "new_message_ok None (pid pe) s rc mo s1"
    using init_noreply_ok [OF assms(1) r0 assms(4)] assms(5) by blast
  show ?thesis
  proof (cases mo)
    case None
    then have "kinv H s1"
      using ok kinv_same_but_ids [OF assms(2), of s1] by (simp add: new_message_ok_def)
    then show ?thesis using i None assms(3,7) by (auto simp: no_reply_defs)
  next
    case (Some m)
    note new = newest_of_constructor [OF assms(2) ok [unfolded Some]]
    have coid: "int_range (km_coid (data_msg (data m)))"
      using i Some assms(5) by (auto simp: qnx_internal_msgsend_init_noreply_def fresh_msgsend_def Let_def
          case_prod_beta split: option.splits if_splits)
    have pe: "procs s1 e = Some pe" using assms(3) same_but_ids_frame(3) [OF new(3)] by simp
    show ?thesis
      using new(2) pe coid
    proof (cases rule: kinv_route)
      case (routed cn c ch)
      have "newest (m\<lparr>receiver_pid := conn_pid cn\<rparr>) (hold c s1)" using new(1) by simp
      from send_noreply_ok [OF routed(5) this, of wakes R] show ?thesis
        using assms(6,7) i Some assms(3) routed(1-3)
        by (fastforce simp: no_reply_defs Let_def alloc_def post_def)
    qed (use i Some assms(3,7) new(2) in \<open>auto simp: no_reply_defs\<close>)
  qed
qed

lemma msgsend_noreplyv_ok:
  assumes "kenv_ok env" and "kinv H s" and "procs s e = Some pe" and "gbl_next_rcvid s < 2 ^ 31 - 1"
    and "qnx_max_noreply_msg_size s < 2 ^ 32"
    and "\<And>v. io = Some v \<Longrightarrow> int_range (msv_coid v) \<and> int_range (msv_in_len v) \<and> 0 \<le> msv_in_len v"
    and "\<forall>w \<in> set wakes. \<forall>c d. quiet R c d (snd w)" and "R H" and "uninit_rc env \<noteq> 0"
  shows "\<exists>r s' H'. handle_msgsend_noreplyv env io e wakes s = Some (r, s') \<and> R H' \<and>
    (kinv H' s' \<or> r \<noteq> Some 0 \<and> (\<exists>c. kinv (holding c H') s'))"
proof (cases io)
  case None
  then show ?thesis using assms(2,8) by (auto simp: noreplyv_defs)
next
  case io: (Some v)
  note rng = assms(6) [OF io]
  have r0: "0 \<le> gbl_next_rcvid s" using kinvD(6) [OF assms(2)] by (simp add: msgs_inv_def)
  let ?nomem = "msv_in_len v > QNX_MAX_IOVEC_LEN \<and> \<not> kmalloc env A_iov_in (vector_bytes (msv_in_len v))"
  obtain ins where ins: "fetch_vector env (msv_in v) (msv_in_len v) = Some ins"
    using fetch_vector_ok [OF assms(1), of "msv_in_len v" "msv_in v"] rng by auto
  show ?thesis
  proof (cases "?nomem \<or> ins = None")
    case True
    then show ?thesis using assms(2,8) io ins by (auto simp: noreplyv_defs)
  next
    case False
    then obtain ivs where vs: "ins = Some ivs" by auto
    have coid: "int_range (msv_coid v)" using rng by simp
    show ?thesis
      using assms(2,3) coid
    proof (cases rule: kinv_route)
      case (routed cn c ch)
      let ?s = "hold c s"
      have sz: "qnx_max_noreply_msg_size ?s < 2 ^ 32" using assms(5) by (simp add: hold_def store_chan_def)
      obtain rc mo s2 where i: "qnx_internal_msgsend_init_noreplyv env v ivs (pid pe) ?s = Some (rc, mo, s2)"
        "new_message_ok None (pid pe) ?s rc mo s2 \<or> rc = uninit_rc env \<and> mo = None \<and> s2 = ?s"
        using init_noreplyv_ok [OF assms(1), of ?s] r0 assms(4) sz by fastforce
      show ?thesis
      proof (cases mo)
        case None
        then have "kinv (holding c H) s2"
          using i(2) kinv_same_but_ids [OF routed(5), of s2] routed(5) by (auto simp: new_message_ok_def)
        moreover have "rc \<noteq> 0" using i(2) None assms(9) by (auto simp: new_message_ok_def)
        ultimately show ?thesis
          using False io ins vs routed(1-3) assms(3,8) i(1) None by (auto simp: noreplyv_defs)
      next
        case (Some m)
        with i(2) have ok: "new_message_ok None (pid pe) ?s rc (Some m) s2" by simp
        note new = newest_of_constructor [OF routed(5) ok]
        from send_noreply_ok [OF new(2) new(1) [of "conn_pid cn"], of wakes R] show ?thesis
          using assms(7,8) False io ins vs routed(1-3) assms(3) i(1) Some
          by (fastforce simp: noreplyv_defs Let_def alloc_def post_def)
      qed
    qed (use False io ins vs assms(2,8) in \<open>auto simp: noreplyv_defs\<close>)
  qed
qed

section \<open>Waking up\<close>

text \<open>
  Where the message \<open>d\<close> of a sender that sleeps on \<open>c\<close> may be: on the queue of \<open>c\<close>, on the
  pending list of the receiving process, which is in the list of processes, or nowhere.
\<close>

definition placed :: "kstate \<Rightarrow> addr \<Rightarrow> addr \<Rightarrow> bool" where
  "placed s c d \<longleftrightarrow>
     (\<forall>x ch. chans s x = Some ch \<and> d \<in> set (waiting ch) \<longrightarrow> x = c) \<and>
     (\<forall>e pe m. procs s e = Some pe \<and> d \<in> set (pending pe) \<and> msgs s d = Some m \<longrightarrow>
        e \<in> set (process_entries s) \<and> pid pe = receiver_pid m)"

lemma kinv_process_release:
  assumes "kinv H s" and "procs s e = Some pe" and "1 < pe_refcnt pe"
  shows "qnx_process_entry_release e s = Some (store_proc e (pe\<lparr>pe_refcnt := pe_refcnt pe - 1\<rparr>) s)"
    and "kinv H (store_proc e (pe\<lparr>pe_refcnt := pe_refcnt pe - 1\<rparr>) s)"
proof -
  show "qnx_process_entry_release e s = Some (store_proc e (pe\<lparr>pe_refcnt := pe_refcnt pe - 1\<rparr>) s)"
    using pref.unref_shared [OF assms(2,3)] by simp
  show "kinv H (store_proc e (pe\<lparr>pe_refcnt := pe_refcnt pe - 1\<rparr>) s)"
    by (rule kinv_store_proc [OF assms(1,2)])
      (use kinv_proc [OF assms(1,2)] assms(3) in \<open>auto simp: proc_inv_def\<close>)
qed

lemma in_no_list_store_proc:
  "procs s e = Some pe \<Longrightarrow> pending pe' = pending pe \<Longrightarrow> in_no_list d (store_proc e pe' s) \<longleftrightarrow> in_no_list d s"
  by (simp add: in_no_list_def) (metis option.inject)

lemma block_pending_ok:
  assumes "kinv (holding c H) s" and "msgs s d = Some m" and "task m = Some t" and "placed s c d"
    and "\<And>ch. chans s c = Some ch \<Longrightarrow> d \<notin> set (waiting ch)"
  obtains (spins) "block_pending rc c d s = Some (Spins rc, s)" and "mstate m = QNX_STATE_RECEIVING"
  | (returns) r s' where "block_pending rc c d s = Some (Returns r, s')" and "kinv H s'" and "in_no_list d s'"
      and "r = rc \<or> r = status m" and "msgs s' d = Some m"
proof (cases "mstate m = QNX_STATE_RECEIVING")
  case True
  then show thesis using spins assms(2) by (simp add: block_pending_def)
next
  case ready: False
  have notq: "\<forall>x ch. chans s x = Some ch \<longrightarrow> d \<notin> set (waiting ch)"
    using assms(4,5) unfolding placed_def by metis
  have rid: "rcvid m \<noteq> 0"
    using kinv_msg [OF assms(1,2)] assms(3) by (auto simp: payload_ok_def split: payload.splits)
  have uniq: "x = d" if "msgs s x = Some mx" "rcvid mx = rcvid m" for x mx
    using kinvD(6) [OF assms(1)] that assms(2) rid unfolding msgs_inv_def by metis
  have wrap: thesis
    if k: "kinv (holding c H) s'" and out: "in_no_list d s'" and same: "msgs s' d = Some m" and r: "r = rc \<or> r = status m"
      and run: "block_pending rc c d s = do { s4 \<leftarrow> qnx_channel_release c s'; Some (Returns r, s4) }" for s' r
  proof (rule kinv_put_back [OF k])
    fix s4
    assume s4: "qnx_channel_release c s' = Some s4" "kinv H s4" "sender_frame s' s4" "\<And>x. in_no_list x s' \<Longrightarrow> in_no_list x s4"
    then show thesis
      using returns [of r s4] run out same r by (auto simp: sender_frame_def)
  qed
  show thesis
    using assms(1)
  proof (cases rule: kinv_find_process [where p = "receiver_pid m"])
    case none
    have "d \<notin> set (pending px)" if "procs s x = Some px" for x px
      using assms(2,4) none(2) that unfolding placed_def by metis
    then have "in_no_list d s" using notq by (auto simp: in_no_list_def)
    then show thesis
      by (rule wrap [OF assms(1) _ assms(2), of rc]) (use none(1) ready assms(2) in \<open>simp_all add: block_pending_def\<close>)
  next
    case (found e pe)
    let ?pe = "pe\<lparr>pe_refcnt := Suc (pe_refcnt pe)\<rparr>"
    let ?s = "store_proc e ?pe s"
    note tgt = kinv_process_target [OF assms(1) found(1,2)]
    have at: "procs ?s e = Some ?pe" by simp
    show thesis
      using tgt(1) at
    proof (cases rule: kinv_release_pending [where r = "rcvid m"])
      case none
      note rel = kinv_process_release [OF tgt(1) at]
      have "e' = e" if "procs s e' = Some px" "d \<in> set (pending px)" for e' px
        using assms(2,4) that found(1-3) kinvD(1) [OF assms(1)] unfolding placed_def list_inv_def by metis
      moreover have "d \<notin> set (pending pe)" using none(2) [of d m] assms(2) by auto
      ultimately have "in_no_list d s" using notq found(2) by (auto simp: in_no_list_def)
      then have out: "in_no_list d (store_proc e (?pe\<lparr>pe_refcnt := pe_refcnt ?pe - 1\<rparr>) ?s)"
        using in_no_list_store_proc [OF at] in_no_list_store_proc [OF found(2)] by simp
      show thesis
        by (rule wrap [OF rel(2) out, of "status m"])
          (use rel(1) tgt(2) found(4) none(1) ready assms(2) in \<open>simp_all add: block_pending_def\<close>)
    next
      case (hit d' m' s2)
      have "d' = d" using hit(2,3) uniq by simp
      have at2: "procs s2 e = Some (?pe\<lparr>pending := remove1 d (pending pe)\<rparr>)"
        using hit(6) \<open>d' = d\<close> by simp
      note rel = kinv_process_release [OF hit(8) at2]
      have st: "msgs s2 d = Some m" "mstate m = QNX_STATE_PENDING"
        using hit(2,5,6) \<open>d' = d\<close> assms(2) by simp_all
      have out: "in_no_list d (store_proc e (?pe\<lparr>pending := remove1 d (pending pe),
          pe_refcnt := pe_refcnt (?pe\<lparr>pending := remove1 d (pending pe)\<rparr>) - 1\<rparr>) s2)"
        using in_no_list_store_proc [OF at2] hit(9) \<open>d' = d\<close> by simp
      show thesis
        by (rule wrap [OF rel(2) out, of rc])
          (use rel(1) tgt(2) found(4) hit(7) st assms(2) \<open>d' = d\<close> in \<open>simp_all add: block_pending_def\<close>)
    qed
  qed
qed

definition timed_out :: "nat \<Rightarrow> qnx_internal_msgsend \<Rightarrow> bool" where
  "timed_out left m \<longleftrightarrow> km_timeout_ms (data_msg (data m)) > 0 \<and> left = 0"

lemma block_exit_ok:
  assumes "kinv (holding c H) s" and "msgs s d = Some m" and "task m = Some t" and "placed s c d"
    and "\<not> timed_out left m \<and> \<not> sg \<longrightarrow> in_no_list d s"
  obtains (spins) s' rc where "block_exit left sg c d s = Some (Spins rc, s')" and "kinv (holding c H) s'"
      and "mstate m = QNX_STATE_RECEIVING" and "timed_out left m \<or> sg"
  | (returns) s' r where "block_exit left sg c d s = Some (Returns r, s')" and "kinv H s'" and "in_no_list d s'"
      and "msgs s' d = Some m"
      and "r = status m \<or> r = (if timed_out left m then - ETIMEDOUT else - ERESTARTSYS) \<and> (timed_out left m \<or> sg)"
proof (cases "\<not> timed_out left m \<and> \<not> sg")
  case woken: True
  show thesis
  proof (rule kinv_put_back [OF assms(1)])
    fix s4
    assume "qnx_channel_release c s = Some s4" "kinv H s4" "sender_frame s s4" "\<And>x. in_no_list x s \<Longrightarrow> in_no_list x s4"
    then show thesis
      using returns [of "status m" s4] woken assms(2,5)
      by (auto simp: block_exit_def timed_out_def sender_frame_def Let_def)
  qed
next
  case cut: False
  let ?rc = "if timed_out left m then - ETIMEDOUT else - ERESTARTSYS"
  obtain ch where ch: "chans s c = Some ch" using kinv_held [OF assms(1), of c] by auto
  have tm: "task m \<noteq> None" using assms(3) by simp
  have run: "block_exit left sg c d s =
      do { (removed, s1) \<leftarrow> qnx_channel_remove_message c (rcvid m) s;
           if removed = 0 then block_pending ?rc c d s1
           else do { s2 \<leftarrow> qnx_channel_release c s1; Some (Returns ?rc, s2) } }"
    using cut assms(2) by (auto simp: block_exit_def timed_out_def Let_def)
  show thesis
    using assms(1) ch assms(2) tm
  proof (cases rule: kinv_remove_message)
    case (removed ch')
    have "msgs (store_chan c ch' s) d = Some m" using assms(2) by simp
    then show thesis
      using removed(2,3) run removed(1) cut returns [of ?rc]
      by (elim kinv_put_back) (auto simp: sender_frame_def)
  next
    case gone
    have notin: "d \<notin> set (waiting chx)" if "chans s c = Some chx" for chx using ch gone(2) that by simp
    show thesis
    proof (rule block_pending_ok [OF assms(1-4) notin, where rc = ?rc])
      assume "block_pending ?rc c d s = Some (Spins ?rc, s)" "mstate m = QNX_STATE_RECEIVING"
      then show thesis using spins [of ?rc s] run gone(1) assms(1) cut by auto
    next
      fix r s'
      assume "block_pending ?rc c d s = Some (Returns r, s')" "kinv H s'" "in_no_list d s'"
        "r = ?rc \<or> r = status m" "msgs s' d = Some m"
      then show thesis using returns [of r s'] run gone(1) cut by auto
    qed
  qed
qed

text \<open>
  After the block the thread ends its frame: the message is in no list, so nothing refers to
  it any more, and the reply is copied from a buffer that has the announced length.
\<close>

lemma msgsend_exit_ok:
  assumes "kinv H s" and "msgs s d = Some m" and "in_no_list d s"
  shows "\<exists>rc' ws. handle_msgsend_exit env rc d s = Some (rc', ws, s\<lparr>msgs := (msgs s)(d := None)\<rparr>) \<and>
    kinv H (s\<lparr>msgs := (msgs s)(d := None)\<rparr>)"
proof -
  have "reply_len m > 0 \<Longrightarrow> \<exists>bs. reply_base m = Some bs"
    using kinv_msg [OF assms(1,2)] by (auto simp: payload_ok_def split: option.splits)
  then show ?thesis
    using assms(2) kinv_free_msg [OF assms(1,3)] by (auto simp: handle_msgsend_exit_def Let_def)
qed

section \<open>Properties\<close>

text \<open>
  C10. Sending with reply, up to the sleep: \<open>MsgSend\<close>, and \<open>MsgSendv\<close> with vector lengths that are not
  negative, never fault, whatever else the caller passes and whichever allocation or copy fails; the
  stack buffers for vectors are not overrun (a negative length overruns them, see
  \<open>negative_vector_length_overruns\<close>). Either the call is over with an error,
  or the thread sleeps with its message at the end of the queue of a live channel to which it
  holds one reference; the kernel invariant holds in both cases. (A failed \<open>MsgSendv\<close> may keep
  one reference to a channel.)
\<close>

theorem send_enter_safe:
  assumes "kenv_ok env" and "kinv H s" and "procs s e = Some pe" and "gbl_next_rcvid s < 2 ^ 31 - 1"
    and "int_range (ms_coid io)" and "int_range (msv_coid v)" and "int_range (msv_in_len v)"
    and "int_range (msv_out_len v)" and "0 \<le> msv_in_len v" and "0 \<le> msv_out_len v"
  shows "(\<exists>r s'. handle_msgsend_enter env (Some io) t e s = Some (r, s') \<and>
      (case r of Finished rc \<Rightarrow> rc < 0 \<and> kinv H s'
       | Blocked c d \<Rightarrow> kinv (holding c H) s' \<and> sleeps_on s' t c d)) \<and>
    (\<exists>r outs s'. handle_msgsendv_enter env (Some v) t e s = Some (r, outs, s') \<and>
      (case r of Finished rc \<Rightarrow> rc < 0 \<and> (kinv H s' \<or> (\<exists>c. kinv (holding c H) s'))
       | Blocked c d \<Rightarrow> kinv (holding c H) s' \<and> sleeps_on s' t c d))"
proof
  show "\<exists>r s'. handle_msgsend_enter env (Some io) t e s = Some (r, s') \<and>
      (case r of Finished rc \<Rightarrow> rc < 0 \<and> kinv H s'
       | Blocked c d \<Rightarrow> kinv (holding c H) s' \<and> sleeps_on s' t c d)"
    using msgsend_enter_ok [OF assms(1-4), of "Some io" t] assms(5) by (simp add: entered_ok_def)
  obtain r outs s' where "handle_msgsendv_enter env (Some v) t e s = Some (r, outs, s')"
    "entered_ok H t r s' \<or> (\<exists>rc c. r = Finished rc \<and> rc < 0 \<and> kinv (holding c H) s')"
    using msgsendv_enter_ok [OF assms(1-4), of "Some v" t, simplified] assms(6-10) by blast
  then show "\<exists>r outs s'. handle_msgsendv_enter env (Some v) t e s = Some (r, outs, s') \<and>
      (case r of Finished rc \<Rightarrow> rc < 0 \<and> (kinv H s' \<or> (\<exists>c. kinv (holding c H) s'))
       | Blocked c d \<Rightarrow> kinv (holding c H) s' \<and> sleeps_on s' t c d)"
    by (cases r) (auto simp: entered_ok_def)
qed

theorem send_enter_safe_witness:
  "\<exists>c d s'. handle_msgsend_enter demo_env (Some demo_io) 5 3 demo_kernel = Some (Blocked c d, s') \<and>
     sleeps_on s' 5 c d"
proof -
  have "\<exists>c d s'. handle_msgsend_enter demo_env (Some demo_io) 5 3 demo_kernel = Some (Blocked c d, s')"
    by (simp add: handle_msgsend_enter_def demo_defs qnx_internal_msgsend_init_def demo_env_def demo_io_def
        fresh_msgsend_def get_new_rcvid_def wrap32_def qnx_process_entry_find_connection_def small_table_def
        qnx_connection_table_retrieve_def qnx_connection_table_get_capacity_def to_size_def slot_nonnull_def
        qnx_conn_is_valid_def qnx_driver_data_find_channel_def qnx_driver_data_find_process_def
        process_entry_get_def store_proc_def qnx_process_entry_find_channel_def channel_get_def
        qnx_process_entry_release_def alloc_def block_enter_def qnx_channel_add_new_message_def
        channel_enqueue_def set_interruptible_def Let_def)
  moreover have "int_range (ms_coid demo_io)" "int_range (msv_coid demo_iov)" "int_range (msv_in_len demo_iov)"
    "int_range (msv_out_len demo_iov)" "0 \<le> msv_in_len demo_iov" "0 \<le> msv_out_len demo_iov" "gbl_next_rcvid demo_kernel < 2 ^ 31 - 1"
    by (simp_all add: int_range_def demo_io_def demo_iov_def demo_defs)
  ultimately show ?thesis
    using send_enter_safe [OF demo_env_ok demo_kernel_inv demo_kernel_procs(2), of demo_io demo_iov 5] by auto
qed

text \<open>The example with task 5 asleep on channel 2, message 4 at the end of the queue.\<close>

definition demo_asleep_msg :: qnx_internal_msgsend where
  "demo_asleep_msg = (fresh_msgsend 1 8 (Some 5) (Msg zero_kmsg))\<lparr>receiver_pid := 7, receiver_chid := 1\<rparr>"

definition demo_asleep :: kstate where
  "demo_asleep = demo_kernel\<lparr>chans := [2 \<mapsto> \<lparr>ch_refcnt = 2, chid = 1, waiting = [4], num_waiting = 1,
       num_waiting_noreply = 0\<rparr>], msgs := [4 \<mapsto> demo_asleep_msg], next_addr := 5, gbl_next_rcvid := 1,
     running := (\<lambda>_. True)(5 := False)\<rparr>"

lemma demo_asleep_inv: "kinv (holding 2 (\<lambda>_. 0)) demo_asleep"
proof (rule kinvI)
  have own: "owned (procs demo_asleep) c \<longleftrightarrow> c = 2" for c
    by (auto simp: owned_def demo_asleep_def demo_defs)
  then show "refs_inv (holding 2 (\<lambda>_. 0)) (procs demo_asleep) (chans demo_asleep)"
    by (simp add: refs_inv_def refs_def own holding_def) (simp add: demo_asleep_def demo_defs)
  show "msgs_inv (msgs demo_asleep) (gbl_next_rcvid demo_asleep)"
    by (auto simp: demo_asleep_def demo_asleep_msg_def msgs_inv_def payload_ok_fresh_msg zero_kmsg_def)
      (simp_all add: fresh_msgsend_def)
qed (auto simp: demo_asleep_def demo_asleep_msg_def demo_defs list_inv_def procs_inv_def proc_inv_def queue_inv_def
    chan_inv_def ids_inv_def fresh_inv_def params_inv_def wf_small_table fresh_msgsend_def noreply_at_def,
    simp_all add: wf_table_def)

text \<open>
  Pulses and messages without reply: the handlers never fault and keep the kernel
  invariant, for a sender that waits for a free slot as well, as long as the other threads keep
  the invariant and do not touch its message. Each channel reference that was taken is given
  back when the call returns, except that a vector message that is not sent may keep one. (The
  length of a plain message must leave room for the header in \<open>size_t\<close>, and the length of a vector
  must not be negative.)
\<close>

theorem noreply_senders_safe:
  assumes "kenv_ok env" and "kinv H s" and "procs s e = Some pe" and "gbl_next_rcvid s < 2 ^ 31 - 1"
    and "qnx_max_noreply_msg_size s < 2 ^ 32"
    and "int_range (mp_coid p)" and "int_range (ms_coid io)" and "iov_len (ms_in io) < 2 ^ 64 - sizeof_msgsend"
    and "int_range (msv_coid v)" and "int_range (msv_in_len v)"
    and "\<forall>w \<in> set ws. \<forall>c d. quiet R c d (snd w)" and "R H" and "uninit_rc env \<noteq> 0" and "0 \<le> msv_in_len v"
  shows "(\<exists>rc s'. handle_msgsendpulse env (Some p) e s = Some (rc, s') \<and> kinv H s' \<and> rc \<le> 0) \<and>
    (\<exists>r s' H'. handle_msgsend_no_reply env (Some io) e ws s = Some (r, s') \<and> R H' \<and>
       (if r = None then \<exists>c. kinv (holding c H') s' else kinv H' s')) \<and>
    (\<exists>r s' H'. handle_msgsend_noreplyv env (Some v) e ws s = Some (r, s') \<and> R H' \<and>
       (kinv H' s' \<or> r \<noteq> Some 0 \<and> (\<exists>c. kinv (holding c H') s')))"
proof (intro conjI)
  show "\<exists>rc s'. handle_msgsendpulse env (Some p) e s = Some (rc, s') \<and> kinv H s' \<and> rc \<le> 0"
    by (rule msgsendpulse_ok [OF assms(2,3)]) (use assms(6) in simp)
  show "\<exists>r s' H'. handle_msgsend_no_reply env (Some io) e ws s = Some (r, s') \<and> R H' \<and>
      (if r = None then \<exists>c. kinv (holding c H') s' else kinv H' s')"
    by (rule msgsend_no_reply_ok [OF assms(1-4) _ assms(11,12)]) (use assms(7,8) in simp_all)
  show "\<exists>r s' H'. handle_msgsend_noreplyv env (Some v) e ws s = Some (r, s') \<and> R H' \<and>
      (kinv H' s' \<or> r \<noteq> Some 0 \<and> (\<exists>c. kinv (holding c H') s'))"
    by (rule msgsend_noreplyv_ok [OF assms(1-5) _ assms(11-13)]) (use assms(9,10,14) in simp_all)
qed

theorem noreply_senders_safe_witness:
  "\<exists>r s'. handle_msgsend_no_reply demo_env (Some demo_io) 3 [(True, \<lambda>s. s)] demo_kernel = Some (r, s') \<and>
     (if r = None then \<exists>c. kinv (holding c (\<lambda>_. 0)) s' else kinv (\<lambda>_. 0) s')"
proof -
  have "gbl_next_rcvid demo_kernel < 2 ^ 31 - 1" "qnx_max_noreply_msg_size demo_kernel < 2 ^ 32"
    "int_range (mp_coid \<lparr>mp_coid = 1, mp_code = 2, mp_value = 3\<rparr>)" "int_range (ms_coid demo_io)"
    "iov_len (ms_in demo_io) < 2 ^ 64 - sizeof_msgsend" "int_range (msv_coid demo_iov)" "int_range (msv_in_len demo_iov)"
    "\<forall>w \<in> set [(True, \<lambda>s. s)]. \<forall>c d. quiet (\<lambda>H. H = (\<lambda>_. 0)) c d (snd w)"
    by (simp_all add: demo_defs int_range_def demo_io_def demo_iov_def sizeof_msgsend_def quiet_id)
  from noreply_senders_safe [OF demo_env_ok demo_kernel_inv demo_kernel_procs(2) this refl]
  show ?thesis by (simp add: demo_env_def demo_iov_def)
qed

text \<open>
  C26. A negative number of segments overruns the kernel stack. The test for the size of the buffer
  is signed and lets a negative length pass to the buffer of five segments on the stack; the byte
  count of the copy is unsigned and becomes almost \<open>2^64\<close>. The kernel writes that many bytes to the
  buffer, if only zeros because the source cannot be read. So \<open>MsgSendv\<close> with a negative length of
  either vector faults as soon as it comes to copy that vector, and \<open>MsgSendNoReplyv\<close> with a
  negative length always; with lengths that are not
  negative the kernel gets exactly the announced number of segments, in a buffer that has room for
  them, or the copy fails.
\<close>

theorem negative_vector_length_overruns:
  assumes "kenv_ok env" and "int_range n"
  shows "(n < 0 \<longrightarrow> fetch_vector env a n = None \<and>
      (\<forall>v t e s. msv_in_len v = n \<and> msv_out_len v \<le> QNX_MAX_IOVEC_LEN \<longrightarrow> handle_msgsendv_enter env (Some v) t e s = None) \<and>
      (\<forall>v ivs t e s. msv_out_len v = n \<and> msv_in_len v \<le> QNX_MAX_IOVEC_LEN \<and>
         fetch_vector env (msv_in v) (msv_in_len v) = Some (Some ivs) \<longrightarrow> handle_msgsendv_enter env (Some v) t e s = None) \<and>
      (\<forall>v e s. msv_in_len v = n \<longrightarrow> handle_msgsend_noreplyv_enter env (Some v) e s = None)) \<and>
    (0 \<le> n \<longrightarrow> fetch_vector env a n = Some None \<or> (\<exists>vs. fetch_vector env a n = Some (Some vs) \<and> int (length vs) = n))"
proof (intro conjI impI allI)
  assume n: "n < 0"
  note over = fetch_vector_overruns [OF n assms(2)]
  have small: "\<not> QNX_MAX_IOVEC_LEN < n" using n by (simp add: QNX_MAX_IOVEC_LEN_def)
  show "fetch_vector env a n = None" by (rule over)
  show "handle_msgsendv_enter env (Some v) t e s = None" if "msv_in_len v = n \<and> msv_out_len v \<le> QNX_MAX_IOVEC_LEN" for v t e s
    using that over small by (simp add: handle_msgsendv_enter_def)
  show "handle_msgsendv_enter env (Some v) t e s = None"
    if "msv_out_len v = n \<and> msv_in_len v \<le> QNX_MAX_IOVEC_LEN \<and> fetch_vector env (msv_in v) (msv_in_len v) = Some (Some ivs)" for v ivs t e s
    using that over small by (simp add: handle_msgsendv_enter_def)
  show "handle_msgsend_noreplyv_enter env (Some v) e s = None" if "msv_in_len v = n" for v e s
    using that over small by (simp add: handle_msgsend_noreplyv_enter_def)
next
  assume "0 \<le> n"
  then show "fetch_vector env a n = Some None \<or> (\<exists>vs. fetch_vector env a n = Some (Some vs) \<and> int (length vs) = n)"
    by (rule fetch_vector_ok [OF assms])
qed

theorem negative_vector_length_overruns_witness:
  "handle_msgsendv_enter demo_env (Some (demo_iov\<lparr>msv_in_len := - 1\<rparr>)) 5 3 demo_kernel = None \<and>
   handle_msgsend_noreplyv_enter demo_env (Some (demo_iov\<lparr>msv_in_len := - 1\<rparr>)) 3 demo_kernel = None \<and>
   (\<exists>vs. fetch_vector demo_env 128 2 = Some (Some vs) \<and> int (length vs) = 2)"
proof -
  have out: "msv_out_len demo_iov \<le> QNX_MAX_IOVEC_LEN" by (simp add: demo_iov_def QNX_MAX_IOVEC_LEN_def)
  have "fetch_vector demo_env 128 2 \<noteq> Some None"
    by (simp add: fetch_vector_def demo_env_def vector_bytes_def to_size_def QNX_MAX_IOVEC_LEN_def)
  then show ?thesis
    using negative_vector_length_overruns [OF demo_env_ok, of "- 1" 128] negative_vector_length_overruns [OF demo_env_ok, of 2 128] out
    by (simp add: int_range_def)
qed

lemma routes_unique:
  assumes "kinv H s" and "routes s e coid cn c" and "routes s e coid cn' c'"
  shows "cn' = cn \<and> c' = c"
proof -
  have same: "cn' = cn" using assms(2,3) by (auto simp: routes_def)
  moreover have "c' = c"
    using assms kinvD(5) [OF assms(1)] unfolding routes_def channel_of_def ids_inv_def same by metis
  ultimately show ?thesis by simp
qed

lemma route_found:
  assumes "kinv H s" and "procs s e = Some pe" and "int_range coid" and "routes s e coid cn c"
  shows "qnx_process_entry_find_connection e coid s = Some cn" and "qnx_conn_is_valid cn"
    and "qnx_driver_data_find_channel (conn_pid cn) (conn_chid cn) s = Some (Some c, hold c s)"
    and "kinv (holding c H) (hold c s)" and "\<exists>ch. chans s c = Some ch"
proof -
  have "qnx_process_entry_find_connection e coid s = Some cn \<and> qnx_conn_is_valid cn \<and>
    qnx_driver_data_find_channel (conn_pid cn) (conn_chid cn) s = Some (Some c, hold c s) \<and>
    kinv (holding c H) (hold c s) \<and> (\<exists>ch. chans s c = Some ch)"
    using assms(1-3)
  proof (cases rule: kinv_route)
    case (routed cn' c' ch)
    then show ?thesis using routes_unique [OF assms(1,4) routed(6)] by simp
  qed (use assms(4) in blast)+
  then show "qnx_process_entry_find_connection e coid s = Some cn" and "qnx_conn_is_valid cn"
    and "qnx_driver_data_find_channel (conn_pid cn) (conn_chid cn) s = Some (Some c, hold c s)"
    and "kinv (holding c H) (hold c s)" and "\<exists>ch. chans s c = Some ch"
    by simp_all
qed

text \<open>
  A vector message whose input buffer cannot be allocated leaks its reference to the
  channel: the call returns \<open>-ENOMEM\<close> although it took a reference that no thread gives back,
  so the channel is never freed.
\<close>

theorem sendv_leaks_channel:
  assumes "kinv H s" and "procs s e = Some pe" and "int_range (msv_coid v)" and "routes s e (msv_coid v) cn c"
    and "msv_in_len v \<le> QNX_MAX_IOVEC_LEN" and "msv_out_len v \<le> QNX_MAX_IOVEC_LEN"
    and "fetch_vector env (msv_in v) (msv_in_len v) = Some (Some ivs)"
    and "fetch_vector env (msv_out v) (msv_out_len v) = Some (Some ovs)"
    and "\<not> kmalloc env A_inbuf (iov_length env ivs)"
  shows "\<exists>s' ch. handle_msgsendv_enter env (Some v) t e s = Some (Finished (- ENOMEM), [], s') \<and>
    chans s c = Some ch \<and> chans s' c = Some (ch\<lparr>ch_refcnt := Suc (ch_refcnt ch)\<rparr>) \<and> kinv (holding c H) s'"
proof -
  note r = route_found [OF assms(1-4)]
  obtain ch where ch: "chans s c = Some ch" using r(5) by blast
  have "handle_msgsendv_enter env (Some v) t e s = Some (Finished (- ENOMEM), [], hold c s)"
    using assms(2,5-9) r(1-3) by (simp add: handle_msgsendv_enter_def qnx_internal_msgsend_initv_def Let_def)
  then show ?thesis using r(4) ch chans_hold [OF ch] by simp
qed

lemma demo_routes: "routes demo_kernel 3 1 \<lparr>conn_pid = 7, conn_chid = 1\<rparr> 2"
  unfolding routes_def channel_of_def
  by (intro exI [of _ demo_client] exI [of _ 1] exI [of _ demo_server])
    (simp add: demo_defs table_map_def small_table_def)

theorem sendv_leaks_channel_witness:
  "\<exists>s' ch'. handle_msgsendv_enter (demo_env\<lparr>kmalloc := \<lambda>_ _. False\<rparr>) (Some demo_iov) 5 3 demo_kernel =
      Some (Finished (- ENOMEM), [], s') \<and> chans s' 2 = Some ch' \<and> ch_refcnt ch' = 2"
proof -
  let ?env = "demo_env\<lparr>kmalloc := \<lambda>_ _. False\<rparr>"
  have v: "int_range (msv_coid demo_iov)" "msv_in_len demo_iov \<le> QNX_MAX_IOVEC_LEN" "msv_out_len demo_iov \<le> QNX_MAX_IOVEC_LEN"
    "routes demo_kernel 3 (msv_coid demo_iov) \<lparr>conn_pid = 7, conn_chid = 1\<rparr> 2"
    using demo_routes by (simp_all add: int_range_def demo_iov_def QNX_MAX_IOVEC_LEN_def)
  have f: "fetch_vector ?env (msv_in demo_iov) (msv_in_len demo_iov) = Some (Some [\<lparr>iov_base = 128, iov_len = 4\<rparr>])"
    "fetch_vector ?env (msv_out demo_iov) (msv_out_len demo_iov) = Some (Some [\<lparr>iov_base = 256, iov_len = 4\<rparr>])"
    "\<not> kmalloc ?env A_inbuf (iov_length ?env [\<lparr>iov_base = 128, iov_len = 4\<rparr>])"
    by (simp_all add: fetch_vector_def demo_env_def demo_iov_def vector_bytes_def to_size_def QNX_MAX_IOVEC_LEN_def)
  have "chans demo_kernel 2 = Some \<lparr>ch_refcnt = 1, chid = 1, waiting = [], num_waiting = 0, num_waiting_noreply = 0\<rparr>"
    by (simp add: demo_kernel_def)
  then show ?thesis
    using sendv_leaks_channel [OF demo_kernel_inv demo_kernel_procs(2) v(1,4,2,3) f, of 5] by auto
qed

lemma no_reply_eq:
  assumes "procs s e = Some pe" and "qnx_internal_msgsend_init_noreply env io (pid pe) s = Some (rc, Some m, s1)"
    and "qnx_process_entry_find_connection e (km_coid (data_msg (data m))) s1 = Some cn" and "qnx_conn_is_valid cn"
    and "qnx_driver_data_find_channel (conn_pid cn) (conn_chid cn) s1 = Some (Some c, s2)"
  shows "handle_msgsend_no_reply env io e ws s =
    do { (r, s5) \<leftarrow> busy_loop_add_new_message c (next_addr s2) ws (post (m\<lparr>receiver_pid := conn_pid cn\<rparr>) s2);
         (case r of None \<Rightarrow> Some (None, s5)
          | Some _ \<Rightarrow> do { s6 \<leftarrow> qnx_channel_release c s5; Some (Some 0, s6) }) }"
  using assms
  by (simp add: no_reply_defs alloc_def post_def del: busy_loop_add_new_message.simps)

lemma full_channel_refuses:
  assumes "kinv H s" and "chans s c = Some ch" and "msgs s d = Some m" and "in_no_list d s"
    and "mstate m = QNX_STATE_INITIAL" and "noreply_at (msgs s) d"
    and "num_waiting_noreply ch = int (qnx_max_noreply_msg_num s)"
  shows "\<exists>ch'. qnx_channel_add_new_message c d s =
      Some (- 1, store_chan c ch' (s\<lparr>msgs := (msgs s)(d \<mapsto> m\<lparr>receiver_chid := chid ch\<rparr>)\<rparr>)) \<and>
    waiting ch' = waiting ch \<and> ch_refcnt ch' = ch_refcnt ch \<and>
    kinv H (store_chan c ch' (s\<lparr>msgs := (msgs s)(d \<mapsto> m\<lparr>receiver_chid := chid ch\<rparr>)\<rparr>))"
proof (rule kinv_add_new_message [OF assms(1-5)])
  fix rc ch'
  assume r: "channel_enqueue (qnx_max_noreply_msg_num s) d m ch = (rc, ch')"
    "qnx_channel_add_new_message c d s =
      Some (rc, store_chan c ch' (s\<lparr>msgs := (msgs s)(d \<mapsto> m\<lparr>receiver_chid := chid ch\<rparr>)\<rparr>))"
    "kinv H (store_chan c ch' (s\<lparr>msgs := (msgs s)(d \<mapsto> m\<lparr>receiver_chid := chid ch\<rparr>)\<rparr>))"
    "ch_refcnt ch' = ch_refcnt ch" "waiting ch' = (if rc = 0 then waiting ch @ [d] else waiting ch)"
  have "rc = - 1"
    using r(1) assms(6,7) by (simp add: enqueue_cases [OF kinv_chan [OF assms(1,2)] assms(3)])
  then show ?thesis using r by auto
qed

text \<open>
  A plain message without reply that is dropped is reported as sent: when the channel is
  full and a signal arrives while the sender waits for a free slot, the message is freed, the
  queue is unchanged, and the call still returns 0.
\<close>

theorem dropped_noreply_reports_success:
  assumes "kinv H s" and "procs s e = Some pe" and "int_range (ms_coid io)" and "routes s e (ms_coid io) cn c"
    and "chans s c = Some ch" and "num_waiting_noreply ch = int (qnx_max_noreply_msg_num s)"
    and "gbl_next_rcvid s < 2 ^ 31 - 1" and "kmalloc env A_msgsend (sizeof_msgsend + iov_len (ms_in io))"
    and "copy_from_user env (iov_base (ms_in io)) (iov_len (ms_in io)) = Some bs" and "kenv_ok env"
  shows "\<exists>s' ch'. handle_msgsend_no_reply env (Some io) e [(True, \<lambda>s. s)] s = Some (Some 0, s') \<and>
    chans s' c = Some ch' \<and> waiting ch' = waiting ch \<and> msgs s' = msgs s"
proof -
  have r0: "0 \<le> gbl_next_rcvid s" using kinvD(6) [OF assms(1)] by (simp add: msgs_inv_def)
  have small: "sizeof_msgsend + iov_len (ms_in io) < 2 ^ 31" using kenv_okD(4) [OF assms(10,8)] .
  let ?k = "\<lparr>km_coid = ms_coid io, km_timeout_ms = ms_timeout_ms io, km_in_buf = bs, km_in_len = iov_len (ms_in io),
    km_out = ms_out io\<rparr>"
  let ?r = "gbl_next_rcvid s + 1"
  let ?m = "fresh_msgsend ?r (pid pe) None (Msg ?k)"
  let ?s = "s\<lparr>gbl_next_rcvid := ?r\<rparr>"
  have i: "qnx_internal_msgsend_init_noreply env (Some io) (pid pe) s = Some (0, Some ?m, ?s)"
    using assms(8,9) small r0 assms(7)
    by (simp add: qnx_internal_msgsend_init_noreply_def get_new_rcvid_def Let_def wrap32_small sizeof_msgsend_def)
  have ok: "new_message_ok None (pid pe) s 0 (Some ?m) ?s"
    by (rule new_message_okI [OF r0 assms(7)])
      (use kenv_okD(1) [OF assms(10,9)] small r0 assms(7) in \<open>simp_all add: wrap32_small\<close>)
  note new = newest_of_constructor [OF assms(1) ok]
  have rt: "routes ?s e (ms_coid io) cn c" "procs ?s e = Some pe" using assms(2,4) by (simp_all add: routes_def channel_of_def)
  note r = route_found [OF new(2) rt(2) assms(3) rt(1)]
  let ?h = "hold c ?s"
  let ?ch = "ch\<lparr>ch_refcnt := Suc (ch_refcnt ch)\<rparr>"
  have ch: "chans ?s c = Some ch" using assms(5) by simp
  let ?mr = "?m\<lparr>receiver_pid := conn_pid cn\<rparr>"
  have nw: "newest ?mr ?h" using new(1) by simp
  note po = kinv_post [OF r(4) nw]
  let ?d = "next_addr ?h"
  have at: "chans (post ?mr ?h) c = Some ?ch" "mstate ?mr = QNX_STATE_INITIAL"
      "noreply_at (msgs (post ?mr ?h)) ?d" "num_waiting_noreply ?ch = int (qnx_max_noreply_msg_num (post ?mr ?h))"
    using chans_hold [OF ch] assms(6) r0
    by (simp_all add: post_def fresh_msgsend_def noreply_at_def hold_def store_chan_def)
  obtain ch1 where a: "qnx_channel_add_new_message c ?d (post ?mr ?h) =
      Some (- 1, store_chan c ch1 ((post ?mr ?h)\<lparr>msgs := (msgs (post ?mr ?h))(?d \<mapsto> ?mr\<lparr>receiver_chid := chid ?ch\<rparr>)\<rparr>))"
    "waiting ch1 = waiting ch" "ch_refcnt ch1 = Suc (ch_refcnt ch)"
    using full_channel_refuses [OF po(1) at(1) po(2,3) at(2-4)] by auto
  let ?s2 = "store_chan c ch1 ((post ?mr ?h)\<lparr>msgs := (msgs ?s)(?d := None)\<rparr>)"
  have fresh: "(msgs s)(next_addr s := None) = msgs s"
    using kinvD(7) [OF assms(1)] by (simp add: fresh_inv_def fun_upd_idem)
  have loop: "busy_loop_add_new_message c ?d [(True, \<lambda>s. s)] (post ?mr ?h) = Some (Some (- ERESTARTSYS), ?s2)"
    using a(1) by (simp add: store_chan_def post_def)
  have pos: "0 < ch_refcnt ch" using kinvD(3) [OF assms(1)] assms(5) by (auto simp: refs_inv_def)
  then have rel: "qnx_channel_release c ?s2 = Some (store_chan c (ch1\<lparr>ch_refcnt := ch_refcnt ch\<rparr>) ?s2)"
    using cref.unref_shared [of ?s2 c ch1] a(3) by simp
  have coid: "km_coid (data_msg (data ?m)) = ms_coid io" by (simp add: fresh_msgsend_def)
  have "handle_msgsend_no_reply env (Some io) e [(True, \<lambda>s. s)] s =
      Some (Some 0, store_chan c (ch1\<lparr>ch_refcnt := ch_refcnt ch\<rparr>) ?s2)"
    using no_reply_eq [OF assms(2) i, unfolded coid, OF r(1-3), of "[(True, \<lambda>s. s)]"] rel unfolding loop by simp
  then show ?thesis using a(2) fresh by simp
qed

lemma demo_full_inv: "kinv (\<lambda>_. 0) (demo_kernel\<lparr>qnx_max_noreply_msg_num := 0\<rparr>)"
proof (rule kinvI)
  show "queue_inv (chans (demo_kernel\<lparr>qnx_max_noreply_msg_num := 0\<rparr>))
      (msgs (demo_kernel\<lparr>qnx_max_noreply_msg_num := 0\<rparr>))
      (qnx_max_noreply_msg_num (demo_kernel\<lparr>qnx_max_noreply_msg_num := 0\<rparr>))"
    by (simp add: queue_inv_def chan_inv_def demo_defs)
  show "fresh_inv (demo_kernel\<lparr>qnx_max_noreply_msg_num := 0\<rparr>)"
    using kinvD(7) [OF demo_kernel_inv] by (simp add: fresh_inv_def)
qed (use kinvD [OF demo_kernel_inv] in simp_all)

theorem dropped_noreply_reports_success_witness:
  "\<exists>s'. handle_msgsend_no_reply demo_env (Some demo_io) 3 [(True, \<lambda>s. s)] (demo_kernel\<lparr>qnx_max_noreply_msg_num := 0\<rparr>) =
      Some (Some 0, s') \<and> msgs s' = (\<lambda>_. None)"
proof -
  let ?s = "demo_kernel\<lparr>qnx_max_noreply_msg_num := 0\<rparr>"
  let ?ch = "\<lparr>ch_refcnt = 1, chid = 1, waiting = [], num_waiting = 0, num_waiting_noreply = 0\<rparr>"
  have at: "procs ?s 3 = Some demo_client" "int_range (ms_coid demo_io)" "chans ?s 2 = Some ?ch"
    "num_waiting_noreply ?ch = int (qnx_max_noreply_msg_num ?s)" "gbl_next_rcvid ?s < 2 ^ 31 - 1"
    "kmalloc demo_env A_msgsend (sizeof_msgsend + iov_len (ms_in demo_io))"
    "\<exists>bs. copy_from_user demo_env (iov_base (ms_in demo_io)) (iov_len (ms_in demo_io)) = Some bs"
    by (simp_all add: demo_defs int_range_def demo_io_def demo_env_def sizeof_msgsend_def)
  have rt: "routes ?s 3 (ms_coid demo_io) \<lparr>conn_pid = 7, conn_chid = 1\<rparr> 2"
    using demo_routes by (simp add: routes_def channel_of_def demo_io_def)
  obtain bs where "copy_from_user demo_env (iov_base (ms_in demo_io)) (iov_len (ms_in demo_io)) = Some bs"
    using at(7) by blast
  from dropped_noreply_reports_success [OF demo_full_inv at(1,2) rt at(3-6) this demo_env_ok]
  show ?thesis by (auto simp: demo_defs)
qed

text \<open>
  A vector message without reply whose segments cannot be read: the constructor frees the
  object and returns a variable that was never assigned. If it happens to be 0 the handler goes
  on with the freed object; otherwise its value, whatever it is, becomes the result of the call,
  and the reference to the channel is never given back.
\<close>

theorem unreadable_vector_returns_garbage:
  assumes "kinv H s" and "procs s e = Some pe" and "int_range (msv_coid v)" and "routes s e (msv_coid v) cn c"
    and "msv_in_len v \<le> QNX_MAX_IOVEC_LEN" and "fetch_vector env (msv_in v) (msv_in_len v) = Some (Some ivs)"
    and "iov_length env ivs \<le> qnx_max_noreply_msg_size s" and "qnx_max_noreply_msg_size s < 2 ^ 31"
    and "kmalloc env A_msgsend (sizeof_msgsend + iov_length env ivs)"
    and "memcpy_fromiovec env ivs (int (iov_length env ivs)) = Some (- EFAULT, bs)"
  shows "handle_msgsend_noreplyv env (Some v) e ws s =
    (if uninit_rc env = 0 then None else Some (Some (uninit_rc env), hold c s)) \<and> kinv (holding c H) (hold c s)"
proof -
  note r = route_found [OF assms(1-4)]
  have small: "sizeof_msgsend + iov_length env ivs < 2 ^ 64" "int (iov_length env ivs) < 2 ^ 31"
    using assms(7,8) by (simp_all add: sizeof_msgsend_def)
  have same: "qnx_max_noreply_msg_size (hold c s) = qnx_max_noreply_msg_size s" by (simp add: hold_def store_chan_def)
  have "qnx_internal_msgsend_init_noreplyv env v ivs (pid pe) (hold c s) = Some (uninit_rc env, None, hold c s)"
    using assms(7,9,10) small same by (simp add: qnx_internal_msgsend_init_noreplyv_def Let_def wrap32_small)
  then have "handle_msgsend_noreplyv env (Some v) e ws s =
      (if uninit_rc env = 0 then None else Some (Some (uninit_rc env), hold c s))"
    using assms(2,5,6) r(1-3) by (simp add: noreplyv_defs)
  then show ?thesis using r(4) by simp
qed

text \<open>A user space in which the vector can be read and its segments cannot.\<close>

definition demo_far_env :: kenv where
  "demo_far_env = demo_env\<lparr>copy_from_user := (\<lambda>_ _. None), uninit_rc := 0\<rparr>"

theorem unreadable_vector_returns_garbage_witness:
  "handle_msgsend_noreplyv demo_far_env (Some demo_iov) 3 [] demo_kernel = None"
proof -
  have "int_range (msv_coid demo_iov)" "routes demo_kernel 3 (msv_coid demo_iov) \<lparr>conn_pid = 7, conn_chid = 1\<rparr> 2"
    "msv_in_len demo_iov \<le> QNX_MAX_IOVEC_LEN"
    "fetch_vector demo_far_env (msv_in demo_iov) (msv_in_len demo_iov) = Some (Some [\<lparr>iov_base = 128, iov_len = 4\<rparr>])"
    "iov_length demo_far_env [\<lparr>iov_base = 128, iov_len = 4\<rparr>] \<le> qnx_max_noreply_msg_size demo_kernel"
    "qnx_max_noreply_msg_size demo_kernel < 2 ^ 31"
    "kmalloc demo_far_env A_msgsend (sizeof_msgsend + iov_length demo_far_env [\<lparr>iov_base = 128, iov_len = 4\<rparr>])"
    "memcpy_fromiovec demo_far_env [\<lparr>iov_base = 128, iov_len = 4\<rparr>]
       (int (iov_length demo_far_env [\<lparr>iov_base = 128, iov_len = 4\<rparr>])) = Some (- EFAULT, [])"
    using demo_routes
    by (simp_all add: demo_iov_def demo_far_env_def demo_env_def demo_defs fetch_vector_def vector_bytes_def to_size_def
        QNX_MAX_IOVEC_LEN_def int_range_def sizeof_msgsend_def upt_rec min_uint_def to_u32_def Let_def)
  from unreadable_vector_returns_garbage [OF demo_kernel_inv demo_kernel_procs(2) this, of "[]"] show ?thesis
    by (simp add: demo_far_env_def)
qed

end
