(* ===== verification/Receive_Safety.thy ===== *)
theory Receive_Safety
  imports Send_Safety Receive
begin

text \<open>
  The receiving handlers keep the invariant of the kernel state and never fault. A message that
  was taken off the queue ends up in exactly one place: on the pending list of the receiver,
  finished with its sender awake, or freed.
\<close>

section \<open>MsgReceive\<close>

lemma receive_enter_ok:
  assumes "kinv H s" and "procs s e = Some pe"
  obtains (refused) rc where "handle_msgreceive_enter io e s = Some (Refused rc, s)" and "rc < 0"
  | (waits) c r where "io = Some r" and "handle_msgreceive_enter io e s = Some (Waits c, hold c s)"
      and "channel_of s e (rcv_chid r) c" and "kinv (holding c H) (hold c s)"
proof (cases io)
  case None
  then show thesis using refused [of "- EFAULT"] by (simp add: handle_msgreceive_enter_def)
next
  case (Some r)
  show thesis
    using assms
  proof (cases rule: kinv_entry_find_channel [where i = "rcv_chid r"])
    case none
    then show thesis using refused [of "- EBADF"] Some by (simp add: handle_msgreceive_enter_def)
  next
    case (found c)
    then show thesis using waits Some by (simp add: handle_msgreceive_enter_def)
  qed
qed

lemma receive_take_ok:
  assumes "kinv H s" and "chans s c = Some ch"
  obtains (empty) rc where "handle_msgreceive_take wrc c s = Some (Inl rc, s)" and "rc < 0"
      and "wrc < 0 \<or> waiting ch = []"
  | (taken) d ds m ch' where "0 \<le> wrc" and "waiting ch = d # ds" and "msgs s d = Some m" and "waiting ch' = ds"
      and "chid ch' = chid ch"
      and "handle_msgreceive_take wrc c s =
        Some (Inr d, store_chan c ch' (s\<lparr>msgs := (msgs s)(d \<mapsto> m\<lparr>mstate := QNX_STATE_RECEIVING\<rparr>)\<rparr>))"
      and "kinv H (store_chan c ch' (s\<lparr>msgs := (msgs s)(d \<mapsto> m\<lparr>mstate := QNX_STATE_RECEIVING\<rparr>)\<rparr>))"
      and "in_no_list d (store_chan c ch' (s\<lparr>msgs := (msgs s)(d \<mapsto> m\<lparr>mstate := QNX_STATE_RECEIVING\<rparr>)\<rparr>))"
proof (cases "wrc < 0")
  case True
  show thesis by (rule empty [of "- ERESTARTSYS"]) (use True in \<open>simp_all add: handle_msgreceive_take_def\<close>)
next
  case ok: False
  show thesis
  proof (cases "waiting ch")
    case Nil
    then show thesis
      using ok assms(2)
      by (intro empty [of "- ETIMEDOUT"]) (simp_all add: handle_msgreceive_take_def channel_dequeue_def)
  next
    case (Cons d ds)
    show thesis
    proof (rule kinv_take [OF assms Cons, where st = QNX_STATE_RECEIVING])
      fix m ch'
      let ?s = "store_chan c ch' (s\<lparr>msgs := (msgs s)(d \<mapsto> m\<lparr>mstate := QNX_STATE_RECEIVING\<rparr>)\<rparr>)"
      assume t: "msgs s d = Some m" "channel_dequeue (msgs s) ch = Some (Some (d, ch'))" "waiting ch' = ds"
        "chid ch' = chid ch" "kinv H ?s" "in_no_list d ?s"
      have "handle_msgreceive_take wrc c s = Some (Inr d, ?s)"
        using ok assms(2) t(1,2) by (simp add: handle_msgreceive_take_def store_chan_def)
      then show thesis using taken [OF _ Cons t(1,3,4) _ t(5,6)] ok by simp
    qed
  qed
qed

lemma payload_ok_no_reply:
  "payload_ok m \<Longrightarrow> payload_ok (m\<lparr>reply_base := None, reply_len := 0, status := x, mstate := st\<rparr>)"
  by (auto simp: payload_ok_def split: payload.splits)

lemma fail_message_ok:
  assumes "kinv H s" and "msgs s d = Some m" and "task m = Some t" and "in_no_list d s"
  shows "fail_message rc d s = Some (wake_up_process t (s\<lparr>msgs := (msgs s)(d \<mapsto>
      m\<lparr>reply_base := None, reply_len := 0, status := rc, mstate := QNX_STATE_FINISHED\<rparr>)\<rparr>))"
    and "kinv H (wake_up_process t (s\<lparr>msgs := (msgs s)(d \<mapsto>
      m\<lparr>reply_base := None, reply_len := 0, status := rc, mstate := QNX_STATE_FINISHED\<rparr>)\<rparr>))"
proof -
  show "fail_message rc d s = Some (wake_up_process t (s\<lparr>msgs := (msgs s)(d \<mapsto>
      m\<lparr>reply_base := None, reply_len := 0, status := rc, mstate := QNX_STATE_FINISHED\<rparr>)\<rparr>))"
    using assms(2,3) by (simp add: fail_message_def)
  have "payload_ok (m\<lparr>reply_base := None, reply_len := 0, status := rc, mstate := QNX_STATE_FINISHED\<rparr>)"
    using kinv_msg [OF assms(1,2)] by (intro payload_ok_no_reply) simp
  then show "kinv H (wake_up_process t (s\<lparr>msgs := (msgs s)(d \<mapsto>
      m\<lparr>reply_base := None, reply_len := 0, status := rc, mstate := QNX_STATE_FINISHED\<rparr>)\<rparr>))"
    unfolding kinv_wake by (intro kinv_store_msg [OF assms(1,2)]) (use assms(4) in simp_all)
qed

text \<open>What the handler reports and stores before it decides where the message goes.\<close>

definition delivery ::
  "kenv \<Rightarrow> uaddr \<Rightarrow> qnx_io_receive \<Rightarrow> int \<Rightarrow> int \<Rightarrow> qnx_internal_msgsend \<Rightarrow> int \<times> uwrite list" where
  "delivery env ua io wrc i m =
     (let info = zero_info\<lparr>info_pid := sender_pid m, info_chid := i\<rparr>;
          (rc, ws, info') =
            (if rcvid m = 0 then deliver_pulse env wrc (rcv_out io) (data_pulse (data m)) info
             else deliver_message env (rcv_out io) m info)
      in if rc \<ge> 0 then
           (if store_to_user env ua then (rc, ws @ [Receive_info ua (io\<lparr>rcv_info := info'\<rparr>)])
            else (- EFAULT, ws))
         else (rc, ws))"

lemma receive_finish_eq:
  assumes "msgs s d = Some m" and "chans s c = Some ch" and "payload_ok m"
  shows "handle_msgreceive_finish env ua io wrc e c d s =
    (case delivery env ua io wrc (chid ch) m of
       (rc, ws) \<Rightarrow>
         do { s2 \<leftarrow> (if task m = None then Some (s\<lparr>msgs := (msgs s)(d := None)\<rparr>)
                    else if rc > 0 then qnx_process_entry_add_pending e d s
                    else fail_message rc d s);
              s3 \<leftarrow> qnx_channel_release c s2;
              Some (rc, ws, s3) })"
proof -
  have "rcvid m = 0 \<Longrightarrow> task m = None"
    using assms(3) by (auto simp: payload_ok_def split: payload.splits)
  then show ?thesis
    using assms(1,2)
    by (cases "task m = None") (auto simp: handle_msgreceive_finish_def delivery_def Let_def case_prod_beta)
qed

lemma receive_finish_ok:
  assumes "kinv (holding c H) s" and "procs s e = Some pe" and "msgs s d = Some m" and "in_no_list d s"
    and "chans s c = Some ch" and "delivery env ua io wrc (chid ch) m = (rc, ws)"
  obtains (freed) s' where "task m = None" and "kinv H s'" and "msgs s' d = None"
      and "handle_msgreceive_finish env ua io wrc e c d s = Some (rc, ws, s')"
  | (pend) s' where "task m \<noteq> None" and "0 < rc" and "kinv H s'"
      and "procs s' = (procs s)(e \<mapsto> pe\<lparr>pending := d # pending pe\<rparr>)"
      and "process_entries s' = process_entries s"
      and "\<exists>m'. msgs s' d = Some m' \<and> rcvid m' = rcvid m \<and> task m' = task m \<and> data m' = data m \<and>
          receiver_pid m' = receiver_pid m"
      and "handle_msgreceive_finish env ua io wrc e c d s = Some (rc, ws, s')"
  | (failed) t s' where "task m = Some t" and "rc \<le> 0" and "kinv H s'" and "running s' t"
      and "msgs s' d = Some (m\<lparr>reply_base := None, reply_len := 0, status := rc, mstate := QNX_STATE_FINISHED\<rparr>)"
      and "handle_msgreceive_finish env ua io wrc e c d s = Some (rc, ws, s')"
proof -
  have ok: "payload_ok m" using kinv_msg [OF assms(1,3)] by simp
  note eq = receive_finish_eq [OF assms(3,5) ok, of env ua io wrc e, unfolded assms(6)]
  consider "task m = None" | t where "task m = Some t" "0 < rc" | t where "task m = Some t" "rc \<le> 0"
    by (cases "task m") force+
  then show thesis
  proof cases
    case 1
    let ?s = "s\<lparr>msgs := (msgs s)(d := None)\<rparr>"
    have k: "kinv (holding c H) ?s" by (rule kinv_free_msg [OF assms(1,4)])
    have out: "in_no_list d ?s" using assms(4) by (simp add: in_no_list_def)
    show thesis
    proof (rule kinv_put_back [OF k])
      fix s'
      assume s': "qnx_channel_release c ?s = Some s'" "kinv H s'" "sender_frame ?s s'"
      then have "msgs s' d = None" using out by (auto simp: sender_frame_def)
      then show thesis by (rule freed [OF 1 s'(2)]) (use eq 1 s'(1) in simp)
    qed
  next
    case (2 t)
    have tm: "task m \<noteq> None" using 2 by simp
    show thesis
    proof (rule kinv_add_pending [OF assms(1-3) tm assms(4)])
      fix s1
      assume s1: "s1 = store_proc e (pe\<lparr>pending := d # pending pe\<rparr>)
          (s\<lparr>msgs := (msgs s)(d \<mapsto> m\<lparr>mstate := QNX_STATE_PENDING\<rparr>)\<rparr>)"
        "qnx_process_entry_add_pending e d s = Some s1" "kinv (holding c H) s1"
      show thesis
      proof (rule kinv_put_back [OF s1(3)])
        fix s'
        assume s': "qnx_channel_release c s1 = Some s'" "kinv H s'" "procs_frame s1 s'" "sender_frame s1 s'"
        have m1: "msgs s1 d = Some (m\<lparr>mstate := QNX_STATE_PENDING\<rparr>)" using s1(1) by simp
        have "\<exists>m'. msgs s' d = Some m' \<and> rcvid m' = rcvid m \<and> task m' = task m \<and> data m' = data m \<and>
          receiver_pid m' = receiver_pid m"
          using s'(4) m1 tm unfolding sender_frame_def by fastforce
        moreover have "procs s' = (procs s)(e \<mapsto> pe\<lparr>pending := d # pending pe\<rparr>)" "process_entries s' = process_entries s"
          using s'(3) s1(1) by (simp_all add: procs_frame_def)
        moreover have "handle_msgreceive_finish env ua io wrc e c d s = Some (rc, ws, s')"
          using eq 2 s1(2) s'(1) by simp
        ultimately show thesis by (intro pend [OF tm 2(2) s'(2)])
      qed
    qed
  next
    case (3 t)
    note fm = fail_message_ok [OF assms(1,3) 3(1) assms(4), of rc]
    let ?m = "m\<lparr>reply_base := None, reply_len := 0, status := rc, mstate := QNX_STATE_FINISHED\<rparr>"
    let ?s = "wake_up_process t (s\<lparr>msgs := (msgs s)(d \<mapsto> ?m)\<rparr>)"
    have out: "in_no_list d ?s" using assms(4) by (simp add: in_no_list_def wake_up_process_def)
    show thesis
    proof (rule kinv_put_back [OF fm(2)])
      fix s'
      assume s': "qnx_channel_release c ?s = Some s'" "kinv H s'" "sender_frame ?s s'"
        "\<And>u. running ?s u \<Longrightarrow> running s' u"
      have "msgs s' d = Some ?m" using s'(3) out by (auto simp: sender_frame_def wake_up_process_def)
      moreover have "running s' t" using s'(4) [of t] by (simp add: wake_up_process_def)
      ultimately show thesis
        using failed [OF 3 s'(2)] eq 3 fm(1) s'(1) by simp
    qed
  qed
qed

section \<open>MsgReply, MsgError and MsgRead\<close>

lemma reply_buffer_ok:
  assumes "kenv_ok env" and "reply_buffer env out src = (rc, buf, n)"
  shows "n \<le> (case buf of None \<Rightarrow> 0 | Some bs \<Rightarrow> length bs)"
proof (cases "copy_from_user env (iov_base src) (iov_len src)")
  case None
  then show ?thesis using assms(2) by (auto simp: reply_buffer_def split: if_splits)
next
  case (Some bs)
  from assms(2) kenv_okD(1) [OF assms(1) Some] show ?thesis
    unfolding reply_buffer_def Some by (auto split: if_splits)
qed

lemma msgreply_ok:
  assumes "kenv_ok env" and "kinv H s" and "procs s e = Some pe"
  obtains (unknown) "handle_msgreply env e io s = Some (- ESRCH, s)"
      and "\<And>d m. d \<in> set (pending pe) \<Longrightarrow> msgs s d = Some m \<Longrightarrow> rcvid m \<noteq> rep_rcvid io"
  | (replied) d m t rc buf n s' where "d \<in> set (pending pe)" and "msgs s d = Some m" and "rcvid m = rep_rcvid io"
      and "task m = Some t" and "reply_buffer env (km_out (data_msg (data m))) (rep_in io) = (rc, buf, n)"
      and "s' = wake_up_process t (store_proc e (pe\<lparr>pending := remove1 d (pending pe)\<rparr>) (s\<lparr>msgs := (msgs s)(d \<mapsto>
             m\<lparr>reply_base := buf, reply_len := n, status := (if rc < 0 then rc else rep_status io),
               mstate := QNX_STATE_FINISHED\<rparr>)\<rparr>))"
      and "handle_msgreply env e io s = Some (rc, s')" and "kinv H s'" and "in_no_list d s'"
  using assms(2,3)
proof (cases rule: kinv_release_pending [where r = "rep_rcvid io"])
  case none
  then show thesis using unknown by (simp add: handle_msgreply_def)
next
  case (hit d m s1)
  obtain t where t: "task m = Some t" using hit(4) by auto
  obtain rc buf n where r: "reply_buffer env (km_out (data_msg (data m))) (rep_in io) = (rc, buf, n)"
    by (metis prod_cases3)
  let ?m = "m\<lparr>reply_base := buf, reply_len := n, status := (if rc < 0 then rc else rep_status io),
    mstate := QNX_STATE_FINISHED\<rparr>"
  have at: "msgs s1 d = Some m" using hit(2,6) by simp
  have "payload_ok ?m"
    using kinv_msg [OF hit(8) at] reply_buffer_ok [OF assms(1) r]
    by (auto simp: payload_ok_def split: payload.splits)
  then have k: "kinv H (s1\<lparr>msgs := (msgs s1)(d \<mapsto> ?m)\<rparr>)"
    by (intro kinv_store_msg [OF hit(8) at]) (use hit(9) in simp_all)
  have eq: "s1\<lparr>msgs := (msgs s1)(d \<mapsto> ?m)\<rparr> =
      store_proc e (pe\<lparr>pending := remove1 d (pending pe)\<rparr>) (s\<lparr>msgs := (msgs s)(d \<mapsto> ?m)\<rparr>)"
    by (rule kstate.equality) (simp_all add: hit(6) store_proc_def)
  have run: "handle_msgreply env e io s = Some (rc, wake_up_process t (s1\<lparr>msgs := (msgs s1)(d \<mapsto> ?m)\<rparr>))"
    using hit(7) at t r by (simp add: handle_msgreply_def handle_msgreply_finish_def)
  have out: "in_no_list d (wake_up_process t (s1\<lparr>msgs := (msgs s1)(d \<mapsto> ?m)\<rparr>))"
    using hit(9) by (simp add: in_no_list_def wake_up_process_def)
  show thesis
    by (rule replied [OF hit(1-3) t r refl]) (use run k out in \<open>simp_all add: eq\<close>)
qed

lemma msgerror_ok:
  assumes "kinv H s" and "procs s e = Some pe"
  obtains (unknown) "handle_msgerror e io s = Some (- ESRCH, s)"
      and "\<And>d m. d \<in> set (pending pe) \<Longrightarrow> msgs s d = Some m \<Longrightarrow> rcvid m \<noteq> err_rcvid io"
  | (replied) d m t s' where "d \<in> set (pending pe)" and "msgs s d = Some m" and "rcvid m = err_rcvid io"
      and "task m = Some t" and "handle_msgerror e io s = Some (0, s')" and "kinv H s'" and "in_no_list d s'"
      and "running s' t" and "msgs s' = (msgs s)(d \<mapsto> m\<lparr>reply_base := None, reply_len := 0,
             status := error_status (err_error io), mstate := QNX_STATE_FINISHED\<rparr>)"
      and "procs s' = (procs s)(e \<mapsto> pe\<lparr>pending := remove1 d (pending pe)\<rparr>)" and "chans s' = chans s"
  using assms
proof (cases rule: kinv_release_pending [where r = "err_rcvid io"])
  case none
  then show thesis using unknown by (simp add: handle_msgerror_def)
next
  case (hit d m s1)
  obtain t where t: "task m = Some t" using hit(4) by auto
  have at: "msgs s1 d = Some m" using hit(2,6) by simp
  note fm = fail_message_ok [OF hit(8) at t hit(9), of "error_status (err_error io)"]
  show thesis
    by (rule replied [OF hit(1-3) t _ fm(2)])
      (use hit(6,7,9) fm(1) in \<open>simp_all add: handle_msgerror_def wake_up_process_def in_no_list_def\<close>)
qed

lemma msgread_ok:
  assumes "kinv H s" and "procs s e = Some pe"
  obtains (unknown) "handle_msgread env e io s = Some (- ESRCH, [])"
      and "\<And>d m. d \<in> set (pending pe) \<Longrightarrow> msgs s d = Some m \<Longrightarrow> rcvid m \<noteq> rd_rcvid io"
  | (hit) d m where "d \<in> set (pending pe)" and "msgs s d = Some m" and "rcvid m = rd_rcvid io"
      and "handle_msgread env e io s = read_message env io (data_msg (data m))"
  using assms
proof (cases rule: kinv_release_pending [where r = "rd_rcvid io"])
  case none
  then have "list_search (msgs s) (\<lambda>m. rcvid m = rd_rcvid io) (pending pe) = Some None"
    using assms(2) by (auto simp: qnx_process_entry_release_pending_def elim!: bind_eq_SomeE split: option.splits)
  then show thesis using unknown none(2) assms(2) by (simp add: handle_msgread_def)
next
  case (hit d m s1)
  then have "list_search (msgs s) (\<lambda>m. rcvid m = rd_rcvid io) (pending pe) = Some (Some d)"
    using assms(2) by (auto simp: qnx_process_entry_release_pending_def elim!: bind_eq_SomeE split: option.splits)
  then show thesis using that(2) [OF hit(1-3)] hit(2) assms(2) by (simp add: handle_msgread_def)
qed

text \<open>Reading from a message that waits for its answer.\<close>

lemma read_pending_message:
  assumes "kinv H s" and "procs s e = Some pe" and "d \<in> set (pending pe)" and "msgs s d = Some m" and "int_range (rd_offset io)"
  obtains k where "data m = Msg k" and "read_message env io (data_msg (data m)) =
      (if rd_offset io < 0 \<or> int (length (km_in_buf k)) < rd_offset io then Some (- EINVAL, [])
       else (let bytes = take (iov_len (rd_out io)) (drop (nat (rd_offset io)) (km_in_buf k)) in
             if copy_to_user env (iov_base (rd_out io)) bytes
             then Some (int (length bytes), [Bytes (iov_base (rd_out io)) bytes])
             else Some (- EFAULT, [])))"
proof -
  have "task m \<noteq> None" using kinv_pending_msg [OF assms(1-3)] assms(4) by auto
  then obtain k where k: "data m = Msg k" "length (km_in_buf k) = km_in_len k" "km_in_len k < 2 ^ 31"
    using kinv_msg [OF assms(1,4)] by (auto simp: payload_ok_def split: payload.splits)
  let ?off = "nat (rd_offset io)"
  have off: "0 \<le> rd_offset io \<Longrightarrow> to_size (rd_offset io) = ?off"
    using assms(5) by (simp add: to_size_def int_range_def)
  have n: "wrap32 (int (min (km_in_len k - ?off) (iov_len (rd_out io)))) = int (min (km_in_len k - ?off) (iov_len (rd_out io)))"
    using k(3) by (intro wrap32_small) auto
  have sz: "to_size (int (min (km_in_len k - ?off) (iov_len (rd_out io)))) = min (km_in_len k - ?off) (iov_len (rd_out io))"
    using k(3) by (simp add: to_size_def)
  have bytes: "take (min (km_in_len k - ?off) (iov_len (rd_out io))) (drop ?off (km_in_buf k)) =
      take (iov_len (rd_out io)) (drop ?off (km_in_buf k))"
    using k(2) by (simp add: min_def)
  have "read_message env io k =
      (if rd_offset io < 0 \<or> int (length (km_in_buf k)) < rd_offset io then Some (- EINVAL, [])
       else (let bytes = take (iov_len (rd_out io)) (drop ?off (km_in_buf k)) in
             if copy_to_user env (iov_base (rd_out io)) bytes
             then Some (int (length bytes), [Bytes (iov_base (rd_out io)) bytes])
             else Some (- EFAULT, [])))"
    using k(2) by (auto simp: read_message_def off n sz bytes Let_def nat_le_iff)
  then show thesis using that [OF k(1)] k(1) by simp
qed

lemma msgread_total:
  assumes "kinv H s" and "procs s e = Some pe" and "int_range (rd_offset io)"
  shows "\<exists>r. handle_msgread env e io s = Some r"
  using assms(1,2)
proof (cases rule: msgread_ok [where env = env and io = io])
  case (hit d m)
  show ?thesis
    unfolding hit(4) by (rule read_pending_message [OF assms(1,2) hit(1,2) assms(3), of env]) (simp add: Let_def)
qed simp

section \<open>Properties\<close>

text \<open>
  What the receiver expects of the other threads while it waits on the channel: they keep the
  invariant, and the process stays alive, since the file of the call is open. \<open>R\<close> is any set of
  reference counts that the other threads do not leave.
\<close>

definition serves :: "(held \<Rightarrow> bool) \<Rightarrow> addr \<Rightarrow> (kstate \<Rightarrow> kstate) \<Rightarrow> bool" where
  "serves R e f \<longleftrightarrow>
     (\<forall>H c s. R H \<and> kinv (holding c H) s \<and> procs s e \<noteq> None \<longrightarrow>
        (\<exists>H'. R H' \<and> kinv (holding c H') (f s)) \<and> procs (f s) e \<noteq> None)"

lemma serves_id: "serves R e (\<lambda>s. s)"
  by (auto simp: serves_def)

text \<open>
  C16. A message that was taken off a queue is filed exactly once. Without a waiting task it is
  freed. With one, either the call returns its receive id and the message is on the pending list
  of the receiver, or the call fails and the sender is awake with the error as the status of
  its finished message.
\<close>

theorem taken_message_is_filed:
  assumes "kinv (holding c H) s" and "procs s e = Some pe" and "msgs s d = Some m" and "in_no_list d s"
  shows "\<exists>rc ws s'. handle_msgreceive_finish env ua io wrc e c d s = Some (rc, ws, s') \<and> kinv H s' \<and>
    (case task m of
       None \<Rightarrow> msgs s' d = None
     | Some t \<Rightarrow>
         if rc > 0 then rc = rcvid m \<and> procs s' e = Some (pe\<lparr>pending := d # pending pe\<rparr>) \<and> msgs s' d \<noteq> None
         else running s' t \<and> (\<exists>m'. msgs s' d = Some m' \<and> status m' = rc \<and> mstate m' = QNX_STATE_FINISHED \<and>
                                   reply_len m' = 0))"
proof -
  obtain ch where ch: "chans s c = Some ch" using kinv_held [OF assms(1), of c] by auto
  obtain rc ws where dl: "delivery env ua io wrc (chid ch) m = (rc, ws)" by fastforce
  have rid: "rc = rcvid m" if "task m \<noteq> None" "rc > 0"
  proof -
    have "rcvid m \<noteq> 0" using that(1) kinv_msg [OF assms(1,3)] by (auto simp: payload_ok_def split: payload.splits)
    then show ?thesis
      using dl that(2) by (auto simp: delivery_def deliver_message_def Let_def split: if_splits)
  qed
  show ?thesis
  proof (rule receive_finish_ok [OF assms ch dl])
    fix s'
    assume "task m \<noteq> None" "0 < rc" "kinv H s'" "procs s' = (procs s)(e \<mapsto> pe\<lparr>pending := d # pending pe\<rparr>)"
      "\<exists>m'. msgs s' d = Some m' \<and> rcvid m' = rcvid m \<and> task m' = task m \<and> data m' = data m \<and>
          receiver_pid m' = receiver_pid m"
      "handle_msgreceive_finish env ua io wrc e c d s = Some (rc, ws, s')"
    then show ?thesis using rid by auto
  qed auto
qed

lemma demo_floating:
  "kinv (holding 2 (\<lambda>_. 0)) (demo_asleep\<lparr>chans := [2 \<mapsto> \<lparr>ch_refcnt = 2, chid = 1, waiting = [], num_waiting = 0,
     num_waiting_noreply = 0\<rparr>]\<rparr>)" (is "kinv ?H ?s")
proof -
  have at: "chans demo_asleep 2 = Some \<lparr>ch_refcnt = 2, chid = 1, waiting = [4], num_waiting = 1, num_waiting_noreply = 0\<rparr>"
    by (simp add: demo_asleep_def)
  have "kinv ?H (store_chan 2 \<lparr>ch_refcnt = 2, chid = 1, waiting = [], num_waiting = 0, num_waiting_noreply = 0\<rparr> demo_asleep)"
    by (rule kinv_store_queue [OF demo_asleep_inv at])
      (use kinv_chan [OF demo_asleep_inv at] in \<open>simp_all add: chan_inv_def\<close>)
  then show ?thesis by (simp add: store_chan_def demo_asleep_def)
qed

theorem taken_message_is_filed_witness:
  "\<exists>rc ws s'. handle_msgreceive_finish demo_env 512
     \<lparr>rcv_chid = 1, rcv_timeout_ms = 10, rcv_out = \<lparr>iov_base = 1024, iov_len = 64\<rparr>, rcv_info = zero_info\<rparr>
     5 1 2 4 (demo_asleep\<lparr>chans := [2 \<mapsto> \<lparr>ch_refcnt = 2, chid = 1, waiting = [], num_waiting = 0,
     num_waiting_noreply = 0\<rparr>]\<rparr>) = Some (rc, ws, s') \<and> kinv (\<lambda>_. 0) s'"
proof -
  let ?s = "demo_asleep\<lparr>chans := [2 \<mapsto> \<lparr>ch_refcnt = 2, chid = 1, waiting = [], num_waiting = 0, num_waiting_noreply = 0\<rparr>]\<rparr>"
  have at: "procs ?s 1 = Some demo_server" "msgs ?s 4 = Some demo_asleep_msg" "in_no_list 4 ?s"
    by (auto simp: demo_asleep_def demo_defs in_no_list_def split: if_splits)
  from taken_message_is_filed [OF demo_floating at] show ?thesis by blast
qed

text \<open>A message with the receive id \<open>r\<close> waits for a reply of the process.\<close>

definition answerable :: "kstate \<Rightarrow> qnx_process_entry \<Rightarrow> int \<Rightarrow> bool" where
  "answerable s pe r \<longleftrightarrow> (\<exists>d \<in> set (pending pe). \<exists>m. msgs s d = Some m \<and> rcvid m = r)"

lemma answerableI: "d \<in> set (pending pe) \<Longrightarrow> msgs s d = Some m \<Longrightarrow> rcvid m = r \<Longrightarrow> answerable s pe r"
  by (auto simp: answerable_def)

text \<open>
  C17. Replying on every branch. For a receive id that is not pending in the calling process
  (unknown, already answered, a pulse or a message without reply) \<open>MsgReply\<close> returns \<open>-ESRCH\<close>
  and changes nothing. Otherwise the message leaves the pending list, its sender is awake, the
  reply buffer is the copy of the server's bytes, and the status is the one given, or the error
  that kept the reply from being copied, which is also what the server is told.
\<close>

theorem reply_spec:
  assumes "kenv_ok env" and "kinv H s" and "procs s e = Some pe"
  shows "\<exists>rc s'. handle_msgreply env e rp s = Some (rc, s') \<and> kinv H s' \<and>
    (if answerable s pe (rep_rcvid rp) then
       \<exists>d m m' t. d \<in> set (pending pe) \<and> msgs s d = Some m \<and> rcvid m = rep_rcvid rp \<and> task m = Some t \<and>
         running s' t \<and> msgs s' d = Some m' \<and> mstate m' = QNX_STATE_FINISHED \<and>
         reply_buffer env (km_out (data_msg (data m))) (rep_in rp) = (rc, reply_base m', reply_len m') \<and>
         status m' = (if rc < 0 then rc else rep_status rp) \<and>
         procs s' e = Some (pe\<lparr>pending := remove1 d (pending pe)\<rparr>)
     else rc = - ESRCH \<and> s' = s)"
  using assms
proof (cases rule: msgreply_ok [where io = rp])
  case unknown
  then have "\<not> answerable s pe (rep_rcvid rp)" by (auto simp: answerable_def)
  then show ?thesis using unknown(1) assms(2) by simp
next
  case (replied d m t rc buf n s')
  have "running s' t" "procs s' e = Some (pe\<lparr>pending := remove1 d (pending pe)\<rparr>)"
    "msgs s' d = Some (m\<lparr>reply_base := buf, reply_len := n, status := (if rc < 0 then rc else rep_status rp),
       mstate := QNX_STATE_FINISHED\<rparr>)"
    using replied(6) by (simp_all add: wake_up_process_def)
  then have "\<exists>d m m' t. d \<in> set (pending pe) \<and> msgs s d = Some m \<and> rcvid m = rep_rcvid rp \<and> task m = Some t \<and>
       running s' t \<and> msgs s' d = Some m' \<and> mstate m' = QNX_STATE_FINISHED \<and>
       reply_buffer env (km_out (data_msg (data m))) (rep_in rp) = (rc, reply_base m', reply_len m') \<and>
       status m' = (if rc < 0 then rc else rep_status rp) \<and>
       procs s' e = Some (pe\<lparr>pending := remove1 d (pending pe)\<rparr>)"
    using replied(1-5)
    by (intro exI [of _ d, OF exI [of _ m, OF exI [of _ "m\<lparr>reply_base := buf, reply_len := n,
      status := (if rc < 0 then rc else rep_status rp), mstate := QNX_STATE_FINISHED\<rparr>", OF exI [of _ t]]]]) simp
  with answerableI [OF replied(1-3)] replied(7,8) show ?thesis by simp
qed

theorem reply_spec_witness:
  "\<exists>rc s'. handle_msgreply demo_env 1 \<lparr>rep_rcvid = 1, rep_status = 4, rep_in = zero_iovec\<rparr> demo_leaving = Some (rc, s') \<and>
     running s' 5"
proof -
  have at: "procs demo_leaving 1 = Some (demo_server\<lparr>pending := [9]\<rparr>)"
    by (simp add: demo_leaving_def)
  let ?m = "(fresh_msgsend 1 8 (Some 5) (Msg zero_kmsg))\<lparr>mstate := QNX_STATE_PENDING\<rparr>"
  have m: "msgs demo_leaving 9 = Some ?m" "rcvid ?m = 1" "task ?m = Some 5"
    by (simp_all add: demo_leaving_def fresh_msgsend_def)
  have ans: "answerable demo_leaving (demo_server\<lparr>pending := [9]\<rparr>) 1"
    using m answerableI [of 9 "demo_server\<lparr>pending := [9]\<rparr>" demo_leaving ?m 1] by simp
  from reply_spec [OF demo_env_ok demo_leaving_inv at, of "\<lparr>rep_rcvid = 1, rep_status = 4, rep_in = zero_iovec\<rparr>"]
    ans m show ?thesis by fastforce
qed

text \<open>
  C18. Error replies on every branch: \<open>-ESRCH\<close> and no change for a receive id that is not
  pending; otherwise the call returns 0, the message leaves the pending list without a reply
  buffer, its sender is awake, and its status is the negated absolute value of the code given,
  so \<open>MsgSend\<close> never returns a positive value for an error.
\<close>

theorem error_reply_spec:
  assumes "kinv H s" and "procs s e = Some pe" and "int_range (err_error er)"
  shows "\<exists>rc s'. handle_msgerror e er s = Some (rc, s') \<and> kinv H s' \<and>
    (if answerable s pe (err_rcvid er) then
       rc = 0 \<and> (\<exists>d m m' t. d \<in> set (pending pe) \<and> msgs s d = Some m \<and> rcvid m = err_rcvid er \<and> task m = Some t \<and>
         running s' t \<and> msgs s' d = Some m' \<and> mstate m' = QNX_STATE_FINISHED \<and>
         reply_len m' = 0 \<and> status m' = - \<bar>err_error er\<bar> \<and>
         procs s' e = Some (pe\<lparr>pending := remove1 d (pending pe)\<rparr>))
     else rc = - ESRCH \<and> s' = s)"
  using assms(1,2)
proof (cases rule: msgerror_ok [where io = er])
  case unknown
  then have "\<not> answerable s pe (err_rcvid er)" by (auto simp: answerable_def)
  then show ?thesis using unknown(1) assms(1) by simp
next
  case (replied d m t s')
  have "error_status (err_error er) = - \<bar>err_error er\<bar>"
    using assms(3) wrap32_id [of "- err_error er"] by (auto simp: error_status_def int_range_def)
  then have "\<exists>d m m' t. d \<in> set (pending pe) \<and> msgs s d = Some m \<and> rcvid m = err_rcvid er \<and> task m = Some t \<and>
       running s' t \<and> msgs s' d = Some m' \<and> mstate m' = QNX_STATE_FINISHED \<and>
       reply_len m' = 0 \<and> status m' = - \<bar>err_error er\<bar> \<and>
       procs s' e = Some (pe\<lparr>pending := remove1 d (pending pe)\<rparr>)"
    using replied(1-4,8-10)
    by (intro exI [of _ d, OF exI [of _ m, OF exI [of _ "m\<lparr>reply_base := None, reply_len := 0,
      status := error_status (err_error er), mstate := QNX_STATE_FINISHED\<rparr>", OF exI [of _ t]]]]) simp
  with answerableI [OF replied(1-3)] replied(5,6) show ?thesis by simp
qed

theorem error_reply_spec_witness:
  "\<exists>rc s'. handle_msgerror 1 \<lparr>err_rcvid = 1, err_error = 4\<rparr> demo_leaving = Some (rc, s') \<and> rc = 0 \<and> running s' 5"
proof -
  have at: "procs demo_leaving 1 = Some (demo_server\<lparr>pending := [9]\<rparr>)" "int_range (err_error \<lparr>err_rcvid = 1, err_error = 4\<rparr>)"
    by (simp_all add: demo_leaving_def int_range_def)
  let ?m = "(fresh_msgsend 1 8 (Some 5) (Msg zero_kmsg))\<lparr>mstate := QNX_STATE_PENDING\<rparr>"
  have m: "msgs demo_leaving 9 = Some ?m" "rcvid ?m = 1" "task ?m = Some 5"
    by (simp_all add: demo_leaving_def fresh_msgsend_def)
  have ans: "answerable demo_leaving (demo_server\<lparr>pending := [9]\<rparr>) 1"
    using m answerableI [of 9 "demo_server\<lparr>pending := [9]\<rparr>" demo_leaving ?m 1] by simp
  from error_reply_spec [OF demo_leaving_inv at] ans m show ?thesis by fastforce
qed

text \<open>
  C24. \<open>MsgRead\<close> reads a window of the message and nothing else: for an id that is not pending
  it returns \<open>-ESRCH\<close>, for an offset outside the message \<open>-EINVAL\<close>; otherwise it stores the
  bytes of the message from the offset on, as many as there are or as fit the buffer, and
  returns their number, or fails with \<open>-EFAULT\<close> and stores nothing. It never reads beyond the
  kernel's copy, and the number of bytes does not wrap around.
\<close>

theorem msgread_window:
  assumes "kinv H s" and "procs s e = Some pe" and "int_range (rd_offset io)"
  shows "(handle_msgread env e io s = Some (- ESRCH, []) \<and>
      (\<forall>d \<in> set (pending pe). \<forall>m. msgs s d = Some m \<longrightarrow> rcvid m \<noteq> rd_rcvid io)) \<or>
    (\<exists>d m k. d \<in> set (pending pe) \<and> msgs s d = Some m \<and> rcvid m = rd_rcvid io \<and> data m = Msg k \<and>
      handle_msgread env e io s =
        (if rd_offset io < 0 \<or> int (length (km_in_buf k)) < rd_offset io then Some (- EINVAL, [])
         else (let bytes = take (iov_len (rd_out io)) (drop (nat (rd_offset io)) (km_in_buf k)) in
               if copy_to_user env (iov_base (rd_out io)) bytes
               then Some (int (length bytes), [Bytes (iov_base (rd_out io)) bytes])
               else Some (- EFAULT, []))))"
  using assms(1,2)
proof (cases rule: msgread_ok [where env = env and io = io])
  case unknown
  then show ?thesis by blast
next
  case (hit d m)
  obtain k where "data m = Msg k"
    and "handle_msgread env e io s =
        (if rd_offset io < 0 \<or> int (length (km_in_buf k)) < rd_offset io then Some (- EINVAL, [])
         else (let bytes = take (iov_len (rd_out io)) (drop (nat (rd_offset io)) (km_in_buf k)) in
               if copy_to_user env (iov_base (rd_out io)) bytes
               then Some (int (length bytes), [Bytes (iov_base (rd_out io)) bytes])
               else Some (- EFAULT, [])))"
    unfolding hit(4) by (rule read_pending_message [OF assms(1,2) hit(1,2) assms(3)])
  then show ?thesis using hit(1-3) by blast
qed

theorem msgread_window_witness:
  "handle_msgread demo_env 1 \<lparr>rd_rcvid = 2, rd_offset = 0, rd_out = \<lparr>iov_base = 64, iov_len = 8\<rparr>\<rparr> demo_leaving =
     Some (- ESRCH, [])"
proof -
  have at: "procs demo_leaving 1 = Some (demo_server\<lparr>pending := [9]\<rparr>)"
    "int_range (rd_offset \<lparr>rd_rcvid = 2, rd_offset = 0, rd_out = \<lparr>iov_base = 64, iov_len = 8\<rparr>\<rparr>)"
    by (simp_all add: demo_leaving_def int_range_def)
  from msgread_window [OF demo_leaving_inv at, of demo_env] show ?thesis
    by (auto simp: demo_leaving_def fresh_msgsend_def)
qed

text \<open>
  A pulse received into a buffer shorter than \<open>struct _pulse\<close>: nothing of the pulse is
  stored, the pulse is freed, and the call returns the number of jiffies that were left of the
  wait, which the caller reads as a receive id (or \<open>-EFAULT\<close> when the argument structure cannot
  be written back); with a buffer that is large enough the result is
  0, or \<open>-EFAULT\<close>.
\<close>

theorem short_pulse_buffer:
  assumes "kinv (holding c H) s" and "procs s e = Some pe" and "msgs s d = Some m" and "in_no_list d s"
    and "rcvid m = 0" and "0 \<le> wrc"
  shows "\<exists>rc ws s'. handle_msgreceive_finish env ua io wrc e c d s = Some (rc, ws, s') \<and> msgs s' d = None \<and>
    (if iov_len (rcv_out io) < sizeof_pulse
     then (if store_to_user env ua then rc = wrc \<and> length ws = 1 else rc = - EFAULT \<and> ws = []) else rc = 0 \<or> rc = - EFAULT)"
proof -
  obtain ch where ch: "chans s c = Some ch" using kinv_held [OF assms(1), of c] by auto
  obtain rc ws where dl: "delivery env ua io wrc (chid ch) m = (rc, ws)" by fastforce
  have tm: "task m = None"
    using assms(5) kinv_msg [OF assms(1,3)] by (auto simp: payload_ok_def split: payload.splits)
  have res: "if iov_len (rcv_out io) < sizeof_pulse
     then (if store_to_user env ua then rc = wrc \<and> length ws = 1 else rc = - EFAULT \<and> ws = []) else rc = 0 \<or> rc = - EFAULT"
    using dl assms(5,6) by (auto simp: delivery_def deliver_pulse_def Let_def case_prod_beta split: if_splits)
  show ?thesis
    by (rule receive_finish_ok [OF assms(1-4) ch dl]) (use tm res in auto)
qed

theorem short_pulse_buffer_witness:
  "\<exists>ws s'. handle_msgreceive_finish demo_env 512
     \<lparr>rcv_chid = 1, rcv_timeout_ms = 10, rcv_out = \<lparr>iov_base = 1024, iov_len = 16\<rparr>, rcv_info = zero_info\<rparr>
     7 1 2 5 (post (fresh_msgsend 0 8 None (Pulse \<lparr>mp_coid = 1, mp_code = 2, mp_value = 3\<rparr>)) demo_asleep) =
       Some (7, ws, s')"
proof -
  let ?m = "fresh_msgsend 0 8 None (Pulse \<lparr>mp_coid = 1, mp_code = 2, mp_value = 3\<rparr>)"
  have k: "kinv (holding 2 (\<lambda>_. 0)) (post ?m demo_asleep)" "in_no_list 5 (post ?m demo_asleep)"
    using kinv_post [OF demo_asleep_inv kinv_post_pulse [OF demo_asleep_inv]] by (simp_all add: demo_asleep_def)
  have at: "procs (post ?m demo_asleep) 1 = Some demo_server" "msgs (post ?m demo_asleep) 5 = Some ?m" "rcvid ?m = 0"
    by (simp_all add: post_def alloc_def demo_asleep_def demo_defs fresh_msgsend_def)
  have "store_to_user demo_env 512" "msgs (post ?m demo_asleep) 5 = Some ?m" by (simp_all add: demo_env_def at)
  then show ?thesis
    using short_pulse_buffer [OF k(1) at(1,2) k(2) at(3), of 7 demo_env 512
      "\<lparr>rcv_chid = 1, rcv_timeout_ms = 10, rcv_out = \<lparr>iov_base = 1024, iov_len = 16\<rparr>, rcv_info = zero_info\<rparr>"]
    by (auto simp: sizeof_pulse_def)
qed

end
