(* ===== verification/Driver_Safety.thy ===== *)
theory Driver_Safety
  imports Driver Receive_Safety
begin

text \<open>
  The device file over the invariant of the kernel state: the life of a process entry from
  \<open>open\<close> to \<open>close\<close>, the guards of \<open>ioctl\<close>, poll, the module's own life cycle, and two
  interleavings that leave a pointer to a frame that has ended.
\<close>

section \<open>Opening and closing\<close>

definition listed :: "kstate \<Rightarrow> pid_t \<Rightarrow> bool" where
  "listed s p \<longleftrightarrow> (\<exists>e pe. e \<in> set (process_entries s) \<and> procs s e = Some pe \<and> pid pe = p)"

lemma is_process_available_eq:
  assumes "kinv H s"
  shows "qnx_driver_data_is_process_available p s = Some (listed s p)"
  using assms
proof (cases rule: kinv_find_process [where p = p])
  case none
  then show ?thesis
    by (auto simp: qnx_driver_data_is_process_available_def qnx_driver_data_find_process_def listed_def
        split: option.splits elim!: bind_eq_SomeE)
next
  case (found e pe)
  then have "listed s p" unfolding listed_def by blast
  with found(4) show ?thesis
    by (auto simp: qnx_driver_data_is_process_available_def qnx_driver_data_find_process_def
        split: option.splits elim!: bind_eq_SomeE)
qed

text \<open>The state after a successful open by process \<open>p\<close>.\<close>

definition opened :: "kenv \<Rightarrow> pid_t \<Rightarrow> kstate \<Rightarrow> kstate" where
  "opened env p s =
     qnx_driver_data_add_process (next_addr s)
       (store_proc (next_addr s) (qnx_process_entry_init env p s) (s\<lparr>next_addr := Suc (next_addr s)\<rparr>))"

lemma open_rdwr_eq:
  assumes "kinv H s"
  shows "qnxcomm_open env True p s =
    (if listed s p then Some (- ENOSPC, None, s)
     else if \<not> kmalloc env A_entry 0 then Some (- ENOMEM, None, s)
     else Some (0, Some (next_addr s), opened env p s))"
  using is_process_available_eq [OF assms, of p]
  by (simp add: qnxcomm_open_def open_check_def open_add_def alloc_def opened_def qnx_process_entry_init_def)

lemma kinv_opened:
  assumes "kinv H s" and "\<not> listed s p"
  shows "kinv H (opened env p s)"
proof -
  have "kinv H (s\<lparr>next_addr := Suc (next_addr s)\<rparr>)" using kinv_alloc [OF assms(1)] by (simp add: alloc_def)
  then show ?thesis
    unfolding opened_def
    by (rule kinv_add_process)
      (use kinvD(7) [OF assms(1)] assms(2) in \<open>auto simp: fresh_inv_def qnx_process_entry_init_def wf_table_init listed_def\<close>)
qed

lemma kinv_unlist:
  assumes "kinv H s"
  shows "kinv H (s\<lparr>process_entries := remove1 e (process_entries s)\<rparr>)"
  using assms set_remove1_subset [of e "process_entries s"]
  unfolding kinv_def list_inv_def by (auto simp: fresh_inv_def)

lemma remove_listed:
  assumes "kinv H s" and "e \<in> set (process_entries s)" and "procs s e = Some pe"
  shows "qnx_driver_data_remove (pid pe) s = Some (s\<lparr>process_entries := remove1 e (process_entries s)\<rparr>)"
proof -
  have "list_search (procs s) (\<lambda>px. pid px = pid pe) (process_entries s) = Some (Some e)"
  proof (rule list_search_unique [where v = pe])
    fix y w
    assume "y \<in> set (process_entries s)" "procs s y = Some w" "pid w = pid pe"
    then show "y = e" using kinvD(1) [OF assms(1)] assms(2,3) unfolding list_inv_def by blast
  qed (use kinvD(1) [OF assms(1)] assms(2,3) in \<open>auto simp: list_inv_def\<close>)
  then show ?thesis by (simp add: qnx_driver_data_remove_def)
qed

lemma close_rdwr_eq:
  assumes "kinv H s" and "e \<in> set (process_entries s)" and "procs s e = Some pe"
  shows "qnxcomm_close True f (Some e) s =
    do { s' \<leftarrow> qnx_process_entry_release e (s\<lparr>process_entries := remove1 e (process_entries s)\<rparr>); Some (0, None, s') }"
  using assms(3) remove_listed [OF assms] by (simp add: qnxcomm_close_def)

lemma unlisted: "kinv H s \<Longrightarrow> e \<notin> set (remove1 e (process_entries s))"
  using kinvD(1) [of H s] by (simp add: list_inv_def)

lemma release_fresh_entry:
  assumes "procs s e = Some pe" and "pe_refcnt pe = 1" and "channels pe = []" and "pending pe = []"
    and "wf_table (connections pe)"
  shows "qnx_process_entry_release e s = Some (s\<lparr>procs := (procs s)(e := None)\<rparr>)"
  using assms table_destroy_total [OF assms(5)]
  by (auto simp: qnx_process_entry_release_def qnx_process_entry_free_def store_proc_def)

lemma close_last_file:
  assumes "kinv H s" and "e \<in> set (process_entries s)" and "procs s e = Some pe" and "pe_refcnt pe = 1"
  obtains s' where "qnxcomm_close True f (Some e) s = Some (0, None, s')" and "kinv H s'" and "\<not> listed s' (pid pe)"
    and "procs s' = (procs s)(e := None)" and "sender_frame s s'"
    and "\<And>d m t. d \<in> set (pending pe) \<Longrightarrow> msgs s d = Some m \<Longrightarrow> task m = Some t \<Longrightarrow>
       running s' t \<and> (\<exists>m'. msgs s' d = Some m' \<and> status m' = - ESRCH \<and> task m' = Some t)"
    and "\<And>x ch. 0 < H x \<Longrightarrow> chans s x = Some ch \<Longrightarrow> \<exists>ch'. chans s' x = Some ch' \<and> waiting ch' = waiting ch"
proof -
  let ?s = "s\<lparr>process_entries := remove1 e (process_entries s)\<rparr>"
  have at: "procs ?s e = Some pe" "e \<notin> set (process_entries ?s)" using assms(3) unlisted [OF assms(1)] by simp_all
  obtain s' where s': "qnx_process_entry_release e ?s = Some s'" "kinv H s'" "procs s' = (procs ?s)(e := None)"
    "process_entries s' = process_entries ?s" "sender_frame ?s s'"
    "\<And>d m t. d \<in> set (pending pe) \<Longrightarrow> msgs ?s d = Some m \<Longrightarrow> task m = Some t \<Longrightarrow>
       running s' t \<and> (\<exists>m'. msgs s' d = Some m' \<and> status m' = - ESRCH \<and> task m' = Some t)"
    "\<And>x ch. 0 < H x \<Longrightarrow> chans ?s x = Some ch \<Longrightarrow> \<exists>ch'. chans s' x = Some ch' \<and> waiting ch' = waiting ch"
    by (rule kinv_last_release [OF kinv_unlist [OF assms(1)] at(1) assms(4) at(2)]) blast
  have "\<not> listed s' (pid pe)"
    using kinvD(1) [OF assms(1)] assms(2,3) unfolding listed_def list_inv_def s'(3,4)
    by (auto split: if_splits dest: in_set_remove1 [THEN iffD1, rotated])
  moreover have "sender_frame s s'" using s'(5) by (simp add: sender_frame_def in_no_list_def)
  moreover have "qnxcomm_close True f (Some e) s = Some (0, None, s')" "procs s' = (procs s)(e := None)"
    using s'(1,3) close_rdwr_eq [OF assms(1-3), of f] by simp_all
  ultimately show thesis using that s'(2,6,7) by simp
qed

section \<open>Properties\<close>

text \<open>
  A process that opens the device and closes it again leaves no trace: the open either fails
  with \<open>-ENOSPC\<close> (the process is already known) or \<open>-ENOMEM\<close> and changes nothing, or it lists a
  new entry and keeps the kernel invariant; closing the file then restores the state, but for
  the address that was used.
\<close>

theorem open_close_round_trip:
  assumes "kinv H s" and "qnxcomm_open env True p s = Some (rc, pd, s1)"
  shows "case pd of
      None \<Rightarrow> s1 = s \<and> rc = (if listed s p then - ENOSPC else - ENOMEM)
    | Some e \<Rightarrow> rc = 0 \<and> \<not> listed s p \<and> listed s1 p \<and> kinv H s1 \<and>
        qnxcomm_close True f (Some e) s1 = Some (0, None, s\<lparr>next_addr := Suc (next_addr s)\<rparr>)"
proof (cases "listed s p \<or> \<not> kmalloc env A_entry 0")
  case True
  then show ?thesis using assms(2) open_rdwr_eq [OF assms(1), of env p] by (auto split: if_splits)
next
  case False
  let ?e = "next_addr s" and ?pe = "qnx_process_entry_init env p s"
  have r: "rc = 0" "pd = Some ?e" "s1 = opened env p s"
    using False assms(2) open_rdwr_eq [OF assms(1), of env p] by auto
  have k: "kinv H s1" unfolding r using kinv_opened [OF assms(1)] False by blast
  have at: "procs s1 ?e = Some ?pe" "process_entries s1 = ?e # process_entries s"
    by (simp_all add: r opened_def qnx_driver_data_add_process_def)
  have free: "procs s ?e = None" using kinvD(7) [OF assms(1)] by (simp add: fresh_inv_def)
  have eq: "(s1\<lparr>process_entries := process_entries s\<rparr>)\<lparr>procs := (procs s1)(?e := None)\<rparr> =
      s\<lparr>next_addr := Suc (next_addr s)\<rparr>"
    by (rule kstate.equality)
      (use free in \<open>simp_all add: r opened_def qnx_driver_data_add_process_def store_proc_def fun_upd_idem\<close>)
  have "qnx_process_entry_release ?e (s1\<lparr>process_entries := process_entries s\<rparr>) =
      Some (s\<lparr>next_addr := Suc (next_addr s)\<rparr>)"
    using release_fresh_entry [of "s1\<lparr>process_entries := process_entries s\<rparr>" ?e ?pe] at(1) eq
    by (simp add: qnx_process_entry_init_def wf_table_init)
  then have "qnxcomm_close True f (Some ?e) s1 = Some (0, None, s\<lparr>next_addr := Suc (next_addr s)\<rparr>)"
    using close_rdwr_eq [OF k _ at(1), of f] at(2) by simp
  moreover have "listed s1 p" using at by (auto simp: listed_def qnx_process_entry_init_def)
  ultimately show ?thesis using r(1,2) k False by simp
qed

theorem open_close_round_trip_witness:
  "qnxcomm_open demo_env True 9 demo_kernel = Some (0, Some 4, opened demo_env 9 demo_kernel) \<and>
   qnxcomm_close True 1 (Some 4) (opened demo_env 9 demo_kernel) = Some (0, None, demo_kernel\<lparr>next_addr := 5\<rparr>)"
proof -
  have "\<not> listed demo_kernel 9" by (auto simp: listed_def demo_defs)
  moreover have "kmalloc demo_env A_entry 0" "next_addr demo_kernel = 4" by (simp_all add: demo_env_def demo_kernel_def)
  ultimately have o: "qnxcomm_open demo_env True 9 demo_kernel = Some (0, Some 4, opened demo_env 9 demo_kernel)"
    using open_rdwr_eq [OF demo_kernel_inv, of demo_env 9] by simp
  from open_close_round_trip [OF demo_kernel_inv o, of 1] o show ?thesis by (simp add: demo_kernel_def)
qed


text \<open>The server of the example with a received message that it has not answered.\<close>

definition demo_serving :: kstate where
  "demo_serving = demo_leaving\<lparr>process_entries := [3, 1]\<rparr>"

lemma demo_serving_inv: "kinv (\<lambda>_. 0) demo_serving"
proof -
  have "list_inv [3, 1] (procs demo_leaving)"
    by (simp add: list_inv_def demo_leaving_def demo_server_def demo_client_def)
  then show ?thesis using demo_leaving_inv unfolding demo_serving_def kinv_def by (simp add: fresh_inv_def)
qed

lemma demo_serving_at:
  "procs demo_serving 1 = Some (demo_server\<lparr>pending := [9]\<rparr>)" "1 \<in> set (process_entries demo_serving)"
  "msgs demo_serving 9 = Some ((fresh_msgsend 1 8 (Some 5) (Msg zero_kmsg))\<lparr>mstate := QNX_STATE_PENDING\<rparr>)"
  by (simp_all add: demo_serving_def demo_leaving_def)


text \<open>
  Two threads of one process that open the device at the same time: both pass the test before one
  of them has put its entry on the list, and the process ends up with two entries, while a process
  that opens the device again later is refused.
\<close>

theorem concurrent_opens_list_twice:
  assumes "kinv H s" and "\<not> listed s p" and "kmalloc env A_entry 0" and "kmalloc env' A_entry 0"
    and "open_add env p s = (e1, s1)" and "open_add env' p s1 = (e2, s2)"
  shows "open_check env p s = Some 0 \<and> open_check env' p s = Some 0 \<and> e1 \<noteq> e2 \<and> {e1, e2} \<subseteq> set (process_entries s2) \<and>
    (\<exists>pe1 pe2. procs s2 e1 = Some pe1 \<and> pid pe1 = p \<and> procs s2 e2 = Some pe2 \<and> pid pe2 = p) \<and>
    \<not> kinv K s2 \<and> open_check env' p s1 = Some (- ENOSPC)"
proof -
  have one: "e1 = next_addr s" "s1 = opened env p s"
    using assms(5) by (auto simp: open_add_def opened_def alloc_def qnx_process_entry_init_def)
  have two: "e2 = Suc e1" "s2 = opened env' p s1"
    using assms(6) one
    by (auto simp: open_add_def opened_def alloc_def qnx_process_entry_init_def qnx_driver_data_add_process_def store_proc_def)
  have at: "e1 \<in> set (process_entries s2)" "e2 \<in> set (process_entries s2)" "e1 \<noteq> e2"
    "\<exists>pe. procs s2 e1 = Some pe \<and> pid pe = p" "\<exists>pe. procs s2 e2 = Some pe \<and> pid pe = p"
    using one two by (auto simp: opened_def qnx_driver_data_add_process_def qnx_process_entry_init_def store_proc_def)
  have "open_check env p s = Some 0" "open_check env' p s = Some 0"
    using is_process_available_eq [OF assms(1), of p] assms(2-4) by (simp_all add: open_check_def)
  moreover have "listed s1 p"
    unfolding listed_def one(2) by (auto simp: opened_def qnx_driver_data_add_process_def qnx_process_entry_init_def store_proc_def)
  then have "open_check env' p s1 = Some (- ENOSPC)"
    using is_process_available_eq [OF kinv_opened [OF assms(1,2), of env], of p] one(2) by (simp add: open_check_def)
  moreover have "\<not> kinv K s2"
    using at kinvD(1) [of K s2] unfolding list_inv_def by metis
  ultimately show ?thesis using at by blast
qed

theorem concurrent_opens_list_twice_witness:
  "\<exists>s1 s2. open_add demo_env 9 demo_kernel = (4, s1) \<and> open_add demo_env 9 s1 = (5, s2) \<and> {4, 5} \<subseteq> set (process_entries s2)"
proof -
  have pre: "\<not> listed demo_kernel 9" "kmalloc demo_env A_entry 0" by (auto simp: listed_def demo_defs demo_env_def)
  have add: "open_add demo_env 9 demo_kernel = (4, opened demo_env 9 demo_kernel)"
    "open_add demo_env 9 (opened demo_env 9 demo_kernel) = (5, opened demo_env 9 (opened demo_env 9 demo_kernel))"
    by (simp_all add: open_add_def opened_def alloc_def qnx_process_entry_init_def demo_kernel_def qnx_driver_data_add_process_def store_proc_def)
  from concurrent_opens_list_twice [OF demo_kernel_inv pre pre(2) add] add show ?thesis by blast
qed

text \<open>The argument of a command that copies a structure from user space cannot be read.\<close>

definition unreadable :: "kenv \<Rightarrow> uargs \<Rightarrow> qnx_cmd \<Rightarrow> nat \<Rightarrow> bool" where
  "unreadable env ua cmd a \<longleftrightarrow>
     (case cmd of
        QNX_IO_CONNECTATTACH \<Rightarrow> read_attach ua a = None
      | QNX_IO_MSGSEND \<Rightarrow> read_msgsend ua a = None
      | QNX_IO_MSGSENDNOREPLY \<Rightarrow> read_msgsend ua a = None
      | QNX_IO_MSGSENDPULSE \<Rightarrow> kmalloc env A_msgsend 0 \<and> read_pulse ua a = None
      | QNX_IO_MSGSENDV \<Rightarrow> read_msgsendv ua a = None
      | QNX_IO_MSGSENDNOREPLYV \<Rightarrow> read_msgsendv ua a = None
      | QNX_IO_MSGRECEIVE \<Rightarrow> read_receive ua a = None
      | QNX_IO_MSGREPLY \<Rightarrow> read_reply ua a = None
      | QNX_IO_MSGERROR \<Rightarrow> read_error ua a = None
      | QNX_IO_MSGREAD \<Rightarrow> read_read ua a = None
      | _ \<Rightarrow> False)"

text \<open>
  The guards of \<open>ioctl\<close>: a null argument, a file without a process entry, a call from a process
  other than the one that opened the file (after a fork), an unknown command and an argument
  that cannot be read are refused with \<open>-EINVAL\<close>, \<open>-ENOTTY\<close>, \<open>-ENOSPC\<close>, \<open>-EINVAL\<close> and
  \<open>-EFAULT\<close>, in this order, and change neither the kernel state nor user memory.
\<close>

theorem ioctl_guards:
  assumes "\<And>e. pd = Some e \<Longrightarrow> procs s e = Some pe"
    and "a = 0 \<or> pd = None \<or> p \<noteq> pid pe \<or> (\<exists>n. cmd = Other_cmd n) \<or> unreadable env ua cmd a"
  shows "qnxcomm_ioctl env ua sc t p f pd cmd a s =
    Some (Some (if a = 0 then - EINVAL else if pd = None then - ENOTTY else if p \<noteq> pid pe then - ENOSPC
                else if \<exists>n. cmd = Other_cmd n then - EINVAL else - EFAULT), [], s)"
proof (cases "a = 0 \<or> pd = None")
  case True
  then show ?thesis by (auto simp: qnxcomm_ioctl_def)
next
  case False
  then obtain e where e: "a \<noteq> 0" "pd = Some e" "procs s e = Some pe" using assms(1) by auto
  have "ioctl_dispatch env ua sc t f e cmd a s =
      Some (Some (if \<exists>n. cmd = Other_cmd n then - EINVAL else - EFAULT), [], s)"
    if "(\<exists>n. cmd = Other_cmd n) \<or> unreadable env ua cmd a"
    using that e(3)
    by (cases cmd) (auto simp: ioctl_dispatch_def unreadable_def handle_msgsend_def handle_msgsend_enter_def
      qnx_internal_msgsend_init_def no_reply_defs qnx_internal_msgsend_init_noreply_def
      handle_msgsendpulse_def qnx_internal_msgsend_init_pulse_def no_write_def handle_msgreceive_def
      handle_msgreceive_enter_def handle_msgsendv_def handle_msgsendv_enter_def noreplyv_defs)
  with e assms(2) show ?thesis by (auto simp: qnxcomm_ioctl_def)
qed

theorem ioctl_guards_witness:
  "\<forall>env ua sc. qnxcomm_ioctl env ua sc 5 9 1 (Some 1) QNX_IO_CHANNELCREATE 64 demo_kernel =
     Some (Some (- ENOSPC), [], demo_kernel)"
proof (intro allI)
  fix env ua sc
  have "\<And>e. Some 1 = Some e \<Longrightarrow> procs demo_kernel e = Some demo_server" using demo_kernel_procs(1) by simp
  moreover have "pid demo_server = 7" by (simp add: demo_server_def)
  ultimately show "qnxcomm_ioctl env ua sc 5 9 1 (Some 1) QNX_IO_CHANNELCREATE 64 demo_kernel =
      Some (Some (- ENOSPC), [], demo_kernel)"
    using ioctl_guards [of "Some 1" demo_kernel demo_server 64 9 QNX_IO_CHANNELCREATE env ua sc 5 1] by simp
qed

text \<open>
  Poll on every branch. With a registered file whose channel still exists the mask says
  whether the counter of waiting messages is positive, otherwise it is \<open>POLLHUP\<close>. Each poll of
  the first kind leaves one more reference on the channel, which no thread gives back, so a
  polled channel is never freed; and on a file without process entry poll follows a null
  pointer.
\<close>

theorem poll_leaks_reference:
  assumes "kinv H s" and "procs s e = Some pe"
  shows "((\<exists>pf c ch. find (\<lambda>p. pf_file p = f) (pollfds pe) = Some pf \<and> channel_of s e (pf_chid pf) c \<and>
      chans s c = Some ch \<and>
      qnxcomm_poll f (Some e) s =
        Some (if num_waiting ch > 0 then POLLIN + POLLRDNORM else 0,
              store_chan c (ch\<lparr>ch_refcnt := Suc (ch_refcnt ch)\<rparr>) s) \<and>
      kinv (holding c H) (store_chan c (ch\<lparr>ch_refcnt := Suc (ch_refcnt ch)\<rparr>) s)) \<or>
    qnxcomm_poll f (Some e) s = Some (POLLHUP, s) \<and>
      (\<forall>pf c. find (\<lambda>p. pf_file p = f) (pollfds pe) = Some pf \<longrightarrow> \<not> channel_of s e (pf_chid pf) c)) \<and>
    qnxcomm_poll f None s = None"
proof (cases "find (\<lambda>p. pf_file p = f) (pollfds pe)")
  case None
  then show ?thesis
    using assms(2) by (simp add: qnxcomm_poll_def qnx_process_entry_find_channel_from_file_def)
next
  case (Some pf)
  show ?thesis
    using assms
  proof (cases rule: kinv_entry_find_channel [where i = "pf_chid pf"])
    case none
    then show ?thesis
      using assms(2) Some by (simp add: qnxcomm_poll_def qnx_process_entry_find_channel_from_file_def)
  next
    case (found c)
    then obtain ch where ch: "chans s c = Some ch" by (auto simp: channel_of_def)
    then have eq: "hold c s = store_chan c (ch\<lparr>ch_refcnt := Suc (ch_refcnt ch)\<rparr>) s" by (simp add: hold_def)
    have "qnxcomm_poll f (Some e) s =
        Some (if num_waiting ch > 0 then POLLIN + POLLRDNORM else 0, store_chan c (ch\<lparr>ch_refcnt := Suc (ch_refcnt ch)\<rparr>) s)"
      using assms(2) Some found(1) eq by (simp add: qnxcomm_poll_def qnx_process_entry_find_channel_from_file_def)
    moreover have "qnxcomm_poll f None s = None" by (simp add: qnxcomm_poll_def)
    ultimately show ?thesis using Some found(2,3) ch unfolding eq by blast
  qed
qed

theorem poll_leaks_reference_witness:
  "\<exists>c s'. qnxcomm_poll 6 (Some 1) (store_proc 1 (demo_server\<lparr>pollfds := [\<lparr>pf_file = 6, pf_chid = 1\<rparr>]\<rparr>) demo_kernel) =
     Some (0, s') \<and> kinv (holding c (\<lambda>_. 0)) s'"
proof -
  let ?pe = "demo_server\<lparr>pollfds := [\<lparr>pf_file = 6, pf_chid = 1\<rparr>]\<rparr>"
  let ?s = "store_proc 1 ?pe demo_kernel"
  have k: "kinv (\<lambda>_. 0) ?s" by (rule kinv_store_pollfds [OF demo_kernel_inv demo_kernel_procs(1)])
  have at: "procs ?s 1 = Some ?pe" by simp
  have ch: "channel_of ?s 1 1 2" "\<And>c ch. chans ?s c = Some ch \<Longrightarrow> num_waiting ch = 0"
    by (auto simp: channel_of_def demo_server_def demo_kernel_def split: if_splits)
  from poll_leaks_reference [OF k at, of 6] ch show ?thesis by fastforce
qed

text \<open>
  Loading the module: with every call successful the module is registered, and unloading it
  gives back all it holds; when the region, the device object or its registration fails, what
  was acquired is given back and the result is \<open>-EIO\<close>. When the creation of the \<open>/proc\<close> files
  fails, the device object is put twice, the second time after its last reference is gone.
\<close>

theorem module_life_cycle:
  "(\<exists>r. qnxcomm_init True True True True = Some (0, r) \<and> region r \<and> cdev_live r \<and> proc_dir r \<and> dev_class r \<and>
      kobj_refs r = 1 \<and> list_ready r \<and> qnxcomm_cleanup r = Some (no_res\<lparr>list_ready := True\<rparr>)) \<and>
   (\<forall>a b c d. \<not> (a \<and> b \<and> c) \<longrightarrow> qnxcomm_init a b c d = Some (- EIO, no_res)) \<and>
   qnxcomm_init True True True False = None"
  by (auto simp: qnxcomm_init_def init_free_region_def init_free_cdev_def init_del_inst_def kobject_put_def
      cdev_del_def qnxcomm_cleanup_def no_res_def Let_def)

theorem module_life_cycle_witness:
  "qnxcomm_init True True False True = Some (- EIO, no_res)"
  using module_life_cycle by blast

section \<open>Frames that end too early\<close>

lemma placed_nowhere: "in_no_list d s \<Longrightarrow> placed s c d"
  by (auto simp: placed_def in_no_list_def)

lemma same_rcvid:
  assumes "kinv H s" and "msgs s d = Some m" and "msgs s d' = Some m'" and "rcvid m' = rcvid m" and "task m \<noteq> None"
  shows "d' = d"
proof -
  have "rcvid m \<noteq> 0" using kinv_msg [OF assms(1,2)] assms(5) by (auto simp: payload_ok_def split: payload.splits)
  then show ?thesis using kinvD(6) [OF assms(1)] assms(2-4) unfolding msgs_inv_def by metis
qed

lemma free_msg_list_keeps_dead:
  "free_msg_list ds s = Some s' \<Longrightarrow> msgs s d = None \<Longrightarrow> msgs s' d = None"
proof (induction ds arbitrary: s)
  case (Cons a ds)
  then obtain s1 where s1: "qnx_internal_msgsend_cleanup_and_free a s = Some s1"
    "free_msg_list ds (if msgs s1 a = None then s1\<lparr>uaf := a # uaf s1\<rparr> else s1) = Some s'"
    by (auto elim!: bind_eq_SomeE)
  then have "msgs s1 d = None"
    using Cons.prems(2) by (auto simp: qnx_internal_msgsend_cleanup_and_free_def wake_up_process_def
        split: option.splits elim!: bind_eq_SomeE)
  with Cons.IH [OF s1(2)] show ?case by simp
qed simp

lemma free_msg_list_dead: "d \<in> set ds \<Longrightarrow> msgs s d = None \<Longrightarrow> free_msg_list ds s = None"
proof (induction ds arbitrary: s)
  case (Cons a ds)
  show ?case
  proof (cases "qnx_internal_msgsend_cleanup_and_free a s")
    case (Some s1)
    then have "a \<noteq> d" "msgs s1 d = None"
      using Cons.prems(2) by (auto simp: qnx_internal_msgsend_cleanup_and_free_def wake_up_process_def
          split: option.splits elim!: bind_eq_SomeE)
    then show ?thesis using Cons Some by auto
  qed simp
qed simp

lemma release_channels_keeps_dead:
  "release_channels e cs s = Some s' \<Longrightarrow> msgs s d = None \<Longrightarrow> msgs s' d = None"
proof (induction cs arbitrary: s)
  case (Cons c cs)
  then obtain pe s1 where s1: "qnx_channel_release c (store_proc e pe s) = Some s1" "release_channels e cs s1 = Some s'"
    by (auto elim!: bind_eq_SomeE)
  have "msgs s1 d = None"
    using s1(1) Cons.prems(2) free_msg_list_keeps_dead
    by (fastforce simp: qnx_channel_release_def qnx_channel_free_def split: if_splits elim!: bind_eq_SomeE)
  with Cons.IH [OF s1(2)] show ?case by simp
qed simp

lemma last_release_faults:
  assumes "procs s e = Some pe" and "pe_refcnt pe = 1" and "d \<in> set (pending pe)" and "msgs s d = None"
  shows "qnx_process_entry_release e s = None"
proof -
  let ?s = "store_proc e (pe\<lparr>pe_refcnt := 0\<rparr>) s"
  have "free_msg_list (pending pe) s1 = None" if "release_channels e (channels pe) ?s = Some s1" for s1
    using free_msg_list_dead [OF assms(3)] release_channels_keeps_dead [OF that] assms(4) by simp
  then show ?thesis
    using assms(1,2) by (cases "release_channels e (channels pe) ?s")
      (simp_all add: qnx_process_entry_release_def qnx_process_entry_free_def)
qed

text \<open>
  C35. A reply that overlaps with the end of the sender's wait touches a dead stack frame. The
  server takes the message off its pending list and then, without a lock, copies the reply into
  it. When the sender gets a signal in between, it no longer finds its message on the pending
  list, takes the reply for done and returns; the message is gone when the server writes to it.
\<close>

theorem reply_races_with_signal:
  assumes "kinv (holding c H) s" and "procs s e = Some pe" and "d \<in> set (pending pe)" and "msgs s d = Some m"
    and "rcvid m = rep_rcvid io"
  shows "\<exists>s1 r s2 rc ws s3. qnx_process_entry_release_pending e (rep_rcvid io) s = Some (Some d, s1) \<and>
    block_exit ms True c d s1 = Some (Returns r, s2) \<and>
    handle_msgsend_exit env r d s2 = Some (rc, ws, s3) \<and> kinv H s3 \<and>
    handle_msgreply_finish env io d s3 = None"
  using assms(1,2)
proof (cases rule: kinv_release_pending [where r = "rep_rcvid io"])
  case none
  then show ?thesis using assms(3-5) by blast
next
  case (hit d' m' s1)
  have d: "d' = d" using same_rcvid [OF assms(1) hit(2) assms(4)] hit(3,4) assms(5) by simp
  then have m: "m' = m" using hit(2) assms(4) by simp
  obtain t where t: "task m = Some t" using hit(4) m by auto
  have at: "msgs s1 d = Some m" "placed s1 c d" "in_no_list d s1"
    using hit(6,9) assms(4) d placed_nowhere by simp_all
  have ex: "\<exists>rc ws s3. handle_msgsend_exit env r d s2 = Some (rc, ws, s3) \<and> kinv H s3 \<and>
      handle_msgreply_finish env io d s3 = None"
    if "kinv H s2" "in_no_list d s2" "msgs s2 d = Some m" for r s2
    using msgsend_exit_ok [OF that(1,3,2), of env r] by (auto simp: handle_msgreply_finish_def)
  show ?thesis
  proof (rule block_exit_ok [OF hit(8) at(1) t at(2)])
    fix s2 r
    assume "block_exit ms True c d s1 = Some (Returns r, s2)" "kinv H s2" "in_no_list d s2" "msgs s2 d = Some m"
    then show ?thesis using ex [of s2 r] hit(7) d by blast
  qed (use hit(5) m in simp_all)
qed

text \<open>The example with the sender of the pending message still holding its channel reference.\<close>

lemma demo_waiting_sender:
  "kinv (holding 2 (\<lambda>_. 0)) (hold 2 demo_serving)" "procs (hold 2 demo_serving) 1 = Some (demo_server\<lparr>pending := [9]\<rparr>)"
  "msgs (hold 2 demo_serving) 9 = Some ((fresh_msgsend 1 8 (Some 5) (Msg zero_kmsg))\<lparr>mstate := QNX_STATE_PENDING\<rparr>)"
proof -
  have "\<exists>ch. chans demo_serving 2 = Some ch" by (simp add: demo_serving_def demo_leaving_def demo_kernel_def)
  then show "kinv (holding 2 (\<lambda>_. 0)) (hold 2 demo_serving)" using kinv_hold [OF demo_serving_inv] by blast
qed (use demo_serving_at in simp_all)

theorem reply_races_with_signal_witness:
  "\<exists>s1 r s2 rc ws s3. qnx_process_entry_release_pending 1 1 (hold 2 demo_serving) = Some (Some 9, s1) \<and>
    block_exit 0 True 2 9 s1 = Some (Returns r, s2) \<and>
    handle_msgsend_exit demo_env r 9 s2 = Some (rc, ws, s3) \<and>
    handle_msgreply_finish demo_env \<lparr>rep_rcvid = 1, rep_status = 0, rep_in = zero_iovec\<rparr> 9 s3 = None"
  using reply_races_with_signal [OF demo_waiting_sender(1,2) _ demo_waiting_sender(3),
      of "\<lparr>rep_rcvid = 1, rep_status = 0, rep_in = zero_iovec\<rparr>" 0 demo_env]
  by (force simp: fresh_msgsend_def)

text \<open>
  C36. Closing the device while a file for polling is still open strands the senders. The entry
  leaves the list but lives on with its pending messages, and no sender is woken. A sender that
  then gets a signal does not find the process, leaves its message on the pending list and
  returns, and closing the other file follows the pointer to the dead frame.
\<close>

theorem close_before_pollfd_strands_sender:
  assumes "kinv (holding c H) s" and "e \<in> set (process_entries s)" and "procs s e = Some pe" and "pe_refcnt pe = 2"
    and "d \<in> set (pending pe)" and "msgs s d = Some m" and "receiver_pid m = pid pe"
  shows "\<exists>s1 r s2 rc ws s3. qnxcomm_close True f (Some e) s = Some (0, None, s1) \<and> running s1 = running s \<and>
    block_exit ms True c d s1 = Some (Returns r, s2) \<and> handle_msgsend_exit env r d s2 = Some (rc, ws, s3) \<and>
    msgs s3 d = None \<and> (\<exists>pe'. procs s3 e = Some pe' \<and> d \<in> set (pending pe')) \<and>
    qnxcomm_close False g (Some e) s3 = None"
proof -
  let ?u = "s\<lparr>process_entries := remove1 e (process_entries s)\<rparr>" and ?pe = "pe\<lparr>pe_refcnt := 1\<rparr>"
  let ?s1 = "store_proc e ?pe ?u"
  have st: "mstate m = QNX_STATE_PENDING" "task m \<noteq> None"
    using kinv_pending_msg [OF assms(1,3,5)] assms(6) by auto
  have "procs ?u e = Some pe" "1 < pe_refcnt pe" using assms(3,4) by simp_all
  note rel = kinv_process_release [OF kinv_unlist [OF assms(1)] this]
  have k1: "kinv (holding c H) ?s1" and close: "qnxcomm_close True f (Some e) s = Some (0, None, ?s1)"
    using rel assms(3,4) close_rdwr_eq [OF assms(1-3), of f] by (simp_all add: numeral_2_eq_2)
  have at: "msgs ?s1 d = Some m" "procs ?s1 e = Some ?pe" using assms(6) by simp_all
  obtain ch where ch: "chans ?s1 c = Some ch" using kinv_held [OF k1, of c] by auto
  have gone: "qnx_channel_remove_message c (rcvid m) ?s1 = Some (0, ?s1)"
    using k1 ch at(1) st(2)
  proof (cases rule: kinv_remove_message)
    case (removed ch')
    then show ?thesis using kinv_waiting_msg [OF k1 ch removed(4)] at(1) st(1) by auto
  qed
  have nf: "qnx_driver_data_find_process (receiver_pid m) ?s1 = Some (None, ?s1)"
    using k1
  proof (cases rule: kinv_find_process [where p = "receiver_pid m"])
    case (found x px)
    then have "x \<noteq> e" "x \<in> set (process_entries s)" "procs s x = Some px"
      using unlisted [OF assms(1)] by (auto split: if_splits dest: notin_set_remove1)
    then have False using kinvD(1) [OF assms(1)] assms(2,3,7) found(3) unfolding list_inv_def by metis
    then show ?thesis ..
  qed
  let ?rc = "if timed_out ms m then - ETIMEDOUT else - ERESTARTSYS"
  obtain s2 where s2: "qnx_channel_release c ?s1 = Some s2" "kinv H s2" "procs_frame ?s1 s2" "sender_frame ?s1 s2"
    by (rule kinv_put_back [OF k1])
  have exit: "block_exit ms True c d ?s1 = Some (Returns ?rc, s2)"
    using at(1) gone nf s2(1) st(1) by (simp add: block_exit_def block_pending_def timed_out_def Let_def)
  obtain m2 where m2: "msgs s2 d = Some m2" using s2(4) at(1) st(2) unfolding sender_frame_def by blast
  have "\<exists>bs. reply_base m2 = Some bs" if "reply_len m2 > 0"
    using kinv_msg [OF s2(2) m2] that by (auto simp: payload_ok_def split: option.splits)
  then obtain rc ws where frame: "handle_msgsend_exit env ?rc d s2 = Some (rc, ws, s2\<lparr>msgs := (msgs s2)(d := None)\<rparr>)"
    using m2 by (fastforce simp: handle_msgsend_exit_def Let_def)
  let ?s3 = "s2\<lparr>msgs := (msgs s2)(d := None)\<rparr>"
  have at3: "procs ?s3 e = Some ?pe" "msgs ?s3 d = None" using s2(3) by (simp_all add: procs_frame_def)
  have "\<exists>rc s4 fs. qnx_process_entry_remove_pollfd e g ?s3 = Some (rc, s4) \<and>
      procs s4 e = Some (?pe\<lparr>pollfds := fs\<rparr>) \<and> msgs s4 = msgs ?s3"
    using at3(1) by (auto simp: qnx_process_entry_remove_pollfd_def store_proc_def split: option.splits
      intro: exI [of _ "pollfds pe"])
  then obtain rc' s4 fs where s4: "qnx_process_entry_remove_pollfd e g ?s3 = Some (rc', s4)"
    "procs s4 e = Some (?pe\<lparr>pollfds := fs\<rparr>)" "msgs s4 d = None"
    using at3(2) by auto
  have "qnx_process_entry_release e s4 = None"
    by (rule last_release_faults [OF s4(2) _ _ s4(3)]) (use assms(5) in simp_all)
  then have "qnxcomm_close False g (Some e) ?s3 = None" using s4(1) by (simp add: qnxcomm_close_def)
  moreover have "running ?s1 = running s" by (simp add: store_proc_def)
  moreover have "\<exists>pe'. procs ?s3 e = Some pe' \<and> d \<in> set (pending pe')" using at3(1) assms(5) by simp
  ultimately show ?thesis using close exit frame at3(2) by blast
qed

theorem close_before_pollfd_strands_sender_witness:
  "\<exists>s0 s1 r s2 rc ws s3. kinv (holding 2 (\<lambda>_. 0)) s0 \<and> qnxcomm_close True 1 (Some 1) s0 = Some (0, None, s1) \<and>
     block_exit 0 True 2 9 s1 = Some (Returns r, s2) \<and> handle_msgsend_exit demo_env r 9 s2 = Some (rc, ws, s3) \<and>
     qnxcomm_close False 2 (Some 1) s3 = None"
proof -
  let ?m = "(fresh_msgsend 1 8 (Some 5) (Msg zero_kmsg))\<lparr>mstate := QNX_STATE_PENDING\<rparr>"
  let ?m' = "?m\<lparr>receiver_pid := 7\<rparr>" and ?pe = "demo_server\<lparr>pending := [9]\<rparr>"
  let ?s1 = "hold 2 demo_serving"
  let ?s = "store_proc 1 (?pe\<lparr>pe_refcnt := 2\<rparr>) (?s1\<lparr>msgs := (msgs ?s1)(9 \<mapsto> ?m')\<rparr>)"
  have k1: "kinv (holding 2 (\<lambda>_. 0)) (?s1\<lparr>msgs := (msgs ?s1)(9 \<mapsto> ?m')\<rparr>)" (is "kinv _ ?s2")
    by (rule kinv_store_msg [OF demo_waiting_sender(1,3)]) (use kinv_msg [OF demo_waiting_sender(1,3)] in simp_all)
  have at: "procs ?s2 1 = Some ?pe" using demo_waiting_sender(2) by simp
  have "kinv (holding 2 (\<lambda>_. 0)) ?s"
    by (rule kinv_store_proc [OF k1 at]) (use kinv_proc [OF k1 at] in \<open>auto simp: proc_inv_def\<close>)
  moreover have "1 \<in> set (process_entries ?s)" "procs ?s 1 = Some (?pe\<lparr>pe_refcnt := 2\<rparr>)"
    "9 \<in> set (pending (?pe\<lparr>pe_refcnt := 2\<rparr>))" "msgs ?s 9 = Some ?m'" "receiver_pid ?m' = pid (?pe\<lparr>pe_refcnt := 2\<rparr>)"
    using demo_serving_at(2) by (simp_all add: demo_server_def)
  ultimately show ?thesis
    using close_before_pollfd_strands_sender [of 2 "\<lambda>_. 0" ?s 1 "?pe\<lparr>pe_refcnt := 2\<rparr>" 9 ?m' 1 0 demo_env 2] by auto
qed

end
