(* ===== verification/Proc_Views.thy ===== *)
theory Proc_Views
  imports Proc_Fs Driver_Safety
begin

text \<open>
  What the files under \<^verbatim>\<open>/proc/qnxcomm\<close> show of a kernel state: a reader for the decimal
  numbers and lines that the module prints, the common shape of the three loops as a locale,
  and that the texts are exact.
\<close>

section \<open>Reading what was printed\<close>

definition is_digit :: "char \<Rightarrow> bool" where
  "is_digit c \<longleftrightarrow> 48 \<le> (of_char c :: nat) \<and> (of_char c :: nat) \<le> 57"

definition digit_val :: "nat \<Rightarrow> char \<Rightarrow> nat" where
  "digit_val a c = 10 * a + (of_char c - 48)"

definition read_nat :: "string \<Rightarrow> (nat \<times> string) option" where
  "read_nat s =
     (if takeWhile is_digit s = [] then None
      else Some (foldl digit_val 0 (takeWhile is_digit s), dropWhile is_digit s))"

definition read_int :: "string \<Rightarrow> (int \<times> string) option" where
  "read_int s =
     (case s of
        [] \<Rightarrow> None
      | c # cs \<Rightarrow>
          if c = CHR ''-'' then do { (n, r) \<leftarrow> read_nat cs; Some (- int n, r) }
          else do { (n, r) \<leftarrow> read_nat s; Some (int n, r) })"

fun strip :: "string \<Rightarrow> string \<Rightarrow> string option" where
  "strip [] s = Some s"
| "strip (c # cs) [] = None"
| "strip (c # cs) (x # xs) = (if c = x then strip cs xs else None)"

definition no_digit :: "string \<Rightarrow> bool" where
  "no_digit r \<longleftrightarrow> (case r of [] \<Rightarrow> True | c # _ \<Rightarrow> \<not> is_digit c)"

lemma no_digit_simps [simp]:
  "no_digit []" "no_digit (CHR '':'' # r)" "no_digit (CHR '' '' # r)" "no_digit (CHR '','' # r)" "no_digit (nl # r)"
  by (simp_all add: no_digit_def is_digit_def nl_def)

lemma is_digit_digit: "n < (10::nat) \<Longrightarrow> is_digit (char_of (48 + n))"
  by (simp add: is_digit_def)

lemma digit_val_digit: "n < (10::nat) \<Longrightarrow> digit_val a (char_of (48 + n)) = 10 * a + n"
  by (simp add: digit_val_def)

lemma show_nat_digits: "set (show_nat n) \<subseteq> Collect is_digit"
  by (induction n rule: show_nat.induct) (subst show_nat.simps, auto simp: is_digit_digit)

lemma show_nat_value: "foldl digit_val 0 (show_nat n) = n"
  by (induction n rule: show_nat.induct) (subst show_nat.simps, simp add: digit_val_digit)

lemma show_nat_nonempty: "show_nat n \<noteq> []"
  by (subst show_nat.simps) simp

lemma read_show_nat:
  assumes "no_digit r"
  shows "read_nat (show_nat n @ r) = Some (n, r)"
proof -
  have "takeWhile is_digit (show_nat n) = show_nat n" "\<forall>c \<in> set (show_nat n). is_digit c"
    using show_nat_digits [of n] by (auto simp: takeWhile_eq_all_conv)
  then have "takeWhile is_digit (show_nat n @ r) = show_nat n" "dropWhile is_digit (show_nat n @ r) = r"
    using assms by (cases r; simp add: no_digit_def takeWhile_append dropWhile_append)+
  then show ?thesis by (simp add: read_nat_def show_nat_nonempty show_nat_value)
qed

lemma read_show_int [simp]:
  assumes "no_digit r"
  shows "read_int (show_int i @ r) = Some (i, r)"
proof (cases "i < 0")
  case True
  then show ?thesis by (simp add: read_int_def show_int_def read_show_nat [OF assms])
next
  case False
  obtain c cs where c: "show_nat (nat i) = c # cs" using show_nat_nonempty by (meson list.exhaust)
  then have "c \<noteq> CHR ''-''" using show_nat_digits [of "nat i"] by (auto simp: is_digit_def)
  then show ?thesis
    using False c read_show_nat [OF assms, of "nat i"] by (simp add: read_int_def show_int_def)
qed

text \<open>One line of a connection, the lines of a process, and the text of all processes.\<close>

definition parse_conn :: "string \<Rightarrow> ((int \<times> qnx_connection) \<times> string) option" where
  "parse_conn s =
     do { s \<leftarrow> strip ''   '' s; (coid, s) \<leftarrow> read_int s;
          s \<leftarrow> strip '' => pid='' s; (p, s) \<leftarrow> read_int s;
          s \<leftarrow> strip '', chid='' s; (i, s) \<leftarrow> read_int s;
          s \<leftarrow> strip [nl] s;
          Some ((coid, \<lparr>conn_pid = p, conn_chid = i\<rparr>), s) }"

fun parse_conns :: "nat \<Rightarrow> string \<Rightarrow> (int \<times> qnx_connection) list \<times> string" where
  "parse_conns 0 s = ([], s)"
| "parse_conns (Suc n) s =
     (case parse_conn s of
        None \<Rightarrow> ([], s)
      | Some (x, r) \<Rightarrow> (let (xs, r') = parse_conns n r in (x # xs, r')))"

definition parse_block :: "string \<Rightarrow> ((pid_t \<times> (int \<times> qnx_connection) list) \<times> string) option" where
  "parse_block s =
     do { s \<leftarrow> strip ''pid='' s; (p, s) \<leftarrow> read_int s; s \<leftarrow> strip ('':'' @ [nl]) s;
          let (xs, s) = parse_conns (length s) s;
          s \<leftarrow> strip [nl] s;
          Some ((p, xs), s) }"

fun parse_blocks :: "nat \<Rightarrow> string \<Rightarrow> (pid_t \<times> (int \<times> qnx_connection) list) list \<times> string" where
  "parse_blocks 0 s = ([], s)"
| "parse_blocks (Suc n) s =
     (case parse_block s of
        None \<Rightarrow> ([], s)
      | Some (x, r) \<Rightarrow> (let (xs, r') = parse_blocks n r in (x # xs, r')))"

definition parse_connections :: "string \<Rightarrow> (pid_t \<times> (int \<times> qnx_connection) list) list option" where
  "parse_connections s =
     (if s = no_processes then Some []
      else (case parse_blocks (length s) s of (xs, []) \<Rightarrow> Some xs | _ \<Rightarrow> None))"

text \<open>The texts that the module prints.\<close>

definition conn_line :: "int \<times> qnx_connection \<Rightarrow> string" where
  "conn_line x = print_connection (fst x) (snd x) []"

definition conn_block :: "pid_t \<times> (int \<times> qnx_connection) list \<Rightarrow> string" where
  "conn_block b = ''pid='' @ show_int (fst b) @ '':'' @ [nl] @ concat (map conn_line (snd b)) @ [nl]"

lemma conn_line_eq:
  "conn_line x = ''   '' @ show_int (fst x) @ '' => pid='' @ show_int (conn_pid (snd x)) @
     '', chid='' @ show_int (conn_chid (snd x)) @ [nl]"
  by (simp add: conn_line_def print_connection_def seq_printf_def)

lemma parse_conn_line: "parse_conn (conn_line x @ r) = Some (x, r)"
  by (cases x) (simp add: parse_conn_def conn_line_eq)

lemma parse_conns_lines:
  "length xs \<le> n \<Longrightarrow> parse_conn r = None \<Longrightarrow> parse_conns n (concat (map conn_line xs) @ r) = (xs, r)"
proof (induction xs arbitrary: n)
  case Nil
  then show ?case by (cases n) simp_all
next
  case (Cons x xs)
  then obtain k where "n = Suc k" by (cases n) auto
  with Cons show ?case by (simp add: parse_conn_line)
qed

lemma length_lines: "length xs \<le> length (concat (map conn_line xs))"
  by (induction xs) (simp_all add: conn_line_eq)

lemma parse_conn_block: "parse_block (conn_block b @ r) = Some (b, r)"
proof -
  let ?t = "concat (map conn_line (snd b)) @ nl # r"
  have "parse_conn (nl # r) = None" by (simp add: parse_conn_def nl_def)
  moreover have "length (snd b) \<le> length ?t" using length_lines [of "snd b"] by simp
  ultimately have "parse_conns (length ?t) ?t = (snd b, nl # r)" using parse_conns_lines by blast
  then show ?thesis by (simp add: parse_block_def conn_block_def)
qed

lemma parse_conn_blocks: "length bs \<le> n \<Longrightarrow> parse_blocks n (concat (map conn_block bs)) = (bs, [])"
proof (induction bs arbitrary: n)
  case Nil
  then show ?case by (cases n) (simp_all add: parse_block_def)
next
  case (Cons b bs)
  then obtain k where "n = Suc k" by (cases n) auto
  with Cons show ?case by (simp add: parse_conn_block)
qed

lemma parse_printed:
  "parse_connections (if bs = [] then no_processes else concat (map conn_block bs)) = Some bs"
proof (cases bs)
  case (Cons b bs')
  have "length bs \<le> length (concat (map conn_block bs))" by (induction bs) (simp_all add: conn_block_def)
  note p = parse_conn_blocks [OF this]
  have "concat (map conn_block bs) \<noteq> no_processes" using Cons by (simp add: conn_block_def no_processes_def)
  then show ?thesis using p Cons by (simp add: parse_connections_def)
qed (simp add: parse_connections_def)

section \<open>The common shape of the three loops\<close>

text \<open>
  A loop over the processes that appends the text of each entry, \<open>block\<close>, and notes whether any
  text was not empty.
\<close>

locale entry_view =
  fixes loop :: "addr list \<Rightarrow> kstate \<Rightarrow> bool \<times> string \<Rightarrow> (bool \<times> string) option"
    and block :: "kstate \<Rightarrow> qnx_process_entry \<Rightarrow> string"
  assumes loop_Nil: "loop [] s acc = Some acc"
    and loop_Cons: "kinv H s \<Longrightarrow> procs s e = Some pe \<Longrightarrow>
      loop (e # es) s (h, b) = loop es s (h \<or> block s pe \<noteq> [], b @ block s pe)"
begin

definition blocks :: "addr list \<Rightarrow> kstate \<Rightarrow> string" where
  "blocks es s = concat (map (\<lambda>e. block s (the (procs s e))) es)"

lemma blocks_simps [simp]: "blocks [] s = []" "blocks (e # es) s = block s (the (procs s e)) @ blocks es s"
  by (simp_all add: blocks_def)

lemma loop_blocks:
  assumes "kinv H s" and "set es \<subseteq> dom (procs s)"
  shows "loop es s (h, b) = Some (h \<or> blocks es s \<noteq> [], b @ blocks es s)"
  using assms(2)
proof (induction es arbitrary: h b)
  case (Cons e es)
  then obtain pe where "procs s e = Some pe" by auto
  with Cons show ?case using loop_Cons [OF assms(1)] by simp
qed (simp add: loop_Nil)

lemma view:
  assumes "kinv H s"
  shows "do { (have_output, buf) \<leftarrow> loop (process_entries s) s (False, []);
      Some (0 :: int, if have_output then buf else seq_printf buf no_processes []) } =
    Some (0, if blocks (process_entries s) s = [] then no_processes else blocks (process_entries s) s)"
proof -
  have "set (process_entries s) \<subseteq> dom (procs s)" using kinvD(1) [OF assms] by (simp add: list_inv_def)
  moreover have "format no_processes [] = no_processes" by (simp add: no_processes_def nl_def)
  ultimately show ?thesis using loop_blocks [OF assms] by (simp add: seq_printf_def)
qed

end

text \<open>The connections of a process in the order of their ids.\<close>

definition table_rows :: "qnx_connection_table \<Rightarrow> (int \<times> qnx_connection) list" where
  "table_rows t = (case t of None \<Rightarrow> [] | Some d \<Rightarrow> used_slots d)"

definition conn_text :: "kstate \<Rightarrow> qnx_process_entry \<Rightarrow> string" where
  "conn_text s pe =
     (if table_rows (connections pe) = [] then [] else conn_block (pid pe, table_rows (connections pe)))"

lemma conn_text_cases:
  "table_rows (connections pe) = [] \<Longrightarrow> conn_text s pe = []"
  "table_rows (connections pe) \<noteq> [] \<Longrightarrow> conn_text s pe = conn_block (pid pe, table_rows (connections pe))"
  by (simp_all add: conn_text_def)

lemma fold_print: "fold (\<lambda>(coid, c). print_connection coid c) xs buf = buf @ concat (map conn_line xs)"
  by (induction xs arbitrary: buf) (auto simp: print_connection_def conn_line_def seq_printf_def)

lemma table_rows_each:
  assumes "wf_table t"
  shows "qnx_connection_table_for_each t = Some (table_rows t, int (length (table_rows t)))"
    and "qnx_connection_table_is_empty t = 0 \<longleftrightarrow> table_rows t \<noteq> []"
proof -
  show "qnx_connection_table_for_each t = Some (table_rows t, int (length (table_rows t)))"
    using assms for_each_used_slots
    by (cases t) (simp_all add: table_rows_def wf_table_def qnx_connection_table_for_each_def)
  show "qnx_connection_table_is_empty t = 0 \<longleftrightarrow> table_rows t \<noteq> []"
  proof (cases t)
    case (Some d)
    then have wf: "wf_data d" using assms by (simp add: wf_table_def)
    show ?thesis
    proof (cases "0 < maxfd d")
      case True
      then have "used_slots d \<noteq> []" by (rule used_slots_positive_max [OF wf]) simp
      then show ?thesis using Some True by (simp add: table_rows_def qnx_connection_table_is_empty_def)
    qed (simp add: Some table_rows_def qnx_connection_table_is_empty_def used_slots_no_max [OF wf])
  qed (simp add: table_rows_def qnx_connection_table_is_empty_def)
qed

interpretation cv: entry_view show_connections_loop conn_text
proof unfold_locales
  fix H s e pe es h b
  assume "kinv H s" "procs s e = Some pe"
  moreover from kinv_proc [OF this] have "wf_table (connections pe)" by (simp add: proc_inv_def)
  ultimately show "show_connections_loop (e # es) s (h, b) = show_connections_loop es s (h \<or> conn_text s pe \<noteq> [], b @ conn_text s pe)"
    by (simp add: table_rows_each fold_print conn_text_def conn_block_def seq_printf_def)
qed simp

text \<open>The blocked tasks of a process: task, connection, process, channel and how it is blocked.\<close>

datatype block_kind = Send_blocked | Reply_blocked

type_synonym blocked_row = "tid \<times> int \<times> pid_t \<times> int \<times> block_kind"

fun blocked_line :: "(tid \<Rightarrow> int) \<Rightarrow> blocked_row \<Rightarrow> string" where
  "blocked_line nr (t, coid, p, i, Send_blocked) =
     format (''tid=%d (coid=%d) => pid=%d, chid=%d [SEND]'' @ [nl]) [nr t, coid, p, i]"
| "blocked_line nr (t, coid, p, i, Reply_blocked) =
     format (''tid=%d (coid=%d) => pid=%d, chid=%d [REPLY]'' @ [nl]) [nr t, coid, p, i]"

definition waiting_row :: "kstate \<Rightarrow> pid_t \<Rightarrow> int \<Rightarrow> addr \<Rightarrow> blocked_row option" where
  "waiting_row s p i d =
     do { m \<leftarrow> msgs s d; t \<leftarrow> task m; Some (t, km_coid (data_msg (data m)), p, i, Send_blocked) }"

definition pending_row :: "kstate \<Rightarrow> pid_t \<Rightarrow> addr \<Rightarrow> blocked_row option" where
  "pending_row s p d =
     do { m \<leftarrow> msgs s d; t \<leftarrow> task m; Some (t, km_coid (data_msg (data m)), p, receiver_chid m, Reply_blocked) }"

definition queue_rows :: "kstate \<Rightarrow> pid_t \<Rightarrow> addr \<Rightarrow> blocked_row list" where
  "queue_rows s p c = List.map_filter (waiting_row s p (chid (the (chans s c)))) (waiting (the (chans s c)))"

definition blocked_rows :: "kstate \<Rightarrow> qnx_process_entry \<Rightarrow> blocked_row list" where
  "blocked_rows s pe =
     concat (map (queue_rows s (pid pe)) (channels pe)) @ List.map_filter (pending_row s (pid pe)) (pending pe)"

definition lines :: "(tid \<Rightarrow> int) \<Rightarrow> blocked_row list \<Rightarrow> string" where
  "lines nr rows = concat (map (blocked_line nr) rows)"

lemma blocked_line_nonempty: "blocked_line nr row \<noteq> []"
  by (cases "(nr, row)" rule: blocked_line.cases) simp_all

lemma lines_simps [simp]:
  "lines nr [] = []" "lines nr (xs @ ys) = lines nr xs @ lines nr ys" "lines nr (x # xs) = blocked_line nr x @ lines nr xs"
  by (simp_all add: lines_def)

lemma lines_Nil_iff [simp]: "lines nr xs = [] \<longleftrightarrow> xs = []"
  by (cases xs) (simp_all add: blocked_line_nonempty)

lemma show_waiting_loop_eq:
  "set ds \<subseteq> dom (msgs s) \<Longrightarrow> show_waiting_loop nr p i ds s (h, b) =
     Some (h \<or> List.map_filter (waiting_row s p i) ds \<noteq> [], b @ lines nr (List.map_filter (waiting_row s p i) ds))"
proof (induction ds arbitrary: h b)
  case (Cons d ds)
  then obtain m where "msgs s d = Some m" by auto
  with Cons show ?case
    by (cases "task m") (simp_all add: List.map_filter_simps waiting_row_def seq_printf_def)
qed (simp add: List.map_filter_simps)

lemma show_pending_loop_eq:
  "\<forall>d \<in> set ds. \<exists>m. msgs s d = Some m \<and> task m \<noteq> None \<Longrightarrow> show_pending_loop nr p ds s (h, b) =
     Some (h \<or> ds \<noteq> [], b @ lines nr (List.map_filter (pending_row s p) ds)) \<and>
     (List.map_filter (pending_row s p) ds = [] \<longleftrightarrow> ds = [])"
proof (induction ds arbitrary: h b)
  case (Cons d ds)
  then obtain m t where "msgs s d = Some m" "task m = Some t" by auto
  with Cons show ?case by (simp add: List.map_filter_simps pending_row_def seq_printf_def)
qed (simp add: List.map_filter_simps)

lemma show_queues_loop_eq:
  assumes "kinv H s" and "set cs \<subseteq> dom (chans s)"
  shows "show_queues_loop nr p cs s (h, b) =
    Some (h \<or> concat (map (queue_rows s p) cs) \<noteq> [], b @ lines nr (concat (map (queue_rows s p) cs)))"
  using assms(2)
proof (induction cs arbitrary: h b)
  case (Cons c cs)
  then obtain ch where ch: "chans s c = Some ch" by auto
  have "set (waiting ch) \<subseteq> dom (msgs s)" using kinv_chan [OF assms(1) ch] by (auto simp: chan_inv_def)
  note eq = show_waiting_loop_eq [OF this, of nr p "chid ch" h b]
  show ?case
    using Cons ch eq by (simp add: queue_rows_def del: concat_eq_Nil_conv)
qed simp

interpretation bv: entry_view "show_blocked_loop nr" "\<lambda>s pe. lines nr (blocked_rows s pe)" for nr
proof unfold_locales
  fix H s e pe es h b
  assume k: "kinv H s" "procs s e = Some pe"
  have pd: "\<forall>d \<in> set (pending pe). \<exists>m. msgs s d = Some m \<and> task m \<noteq> None" and cs: "set (channels pe) \<subseteq> dom (chans s)"
    using kinv_proc [OF k] by (auto simp: proc_inv_def)
  show "show_blocked_loop nr (e # es) s (h, b) =
      show_blocked_loop nr es s (h \<or> lines nr (blocked_rows s pe) \<noteq> [], b @ lines nr (blocked_rows s pe))"
    using k(2) show_queues_loop_eq [OF k(1) cs, of nr "pid pe" h b] show_pending_loop_eq [OF pd, of nr "pid pe"]
    by (simp add: blocked_rows_def disj_assoc del: concat_eq_Nil_conv)
qed simp

definition chids :: "kstate \<Rightarrow> qnx_process_entry \<Rightarrow> int list" where
  "chids s pe = map (\<lambda>c. chid (the (chans s c))) (channels pe)"

definition channel_text :: "kstate \<Rightarrow> qnx_process_entry \<Rightarrow> string" where
  "channel_text s pe =
     (if channels pe = [] then []
      else ''pid='' @ show_int (pid pe) @ '': '' @ concat (map (\<lambda>i. show_int i @ '' '') (chids s pe)) @ [nl])"

lemma show_chids_loop_eq:
  "set cs \<subseteq> dom (chans s) \<Longrightarrow> show_chids_loop cs s b =
     Some (b @ concat (map (\<lambda>c. show_int (chid (the (chans s c))) @ '' '') cs))"
  by (induction cs arbitrary: b) (auto simp: seq_printf_def)

interpretation hv: entry_view show_channels_loop channel_text
proof unfold_locales
  fix H s e pe es h b
  assume k: "kinv H s" "procs s e = Some pe"
  have "set (channels pe) \<subseteq> dom (chans s)" using kinv_proc [OF k] by (simp add: proc_inv_def)
  then show "show_channels_loop (e # es) s (h, b) =
      show_channels_loop es s (h \<or> channel_text s pe \<noteq> [], b @ channel_text s pe)"
    using k(2) by (simp add: show_chids_loop_eq channel_text_def chids_def seq_printf_def comp_def)
qed simp

lemma send_row_iff:
  assumes "kinv H s" and "procs s e = Some pe"
  shows "(t, coid, p, i, Send_blocked) \<in> set (blocked_rows s pe) \<longleftrightarrow>
    (\<exists>c ch d m k. c \<in> set (channels pe) \<and> chans s c = Some ch \<and> d \<in> set (waiting ch) \<and> msgs s d = Some m \<and>
       task m = Some t \<and> data m = Msg k \<and> coid = km_coid k \<and> p = pid pe \<and> i = chid ch)" (is "?l \<longleftrightarrow> ?r")
proof
  assume ?l
  then obtain c d where c: "c \<in> set (channels pe)" and d: "d \<in> set (waiting (the (chans s c)))"
    and row: "waiting_row s (pid pe) (chid (the (chans s c))) d = Some (t, coid, p, i, Send_blocked)"
    by (auto simp: blocked_rows_def queue_rows_def set_map_filter pending_row_def elim!: bind_eq_SomeE)
  obtain ch where ch: "chans s c = Some ch" using kinv_proc [OF assms] c by (auto simp: proc_inv_def)
  obtain m where m: "msgs s d = Some m" "task m = Some t" "coid = km_coid (data_msg (data m))" "p = pid pe" "i = chid ch"
    using row ch by (auto simp: waiting_row_def elim!: bind_eq_SomeE)
  then obtain k where "data m = Msg k"
    using kinv_msg [OF assms(1) m(1)] by (auto simp: payload_ok_def split: payload.splits)
  then show ?r using c d ch m by force
next
  assume ?r
  then obtain c ch d m k where "c \<in> set (channels pe)" "chans s c = Some ch" "d \<in> set (waiting ch)"
    "waiting_row s (pid pe) (chid ch) d = Some (t, coid, p, i, Send_blocked)"
    by (auto simp: waiting_row_def)
  then show ?l by (force simp: blocked_rows_def queue_rows_def set_map_filter)
qed

lemma reply_row_iff:
  assumes "kinv H s" and "procs s e = Some pe"
  shows "(t, coid, p, i, Reply_blocked) \<in> set (blocked_rows s pe) \<longleftrightarrow>
    (\<exists>d m k. d \<in> set (pending pe) \<and> msgs s d = Some m \<and> task m = Some t \<and> data m = Msg k \<and>
       coid = km_coid k \<and> p = pid pe \<and> i = receiver_chid m)" (is "?l \<longleftrightarrow> ?r")
proof
  assume ?l
  then obtain d m where d: "d \<in> set (pending pe)" and m: "msgs s d = Some m" "task m = Some t"
    "coid = km_coid (data_msg (data m))" "p = pid pe" "i = receiver_chid m"
    by (auto simp: blocked_rows_def queue_rows_def set_map_filter pending_row_def waiting_row_def elim!: bind_eq_SomeE)
  then obtain k where "data m = Msg k"
    using kinv_msg [OF assms(1) m(1)] by (auto simp: payload_ok_def split: payload.splits)
  then show ?r using d m by force
next
  assume ?r
  then obtain d where "d \<in> set (pending pe)" "pending_row s (pid pe) d = Some (t, coid, p, i, Reply_blocked)"
    by (auto simp: pending_row_def)
  then show ?l by (force simp: blocked_rows_def set_map_filter)
qed

section \<open>Properties\<close>

text \<open>
  C30. The connections file can be read back: in a state that satisfies the kernel invariant it
  is printed without a fault, and a reader that knows the format recovers every process that
  has a connection, in the order of the process list, with the id, the target process and the
  target channel of each of its connections, negative numbers included.
\<close>

theorem connections_file_round_trip:
  assumes "kinv H s"
  shows "\<exists>txt. qnx_show_connections s = Some (0, txt) \<and>
    parse_connections txt =
      Some (map (\<lambda>e. (pid (the (procs s e)), table_rows (connections (the (procs s e)))))
             (filter (\<lambda>e. table_rows (connections (the (procs s e))) \<noteq> []) (process_entries s)))"
proof -
  let ?f = "\<lambda>e. (pid (the (procs s e)), table_rows (connections (the (procs s e))))"
  let ?bs = "map ?f (filter (\<lambda>e. table_rows (connections (the (procs s e))) \<noteq> []) (process_entries s))"
  have eq: "cv.blocks es s =
      concat (map conn_block (map ?f (filter (\<lambda>e. table_rows (connections (the (procs s e))) \<noteq> []) es)))" for es
    by (induction es) (simp_all add: conn_text_cases)
  have "cv.blocks (process_entries s) s = [] \<longleftrightarrow> ?bs = []"
    unfolding eq by (auto simp: conn_block_def filter_empty_conv)
  then have "qnx_show_connections s = Some (0, if ?bs = [] then no_processes else concat (map conn_block ?bs))"
    using cv.view [OF assms] unfolding qnx_show_connections_def eq by simp
  then show ?thesis using parse_printed [of ?bs] by blast
qed

theorem connections_file_round_trip_witness:
  "\<exists>txt. qnx_show_connections demo_kernel = Some (0, txt) \<and>
     parse_connections txt = Some [(8, table_rows small_table)] \<and> table_rows small_table \<noteq> []"
proof -
  have "table_rows small_table \<noteq> []"
    by (simp add: table_rows_def small_table_def used_slots_def slot_entry_def List.map_filter_simps numeral_eq_Suc)
  then show ?thesis
    using connections_file_round_trip [OF demo_kernel_inv]
    by (simp add: demo_kernel_def demo_server_def demo_client_def table_rows_def)
qed

text \<open>
  C31. The file of blocked tasks is exact: it is printed without a fault (in particular the task
  of a pending message is never null and the connection id is read from a message, not from a
  pulse), and its lines are those of the senders that wait on a channel of a listed process,
  marked as send blocked, and of the senders whose message such a process has received and not
  answered, marked as reply blocked.
\<close>

theorem blocked_file_exact:
  assumes "kinv H s"
  shows "\<exists>rows. qnx_show_blocked_tasks nr s = Some (0, if rows = [] then no_processes else lines nr rows) \<and>
    (\<forall>t coid p i. (t, coid, p, i, Send_blocked) \<in> set rows \<longleftrightarrow>
       (\<exists>e pe c ch d m k. e \<in> set (process_entries s) \<and> procs s e = Some pe \<and> c \<in> set (channels pe) \<and>
          chans s c = Some ch \<and> d \<in> set (waiting ch) \<and> msgs s d = Some m \<and> task m = Some t \<and> data m = Msg k \<and>
          coid = km_coid k \<and> p = pid pe \<and> i = chid ch)) \<and>
    (\<forall>t coid p i. (t, coid, p, i, Reply_blocked) \<in> set rows \<longleftrightarrow>
       (\<exists>e pe d m k. e \<in> set (process_entries s) \<and> procs s e = Some pe \<and> d \<in> set (pending pe) \<and>
          msgs s d = Some m \<and> task m = Some t \<and> data m = Msg k \<and> coid = km_coid k \<and> p = pid pe \<and>
          i = receiver_chid m))"
proof -
  let ?rows = "concat (map (\<lambda>e. blocked_rows s (the (procs s e))) (process_entries s))"
  have "bv.blocks nr es s = lines nr (concat (map (\<lambda>e. blocked_rows s (the (procs s e))) es))" for es
    by (induction es) simp_all
  then have run: "qnx_show_blocked_tasks nr s = Some (0, if ?rows = [] then no_processes else lines nr ?rows)"
    using bv.view [OF assms, of nr] unfolding qnx_show_blocked_tasks_def by (simp del: concat_eq_Nil_conv)
  have rows: "row \<in> set ?rows \<longleftrightarrow> (\<exists>e pe. e \<in> set (process_entries s) \<and> procs s e = Some pe \<and> row \<in> set (blocked_rows s pe))"
    for row
  proof
    assume "row \<in> set ?rows"
    then obtain e where e: "e \<in> set (process_entries s)" "row \<in> set (blocked_rows s (the (procs s e)))" by auto
    then show "\<exists>e pe. e \<in> set (process_entries s) \<and> procs s e = Some pe \<and> row \<in> set (blocked_rows s pe)"
      using kinv_entry_alive [OF assms e(1)] by (metis option.sel)
  qed force
  show ?thesis
  proof (intro exI [of _ ?rows] conjI allI)
    fix t coid p i
    show "(t, coid, p, i, Send_blocked) \<in> set ?rows \<longleftrightarrow>
       (\<exists>e pe c ch d m k. e \<in> set (process_entries s) \<and> procs s e = Some pe \<and> c \<in> set (channels pe) \<and>
          chans s c = Some ch \<and> d \<in> set (waiting ch) \<and> msgs s d = Some m \<and> task m = Some t \<and> data m = Msg k \<and>
          coid = km_coid k \<and> p = pid pe \<and> i = chid ch)"
      unfolding rows using send_row_iff [OF assms] by blast
    show "(t, coid, p, i, Reply_blocked) \<in> set ?rows \<longleftrightarrow>
       (\<exists>e pe d m k. e \<in> set (process_entries s) \<and> procs s e = Some pe \<and> d \<in> set (pending pe) \<and>
          msgs s d = Some m \<and> task m = Some t \<and> data m = Msg k \<and> coid = km_coid k \<and> p = pid pe \<and>
          i = receiver_chid m)"
      unfolding rows using reply_row_iff [OF assms] by blast
  qed (rule run)
qed

theorem blocked_file_exact_witness:
  "\<exists>rows. qnx_show_blocked_tasks int demo_asleep = Some (0, if rows = [] then no_processes else lines int rows) \<and>
     (5, 0, 7, 1, Send_blocked) \<in> set rows"
proof -
  have "\<exists>e pe c ch d m k. e \<in> set (process_entries demo_asleep) \<and> procs demo_asleep e = Some pe \<and> c \<in> set (channels pe) \<and>
      chans demo_asleep c = Some ch \<and> d \<in> set (waiting ch) \<and> msgs demo_asleep d = Some m \<and> task m = Some 5 \<and>
      data m = Msg k \<and> 0 = km_coid k \<and> 7 = pid pe \<and> 1 = chid ch"
    by (rule exI [of _ 1], rule exI [of _ demo_server], rule exI [of _ 2])
      (simp add: demo_asleep_def demo_kernel_def demo_server_def demo_asleep_msg_def fresh_msgsend_def zero_kmsg_def)
  with blocked_file_exact [OF demo_asleep_inv, of int] show ?thesis by blast
qed

text \<open>
  The files and what they show. Creating them is all or nothing: either the directory holds
  exactly the three files, or nothing is left and the module is told; removing them leaves
  nothing. Although only two characters of the name are compared, each of the three files is
  opened on its own text, and the channels file lists, for every listed process that has
  channels and in order, its process id and its channel ids.
\<close>

theorem proc_files:
  assumes "kinv H s"
  shows "qnx_proc_init mk a b c =
      (if mk \<and> a \<and> b \<and> c then (1, Some [QNX_PROC_CONNECTIONS, QNX_PROC_CHANNELS, QNX_PROC_BLOCKED_TASKS]) else (0, None)) \<and>
    qnx_proc_destroy tr = None \<and>
    map (\<lambda>name. qnx_open name True) [QNX_PROC_CONNECTIONS, QNX_PROC_CHANNELS, QNX_PROC_BLOCKED_TASKS] =
      [(0, Some Show_connections), (0, Some Show_channels), (0, Some Show_blocked)] \<and>
    (let txt = concat (map (\<lambda>e. channel_text s (the (procs s e))) (process_entries s))
     in seq_show nr Show_channels s = Some (0, if txt = [] then no_processes else txt))"
proof -
  have "hv.blocks (process_entries s) s = concat (map (\<lambda>e. channel_text s (the (procs s e))) (process_entries s))"
    by (simp add: hv.blocks_def)
  then have "seq_show nr Show_channels s = (let txt = concat (map (\<lambda>e. channel_text s (the (procs s e))) (process_entries s))
      in Some (0, if txt = [] then no_processes else txt))"
    using hv.view [OF assms] by (simp add: qnx_show_channels_def Let_def del: concat_eq_Nil_conv)
  then show ?thesis
    by (simp add: qnx_proc_init_def proc_create_data_def remove_proc_subtree_def qnx_proc_destroy_def qnx_open_def
        single_open_def QNX_PROC_CONNECTIONS_def QNX_PROC_CHANNELS_def QNX_PROC_BLOCKED_TASKS_def numeral_2_eq_2 Let_def
        del: concat_eq_Nil_conv)
qed

theorem proc_files_witness:
  "seq_show int Show_channels demo_kernel = Some (0, ''pid=7: 1 '' @ [nl])"
proof -
  have "concat (map (\<lambda>e. channel_text demo_kernel (the (procs demo_kernel e))) (process_entries demo_kernel)) =
      ''pid=7: 1 '' @ [nl]"
    by (simp add: demo_kernel_def demo_server_def demo_client_def channel_text_def chids_def show_int_def show_nat.simps char_of_def
        bit_0)
  then show ?thesis
    using proc_files [OF demo_kernel_inv, of True True True True None int] by (simp add: Let_def del: concat_eq_Nil_conv)
qed

end
