(* ===== verification/Userspace.thy ===== *)
theory Userspace
  imports Kernel_State
begin

text \<open>
  The client library, \<^verbatim>\<open>src/userspace/userspace.cpp\<close>: it fills an argument structure and calls
  \<open>ioctl\<close> on the file descriptor of the device, reopens the device when the call was made after a
  fork, and keeps a timeout for the next call.

  The system calls are a parameter, \<open>os\<close>, over an arbitrary state \<open>'w\<close> of the rest of the world:
  they return the value of the call and, when it is negative, the error number, or \<open>None\<close> when the
  call does not return. The functions of the library have optional results for the same reason:
  they repeat system calls.
\<close>

unbundle bit_operations_syntax

section \<open>System calls\<close>

text \<open>The requests with their arguments.\<close>

datatype ucall =
    U_channelcreate nat | U_channeldestroy int | U_connectattach qnx_io_attach | U_connectdetach int
  | U_msgsend qnx_io_msgsend | U_msgsendpulse qnx_io_msgsendpulse | U_msgreceive qnx_io_receive
  | U_msgreply qnx_io_reply | U_msgerror qnx_io_error_reply | U_msgread qnx_io_read
  | U_msgsendv qnx_io_msgsendv | U_register_pollfd int | U_msgsendnoreply qnx_io_msgsend
  | U_msgsendnoreplyv qnx_io_msgsendv

text \<open>
  \<open>os_open\<close> opens the device for reading and writing or only for reading; \<open>os_ioctl\<close> also returns
  the member \<open>info\<close> that the kernel left in the argument of \<open>MsgReceive\<close>.
\<close>

record 'w os =
  os_open :: "bool \<Rightarrow> 'w \<Rightarrow> (int \<times> int \<times> 'w) option"
  os_ioctl :: "int \<Rightarrow> ucall \<Rightarrow> 'w \<Rightarrow> (int \<times> int \<times> msg_info \<times> 'w) option"
  os_close :: "int \<Rightarrow> 'w \<Rightarrow> (int \<times> int \<times> 'w) option"
  os_getpid :: "'w \<Rightarrow> pid_t"
  os_clock :: "'w \<Rightarrow> int \<times> int"

abbreviation EINTR :: int where "EINTR \<equiv> 4"
abbreviation ENOSYS :: int where "ENOSYS \<equiv> 38"

section \<open>The state of the library\<close>

record timeout_val =
  tv_ntime :: "64 word"
  tv_otime :: uaddr

definition UINT64_MAX :: "64 word" where
  "UINT64_MAX = 18446744073709551615"

text \<open>\<open>stores\<close> are the \<open>uint64_t\<close> values written through \<open>otime\<close>, the latest first.\<close>

record 'w ulib =
  ufd :: int
  uerrno :: int
  sTimerTimeout :: timeout_val
  stores :: "(uaddr \<times> 64 word) list"
  world :: 'w

definition initialize :: "'w os \<Rightarrow> 'w ulib \<Rightarrow> 'w ulib option" where
  "initialize os u =
     do { (fd, e, w) \<leftarrow> os_open os True (world u);
          Some (u\<lparr>ufd := fd, uerrno := (if fd < 0 then e else uerrno u), world := w\<rparr>) }"

text \<open>\<open>while (close(fd) && errno == EINTR)\<close>; \<open>en\<close> is \<open>errno\<close>.\<close>

partial_function (option) close_loop :: "'w os \<Rightarrow> int \<Rightarrow> int \<Rightarrow> 'w \<Rightarrow> (int \<times> 'w) option" where
  "close_loop os fd en w =
     do { (rc, e, w') \<leftarrow> os_close os fd w;
          if rc \<noteq> 0 \<and> e = EINTR then close_loop os fd e w'
          else Some (if rc \<noteq> 0 then e else en, w') }"

section \<open>The retry loop\<close>

text \<open>The loop with \<open>n\<close> rounds left; it is entered with two.\<close>

fun ioctl_rounds :: "nat \<Rightarrow> 'w os \<Rightarrow> ucall \<Rightarrow> 'w ulib \<Rightarrow> (int \<times> msg_info \<times> 'w ulib) option" where
  "ioctl_rounds 0 os c u = None"
| "ioctl_rounds (Suc n) os c u =
     do { (rc, e, info, w) \<leftarrow> os_ioctl os (ufd u) c (world u);
          let u1 = u\<lparr>uerrno := (if rc < 0 then e else uerrno u), world := w\<rparr>;
          if rc < 0 \<and> uerrno u1 = ENOSPC then
            do { (en, w1) \<leftarrow> close_loop os (ufd u1) (uerrno u1) (world u1);
                 u2 \<leftarrow> initialize os (u1\<lparr>uerrno := en, world := w1\<rparr>);
                 if n = 0 then Some (rc, info, u2) else ioctl_rounds n os c u2 }
          else Some (rc, info, u1) }"

definition safe_ioctl :: "'w os \<Rightarrow> ucall \<Rightarrow> 'w ulib \<Rightarrow> (int \<times> msg_info \<times> 'w ulib) option" where
  "safe_ioctl os c u = ioctl_rounds 2 os c u"

section \<open>Timeouts\<close>

definition timer_set :: "64 word \<Rightarrow> uaddr \<Rightarrow> timeout_val" where
  "timer_set the_ntime the_otime = \<lparr>tv_ntime = the_ntime, tv_otime = the_otime\<rparr>"

definition timer_finish :: "'w ulib \<Rightarrow> 'w ulib" where
  "timer_finish u =
     u\<lparr>stores := (if tv_otime (sTimerTimeout u) \<noteq> 0 then (tv_otime (sTimerTimeout u), 0) # stores u else stores u),
       sTimerTimeout := \<lparr>tv_ntime = UINT64_MAX, tv_otime = 0\<rparr>\<rparr>"

definition get_timeout_ms :: "'w ulib \<Rightarrow> int" where
  "get_timeout_ms u =
     (let rc = tv_ntime (sTimerTimeout u) div 1000000 in if rc > 2147483647 then - 1 else uint rc)"

definition CLOCK_MONOTONIC :: int where "CLOCK_MONOTONIC = 1"
definition TIMER_ABSTIME :: int where "TIMER_ABSTIME = 1"

text \<open>\<open>ntime\<close> is the value behind the pointer, \<open>None\<close> for a null pointer.\<close>

definition TimerTimeout ::
  "'w os \<Rightarrow> int \<Rightarrow> int \<Rightarrow> (64 word) option \<Rightarrow> uaddr \<Rightarrow> 'w ulib \<Rightarrow> int \<times> 'w ulib" where
  "TimerTimeout os cid fl ntime otime u =
     (case ntime of
        None \<Rightarrow> (- 1, u\<lparr>uerrno := EINVAL\<rparr>)
      | Some nt \<Rightarrow>
          if cid \<noteq> CLOCK_MONOTONIC then (- 1, u\<lparr>uerrno := EINVAL\<rparr>)
          else
            (let (sec, nsec) = os_clock os (world u);
                 now = word_of_int sec * 1000000000 + word_of_int nsec;
                 timeout = (if fl AND TIMER_ABSTIME \<noteq> 0 then (if now > nt then 0 else nt - now) else nt)
             in (0, u\<lparr>sTimerTimeout := timer_set timeout otime\<rparr>)))"

section \<open>The calls\<close>

text \<open>The frame of the calls: without the device they fail with \<open>ESRCH\<close>.\<close>

definition with_device :: "('w ulib \<Rightarrow> (int \<times> 'w ulib) option) \<Rightarrow> 'w ulib \<Rightarrow> (int \<times> 'w ulib) option" where
  "with_device body u = (if ufd u \<ge> 0 then body u else Some (- 1, u\<lparr>uerrno := ESRCH\<rparr>))"

definition plain_call :: "'w os \<Rightarrow> ucall \<Rightarrow> 'w ulib \<Rightarrow> (int \<times> 'w ulib) option" where
  "plain_call os c u = do { (rc, info, u1) \<leftarrow> safe_ioctl os c u; Some (rc, u1) }"

text \<open>A call with a \<open>TimerStackSafe\<close>: the timeout is read before and reset after the call.\<close>

definition timed_call :: "'w os \<Rightarrow> (int \<Rightarrow> ucall) \<Rightarrow> 'w ulib \<Rightarrow> (int \<times> 'w ulib) option" where
  "timed_call os c u =
     do { (rc, info, u1) \<leftarrow> safe_ioctl os (c (get_timeout_ms u)) u; Some (rc, timer_finish u1) }"

definition NTO_SIDE_CHANNEL :: int where
  "NTO_SIDE_CHANNEL = 1073741824"

definition no_side :: "int \<Rightarrow> int" where
  "no_side coid = coid AND NOT NTO_SIDE_CHANNEL"

definition ChannelCreate :: "'w os \<Rightarrow> nat \<Rightarrow> 'w ulib \<Rightarrow> (int \<times> 'w ulib) option" where
  "ChannelCreate os fl = with_device (plain_call os (U_channelcreate fl))"

definition ChannelDestroy :: "'w os \<Rightarrow> int \<Rightarrow> 'w ulib \<Rightarrow> (int \<times> 'w ulib) option" where
  "ChannelDestroy os i = with_device (plain_call os (U_channeldestroy i))"

definition ConnectAttach ::
  "'w os \<Rightarrow> nat \<Rightarrow> pid_t \<Rightarrow> int \<Rightarrow> int \<Rightarrow> int \<Rightarrow> 'w ulib \<Rightarrow> (int \<times> 'w ulib) option" where
  "ConnectAttach os node p i index fl = with_device (\<lambda>u.
     if node = 0 then
       do { let p' = (if p = 0 then os_getpid os (world u) else p);
            (rc, info, u1) \<leftarrow> safe_ioctl os (U_connectattach \<lparr>att_pid = p', att_chid = i, att_flags = fl\<rparr>) u;
            Some (if rc > 0 \<and> index AND NTO_SIDE_CHANNEL \<noteq> 0 then rc OR NTO_SIDE_CHANNEL else rc, u1) }
     else Some (- 1, u\<lparr>uerrno := EINVAL\<rparr>))"

definition ConnectDetach :: "'w os \<Rightarrow> int \<Rightarrow> 'w ulib \<Rightarrow> (int \<times> 'w ulib) option" where
  "ConnectDetach os coid = with_device (plain_call os (U_connectdetach (no_side coid)))"

text \<open>A buffer given by its address and an \<open>int\<close> length, which is converted to \<open>size_t\<close>.\<close>

definition ubuf :: "uaddr \<Rightarrow> int \<Rightarrow> iovec" where
  "ubuf a n = \<lparr>iov_base = a, iov_len = to_size n\<rparr>"

definition MsgSend ::
  "'w os \<Rightarrow> int \<Rightarrow> uaddr \<Rightarrow> int \<Rightarrow> uaddr \<Rightarrow> int \<Rightarrow> 'w ulib \<Rightarrow> (int \<times> 'w ulib) option" where
  "MsgSend os coid smsg sbytes rmsg rbytes = with_device (timed_call os (\<lambda>ms.
     U_msgsend \<lparr>ms_coid = no_side coid, ms_timeout_ms = ms, ms_in = ubuf smsg sbytes, ms_out = ubuf rmsg rbytes\<rparr>))"

definition MsgSendPulse :: "'w os \<Rightarrow> int \<Rightarrow> int \<Rightarrow> int \<Rightarrow> 'w ulib \<Rightarrow> (int \<times> 'w ulib) option" where
  "MsgSendPulse os coid code val = with_device (plain_call os
     (U_msgsendpulse \<lparr>mp_coid = no_side coid, mp_code = code, mp_value = val\<rparr>))"

definition no_info :: msg_info where
  "no_info =
     \<lparr>nd = 0, info_pid = 0, info_tid = 0, info_chid = 0, scoid = 0, info_coid = 0, msglen = 0,
      srcmsglen = 0, dstmsglen = 0, priority = 0, flags = 0, reserved = 0\<rparr>"

text \<open>The second result is what is copied to the caller's \<open>info\<close>, if it is given and the call succeeds.\<close>

definition MsgReceive ::
  "'w os \<Rightarrow> int \<Rightarrow> uaddr \<Rightarrow> int \<Rightarrow> bool \<Rightarrow> 'w ulib \<Rightarrow> (int \<times> msg_info option \<times> 'w ulib) option" where
  "MsgReceive os i msg bytes want_info u =
     (if ufd u \<ge> 0 then
        do { (rc, info, u1) \<leftarrow> safe_ioctl os
               (U_msgreceive \<lparr>rcv_chid = i, rcv_timeout_ms = get_timeout_ms u, rcv_out = ubuf msg bytes, rcv_info = no_info\<rparr>) u;
             Some (rc, if rc \<ge> 0 \<and> want_info then Some info else None, timer_finish u1) }
      else Some (- 1, None, u\<lparr>uerrno := ESRCH\<rparr>))"

definition MsgReply :: "'w os \<Rightarrow> int \<Rightarrow> int \<Rightarrow> uaddr \<Rightarrow> int \<Rightarrow> 'w ulib \<Rightarrow> (int \<times> 'w ulib) option" where
  "MsgReply os rid st msg sz = with_device (plain_call os
     (U_msgreply \<lparr>rep_rcvid = rid, rep_status = st, rep_in = ubuf msg sz\<rparr>))"

definition MsgError :: "'w os \<Rightarrow> int \<Rightarrow> int \<Rightarrow> 'w ulib \<Rightarrow> (int \<times> 'w ulib) option" where
  "MsgError os rid err = with_device (plain_call os (U_msgerror \<lparr>err_rcvid = rid, err_error = err\<rparr>))"

definition MsgRead :: "'w os \<Rightarrow> int \<Rightarrow> uaddr \<Rightarrow> int \<Rightarrow> int \<Rightarrow> 'w ulib \<Rightarrow> (int \<times> 'w ulib) option" where
  "MsgRead os rid msg bytes offset = with_device (plain_call os
     (U_msgread \<lparr>rd_rcvid = rid, rd_offset = offset, rd_out = ubuf msg bytes\<rparr>))"

definition MsgSendv ::
  "'w os \<Rightarrow> int \<Rightarrow> uaddr \<Rightarrow> int \<Rightarrow> uaddr \<Rightarrow> int \<Rightarrow> 'w ulib \<Rightarrow> (int \<times> 'w ulib) option" where
  "MsgSendv os coid siov sparts riov rparts = with_device (timed_call os (\<lambda>ms.
     U_msgsendv \<lparr>msv_coid = no_side coid, msv_timeout_ms = ms, msv_in = siov, msv_in_len = sparts,
                 msv_out = riov, msv_out_len = rparts\<rparr>))"

definition MsgSendNoReply :: "'w os \<Rightarrow> int \<Rightarrow> uaddr \<Rightarrow> int \<Rightarrow> 'w ulib \<Rightarrow> (int \<times> 'w ulib) option" where
  "MsgSendNoReply os coid smsg sbytes = with_device (timed_call os (\<lambda>ms.
     U_msgsendnoreply \<lparr>ms_coid = no_side coid, ms_timeout_ms = ms, ms_in = ubuf smsg sbytes, ms_out = zero_iovec\<rparr>))"

definition MsgSendNoReplyv :: "'w os \<Rightarrow> int \<Rightarrow> uaddr \<Rightarrow> int \<Rightarrow> 'w ulib \<Rightarrow> (int \<times> 'w ulib) option" where
  "MsgSendNoReplyv os coid siov sparts = with_device (timed_call os (\<lambda>ms.
     U_msgsendnoreplyv \<lparr>msv_coid = no_side coid, msv_timeout_ms = ms, msv_in = siov, msv_in_len = sparts,
                        msv_out = 0, msv_out_len = 0\<rparr>))"

text \<open>\<open>MsgReceivev\<close>, \<open>MsgReceivePulse\<close>, \<open>MsgReadv\<close>, \<open>MsgWrite\<close> and \<open>MsgReplyv\<close>.\<close>

definition not_implemented :: "'w ulib \<Rightarrow> int \<times> 'w ulib" where
  "not_implemented u = (- 1, u\<lparr>uerrno := ENOSYS\<rparr>)"

definition ConnectAttachEx ::
  "'w os \<Rightarrow> nat \<Rightarrow> pid_t \<Rightarrow> int \<Rightarrow> int \<Rightarrow> int \<Rightarrow> string \<Rightarrow> 'w ulib \<Rightarrow> (int \<times> 'w ulib) option" where
  "ConnectAttachEx os node p i index fl mode = ConnectAttach os node p i index fl"

definition ChannelCreateEx :: "'w os \<Rightarrow> nat \<Rightarrow> string \<Rightarrow> 'w ulib \<Rightarrow> (int \<times> 'w ulib) option" where
  "ChannelCreateEx os fl mode = ChannelCreate os fl"

text \<open>The file for polling is a file of its own; the descriptor of the library is not used.\<close>

definition MsgReceivePollFd :: "'w os \<Rightarrow> int \<Rightarrow> 'w ulib \<Rightarrow> (int \<times> 'w ulib) option" where
  "MsgReceivePollFd os i u =
     do { (pfd, e, w) \<leftarrow> os_open os False (world u);
          let u1 = u\<lparr>uerrno := (if pfd < 0 then e else uerrno u), world := w\<rparr>;
          (rc, e', info, w') \<leftarrow> os_ioctl os pfd (U_register_pollfd i) (world u1);
          let u2 = u1\<lparr>uerrno := (if rc < 0 then e' else uerrno u1), world := w'\<rparr>;
          if rc = 0 then Some (pfd, u2)
          else do { (en, w2) \<leftarrow> close_loop os pfd (uerrno u2) (world u2);
                    Some (- 1, u2\<lparr>uerrno := en, world := w2\<rparr>) } }"

end
