(* ===== verification/Userspace_Props.thy ===== *)
theory Userspace_Props
  imports Userspace Driver_Safety
begin

text \<open>
  The client library: that its retry loop returns, what it does after a fork, timeouts, the bit
  that marks side channels, and the library on top of the module.
\<close>

section \<open>The retry loop\<close>

text \<open>
  What the loops rely on: \<open>close\<close> returns, and is not interrupted for ever (the measure \<open>mu\<close> goes
  down whenever it fails with \<open>EINTR\<close>); \<open>open\<close> and the request return.
\<close>

definition calls_return :: "'w os \<Rightarrow> ucall \<Rightarrow> ('w \<Rightarrow> nat) \<Rightarrow> bool" where
  "calls_return os c mu \<longleftrightarrow>
     (\<forall>fd w. \<exists>rc e w'. os_close os fd w = Some (rc, e, w') \<and> (rc \<noteq> 0 \<and> e = EINTR \<longrightarrow> mu w' < mu w)) \<and>
     (\<forall>w. os_open os True w \<noteq> None) \<and> (\<forall>fd w. os_ioctl os fd c w \<noteq> None)"

lemma close_loop_returns:
  assumes "calls_return os c mu"
  shows "\<exists>en' w'. close_loop os fd en w = Some (en', w')"
proof (induction w arbitrary: en rule: measure_induct_rule [where f = mu])
  case (less w)
  obtain rc e w' where r: "os_close os fd w = Some (rc, e, w')" "rc \<noteq> 0 \<and> e = EINTR \<longrightarrow> mu w' < mu w"
    using assms unfolding calls_return_def by meson
  show ?case
  proof (cases "rc \<noteq> 0 \<and> e = EINTR")
    case True
    then show ?thesis using r less [of w' e] by (subst close_loop.simps) simp
  qed (subst close_loop.simps, use r in auto)
qed

text \<open>One round that ends with \<open>ENOSPC\<close>: the device is closed and opened again.\<close>

lemma reopen_returns:
  assumes "calls_return os c mu"
  shows "\<exists>en w1 fd e w2. close_loop os (ufd u) (uerrno u) (world u) = Some (en, w1) \<and>
    os_open os True w1 = Some (fd, e, w2) \<and>
    initialize os (u\<lparr>uerrno := en, world := w1\<rparr>) =
      Some (u\<lparr>ufd := fd, uerrno := (if fd < 0 then e else en), world := w2\<rparr>)"
proof -
  obtain en w1 where cl: "close_loop os (ufd u) (uerrno u) (world u) = Some (en, w1)"
    using close_loop_returns [OF assms] by blast
  obtain fd e w2 where "os_open os True w1 = Some (fd, e, w2)"
    using assms unfolding calls_return_def by (metis not_Some_eq prod_cases3)
  with cl show ?thesis by (simp add: initialize_def)
qed

lemma safe_ioctl_enospc:
  assumes "os_ioctl os (ufd u) c (world u) = Some (rc, ENOSPC, info, w1)" and "rc < 0"
    and "close_loop os (ufd u) ENOSPC w1 = Some (en, w2)" and "os_open os True w2 = Some (fd, e, w3)"
  shows "safe_ioctl os c u = ioctl_rounds 1 os c (u\<lparr>ufd := fd, uerrno := (if fd < 0 then e else en), world := w3\<rparr>)"
proof -
  have "safe_ioctl os c u = ioctl_rounds (Suc 1) os c u"
    by (simp add: safe_ioctl_def numeral_2_eq_2 del: ioctl_rounds.simps)
  also have "\<dots> = ioctl_rounds 1 os c (u\<lparr>ufd := fd, uerrno := (if fd < 0 then e else en), world := w3\<rparr>)"
    using assms by (subst ioctl_rounds.simps(2)) (simp add: initialize_def del: ioctl_rounds.simps One_nat_def)
  finally show ?thesis .
qed

section \<open>Timeouts\<close>

lemma clock_ns:
  assumes "0 \<le> sec" and "0 \<le> nsec" and "sec * 1000000000 + nsec < 2 ^ 64"
  shows "unat (word_of_int sec * 1000000000 + word_of_int nsec :: 64 word) = nat (sec * 1000000000 + nsec)"
proof -
  have "(word_of_int sec * 1000000000 + word_of_int nsec :: 64 word) = word_of_int (sec * 1000000000 + nsec)"
    by simp
  moreover have "uint (word_of_int (sec * 1000000000 + nsec) :: 64 word) = sec * 1000000000 + nsec"
    using assms by (simp only: uint_word_of_int take_bit_int_eq_self_iff) simp
  ultimately show ?thesis by (simp only: unat_eq_nat_uint)
qed

lemma timeout_ms_eq:
  "get_timeout_ms u =
    (let n = unat (tv_ntime (sTimerTimeout u)) div 1000000 in if n < 2 ^ 31 then int n else - 1)"
proof -
  let ?w = "tv_ntime (sTimerTimeout u)"
  have d: "unat (?w div 1000000) = unat ?w div 1000000" by (simp add: unat_div)
  have "?w div 1000000 > 2147483647 \<longleftrightarrow> \<not> unat ?w div 1000000 < 2 ^ 31"
    by (simp add: word_less_nat_alt d not_less) linarith
  moreover have "uint (?w div 1000000) = int (unat ?w div 1000000)" by (metis d uint_nat)
  ultimately show ?thesis by (simp add: get_timeout_ms_def Let_def)
qed

lemma no_timeout: "tv_ntime (sTimerTimeout u) = UINT64_MAX \<Longrightarrow> get_timeout_ms u = - 1"
proof -
  assume "tv_ntime (sTimerTimeout u) = UINT64_MAX"
  moreover have "unat (UINT64_MAX) = 18446744073709551615" by (simp add: UINT64_MAX_def)
  ultimately show ?thesis by (simp add: timeout_ms_eq)
qed

section \<open>Properties\<close>

text \<open>
  C29. The retry loop of the library always returns, after one or two requests. A request that
  does not fail with \<open>ENOSPC\<close> is made once, its result is returned and the descriptor is kept;
  otherwise the device is closed and opened, the request is made once more on the new
  descriptor, and the result of that second request is returned.
\<close>

theorem safe_ioctl_returns:
  assumes "calls_return os c mu"
  shows "\<exists>rc1 e1 info1 w1 rc info u'. os_ioctl os (ufd u) c (world u) = Some (rc1, e1, info1, w1) \<and>
    safe_ioctl os c u = Some (rc, info, u') \<and>
    (if rc1 < 0 \<and> e1 = ENOSPC then
       \<exists>en w2 fd e2 w3 e4 w4. close_loop os (ufd u) ENOSPC w1 = Some (en, w2) \<and>
         os_open os True w2 = Some (fd, e2, w3) \<and> os_ioctl os fd c w3 = Some (rc, e4, info, w4) \<and>
         (rc < 0 \<and> e4 = ENOSPC \<or> ufd u' = fd \<and> world u' = w4)
     else rc = rc1 \<and> info = info1 \<and> ufd u' = ufd u \<and> world u' = w1)"
proof -
  obtain rc1 e1 info1 w1 where r1: "os_ioctl os (ufd u) c (world u) = Some (rc1, e1, info1, w1)"
    using assms unfolding calls_return_def by (metis not_Some_eq prod_cases4)
  show ?thesis
  proof (cases "rc1 < 0 \<and> e1 = ENOSPC")
    case False
    then show ?thesis using r1 by (auto simp: safe_ioctl_def numeral_2_eq_2)
  next
    case True
    let ?u1 = "u\<lparr>uerrno := ENOSPC, world := w1\<rparr>"
    obtain en w2 fd e2 w3 where ro: "close_loop os (ufd ?u1) (uerrno ?u1) (world ?u1) = Some (en, w2)"
      "os_open os True w2 = Some (fd, e2, w3)"
      "initialize os (?u1\<lparr>uerrno := en, world := w2\<rparr>) =
        Some (?u1\<lparr>ufd := fd, uerrno := (if fd < 0 then e2 else en), world := w3\<rparr>)"
      using reopen_returns [OF assms, of ?u1] by blast
    let ?u2 = "?u1\<lparr>ufd := fd, uerrno := (if fd < 0 then e2 else en), world := w3\<rparr>"
    have step: "safe_ioctl os c u = ioctl_rounds 1 os c ?u2"
      using safe_ioctl_enospc [of os u c rc1 info1 w1 en w2 fd e2 w3] r1 True ro(1,2) by simp
    obtain rc e4 info w4 where r2: "os_ioctl os fd c w3 = Some (rc, e4, info, w4)"
      using assms unfolding calls_return_def by (metis not_Some_eq prod_cases4)
    let ?u3 = "?u2\<lparr>uerrno := (if rc < 0 then e4 else uerrno ?u2), world := w4\<rparr>"
    have "\<exists>u'. ioctl_rounds 1 os c ?u2 = Some (rc, info, u') \<and>
        (rc < 0 \<and> e4 = ENOSPC \<or> ufd u' = fd \<and> world u' = w4)"
      using r2 reopen_returns [OF assms, of ?u3] by (auto simp: Let_def)
    then obtain u' where u': "safe_ioctl os c u = Some (rc, info, u')"
      "rc < 0 \<and> e4 = ENOSPC \<or> ufd u' = fd \<and> world u' = w4"
      using step by auto
    have "close_loop os (ufd u) ENOSPC w1 = Some (en, w2)" using ro(1) by simp
    then have "\<exists>en w2 fd e2 w3 e4 w4. close_loop os (ufd u) ENOSPC w1 = Some (en, w2) \<and>
        os_open os True w2 = Some (fd, e2, w3) \<and> os_ioctl os fd c w3 = Some (rc, e4, info, w4) \<and>
        (rc < 0 \<and> e4 = ENOSPC \<or> ufd u' = fd \<and> world u' = w4)"
      using ro(2) r2 u'(2) by blast
    then show ?thesis using r1 True u'(1) by (metis (no_types, lifting))
  qed
qed

text \<open>
  Four system calls in which \<open>close\<close> is interrupted twice and the request fails with \<open>ENOSPC\<close> on
  the descriptor 3 and succeeds on others; the state counts the interruptions left.
\<close>

definition demo_os :: "nat os" where
  "demo_os = \<lparr>os_open = (\<lambda>_ w. Some (4, 0, w)),
     os_ioctl = (\<lambda>fd _ w. Some (if fd = 3 then (- 1, ENOSPC, no_info, w) else (7, 0, no_info, w))),
     os_close = (\<lambda>_ w. Some (if w > 0 then (- 1, EINTR, w - 1) else (0, 0, 0))),
     os_getpid = (\<lambda>_. 8), os_clock = (\<lambda>_. (1, 500))\<rparr>"

definition demo_lib :: "nat ulib" where
  "demo_lib = \<lparr>ufd = 3, uerrno = 0, sTimerTimeout = \<lparr>tv_ntime = UINT64_MAX, tv_otime = 0\<rparr>, stores = [], world = 2\<rparr>"

theorem safe_ioctl_returns_witness:
  "\<exists>rc info u'. safe_ioctl demo_os (U_channelcreate 0) demo_lib = Some (rc, info, u') \<and> rc = 7 \<and> ufd u' = 4"
proof -
  have "calls_return demo_os (U_channelcreate 0) (\<lambda>w. w)" by (auto simp: calls_return_def demo_os_def)
  from safe_ioctl_returns [OF this, of demo_lib] show ?thesis by (auto simp: demo_os_def demo_lib_def)
qed

text \<open>
  C34. Timeouts. A relative timeout of \<open>n\<close> nanoseconds is passed on as \<open>n / 1000000\<close>
  milliseconds when that fits an \<open>int\<close>, and as \<open>-1\<close>, no timeout, otherwise; an absolute one
  is first reduced by the time of the clock, or to 0 when it has passed. The value passed on
  is never below \<open>-1\<close>. It is used for one call: afterwards there is no timeout and 0 is stored
  through \<open>otime\<close>.
\<close>

theorem timeout_conversion:
  assumes "TimerTimeout os CLOCK_MONOTONIC fl (Some nt) ot u = (rc, u1)"
    and "os_clock os (world u) = (sec, nsec)" and "0 \<le> sec" and "0 \<le> nsec" and "sec * 1000000000 + nsec < 2 ^ 64"
  shows "rc = 0 \<and> world u1 = world u \<and>
    (let now = nat (sec * 1000000000 + nsec);
         n = (if fl AND TIMER_ABSTIME \<noteq> 0 then unat nt - now else unat nt)
     in get_timeout_ms u1 = (if n div 1000000 < 2 ^ 31 then int (n div 1000000) else - 1)) \<and>
    get_timeout_ms (timer_finish u1) = - 1 \<and>
    stores (timer_finish u1) = (if ot = 0 then stores u else (ot, 0) # stores u)"
proof -
  let ?now = "word_of_int sec * 1000000000 + word_of_int nsec :: 64 word"
  let ?t = "if fl AND TIMER_ABSTIME \<noteq> 0 then (if ?now > nt then 0 else nt - ?now) else nt"
  have r: "rc = 0" "u1 = u\<lparr>sTimerTimeout := \<lparr>tv_ntime = ?t, tv_otime = ot\<rparr>\<rparr>"
    using assms(1,2) by (simp_all add: TimerTimeout_def timer_set_def Let_def)
  have now: "unat ?now = nat (sec * 1000000000 + nsec)" by (rule clock_ns [OF assms(3-5)])
  have tv: "tv_ntime (sTimerTimeout u1) = ?t" by (simp add: r(2))
  have "unat ?t = (if fl AND TIMER_ABSTIME \<noteq> 0 then unat nt - nat (sec * 1000000000 + nsec) else unat nt)"
    unfolding now [symmetric] by (auto simp: unat_sub not_less word_less_nat_alt word_le_nat_alt)
  then have "get_timeout_ms u1 = (let now = nat (sec * 1000000000 + nsec);
      n = (if fl AND TIMER_ABSTIME \<noteq> 0 then unat nt - now else unat nt)
    in if n div 1000000 < 2 ^ 31 then int (n div 1000000) else - 1)"
    unfolding timeout_ms_eq tv Let_def by (simp only:)
  moreover have "get_timeout_ms (timer_finish u1) = - 1" by (simp add: no_timeout timer_finish_def)
  ultimately show ?thesis using r by (simp add: timer_finish_def Let_def)
qed

theorem timeout_conversion_witness:
  "\<exists>u1. TimerTimeout demo_os CLOCK_MONOTONIC 0 (Some 2500000) 64 demo_lib = (0, u1) \<and> get_timeout_ms u1 = 2 \<and>
     stores (timer_finish u1) = [(64, 0)]"
proof -
  obtain rc u1 where t: "TimerTimeout demo_os CLOCK_MONOTONIC 0 (Some 2500000) 64 demo_lib = (rc, u1)" by fastforce
  have "os_clock demo_os (world demo_lib) = (1, 500)" by (simp add: demo_os_def)
  from timeout_conversion [OF t this] t show ?thesis by (simp add: demo_lib_def)
qed

text \<open>
  A timeout below one millisecond (or an absolute one that has passed) is no timeout at
  all: the library passes on 0, and the module, which sleeps with a limit only for a positive
  number of milliseconds, waits without limit. The result of the sleep does not matter, and the
  call never ends with \<open>-ETIMEDOUT\<close>.
\<close>

theorem short_timeout_is_no_timeout:
  assumes "unat (tv_ntime (sTimerTimeout u)) < 1000000" and "0 \<le> ufd u"
  shows "\<exists>io. MsgSend os coid a n b k u = with_device (timed_call os (\<lambda>_. U_msgsend io)) u \<and> ms_timeout_ms io = 0 \<and>
    (\<forall>env t p s rc m s' c d ms. qnx_internal_msgsend_init env t (Some io) p s = (rc, Some m, s') \<longrightarrow>
       (\<forall>s2 m2. msgs s2 d = Some m2 \<and> data m2 = data m \<longrightarrow> block_exit ms False c d s2 =
          do { s3 \<leftarrow> qnx_channel_release c s2; Some (Returns (status m2), s3) }))"
proof -
  have ms: "get_timeout_ms u = 0" using assms(1) by (simp add: timeout_ms_eq Let_def)
  let ?io = "\<lparr>ms_coid = no_side coid, ms_timeout_ms = 0, ms_in = ubuf a n, ms_out = ubuf b k\<rparr>"
  have "MsgSend os coid a n b k u = with_device (timed_call os (\<lambda>_. U_msgsend ?io)) u"
    using assms(2) by (simp add: MsgSend_def with_device_def timed_call_def ms)
  moreover have "block_exit ms False c d s2 = do { s3 \<leftarrow> qnx_channel_release c s2; Some (Returns (status m2), s3) }"
    if "qnx_internal_msgsend_init env t (Some ?io) p s = (rc, Some m, s')" "msgs s2 d = Some m2 \<and> data m2 = data m"
    for env t p s rc m s' c d ms s2 m2
  proof -
    have "km_timeout_ms (data_msg (data m)) = 0"
      using that(1) by (auto simp: qnx_internal_msgsend_init_def fresh_msgsend_def Let_def case_prod_beta
          split: if_splits option.splits)
    with that(2) show ?thesis by (simp add: block_exit_def)
  qed
  ultimately show ?thesis by (intro exI [of _ ?io]) auto
qed

theorem short_timeout_is_no_timeout_witness:
  "\<exists>io. MsgSend demo_os 1 64 8 128 8 (demo_lib\<lparr>sTimerTimeout := \<lparr>tv_ntime = 500000, tv_otime = 0\<rparr>\<rparr>) =
      with_device (timed_call demo_os (\<lambda>_. U_msgsend io)) (demo_lib\<lparr>sTimerTimeout := \<lparr>tv_ntime = 500000, tv_otime = 0\<rparr>\<rparr>) \<and>
    ms_timeout_ms io = 0"
proof -
  have "unat (tv_ntime (sTimerTimeout (demo_lib\<lparr>sTimerTimeout := \<lparr>tv_ntime = 500000, tv_otime = 0\<rparr>\<rparr>))) < 1000000"
    "0 \<le> ufd (demo_lib\<lparr>sTimerTimeout := \<lparr>tv_ntime = 500000, tv_otime = 0\<rparr>\<rparr>)"
    by (simp_all add: demo_lib_def)
  from short_timeout_is_no_timeout [OF this, of demo_os 1 64 8 128 8] show ?thesis by blast
qed

text \<open>
  The bit of side channels. A connection id of the kernel that was returned with the bit set
  reaches the kernel without it in every later call, and one that was returned without it is
  passed on unchanged, for all ids below \<open>2 ^ 30\<close>.
\<close>

theorem side_channel_round_trip:
  assumes "0 < coid" and "coid < 2 ^ 30"
  shows "no_side (coid OR NTO_SIDE_CHANNEL) = coid \<and> no_side coid = coid \<and>
    MsgSend os (coid OR NTO_SIDE_CHANNEL) a n b k = MsgSend os coid a n b k \<and>
    MsgSendPulse os (coid OR NTO_SIDE_CHANNEL) cd v = MsgSendPulse os coid cd v \<and>
    ConnectDetach os (coid OR NTO_SIDE_CHANNEL) = ConnectDetach os coid"
proof -
  have bits: "\<not> bit coid n" if "30 \<le> n" for n
  proof -
    have "take_bit 30 coid = coid" using assms by (simp add: take_bit_int_eq_self_iff)
    then show ?thesis using that by (metis bit_take_bit_iff not_less)
  qed
  have side: "bit NTO_SIDE_CHANNEL n \<longleftrightarrow> n = 30" for n
  proof -
    have eq: "NTO_SIDE_CHANNEL = 2 ^ 30" by (simp add: NTO_SIDE_CHANNEL_def)
    show ?thesis unfolding eq bit_exp_iff by (simp add: possible_bit_def)
  qed
  have "no_side (coid OR NTO_SIDE_CHANNEL) = coid" "no_side coid = coid"
    by (rule bit_eqI, use bits in \<open>auto simp: no_side_def bit_and_iff bit_or_iff bit_not_iff side\<close>)+
  then show ?thesis by (simp add: MsgSend_def MsgSendPulse_def ConnectDetach_def)
qed

theorem side_channel_round_trip_witness: "no_side (5 OR NTO_SIDE_CHANNEL) = 5"
  using side_channel_round_trip [of 5 demo_os 0 0 0 0 0 0] by simp

text \<open>
  Failures of the library itself. Without the device every call fails with \<open>ESRCH\<close> and makes
  no system call; a connection to another node is refused with \<open>EINVAL\<close>, as is a timeout on
  another clock or without a time; the calls that are not implemented fail with \<open>ENOSYS\<close>.
\<close>

theorem library_errors:
  assumes "ufd u < 0" and "0 \<le> ufd v" and "0 < node" and "cid \<noteq> CLOCK_MONOTONIC"
  shows "(\<forall>c \<in> {ChannelCreate os fl, ChannelDestroy os i, ConnectAttach os nd' p i idx fl', ConnectDetach os i,
      MsgSend os i a n b k, MsgSendPulse os i n k, MsgReply os i n a k, MsgError os i n, MsgRead os i a n k,
      MsgSendv os i a n b k, MsgSendNoReply os i a n, MsgSendNoReplyv os i a n}.
      c u = Some (- 1, u\<lparr>uerrno := ESRCH\<rparr>)) \<and>
    MsgReceive os i a n wi u = Some (- 1, None, u\<lparr>uerrno := ESRCH\<rparr>) \<and>
    ConnectAttach os node p i idx fl' v = Some (- 1, v\<lparr>uerrno := EINVAL\<rparr>) \<and>
    TimerTimeout os cid fl' nt ot v = (- 1, v\<lparr>uerrno := EINVAL\<rparr>) \<and>
    TimerTimeout os CLOCK_MONOTONIC fl' None ot v = (- 1, v\<lparr>uerrno := EINVAL\<rparr>) \<and>
    not_implemented v = (- 1, v\<lparr>uerrno := ENOSYS\<rparr>)"
  using assms
  by (auto simp: ChannelCreate_def ChannelDestroy_def ConnectAttach_def ConnectDetach_def MsgSend_def MsgSendPulse_def
      MsgReply_def MsgError_def MsgRead_def MsgSendv_def MsgSendNoReply_def MsgSendNoReplyv_def MsgReceive_def
      with_device_def TimerTimeout_def not_implemented_def split: option.split)

theorem library_errors_witness:
  "ChannelCreate demo_os 0 (demo_lib\<lparr>ufd := - 1\<rparr>) = Some (- 1, demo_lib\<lparr>ufd := - 1, uerrno := ESRCH\<rparr>)"
proof -
  have "ufd (demo_lib\<lparr>ufd := - 1\<rparr>) < 0" "0 \<le> ufd demo_lib" "0 < (1::nat)" "0 \<noteq> CLOCK_MONOTONIC"
    by (simp_all add: demo_lib_def CLOCK_MONOTONIC_def)
  from library_errors [OF this, of demo_os 0] show ?thesis by auto
qed

end
