(* ===== verification/Rendezvous.thy ===== *)
theory Rendezvous
  imports Driver_Safety
begin

text \<open>
  A complete exchange between a client and a server, across the handlers of both sides: the
  client blocks in \<open>MsgSend\<close>, the server takes the message with \<open>MsgReceive\<close> and answers it with
  \<open>MsgReply\<close> or \<open>MsgError\<close>, and the client returns with the answer. Every system call has an
  environment of its own, since the two processes have different address spaces.
\<close>

section \<open>The phases of an exchange\<close>

text \<open>A message that is set up by the client and waits at the end of the queue.\<close>

lemma msgsend_blocks:
  assumes "kenv_ok env" and "kinv H s" and "procs s e = Some pe" and "gbl_next_rcvid s < 2 ^ 31 - 1"
    and "int_range (ms_coid io)" and "routes s e (ms_coid io) cn c" and "chans s c = Some ch"
    and "kmalloc env A_inbuf (iov_len (ms_in io))"
    and "copy_from_user env (iov_base (ms_in io)) (iov_len (ms_in io)) = Some bs"
  obtains m ch' s' where "handle_msgsend_enter env (Some io) t e s = Some (Blocked c (next_addr s), s')"
    and "kinv (holding c H) s'" and "msgs s' (next_addr s) = Some m" and "task m = Some t"
    and "rcvid m = gbl_next_rcvid s + 1" and "receiver_pid m = conn_pid cn" and "sender_pid m = pid pe"
    and "data m = Msg \<lparr>km_coid = ms_coid io, km_timeout_ms = ms_timeout_ms io, km_in_buf = bs,
           km_in_len = iov_len (ms_in io), km_out = ms_out io\<rparr>"
    and "chans s' c = Some ch'" and "waiting ch' = waiting ch @ [next_addr s]" and "chid ch' = chid ch"
    and "procs s' = procs s" and "process_entries s' = process_entries s" and "\<not> running s' t"
proof -
  let ?r = "gbl_next_rcvid s + 1" and ?s = "s\<lparr>gbl_next_rcvid := gbl_next_rcvid s + 1\<rparr>"
  let ?k = "\<lparr>km_coid = ms_coid io, km_timeout_ms = ms_timeout_ms io, km_in_buf = bs,
    km_in_len = iov_len (ms_in io), km_out = ms_out io\<rparr>"
  let ?m = "fresh_msgsend ?r (pid pe) (Some t) (Msg ?k)"
  have r0: "0 \<le> gbl_next_rcvid s" using kinvD(6) [OF assms(2)] by (simp add: msgs_inv_def)
  then have "wrap32 ?r = ?r" using assms(4) by (simp add: wrap32_small)
  then have i: "qnx_internal_msgsend_init env t (Some io) (pid pe) s = (0, Some ?m, ?s)"
    using assms(8,9) by (simp add: qnx_internal_msgsend_init_def get_new_rcvid_def Let_def)
  note new = newest_of_constructor [OF assms(2) init_ok [OF assms(1) r0 assms(4) i]]
  have routed: "routes ?s e (ms_coid io) cn c" "procs ?s e = Some pe" "chans ?s c = Some ch"
    using assms(3,6,7) by (simp_all add: routes_def channel_of_def)
  note r = route_found [OF new(2) routed(2) assms(5) routed(1)]
  let ?mc = "?m\<lparr>receiver_pid := conn_pid cn\<rparr>"
  obtain ch' where b: "block_enter c (next_addr s) t (post ?mc (hold c ?s)) =
      Some (set_interruptible t (store_chan c ch' (post (?mc\<lparr>receiver_chid := chid ch\<rparr>) (hold c ?s))))"
    "kinv (holding c H) (set_interruptible t (store_chan c ch' (post (?mc\<lparr>receiver_chid := chid ch\<rparr>) (hold c ?s))))"
    "waiting ch' = waiting ch @ [next_addr s]" "chid ch' = chid ch"
    by (rule kinv_block_enter [OF r(4) chans_hold [OF routed(3)], of ?mc t])
      (use new(1) [of "conn_pid cn"] in \<open>simp_all add: fresh_msgsend_def\<close>)
  have "handle_msgsend_enter env (Some io) t e s = Some (Blocked c (next_addr s),
      set_interruptible t (store_chan c ch' (post (?mc\<lparr>receiver_chid := chid ch\<rparr>) (hold c ?s))))"
    using i r(1-3) b(1) assms(3) by (simp add: handle_msgsend_enter_def fresh_msgsend_def Let_def alloc_def post_def)
  then show thesis
    by (rule that [where m = "?mc\<lparr>receiver_chid := chid ch\<rparr>" and ch' = ch', OF _ b(2)])
      (use b(3,4) in \<open>simp_all add: set_interruptible_def post_def fresh_msgsend_def\<close>)
qed

text \<open>Taking the message at the head of the queue, up to the point where it is delivered.\<close>

lemma receive_takes_exact:
  assumes "kinv H s" and "procs s q = Some qe" and "channel_of s q (rcv_chid rio) c" and "chans s c = Some ch"
    and "waiting ch = d # ds" and "msgs s d = Some m" and "0 \<le> receive_rc left"
  obtains ch' s1 where "s1 = store_chan c ch' ((hold c s)\<lparr>msgs := (msgs s)(d \<mapsto> m\<lparr>mstate := QNX_STATE_RECEIVING\<rparr>)\<rparr>)"
    and "handle_msgreceive env ua (Some rio) q (\<lambda>s. s) left s = handle_msgreceive_finish env ua rio (receive_rc left) q c d s1"
    and "kinv (holding c H) s1" and "in_no_list d s1" and "waiting ch' = ds" and "chid ch' = chid ch"
  using assms(1,2)
proof (cases rule: kinv_entry_find_channel [where i = "rcv_chid rio"])
  case (found c')
  have "c' = c"
    using found(2) assms(3) kinvD(5) [OF assms(1)] unfolding channel_of_def ids_inv_def by metis
  note f = found [unfolded this]
  show thesis
    using f(3) chans_hold [OF assms(4)]
  proof (cases rule: receive_take_ok [where wrc = "receive_rc left"])
    case (empty rc)
    then show thesis using assms(5,7) by simp
  next
    case (taken d' ds' m0 ch')
    have same: "d' = d" "ds' = ds" "m0 = m" using taken(2,3) assms(5,6) by simp_all
    note tk = taken [unfolded same]
    show thesis
      by (rule that [OF refl, where ch' = ch'])
        (use f(1) tk(4-8) in \<open>simp_all add: handle_msgreceive_def handle_msgreceive_enter_def\<close>)
  qed
qed (use assms(3) in blast)

lemma receive_takes_head:
  assumes "kinv H s" and "procs s q = Some qe" and "channel_of s q (rcv_chid rio) c" and "chans s c = Some ch"
    and "waiting ch = d # ds" and "msgs s d = Some m" and "0 \<le> receive_rc left"
  obtains ch' s1 where "handle_msgreceive env ua (Some rio) q (\<lambda>s. s) left s = handle_msgreceive_finish env ua rio (receive_rc left) q c d s1"
    and "kinv (holding c H) s1" and "procs s1 = procs s" and "process_entries s1 = process_entries s"
    and "msgs s1 d = Some (m\<lparr>mstate := QNX_STATE_RECEIVING\<rparr>)" and "in_no_list d s1"
    and "chans s1 c = Some ch'" and "chid ch' = chid ch"
proof (rule receive_takes_exact [OF assms, of env ua])
  fix ch' s1
  assume tk: "s1 = store_chan c ch' ((hold c s)\<lparr>msgs := (msgs s)(d \<mapsto> m\<lparr>mstate := QNX_STATE_RECEIVING\<rparr>)\<rparr>)"
    "handle_msgreceive env ua (Some rio) q (\<lambda>s. s) left s = handle_msgreceive_finish env ua rio (receive_rc left) q c d s1"
    "kinv (holding c H) s1" "in_no_list d s1" "chid ch' = chid ch"
  show thesis by (rule that [OF tk(2,3) _ _ _ tk(4) _ tk(5)]) (simp_all add: tk(1))
qed

text \<open>What the receiver is told of a message with reply that can be delivered.\<close>

definition info_of :: "int \<Rightarrow> pid_t \<Rightarrow> kmsg \<Rightarrow> msg_info" where
  "info_of i p k = zero_info\<lparr>info_pid := p, info_chid := i, scoid := km_coid k, info_coid := km_coid k,
     msglen := int (km_in_len k), srcmsglen := int (km_in_len k), dstmsglen := wrap32 (int (iov_len (km_out k)))\<rparr>"

lemma message_rcvid: "payload_ok m \<Longrightarrow> 0 \<le> rcvid m \<Longrightarrow> data m = Msg k \<Longrightarrow> 0 < rcvid m"
  by (auto simp: payload_ok_def)

lemma message_delivered:
  assumes "payload_ok m" and "0 \<le> rcvid m" and "data m = Msg k" and "task m \<noteq> None" and "store_to_user env ua"
    and "copy_to_user env (iov_base (rcv_out rio)) (take (iov_len (rcv_out rio)) (km_in_buf k))"
  shows "delivery env ua rio wrc i m = (rcvid m, [Bytes (iov_base (rcv_out rio)) (take (iov_len (rcv_out rio)) (km_in_buf k)),
      Receive_info ua (rio\<lparr>rcv_info := info_of i (sender_pid m) k\<rparr>)])"
proof -
  have len: "length (km_in_buf k) = km_in_len k" "km_in_len k < 2 ^ 31" using assms(1,3) by (simp_all add: payload_ok_def)
  have cut: "take (min (km_in_len k) n) (km_in_buf k) = take n (km_in_buf k)" for n using len(1) by (simp add: min_def)
  show ?thesis
    using message_rcvid [OF assms(1-3)] assms(3-6) len(2)
    by (auto simp: delivery_def deliver_message_def cut info_of_def Let_def wrap32_small zero_info_def)
qed

text \<open>A message with reply that can be delivered becomes pending.\<close>

lemma receive_head:
  assumes "kinv H s" and "procs s q = Some qe" and "channel_of s q (rcv_chid rio) c" and "chans s c = Some ch"
    and "waiting ch = d # ds" and "msgs s d = Some m" and "task m \<noteq> None" and "0 \<le> receive_rc left"
    and "data m = Msg k" and "store_to_user env ua"
    and "copy_to_user env (iov_base (rcv_out rio)) (take (iov_len (rcv_out rio)) (km_in_buf k))"
  obtains m' i s' where "handle_msgreceive env ua (Some rio) q (\<lambda>s. s) left s =
      Some (rcvid m, [Bytes (iov_base (rcv_out rio)) (take (iov_len (rcv_out rio)) (km_in_buf k)),
                      Receive_info ua (rio\<lparr>rcv_info := i\<rparr>)], s')"
    and "kinv H s'" and "msgs s' d = Some m'" and "rcvid m' = rcvid m" and "task m' = task m" and "data m' = data m"
    and "receiver_pid m' = receiver_pid m" and "procs s' = (procs s)(q \<mapsto> qe\<lparr>pending := d # pending qe\<rparr>)"
    and "process_entries s' = process_entries s" and "info_pid i = sender_pid m" and "info_coid i = km_coid k"
    and "info_chid i = chid ch" and "msglen i = int (length (km_in_buf k))"
proof -
  let ?m = "m\<lparr>mstate := QNX_STATE_RECEIVING\<rparr>"
  obtain ch' s1 where tk: "handle_msgreceive env ua (Some rio) q (\<lambda>s. s) left s = handle_msgreceive_finish env ua rio (receive_rc left) q c d s1"
    "kinv (holding c H) s1" "procs s1 = procs s" "process_entries s1 = process_entries s" "msgs s1 d = Some ?m"
    "in_no_list d s1" "chans s1 c = Some ch'" "chid ch' = chid ch"
    by (rule receive_takes_head [OF assms(1-6,8)])
  have ok: "payload_ok ?m" "0 \<le> rcvid ?m" "data ?m = Msg k" "task ?m \<noteq> None" using kinv_msg [OF tk(2,5)] assms(7,9) by simp_all
  note del = message_delivered [OF ok assms(10,11), of "receive_rc left" "chid ch'"]
  have len: "length (km_in_buf k) = km_in_len k" using ok(1,3) by (simp add: payload_ok_def)
  have at: "procs s1 q = Some qe" using tk(3) assms(2) by simp
  show thesis
    using tk(2) at tk(5-7) del
  proof (cases rule: receive_finish_ok)
    case (pend s')
    then obtain m' where m': "msgs s' d = Some m'" "rcvid m' = rcvid m" "task m' = task m" "data m' = data m"
      "receiver_pid m' = receiver_pid m" by auto
    show thesis
      by (rule that [OF _ pend(3) m', of "info_of (chid ch') (sender_pid m) k"])
        (use pend(4,5,7) tk(1,3,4,8) len in \<open>simp_all add: info_of_def zero_info_def\<close>)
  qed (use message_rcvid [OF ok(1-3)] assms(7) in simp_all)
qed

text \<open>Answering a pending message: the reply is found under its receive id, and the sender is awake.\<close>

lemma reply_pending:
  assumes "kenv_ok env" and "kinv H s" and "procs s q = Some qe" and "d \<in> set (pending qe)" and "msgs s d = Some m"
    and "rcvid m = rep_rcvid rp" and "task m = Some t"
    and "reply_buffer env (km_out (data_msg (data m))) (rep_in rp) = (0, buf, n)"
  obtains s' where "handle_msgreply env q rp s = Some (0, s')" and "kinv H s'" and "in_no_list d s'" and "running s' t"
    and "msgs s' d = Some (m\<lparr>reply_base := buf, reply_len := n, status := rep_status rp, mstate := QNX_STATE_FINISHED\<rparr>)"
    and "procs s' = (procs s)(q \<mapsto> qe\<lparr>pending := remove1 d (pending qe)\<rparr>)" and "process_entries s' = process_entries s"
proof -
  show thesis
    using assms(1-3)
  proof (cases rule: msgreply_ok [where io = rp])
    case unknown
    then show thesis using assms(4-6) by blast
  next
    case (replied d' m' t' rc buf' n' s')
    have "d' = d" using same_rcvid [OF assms(2,5) replied(2)] replied(3) assms(6,7) by simp
    then have "m' = m" "t' = t" "rc = 0" "buf' = buf" "n' = n" using replied(2,4,5) assms(5,7,8) by auto
    with replied \<open>d' = d\<close> show thesis
      by (intro that [of s']) (simp_all add: wake_up_process_def store_proc_def)
  qed
qed

text \<open>
  A finished message returns its status to its sender, also when the sender woke up because of
  a timeout or a signal, as long as the receiver has not closed the device.
\<close>

lemma finished_returns:
  assumes "kinv (holding c H) s" and "msgs s d = Some m" and "task m = Some t" and "mstate m = QNX_STATE_FINISHED"
    and "in_no_list d s" and "timed_out ms m \<or> sg \<longrightarrow> listed s (receiver_pid m)"
  obtains s' where "block_exit ms sg c d s = Some (Returns (status m), s')" and "kinv H s'" and "msgs s' d = Some m"
    and "in_no_list d s'" and "procs s' = procs s" and "process_entries s' = process_entries s"
proof -
  obtain s' where s': "qnx_channel_release c s = Some s'" "kinv H s'" "procs_frame s s'" "sender_frame s s'"
    "in_no_list d s'"
    by (rule kinv_put_back [OF assms(1)]) (use assms(5) in \<open>simp\<close>)
  have "block_exit ms sg c d s = Some (Returns (status m), s')"
  proof (cases "\<not> timed_out ms m \<and> \<not> sg")
    case True
    then show ?thesis using assms(2) s'(1) by (auto simp: block_exit_def timed_out_def Let_def)
  next
    case False
    obtain ch where ch: "chans s c = Some ch" using kinv_held [OF assms(1), of c] by auto
    have tm: "task m \<noteq> None" using assms(3) by simp
    have gone: "qnx_channel_remove_message c (rcvid m) s = Some (0, s)"
      using assms(1) ch assms(2) tm
      by (cases rule: kinv_remove_message) (use assms(5) ch in \<open>auto simp: in_no_list_def\<close>)
    have "block_pending rc c d s = Some (Returns (status m), s')" for rc
      using assms(1)
    proof (cases rule: kinv_find_process [where p = "receiver_pid m"])
      case none
      then show ?thesis using assms(6) False by (auto simp: listed_def)
    next
      case (found e pe)
      let ?pe = "pe\<lparr>pe_refcnt := Suc (pe_refcnt pe)\<rparr>"
      let ?s = "store_proc e ?pe s"
      note tgt = kinv_process_target [OF assms(1) found(1,2)]
      have at: "procs ?s e = Some ?pe" by simp
      have none: "qnx_process_entry_release_pending e (rcvid m) ?s = Some (None, ?s)"
        using tgt(1) at
      proof (cases rule: kinv_release_pending [where r = "rcvid m"])
        case (hit d' m' s2)
        have "d' = d" using same_rcvid [OF assms(1,2), of d' m'] hit(2,3) tm by simp
        then show ?thesis using hit(1) assms(5) found(2) by (auto simp: in_no_list_def)
      qed
      have "qnx_process_entry_release e ?s = Some s"
        using kinv_process_release(1) [OF tgt(1) at] tgt(2) found(2)
        by (simp add: store_proc_def fun_upd_idem)
      then show ?thesis
        using found(4) none s'(1) assms(2,4) by (simp add: block_pending_def)
    qed
    then show ?thesis using False gone assms(2) by (auto simp: block_exit_def timed_out_def Let_def)
  qed
  then show thesis
    using that s' assms(2,5) by (simp add: sender_frame_def procs_frame_def)
qed

section \<open>The round trip\<close>

lemma reply_copied:
  assumes "iov_base out \<noteq> 0" and "0 < iov_len out" and "0 < iov_len src" and "kmalloc env A_reply (iov_len src)"
    and "copy_from_user env (iov_base src) (iov_len src) = Some bs"
  shows "reply_buffer env out src = (0, Some bs, iov_len src)"
  using assms by (simp add: reply_buffer_def)

lemma msgsend_exit_eq:
  assumes "msgs s d = Some m" and "reply_base m = Some bs" and "reply_len m = length bs" and "0 < length bs"
    and "data m = Msg k" and "copy_to_user env (iov_base (km_out k)) (take (iov_len (km_out k)) bs)"
  shows "handle_msgsend_exit env rc d s =
    Some (rc, if 0 \<le> rc then [Bytes (iov_base (km_out k)) (take (iov_len (km_out k)) bs)] else [],
          s\<lparr>msgs := (msgs s)(d := None)\<rparr>)"
proof -
  have "take (min n (length bs)) bs = take n bs" for n by (simp add: min_def)
  then show ?thesis using assms by (simp add: handle_msgsend_exit_def Let_def)
qed

text \<open>
  What the server does for a message at the head of the queue: it receives and answers it, and
  the sender returns from its sleep with the status of the reply.
\<close>

lemma served:
  assumes "kinv (holding c H) s" and "msgs s d = Some m" and "task m = Some t" and "data m = Msg k"
    and "receiver_pid m = pid qe" and "chans s c = Some ch" and "waiting ch = d # ds"
    and server: "q \<in> set (process_entries s)" "procs s q = Some qe" "channel_of s q (rcv_chid rio) c"
    and receive: "0 \<le> receive_rc left" "store_to_user renv ua"
      "copy_to_user renv (iov_base (rcv_out rio)) (take (iov_len (rcv_out rio)) (km_in_buf k))"
    and reply: "kenv_ok penv" "iov_base (km_out k) \<noteq> 0" "0 < iov_len (km_out k)" "0 < iov_len src"
      "kmalloc penv A_reply (iov_len src)" "copy_from_user penv (iov_base src) (iov_len src) = Some rs"
  obtains i s2 s3 s4 m4 where "handle_msgreceive renv ua (Some rio) q (\<lambda>s. s) left s =
      Some (rcvid m, [Bytes (iov_base (rcv_out rio)) (take (iov_len (rcv_out rio)) (km_in_buf k)),
                      Receive_info ua (rio\<lparr>rcv_info := i\<rparr>)], s2)"
    and "info_pid i = sender_pid m" and "msglen i = int (length (km_in_buf k))"
    and "handle_msgreply penv q \<lparr>rep_rcvid = rcvid m, rep_status = st, rep_in = src\<rparr> s2 = Some (0, s3)"
    and "running s3 t" and "block_exit ms sg c d s3 = Some (Returns st, s4)"
    and "kinv H s4" and "in_no_list d s4" and "msgs s4 d = Some m4" and "data m4 = Msg k" and "reply_base m4 = Some rs"
    and "reply_len m4 = length rs" and "procs s4 = procs s" and "process_entries s4 = process_entries s"
proof -
  have tm: "task m \<noteq> None" using assms(3) by simp
  obtain m2 i s2 where r: "handle_msgreceive renv ua (Some rio) q (\<lambda>s. s) left s =
      Some (rcvid m, [Bytes (iov_base (rcv_out rio)) (take (iov_len (rcv_out rio)) (km_in_buf k)),
                      Receive_info ua (rio\<lparr>rcv_info := i\<rparr>)], s2)"
    "kinv (holding c H) s2" "msgs s2 d = Some m2" "rcvid m2 = rcvid m" "task m2 = task m" "data m2 = data m"
    "receiver_pid m2 = receiver_pid m" "procs s2 = (procs s)(q \<mapsto> qe\<lparr>pending := d # pending qe\<rparr>)"
    "process_entries s2 = process_entries s" "info_pid i = sender_pid m" "msglen i = int (length (km_in_buf k))"
    by (rule receive_head [OF assms(1) server(2,3) assms(6,7,2) tm receive(1) assms(4) receive(2,3)]) blast
  let ?rp = "\<lparr>rep_rcvid = rcvid m, rep_status = st, rep_in = src\<rparr>" and ?qe = "qe\<lparr>pending := d # pending qe\<rparr>"
  let ?m = "m2\<lparr>reply_base := Some rs, reply_len := iov_len src, status := st, mstate := QNX_STATE_FINISHED\<rparr>"
  have at: "procs s2 q = Some ?qe" "d \<in> set (pending ?qe)" "rcvid m2 = rep_rcvid ?rp" "task m2 = Some t"
    "reply_buffer penv (km_out (data_msg (data m2))) (rep_in ?rp) = (0, Some rs, iov_len src)"
    using r(4-6,8) assms(3,4) reply_copied [OF reply(2-6)] by simp_all
  obtain s3 where p: "handle_msgreply penv q ?rp s2 = Some (0, s3)" "kinv (holding c H) s3" "in_no_list d s3"
    "running s3 t" "msgs s3 d = Some ?m" "procs s3 = (procs s2)(q \<mapsto> ?qe\<lparr>pending := remove1 d (pending ?qe)\<rparr>)"
    "process_entries s3 = process_entries s2"
    by (rule reply_pending [OF reply(1) r(2) at(1,2) r(3) at(3-5)]) simp
  have same: "procs s3 = procs s" "process_entries s3 = process_entries s"
    using p(6,7) r(8,9) server(2) by (auto simp: fun_upd_idem)
  have ready: "task ?m = Some t" "mstate ?m = QNX_STATE_FINISHED" "listed s3 (receiver_pid ?m)"
    using at(4) r(7) assms(5) same server(1,2) by (auto simp: listed_def)
  obtain s4 where x: "block_exit ms sg c d s3 = Some (Returns (status ?m), s4)" "kinv H s4" "msgs s4 d = Some ?m"
    "in_no_list d s4" "procs s4 = procs s3" "process_entries s4 = process_entries s3"
    by (rule finished_returns [OF p(2,5) ready(1,2) p(3)]) (use ready(3) in simp)
  have "length rs = iov_len src" using kenv_okD(1) [OF reply(1,6)] .
  then show thesis
    using x r(6) assms(4) same by (intro that [OF r(1,10,11) p(1,4) _ x(2,4,3)]) simp_all
qed

text \<open>The owner of the channel at the end of a route.\<close>

lemma route_owner:
  assumes "kinv H s" and "routes s e i cn c" and "q \<in> set (process_entries s)" and "procs s q = Some qe" and "pid qe = conn_pid cn"
    and "chans s c = Some ch" and "procs s' = procs s" and "chans s' c = Some ch'" and "chid ch' = chid ch"
  shows "channel_of s' q (conn_chid cn) c"
proof -
  have "channel_of s q (conn_chid cn) c"
    using assms(2-5) kinvD(1) [OF assms(1)] unfolding routes_def list_inv_def by metis
  then show ?thesis using assms(6-9) by (simp add: channel_of_def)
qed

text \<open>
  The whole exchange. It holds whether the client ran into its timeout or was signalled meanwhile.
\<close>

lemma exchange:
  assumes "kenv_ok env" and "kinv H s" and "procs s e = Some pe" and "gbl_next_rcvid s < 2 ^ 31 - 1"
    and "int_range (ms_coid io)" and "routes s e (ms_coid io) cn c" and "chans s c = Some ch" and "waiting ch = []"
    and "kmalloc env A_inbuf (iov_len (ms_in io))"
    and "copy_from_user env (iov_base (ms_in io)) (iov_len (ms_in io)) = Some bs"
    and server: "q \<in> set (process_entries s)" "procs s q = Some qe" "pid qe = conn_pid cn" "rcv_chid rio = conn_chid cn"
    and receive: "0 \<le> receive_rc left" "store_to_user renv ua"
      "copy_to_user renv (iov_base (rcv_out rio)) (take (iov_len (rcv_out rio)) bs)"
    and reply: "kenv_ok penv" "iov_base (ms_out io) \<noteq> 0" "0 < iov_len (ms_out io)" "0 < iov_len src"
      "kmalloc penv A_reply (iov_len src)" "copy_from_user penv (iov_base src) (iov_len src) = Some rs"
    and stored: "copy_to_user env (iov_base (ms_out io)) (take (iov_len (ms_out io)) rs)"
  obtains i s1 s2 s3 s4 where "handle_msgsend_enter env (Some io) t e s = Some (Blocked c (next_addr s), s1)"
    and "\<not> running s1 t" and "handle_msgreceive renv ua (Some rio) q (\<lambda>s. s) left s1 =
      Some (gbl_next_rcvid s + 1, [Bytes (iov_base (rcv_out rio)) (take (iov_len (rcv_out rio)) bs),
                                   Receive_info ua (rio\<lparr>rcv_info := i\<rparr>)], s2)"
    and "info_pid i = pid pe" and "msglen i = int (length bs)"
    and "handle_msgreply penv q \<lparr>rep_rcvid = gbl_next_rcvid s + 1, rep_status = st, rep_in = src\<rparr> s2 = Some (0, s3)"
    and "running s3 t" and "handle_msgsend env (Some io) t e (\<lambda>_. s3) ms sg s =
      Some (Some st, if 0 \<le> st then [Bytes (iov_base (ms_out io)) (take (iov_len (ms_out io)) rs)] else [], s4)"
    and "kinv H s4" and "procs s4 = procs s" and "process_entries s4 = process_entries s" and "msgs s4 (next_addr s) = None"
proof -
  let ?d = "next_addr s" and ?k = "\<lparr>km_coid = ms_coid io, km_timeout_ms = ms_timeout_ms io, km_in_buf = bs,
    km_in_len = iov_len (ms_in io), km_out = ms_out io\<rparr>"
  obtain m ch' s1 where b: "handle_msgsend_enter env (Some io) t e s = Some (Blocked c ?d, s1)"
    "kinv (holding c H) s1" "msgs s1 ?d = Some m" "task m = Some t" "rcvid m = gbl_next_rcvid s + 1"
    "receiver_pid m = conn_pid cn" "sender_pid m = pid pe" "data m = Msg ?k" "chans s1 c = Some ch'"
    "waiting ch' = [?d]" "chid ch' = chid ch" "procs s1 = procs s" "process_entries s1 = process_entries s" "\<not> running s1 t"
    by (rule msgsend_blocks [OF assms(1-7,9,10)]) (use assms(8) in simp)
  have at: "receiver_pid m = pid qe" "q \<in> set (process_entries s1)" "procs s1 q = Some qe" "channel_of s1 q (rcv_chid rio) c"
    using b(6,12,13) server route_owner [OF assms(2,6) server(1-3) assms(7) b(12,9,11)] by simp_all
  have fits: "copy_to_user renv (iov_base (rcv_out rio)) (take (iov_len (rcv_out rio)) (km_in_buf ?k))"
    "iov_base (km_out ?k) \<noteq> 0" "0 < iov_len (km_out ?k)"
    using receive(3) reply(2,3) by simp_all
  obtain i s2 s3 s4 m4 where x: "handle_msgreceive renv ua (Some rio) q (\<lambda>s. s) left s1 =
      Some (rcvid m, [Bytes (iov_base (rcv_out rio)) (take (iov_len (rcv_out rio)) (km_in_buf ?k)),
                      Receive_info ua (rio\<lparr>rcv_info := i\<rparr>)], s2)"
    "info_pid i = sender_pid m" "msglen i = int (length (km_in_buf ?k))"
    "handle_msgreply penv q \<lparr>rep_rcvid = rcvid m, rep_status = st, rep_in = src\<rparr> s2 = Some (0, s3)"
    "running s3 t" "block_exit ms sg c ?d s3 = Some (Returns st, s4)" "kinv H s4" "in_no_list ?d s4"
    "msgs s4 ?d = Some m4" "data m4 = Msg ?k" "reply_base m4 = Some rs" "reply_len m4 = length rs"
    "procs s4 = procs s1" "process_entries s4 = process_entries s1"
    by (rule served [OF b(2-4,8) at(1) b(9,10) at(2-4) receive(1,2) fits(1) reply(1) fits(2,3) reply(4-6)])
  have "0 < length rs" using kenv_okD(1) [OF reply(1,6)] reply(4) by simp
  then have "handle_msgsend_exit env st ?d s4 =
      Some (st, if 0 \<le> st then [Bytes (iov_base (ms_out io)) (take (iov_len (ms_out io)) rs)] else [],
            s4\<lparr>msgs := (msgs s4)(?d := None)\<rparr>)"
    using msgsend_exit_eq [OF x(9,11,12) _ x(10), of env st] stored by simp
  then have "handle_msgsend env (Some io) t e (\<lambda>_. s3) ms sg s =
      Some (Some st, if 0 \<le> st then [Bytes (iov_base (ms_out io)) (take (iov_len (ms_out io)) rs)] else [],
            s4\<lparr>msgs := (msgs s4)(?d := None)\<rparr>)"
    using b(1) x(6) by (simp add: handle_msgsend_def)
  then show thesis
    using kinv_free_msg [OF x(7,8)] x(1-5,13,14) b(1,5,7,12-14)
    by (intro that [where i = i and ?s1.0 = s1 and ?s2.0 = s2 and ?s3.0 = s3 and ?s4.0 = "s4\<lparr>msgs := (msgs s4)(?d := None)\<rparr>"]) simp_all
qed

text \<open>
  C4. The round trip of a message. A client calls \<open>MsgSend\<close> on a connection to a channel whose
  queue is empty, the server receives on that channel and replies. Then the server is handed
  the client's bytes, cut to its buffer, with the receive id of the message and the client's
  process id; the reply is accepted and wakes the client; and \<open>MsgSend\<close> returns the status of the
  reply and, unless that is negative, stores the bytes of the reply, cut to the client's buffer.
  This holds whether the client ran into its timeout or was signalled meanwhile. Afterwards the
  processes are as before, and the message and the reference to the channel are gone.
\<close>

theorem message_round_trip:
  assumes "kenv_ok env" and "kinv H s" and "procs s e = Some pe" and "gbl_next_rcvid s < 2 ^ 31 - 1"
    and "int_range (ms_coid io)" and "routes s e (ms_coid io) cn c" and "chans s c = Some ch" and "waiting ch = []"
    and "kmalloc env A_inbuf (iov_len (ms_in io))"
    and "copy_from_user env (iov_base (ms_in io)) (iov_len (ms_in io)) = Some bs"
    and server: "q \<in> set (process_entries s)" "procs s q = Some qe" "pid qe = conn_pid cn" "rcv_chid rio = conn_chid cn"
    and receive: "0 \<le> receive_rc left" "store_to_user renv ua"
      "copy_to_user renv (iov_base (rcv_out rio)) (take (iov_len (rcv_out rio)) bs)"
    and reply: "kenv_ok penv" "iov_base (ms_out io) \<noteq> 0" "0 < iov_len (ms_out io)" "0 < iov_len src"
      "kmalloc penv A_reply (iov_len src)" "copy_from_user penv (iov_base src) (iov_len src) = Some rs"
    and stored: "copy_to_user env (iov_base (ms_out io)) (take (iov_len (ms_out io)) rs)"
  shows "\<exists>s1 d i s2 s3 s4.
    handle_msgsend_enter env (Some io) t e s = Some (Blocked c d, s1) \<and> \<not> running s1 t \<and>
    handle_msgreceive renv ua (Some rio) q (\<lambda>s. s) left s1 =
      Some (gbl_next_rcvid s + 1, [Bytes (iov_base (rcv_out rio)) (take (iov_len (rcv_out rio)) bs),
                                   Receive_info ua (rio\<lparr>rcv_info := i\<rparr>)], s2) \<and>
    info_pid i = pid pe \<and> msglen i = int (length bs) \<and>
    handle_msgreply penv q \<lparr>rep_rcvid = gbl_next_rcvid s + 1, rep_status = st, rep_in = src\<rparr> s2 = Some (0, s3) \<and>
    running s3 t \<and>
    handle_msgsend env (Some io) t e (\<lambda>_. s3) ms sg s =
      Some (Some st, if 0 \<le> st then [Bytes (iov_base (ms_out io)) (take (iov_len (ms_out io)) rs)] else [], s4) \<and>
    kinv H s4 \<and> procs s4 = procs s \<and> process_entries s4 = process_entries s \<and> msgs s4 d = None"
  by (rule exchange [OF assms]) blast

theorem message_round_trip_witness:
  "\<exists>s3 s4. handle_msgsend demo_env (Some demo_io) 5 3 (\<lambda>_. s3) 0 False demo_kernel =
     Some (Some 4, [Bytes 64 [32, 33]], s4) \<and> procs s4 = procs demo_kernel"
proof -
  let ?rio = "\<lparr>rcv_chid = 1, rcv_timeout_ms = 10, rcv_out = \<lparr>iov_base = 1024, iov_len = 64\<rparr>, rcv_info = zero_info\<rparr>"
  have "chans demo_kernel 2 = Some \<lparr>ch_refcnt = 1, chid = 1, waiting = [], num_waiting = 0, num_waiting_noreply = 0\<rparr>"
    "gbl_next_rcvid demo_kernel < 2 ^ 31 - 1" "1 \<in> set (process_entries demo_kernel)" "pid demo_server = 7"
    by (simp_all add: demo_defs)
  then show ?thesis
    using message_round_trip [OF demo_env_ok demo_kernel_inv demo_kernel_procs(2) _ _ _ _ _ _ _ _ demo_kernel_procs(1),
        of demo_io "\<lparr>conn_pid = 7, conn_chid = 1\<rparr>" 2 _ "[16, 17, 18]" ?rio 1 demo_env 512 demo_env
           "\<lparr>iov_base = 32, iov_len = 4\<rparr>" "[32, 33, 34, 35]" 5 4 0 False]
      demo_env_ok demo_routes
    by (auto simp: demo_io_def demo_env_def int_range_def upt_rec)
qed

end
