(* ===== verification/Library_On_Kernel.thy ===== *)
theory Library_On_Kernel
  imports Userspace_Props Rendezvous
begin

text \<open>
  The library on top of the module: the system calls of \<^verbatim>\<open>Userspace\<close> answered by the device file
  of \<^verbatim>\<open>Driver\<close>. The kernel around the module is represented by the table of open files of the
  process: a file shared with another process after a fork is only released when the last of
  them closes it, and a negative result of a handler reaches the program as -1 and \<open>errno\<close>.
\<close>

section \<open>The module as the operating system\<close>

text \<open>An open file: opened for writing, \<open>private_data\<close>, shared with another process.\<close>

record uworld =
  wk :: kstate
  wfiles :: "int \<Rightarrow> (bool \<times> addr option \<times> bool) option"
  wnext :: int
  wpid :: pid_t

definition kernel_open :: "kenv \<Rightarrow> bool \<Rightarrow> uworld \<Rightarrow> (int \<times> int \<times> uworld) option" where
  "kernel_open env rdwr w =
     do { (rc, pd, s) \<leftarrow> qnxcomm_open env rdwr (wpid w) (wk w);
          Some (if rc < 0 then (- 1, - rc, w\<lparr>wk := s\<rparr>)
                else (wnext w, 0, w\<lparr>wk := s, wnext := wnext w + 1, wfiles := (wfiles w)(wnext w \<mapsto> (rdwr, pd, False))\<rparr>)) }"

definition kernel_close :: "int \<Rightarrow> uworld \<Rightarrow> (int \<times> int \<times> uworld) option" where
  "kernel_close fd w =
     (case wfiles w fd of
        None \<Rightarrow> Some (- 1, EBADF, w)
      | Some (rdwr, pd, shared) \<Rightarrow>
          (let w' = w\<lparr>wfiles := (wfiles w)(fd := None)\<rparr> in
           if shared then Some (0, 0, w')
           else do { (rc, pd', s) \<leftarrow> qnxcomm_close rdwr (nat fd) pd (wk w); Some (0, 0, w'\<lparr>wk := s\<rparr>) }))"

text \<open>A request as the command, the argument and the structure behind it (at address 1).\<close>

fun ucall_cmd :: "ucall \<Rightarrow> qnx_cmd" where
  "ucall_cmd (U_channelcreate _) = QNX_IO_CHANNELCREATE"
| "ucall_cmd (U_channeldestroy _) = QNX_IO_CHANNELDESTROY"
| "ucall_cmd (U_connectattach _) = QNX_IO_CONNECTATTACH"
| "ucall_cmd (U_connectdetach _) = QNX_IO_CONNECTDETACH"
| "ucall_cmd (U_msgsend _) = QNX_IO_MSGSEND"
| "ucall_cmd (U_msgsendpulse _) = QNX_IO_MSGSENDPULSE"
| "ucall_cmd (U_msgreceive _) = QNX_IO_MSGRECEIVE"
| "ucall_cmd (U_msgreply _) = QNX_IO_MSGREPLY"
| "ucall_cmd (U_msgerror _) = QNX_IO_MSGERROR"
| "ucall_cmd (U_msgread _) = QNX_IO_MSGREAD"
| "ucall_cmd (U_msgsendv _) = QNX_IO_MSGSENDV"
| "ucall_cmd (U_register_pollfd _) = QNX_IO_REGISTER_POLLFD"
| "ucall_cmd (U_msgsendnoreply _) = QNX_IO_MSGSENDNOREPLY"
| "ucall_cmd (U_msgsendnoreplyv _) = QNX_IO_MSGSENDNOREPLYV"

fun ucall_arg :: "ucall \<Rightarrow> nat" where
  "ucall_arg (U_channeldestroy i) = to_size i"
| "ucall_arg (U_connectdetach i) = to_size i"
| "ucall_arg (U_register_pollfd i) = to_size i"
| "ucall_arg _ = 1"

definition ucall_args :: "ucall \<Rightarrow> uargs" where
  "ucall_args c =
     \<lparr>read_attach = (\<lambda>_. case c of U_connectattach x \<Rightarrow> Some x | _ \<Rightarrow> None),
      read_msgsend = (\<lambda>_. case c of U_msgsend x \<Rightarrow> Some x | U_msgsendnoreply x \<Rightarrow> Some x | _ \<Rightarrow> None),
      read_msgsendv = (\<lambda>_. case c of U_msgsendv x \<Rightarrow> Some x | U_msgsendnoreplyv x \<Rightarrow> Some x | _ \<Rightarrow> None),
      read_pulse = (\<lambda>_. case c of U_msgsendpulse x \<Rightarrow> Some x | _ \<Rightarrow> None),
      read_receive = (\<lambda>_. case c of U_msgreceive x \<Rightarrow> Some x | _ \<Rightarrow> None),
      read_reply = (\<lambda>_. case c of U_msgreply x \<Rightarrow> Some x | _ \<Rightarrow> None),
      read_error = (\<lambda>_. case c of U_msgerror x \<Rightarrow> Some x | _ \<Rightarrow> None),
      read_read = (\<lambda>_. case c of U_msgread x \<Rightarrow> Some x | _ \<Rightarrow> None)\<rparr>"

text \<open>The member \<open>info\<close> of the argument after the call.\<close>

definition written_info :: "uwrite list \<Rightarrow> msg_info" where
  "written_info ws = foldl (\<lambda>i w. case w of Receive_info _ r \<Rightarrow> rcv_info r | _ \<Rightarrow> i) no_info ws"

definition kernel_ioctl ::
  "kenv \<Rightarrow> sched \<Rightarrow> tid \<Rightarrow> int \<Rightarrow> ucall \<Rightarrow> uworld \<Rightarrow> (int \<times> int \<times> msg_info \<times> uworld) option" where
  "kernel_ioctl env sc t fd c w =
     (case wfiles w fd of
        None \<Rightarrow> Some (- 1, EBADF, no_info, w)
      | Some (rdwr, pd, shared) \<Rightarrow>
          do { (r, ws, s) \<leftarrow> qnxcomm_ioctl env (ucall_args c) sc t (wpid w) (nat fd) pd (ucall_cmd c) (ucall_arg c) (wk w);
               rc \<leftarrow> r;
               Some (if rc < 0 then - 1 else rc, if rc < 0 then - rc else 0, written_info ws, w\<lparr>wk := s\<rparr>) })"

definition kernel_os :: "kenv \<Rightarrow> sched \<Rightarrow> tid \<Rightarrow> (uworld \<Rightarrow> int \<times> int) \<Rightarrow> uworld os" where
  "kernel_os env sc t clk =
     \<lparr>os_open = kernel_open env, os_ioctl = kernel_ioctl env sc t, os_close = kernel_close,
      os_getpid = wpid, os_clock = clk\<rparr>"

text \<open>The world of the child after \<open>fork\<close>: a new process id, every open file is shared.\<close>

definition forked :: "pid_t \<Rightarrow> uworld \<Rightarrow> uworld" where
  "forked p w = w\<lparr>wpid := p, wfiles := (\<lambda>fd. map_option (\<lambda>(rdwr, pd, shared). (rdwr, pd, True)) (wfiles w fd))\<rparr>"

lemma fresh_table_empty: "table_map (snd (qnx_connection_table_init maxc ok)) coid = None"
  by (auto simp: qnx_connection_table_init_def qnx_connection_table_reserve_unlocked_def table_map_def
      qnx_connection_table_get_capacity_def QNX_INITIAL_TABLE_SIZE_def wrap32_def nth_append Let_def)

text \<open>Freeing objects gives back neither addresses nor channel ids.\<close>

definition counters :: "kstate \<Rightarrow> addr \<times> int \<times> int" where
  "counters s = (next_addr s, gbl_next_channel_id s, qnx_max_channels_per_process s)"

lemma free_msg_list_counters: "free_msg_list ds s = Some s' \<Longrightarrow> counters s' = counters s"
  by (induction ds arbitrary: s)
    (fastforce simp: counters_def qnx_internal_msgsend_cleanup_and_free_def wake_up_process_def
      split: option.splits if_splits elim!: bind_eq_SomeE)+

lemma channel_release_counters: "qnx_channel_release c s = Some s' \<Longrightarrow> counters s' = counters s"
  by (auto simp: qnx_channel_release_def qnx_channel_free_def split: if_splits elim!: bind_eq_SomeE
      dest!: free_msg_list_counters) (simp_all add: counters_def)

lemma release_channels_counters: "release_channels e cs s = Some s' \<Longrightarrow> counters s' = counters s"
  by (induction cs arbitrary: s)
    (auto simp: store_proc_def counters_def elim!: bind_eq_SomeE dest!: channel_release_counters)

lemma close_counters: "qnxcomm_close True f (Some e) s = Some (rc, pd, s') \<Longrightarrow> counters s' = counters s"
  by (auto simp: qnxcomm_close_def qnx_driver_data_remove_def qnx_process_entry_release_def qnx_process_entry_free_def
      store_proc_def split: if_splits option.splits elim!: bind_eq_SomeE
      dest!: free_msg_list_counters release_channels_counters) (simp_all add: counters_def)

text \<open>A process that is not on the list opens the device and creates a channel.\<close>

lemma new_device_creates:
  assumes "kinv H (wk w)" and "\<not> listed (wk w) (wpid w)" and "kmalloc env A_entry 0" and "kmalloc env A_channel 0"
    and "0 < qnx_max_channels_per_process (wk w)" and "gbl_next_channel_id (wk w) < 2 ^ 31 - 1"
  obtains w1 w2 pc c ch where "kernel_open env True w = Some (wnext w, 0, w1)"
    and "\<And>sc t. kernel_ioctl env sc t (wnext w) (U_channelcreate fl) w1 = Some (gbl_next_channel_id (wk w) + 1, 0, no_info, w2)"
    and "kinv H (wk w2)" and "w2 = w\<lparr>wk := wk w2, wnext := wnext w + 1,
      wfiles := (wfiles w)(wnext w \<mapsto> (True, Some (next_addr (wk w)), False))\<rparr>"
    and "next_addr (wk w) \<in> set (process_entries (wk w2))" and "procs (wk w) (next_addr (wk w)) = None"
    and "procs (wk w2) = (procs (wk w))(next_addr (wk w) \<mapsto> pc)" and "pid pc = wpid w" and "pe_refcnt pc = 1"
    and "channels pc = [c]" and "chans (wk w2) c = Some ch" and "chid ch = gbl_next_channel_id (wk w) + 1"
    and "gbl_next_channel_id (wk w2) = gbl_next_channel_id (wk w) + 1"
    and "qnx_max_channels_per_process (wk w2) = qnx_max_channels_per_process (wk w)"
proof -
  let ?i = "gbl_next_channel_id (wk w)" and ?e = "next_addr (wk w)"
  let ?s1 = "opened env (wpid w) (wk w)" and ?pe = "qnx_process_entry_init env (wpid w) (wk w)"
  let ?w1 = "w\<lparr>wk := ?s1, wnext := wnext w + 1, wfiles := (wfiles w)(wnext w \<mapsto> (True, Some ?e, False))\<rparr>"
  have opn: "kernel_open env True w = Some (wnext w, 0, ?w1)"
    using open_rdwr_eq [OF assms(1), of env "wpid w"] assms(2,3) by (simp add: kernel_open_def)
  have k1: "kinv H ?s1" by (rule kinv_opened [OF assms(1,2)])
  have at1: "procs ?s1 = (procs (wk w))(?e \<mapsto> ?pe)" "gbl_next_channel_id ?s1 = ?i" "?e \<in> set (process_entries ?s1)"
    "qnx_max_channels_per_process ?s1 = qnx_max_channels_per_process (wk w)"
    by (simp_all add: opened_def qnx_driver_data_add_process_def store_proc_def)
  have pe: "channels ?pe = []" "pid ?pe = wpid w" "pe_refcnt ?pe = 1" by (simp_all add: qnx_process_entry_init_def)
  have new: "procs (wk w) ?e = None" using kinvD(7) [OF assms(1)] by (simp add: fresh_inv_def)
  have pos: "0 \<le> ?i" using kinvD(5) [OF assms(1)] by (simp add: ids_inv_def)
  have lim: "gbl_next_channel_id ?s1 < 2 ^ 31 - 1" and here: "procs ?s1 ?e = Some ?pe" using at1(1,2) assms(6) by simp_all
  from k1 here lim show thesis
  proof (cases rule: kinv_add_channel [where env = env])
    case (made s' c ch)
    let ?w2 = "?w1\<lparr>wk := s'\<rparr>"
    have "kernel_ioctl env sc t (wnext w) (U_channelcreate fl) ?w1 = Some (?i + 1, 0, no_info, ?w2)" for sc t
      using made(3) here at1(2) pe(2) pos
      by (simp add: kernel_ioctl_def qnxcomm_ioctl_def ioctl_dispatch_def no_write_def written_info_def)
    moreover have "gbl_next_channel_id s' = ?i + 1" "qnx_max_channels_per_process s' = qnx_max_channels_per_process (wk w)"
      using made(1-3) here at1(2,4) lim pos
      by (auto simp: qnx_process_entry_add_channel_def qnx_channel_init_def get_new_channel_id_def alloc_def store_proc_def
          store_chan_def wrap32_small Let_def split: if_splits)
    ultimately show thesis
      using that [OF opn, of ?w2 "?pe\<lparr>channels := [c]\<rparr>" c ch] made at1 pe new by simp
  qed (use assms(4,5) at1(4) pe(1) in \<open>simp_all add: get_num_channels_unlocked_def\<close>)
qed

text \<open>Closing the last file of a process.\<close>

lemma last_close:
  assumes "kinv H (wk w)" and "wfiles w fd = Some (True, Some e, False)" and "e \<in> set (process_entries (wk w))"
    and "procs (wk w) e = Some pe" and "pe_refcnt pe = 1"
  obtains s where "kernel_close fd w = Some (0, 0, w\<lparr>wfiles := (wfiles w)(fd := None), wk := s\<rparr>)" and "kinv H s"
    and "\<not> listed s (pid pe)" and "procs s = (procs (wk w))(e := None)" and "counters s = counters (wk w)"
proof -
  obtain s where s: "qnxcomm_close True (nat fd) (Some e) (wk w) = Some (0, None, s)" "kinv H s"
    "\<not> listed s (pid pe)" "procs s = (procs (wk w))(e := None)"
    by (rule close_last_file [OF assms(1,3,4,5)]) blast
  then show thesis using that [of s] assms(2) close_counters [OF s(1)] by (simp add: kernel_close_def)
qed

text \<open>Then opening the device again: a new and empty entry.\<close>

lemma device_reset:
  assumes "kinv H (wk w)" and "wfiles w fd = Some (True, Some e, False)" and "e \<in> set (process_entries (wk w))"
    and "procs (wk w) e = Some pe" and "pe_refcnt pe = 1" and "wpid w = pid pe" and "kmalloc env A_entry 0"
  obtains w2 w3 e' pc where "kernel_close fd w = Some (0, 0, w2)" and "kernel_open env True w2 = Some (wnext w, 0, w3)"
    and "wfiles w3 (wnext w) = Some (True, Some e', False)" and "procs (wk w3) e = None" and "procs (wk w3) e' = Some pc"
    and "pid pc = pid pe" and "channels pc = []" and "\<And>coid. table_map (connections pc) coid = None"
    and "kinv H (wk w3)" and "\<And>c. c \<in> set (channels pe) \<Longrightarrow> \<not> owned (procs (wk w3)) c"
proof -
  obtain s where s: "kernel_close fd w = Some (0, 0, w\<lparr>wfiles := (wfiles w)(fd := None), wk := s\<rparr>)" "kinv H s"
    "\<not> listed s (pid pe)" "procs s = (procs (wk w))(e := None)" "counters s = counters (wk w)"
    by (rule last_close [OF assms(1-5)])
  let ?w2 = "w\<lparr>wfiles := (wfiles w)(fd := None), wk := s\<rparr>"
  let ?e = "next_addr s" and ?pc = "qnx_process_entry_init env (pid pe) s"
  let ?w3 = "?w2\<lparr>wk := opened env (pid pe) s, wnext := wnext w + 1,
    wfiles := (wfiles ?w2)(wnext w \<mapsto> (True, Some ?e, False))\<rparr>"
  have "e < next_addr (wk w)" using kinvD(7) [OF assms(1)] assms(4) by (force simp: fresh_inv_def not_less [symmetric])
  then have new: "e < ?e" using s(5) by (simp add: counters_def)
  have "kernel_open env True ?w2 = Some (wnext w, 0, ?w3)"
    using open_rdwr_eq [OF s(2), of env "pid pe"] s(3) assms(6,7) by (simp add: kernel_open_def)
  moreover have "procs (opened env (pid pe) s) e = None" "procs (opened env (pid pe) s) ?e = Some ?pc"
    using s(4) new by (simp_all add: opened_def qnx_driver_data_add_process_def)
  moreover have "pid ?pc = pid pe" "channels ?pc = []" "table_map (connections ?pc) coid = None" for coid
    using fresh_table_empty by (simp_all add: qnx_process_entry_init_def)
  moreover have "kinv H (opened env (pid pe) s)" by (rule kinv_opened [OF s(2,3)])
  moreover have "\<not> owned (procs (opened env (pid pe) s)) c" if "c \<in> set (channels pe)" for c
  proof -
    have "c \<notin> set (channels px)" if "procs (wk w) x = Some px" "x \<noteq> e" for x px
      using kinvD(2) [OF assms(1)] assms(4) \<open>c \<in> set (channels pe)\<close> that unfolding procs_inv_def by blast
    then show ?thesis
      using s(4) by (auto simp: owned_def opened_def qnx_driver_data_add_process_def qnx_process_entry_init_def store_proc_def split: if_splits)
  qed
  ultimately show thesis using that [OF s(1), of ?w3 ?e ?pc] by simp
qed

lemma unowned_channel_gone: "kinv H s \<Longrightarrow> \<not> owned (procs s) c \<Longrightarrow> H c = 0 \<Longrightarrow> chans s c = None"
  using kinvD(3) [of H s] unfolding refs_inv_def refs_def by (cases "chans s c") force+

text \<open>The first call of a child through the inherited descriptor, and its \<open>close\<close>.\<close>

lemma forked_refused:
  assumes "wfiles w fd = Some (rdwr, Some e, shared)" and "procs (wk w) e = Some pe" and "p \<noteq> pid pe"
  shows "kernel_ioctl env sc t fd (U_channelcreate fl) (forked p w) = Some (- 1, ENOSPC, no_info, forked p w)"
  using assms by (simp add: kernel_ioctl_def forked_def qnxcomm_ioctl_def written_info_def)

lemma forked_closes:
  assumes "wfiles w fd = Some (rdwr, Some e, shared)"
  shows "kernel_close fd (forked p w) = Some (0, 0, (forked p w)\<lparr>wfiles := (wfiles (forked p w))(fd := None)\<rparr>)"
  using assms by (simp add: kernel_close_def forked_def)

section \<open>Properties\<close>

text \<open>
  C25. After a fork. The child inherits the descriptor of its parent, and its first call through
  it is refused by the module with \<open>ENOSPC\<close>; the library then opens the device for the child
  and repeats the call. So \<open>ChannelCreate\<close> in the child returns a fresh channel id, the new
  channel belongs to an entry of the child on a new descriptor, and the parent's entry is as
  before.
\<close>

theorem fork_reconnects:
  assumes "kinv H (wk w)" and "wfiles w (ufd u) = Some (rdwr, Some e, shared)" and "procs (wk w) e = Some pe"
    and "p \<noteq> pid pe" and "\<not> listed (wk w) p" and "kmalloc env A_entry 0" and "kmalloc env A_channel 0"
    and "0 < qnx_max_channels_per_process (wk w)" and "gbl_next_channel_id (wk w) < 2 ^ 31 - 1"
    and "0 \<le> ufd u" and "world u = forked p w"
  shows "\<exists>rc u' pc. ChannelCreate (kernel_os env sc t clk) fl u = Some (rc, u') \<and>
    rc = gbl_next_channel_id (wk w) + 1 \<and> ufd u' = wnext w \<and> kinv H (wk (world u')) \<and>
    wfiles (world u') (wnext w) = Some (True, Some (next_addr (wk w)), False) \<and>
    procs (wk (world u')) (next_addr (wk w)) = Some pc \<and> pid pc = p \<and> length (channels pc) = 1 \<and>
    procs (wk (world u')) e = Some pe"
proof -
  let ?os = "kernel_os env sc t clk" and ?c = "U_channelcreate fl" and ?w = "forked p w"
  let ?w2 = "?w\<lparr>wfiles := (wfiles ?w)(ufd u := None)\<rparr>"
  have same: "wk ?w2 = wk w" "wpid ?w2 = p" "wnext ?w2 = wnext w" by (simp_all add: forked_def)
  have first: "os_ioctl ?os (ufd u) ?c (world u) = Some (- 1, ENOSPC, no_info, ?w)"
    using forked_refused [OF assms(2-4)] assms(11) by (simp add: kernel_os_def)
  have shut: "close_loop ?os (ufd u) en ?w = Some (en, ?w2)" for en
    using forked_closes [OF assms(2)] by (subst close_loop.simps) (simp add: kernel_os_def)
  obtain w3 w4 pc c ch where n: "kernel_open env True ?w2 = Some (wnext w, 0, w3)"
    "\<And>sc t. kernel_ioctl env sc t (wnext w) ?c w3 = Some (gbl_next_channel_id (wk w) + 1, 0, no_info, w4)" "kinv H (wk w4)"
    "w4 = ?w2\<lparr>wk := wk w4, wnext := wnext w + 1, wfiles := (wfiles ?w2)(wnext w \<mapsto> (True, Some (next_addr (wk w)), False))\<rparr>"
    "procs (wk w) (next_addr (wk w)) = None" "procs (wk w4) = (procs (wk w))(next_addr (wk w) \<mapsto> pc)" "pid pc = p" "channels pc = [c]"
    by (rule new_device_creates [of H ?w2 env fl, unfolded same, OF assms(1,5-9)]) blast
  have pos: "0 \<le> gbl_next_channel_id (wk w)" using kinvD(5) [OF assms(1)] by (simp add: ids_inv_def)
  have opn: "os_open ?os True ?w2 = Some (wnext w, 0, w3)" using n(1) by (simp add: kernel_os_def)
  let ?u = "u\<lparr>ufd := wnext w, uerrno := if wnext w < 0 then 0 else ENOSPC, world := w4\<rparr>"
  have "ChannelCreate ?os fl u = Some (gbl_next_channel_id (wk w) + 1, ?u)"
    using safe_ioctl_enospc [OF first _ shut opn] n(2) assms(10) pos
    by (simp add: ChannelCreate_def with_device_def plain_call_def kernel_os_def)
  moreover have "wfiles w4 (wnext w) = Some (True, Some (next_addr (wk w)), False)" using arg_cong [OF n(4), of wfiles] by simp
  moreover have "e \<noteq> next_addr (wk w)" using n(5) assms(3) by auto
  ultimately show ?thesis using n(3,6-8) assms(3) by simp
qed

text \<open>A client with the device open on descriptor 3, and its child.\<close>

definition demo_world :: uworld where
  "demo_world = \<lparr>wk = demo_kernel, wfiles = [3 \<mapsto> (True, Some 3, False)], wnext = 4, wpid = 8\<rparr>"

definition demo_child :: "uworld ulib" where
  "demo_child = \<lparr>ufd = 3, uerrno = 0, sTimerTimeout = \<lparr>tv_ntime = UINT64_MAX, tv_otime = 0\<rparr>, stores = [],
     world = forked 9 demo_world\<rparr>"

definition demo_sched :: sched where
  "demo_sched = \<lparr>others = (\<lambda>s. s), ms_left = 0, sig_pending = False, wakes = [], wait_left = 0\<rparr>"

theorem fork_reconnects_witness:
  "\<exists>u'. ChannelCreate (kernel_os demo_env demo_sched 5 (\<lambda>_. (0, 0))) 0 demo_child = Some (2, u') \<and> ufd u' = 4"
proof -
  have "kinv (\<lambda>_. 0) (wk demo_world)" using demo_kernel_inv by (simp add: demo_world_def)
  moreover have "wfiles demo_world (ufd demo_child) = Some (True, Some 3, False)" "procs (wk demo_world) 3 = Some demo_client"
    "9 \<noteq> pid demo_client" "\<not> listed (wk demo_world) 9" "kmalloc demo_env A_entry 0" "kmalloc demo_env A_channel 0"
    "0 < qnx_max_channels_per_process (wk demo_world)" "gbl_next_channel_id (wk demo_world) < 2 ^ 31 - 1"
    "0 \<le> ufd demo_child" "world demo_child = forked 9 demo_world"
    by (auto simp: demo_world_def demo_child_def demo_defs demo_env_def listed_def)
  ultimately show ?thesis
    using fork_reconnects [of "\<lambda>_. 0" demo_world demo_child True 3 False demo_client 9 demo_env demo_sched 5 "\<lambda>_. (0, 0)" 0]
    by (auto simp: demo_world_def demo_kernel_def)
qed

text \<open>
  C40. A server can make the library of its client drop everything. A client that has the device
  open on a descriptor of its own and no poll file sends a message; the server receives it and
  answers with \<open>MsgReply\<close> and the status \<open>-ENOSPC\<close>. That is also the error number of the module for a
  call after a fork. The library takes it for one: it closes the device and repeats the request on
  a new descriptor, whose entry is empty. The old entry with its connections is gone, no process owns the old channels any
  more, and those on which no thread is in a call are freed.
\<close>

theorem enospc_reply_resets_client:
  assumes "kenv_ok env" and "kinv H (wk (world u))" and "procs (wk (world u)) e = Some pe" and "gbl_next_rcvid (wk (world u)) < 2 ^ 31 - 1"
    and "int_range (ms_coid io)" and "routes (wk (world u)) e (ms_coid io) cn c" and "chans (wk (world u)) c = Some ch" and "waiting ch = []"
    and "kmalloc env A_inbuf (iov_len (ms_in io))" and "copy_from_user env (iov_base (ms_in io)) (iov_len (ms_in io)) = Some bs"
    and server: "q \<in> set (process_entries (wk (world u)))" "procs (wk (world u)) q = Some qe" "pid qe = conn_pid cn" "rcv_chid rio = conn_chid cn"
    and receive: "0 \<le> receive_rc left" "store_to_user renv ua"
      "copy_to_user renv (iov_base (rcv_out rio)) (take (iov_len (rcv_out rio)) bs)"
    and reply: "kenv_ok penv" "iov_base (ms_out io) \<noteq> 0" "0 < iov_len (ms_out io)" "0 < iov_len src"
      "kmalloc penv A_reply (iov_len src)" "copy_from_user penv (iov_base src) (iov_len src) = Some rs"
      "copy_to_user env (iov_base (ms_out io)) (take (iov_len (ms_out io)) rs)"
    and device: "wfiles (world u) (ufd u) = Some (True, Some e, False)" "e \<in> set (process_entries (wk (world u)))" "pe_refcnt pe = 1"
      "wpid (world u) = pid pe" "kmalloc env A_entry 0"
  shows "\<exists>s1 ws s2 s3 u2 e' pc.
    handle_msgsend_enter env (Some io) t e (wk (world u)) = Some (Blocked c (next_addr (wk (world u))), s1) \<and>
    handle_msgreceive renv ua (Some rio) q (\<lambda>s. s) left s1 = Some (gbl_next_rcvid (wk (world u)) + 1, ws, s2) \<and>
    handle_msgreply penv q \<lparr>rep_rcvid = gbl_next_rcvid (wk (world u)) + 1, rep_status = - ENOSPC, rep_in = src\<rparr> s2 = Some (0, s3) \<and>
    safe_ioctl (kernel_os env (sc\<lparr>others := \<lambda>_. s3\<rparr>) t clk) (U_msgsend io) u =
      ioctl_rounds 1 (kernel_os env (sc\<lparr>others := \<lambda>_. s3\<rparr>) t clk) (U_msgsend io) u2 \<and>
    ufd u2 = wnext (world u) \<and> wfiles (world u2) (ufd u2) = Some (True, Some e', False) \<and>
    procs (wk (world u2)) e = None \<and> procs (wk (world u2)) e' = Some pc \<and> pid pc = pid pe \<and>
    channels pc = [] \<and> (\<forall>coid. table_map (connections pc) coid = None) \<and>
    (\<forall>x \<in> set (channels pe). \<not> owned (procs (wk (world u2))) x \<and> (H x = 0 \<longrightarrow> chans (wk (world u2)) x = None))"
proof (rule exchange [OF assms(1-10) server receive reply, where t = t and st = "- ENOSPC" and ms = "ms_left sc" and sg = "sig_pending sc"])
  let ?w = "world u"
  fix i s1 s2 s3 s4
  assume x: "handle_msgsend_enter env (Some io) t e (wk ?w) = Some (Blocked c (next_addr (wk ?w)), s1)"
    "handle_msgreceive renv ua (Some rio) q (\<lambda>s. s) left s1 =
       Some (gbl_next_rcvid (wk ?w) + 1, [Bytes (iov_base (rcv_out rio)) (take (iov_len (rcv_out rio)) bs),
                                   Receive_info ua (rio\<lparr>rcv_info := i\<rparr>)], s2)"
    "handle_msgreply penv q \<lparr>rep_rcvid = gbl_next_rcvid (wk ?w) + 1, rep_status = - ENOSPC, rep_in = src\<rparr> s2 = Some (0, s3)"
    "handle_msgsend env (Some io) t e (\<lambda>_. s3) (ms_left sc) (sig_pending sc) (wk ?w) =
       Some (Some (- ENOSPC), if 0 \<le> - ENOSPC then [Bytes (iov_base (ms_out io)) (take (iov_len (ms_out io)) rs)] else [], s4)"
    "kinv H s4" "procs s4 = procs (wk ?w)" "process_entries s4 = process_entries (wk ?w)"
  let ?os = "kernel_os env (sc\<lparr>others := \<lambda>_. s3\<rparr>) t clk" and ?w4 = "?w\<lparr>wk := s4\<rparr>"
  have first: "os_ioctl ?os (ufd u) (U_msgsend io) ?w = Some (- 1, ENOSPC, no_info, ?w4)"
    using x(4) device(1,4) assms(3)
    by (simp add: kernel_os_def kernel_ioctl_def qnxcomm_ioctl_def ioctl_dispatch_def ucall_args_def written_info_def)
  have at: "kinv H (wk ?w4)" "wfiles ?w4 (ufd u) = Some (True, Some e, False)" "e \<in> set (process_entries (wk ?w4))"
    "procs (wk ?w4) e = Some pe" "wpid ?w4 = pid pe" using x(5-7) device assms(3) by simp_all
  obtain w2 w3 e' pc where r: "kernel_close (ufd u) ?w4 = Some (0, 0, w2)" "kernel_open env True w2 = Some (wnext ?w4, 0, w3)"
    "wfiles w3 (wnext ?w4) = Some (True, Some e', False)" "procs (wk w3) e = None" "procs (wk w3) e' = Some pc"
    "pid pc = pid pe" "channels pc = []" "\<And>coid. table_map (connections pc) coid = None" "kinv H (wk w3)"
    "\<And>c. c \<in> set (channels pe) \<Longrightarrow> \<not> owned (procs (wk w3)) c"
    by (rule device_reset [OF at(1-4) device(3) at(5) device(5)]) blast
  have shut: "close_loop ?os (ufd u) en ?w4 = Some (en, w2)" for en
    using r(1) by (subst close_loop.simps) (simp add: kernel_os_def)
  have opn: "os_open ?os True w2 = Some (wnext ?w, 0, w3)" using r(2) by (simp add: kernel_os_def)
  let ?u2 = "u\<lparr>ufd := wnext ?w, uerrno := if wnext ?w < 0 then 0 else ENOSPC, world := w3\<rparr>"
  have "safe_ioctl ?os (U_msgsend io) u = ioctl_rounds 1 ?os (U_msgsend io) ?u2"
    by (rule safe_ioctl_enospc [OF first _ shut opn]) simp
  moreover have "\<not> owned (procs (wk w3)) y \<and> (H y = 0 \<longrightarrow> chans (wk w3) y = None)" if "y \<in> set (channels pe)" for y
    using r(10) [OF that] unowned_channel_gone [OF r(9)] by blast
  ultimately show ?thesis
    using x(1-3) r(3-8)
    by (intro exI [of _ s1] exI [of _ "[Bytes (iov_base (rcv_out rio)) (take (iov_len (rcv_out rio)) bs), Receive_info ua (rio\<lparr>rcv_info := i\<rparr>)]"]
        exI [of _ s2] exI [of _ s3] exI [of _ ?u2] exI [of _ e'] exI [of _ pc]) (simp del: ioctl_rounds.simps One_nat_def)
qed

text \<open>The client of the demo world sends to the server of \<open>demo_kernel\<close>, which replies with status \<open>-ENOSPC\<close>.\<close>

definition demo_sender :: "uworld ulib" where
  "demo_sender = demo_child\<lparr>world := demo_world\<rparr>"

theorem enospc_reply_resets_client_witness:
  "\<exists>sc u2 e' pc. safe_ioctl (kernel_os demo_env sc 5 (\<lambda>_. (0, 0))) (U_msgsend demo_io) demo_sender =
      ioctl_rounds 1 (kernel_os demo_env sc 5 (\<lambda>_. (0, 0))) (U_msgsend demo_io) u2 \<and>
    procs (wk (world u2)) 3 = None \<and> procs (wk (world u2)) e' = Some pc \<and> table_map (connections pc) 1 = None"
proof -
  let ?rio = "\<lparr>rcv_chid = 1, rcv_timeout_ms = 10, rcv_out = \<lparr>iov_base = 1024, iov_len = 64\<rparr>, rcv_info = zero_info\<rparr>"
  have w: "wk (world demo_sender) = demo_kernel" by (simp add: demo_sender_def demo_world_def)
  have at: "chans demo_kernel 2 = Some \<lparr>ch_refcnt = 1, chid = 1, waiting = [], num_waiting = 0, num_waiting_noreply = 0\<rparr>"
    "gbl_next_rcvid demo_kernel < 2 ^ 31 - 1" "1 \<in> set (process_entries demo_kernel)" "pid demo_server = 7"
    by (simp_all add: demo_defs)
  have dev: "wfiles (world demo_sender) (ufd demo_sender) = Some (True, Some 3, False)" "3 \<in> set (process_entries demo_kernel)"
    "pe_refcnt demo_client = 1" "wpid (world demo_sender) = pid demo_client" "kmalloc demo_env A_entry 0"
    by (simp_all add: demo_sender_def demo_child_def demo_world_def demo_defs demo_env_def)
  have "\<exists>s1 ws s2 s3 u2 e' pc.
    handle_msgsend_enter demo_env (Some demo_io) 5 3 demo_kernel = Some (Blocked 2 (next_addr demo_kernel), s1) \<and>
    handle_msgreceive demo_env 512 (Some ?rio) 1 (\<lambda>s. s) 1 s1 = Some (gbl_next_rcvid demo_kernel + 1, ws, s2) \<and>
    handle_msgreply demo_env 1 \<lparr>rep_rcvid = gbl_next_rcvid demo_kernel + 1, rep_status = - ENOSPC, rep_in = \<lparr>iov_base = 32, iov_len = 4\<rparr>\<rparr> s2 = Some (0, s3) \<and>
    safe_ioctl (kernel_os demo_env (demo_sched\<lparr>others := \<lambda>_. s3\<rparr>) 5 (\<lambda>_. (0, 0))) (U_msgsend demo_io) demo_sender =
      ioctl_rounds 1 (kernel_os demo_env (demo_sched\<lparr>others := \<lambda>_. s3\<rparr>) 5 (\<lambda>_. (0, 0))) (U_msgsend demo_io) u2 \<and>
    ufd u2 = wnext (world demo_sender) \<and> wfiles (world u2) (ufd u2) = Some (True, Some e', False) \<and>
    procs (wk (world u2)) 3 = None \<and> procs (wk (world u2)) e' = Some pc \<and> pid pc = pid demo_client \<and>
    channels pc = [] \<and> (\<forall>coid. table_map (connections pc) coid = None) \<and>
    (\<forall>x \<in> set (channels demo_client). \<not> owned (procs (wk (world u2))) x \<and> ((0 :: nat) = 0 \<longrightarrow> chans (wk (world u2)) x = None))"
    by (rule enospc_reply_resets_client [of demo_env "\<lambda>_. 0" demo_sender 3 demo_client demo_io "\<lparr>conn_pid = 7, conn_chid = 1\<rparr>" 2 _
          "[16, 17, 18]" 1 demo_server ?rio 1 demo_env 512 demo_env "\<lparr>iov_base = 32, iov_len = 4\<rparr>" "[32, 33, 34, 35]",
          unfolded w, OF demo_env_ok demo_kernel_inv demo_kernel_procs(2) at(2) _ _ at(1) _ _ _ at(3) demo_kernel_procs(1)
            _ _ _ _ _ demo_env_ok _ _ _ _ _ _ dev])
      (use demo_routes at(4) in \<open>simp_all add: demo_io_def demo_env_def int_range_def upt_rec\<close>)
  then show ?thesis by blast
qed

end
