(* ===== verification/Library_Threads.thy ===== *)
theory Library_Threads
  imports Library_On_Kernel
begin

text \<open>
  Threads that share the library of \<^verbatim>\<open>src/userspace/userspace.cpp\<close>: the descriptor \<open>fd\<close> and the mutex
  \<open>mtx\<close> are variables of the process, while \<open>errno\<close> belongs to each thread. The test of \<open>fd\<close> and
  \<open>safe_ioctl\<close> are cut into steps at every read and write of \<open>fd\<close>, at every system call and at the
  lock, and the steps of any number of threads are interleaved.
\<close>

section \<open>Steps\<close>

text \<open>
  Where a thread is in a call. \<open>Checking\<close>: before the test of \<open>fd\<close>; \<open>Reading\<close>: at the top of the loop,
  with the rounds left; \<open>Issuing\<close>: with the descriptor for \<open>ioctl\<close> in hand; \<open>Locking\<close>: before
  \<open>mtx\<close>; \<open>Closing\<close>, \<open>Opening\<close> and \<open>Storing\<close>: with \<open>mtx\<close> held, before \<open>close\<close>, before \<open>open\<close> and before
  the assignment to \<open>fd\<close>, after which the lock is released; \<open>Back\<close>: returned.
\<close>

datatype upc =
    Out
  | Checking ucall
  | Reading nat ucall
  | Issuing nat ucall int
  | Locking nat ucall int msg_info
  | Closing nat ucall int msg_info
  | Opening nat ucall int msg_info
  | Storing nat ucall int msg_info int
  | Back int msg_info

record 'w uprocess =
  pfd :: int
  pmtx :: "tid option"
  pworld :: 'w
  pcs :: "tid \<Rightarrow> upc"
  errnos :: "tid \<Rightarrow> int"

fun critical :: "upc \<Rightarrow> bool" where
  "critical (Closing n c rc info) \<longleftrightarrow> True"
| "critical (Opening n c rc info) \<longleftrightarrow> True"
| "critical (Storing n c rc info f) \<longleftrightarrow> True"
| "critical _ \<longleftrightarrow> False"

fun in_call :: "upc \<Rightarrow> bool" where
  "in_call Out \<longleftrightarrow> False"
| "in_call (Back rc info) \<longleftrightarrow> False"
| "in_call _ \<longleftrightarrow> True"

text \<open>A thread in a call runs unless it waits for the mutex.\<close>

definition can_run :: "tid \<Rightarrow> 'w uprocess \<Rightarrow> bool" where
  "can_run t L \<longleftrightarrow> in_call (pcs L t) \<and> ((\<exists>n c rc info. pcs L t = Locking n c rc info) \<longrightarrow> pmtx L = None)"

definition goto :: "tid \<Rightarrow> upc \<Rightarrow> int \<Rightarrow> 'w \<Rightarrow> 'w uprocess \<Rightarrow> 'w uprocess" where
  "goto t x en w L = L\<lparr>pworld := w, pcs := (pcs L)(t := x), errnos := (errnos L)(t := en)\<rparr>"

text \<open>
  One step of the thread \<open>t\<close>; \<open>os t\<close> are the system calls as this thread makes them. \<open>None\<close> is a
  system call that does not return.
\<close>

definition thread_move :: "(tid \<Rightarrow> 'w os) \<Rightarrow> tid \<Rightarrow> 'w uprocess \<Rightarrow> 'w uprocess option" where
  "thread_move os t L =
     (let en = errnos L t; w = pworld L in
      case pcs L t of
        Checking c \<Rightarrow>
          Some (if pfd L \<ge> 0 then goto t (Reading 2 c) en w L else goto t (Back (- 1) no_info) ESRCH w L)
      | Reading n c \<Rightarrow> Some (goto t (Issuing n c (pfd L)) en w L)
      | Issuing n c f \<Rightarrow>
          do { (rc, e, info, w') \<leftarrow> os_ioctl (os t) f c w;
               let en' = (if rc < 0 then e else en);
               Some (goto t (if rc < 0 \<and> en' = ENOSPC then Locking n c rc info else Back rc info) en' w' L) }
      | Locking n c rc info \<Rightarrow> Some (goto t (Closing n c rc info) en w (L\<lparr>pmtx := Some t\<rparr>))
      | Closing n c rc info \<Rightarrow>
          do { (r, e, w') \<leftarrow> os_close (os t) (pfd L) w;
               Some (goto t (if r \<noteq> 0 \<and> e = EINTR then Closing n c rc info else Opening n c rc info)
                       (if r \<noteq> 0 then e else en) w' L) }
      | Opening n c rc info \<Rightarrow>
          do { (f, e, w') \<leftarrow> os_open (os t) True w;
               Some (goto t (Storing n c rc info f) (if f < 0 then e else en) w' L) }
      | Storing n c rc info f \<Rightarrow>
          Some (goto t (if n \<le> 1 then Back rc info else Reading (n - 1) c) en w (L\<lparr>pfd := f, pmtx := None\<rparr>))
      | _ \<Rightarrow> None)"

text \<open>A sequence of steps, by the threads in the list.\<close>

fun moves :: "(tid \<Rightarrow> 'w os) \<Rightarrow> tid list \<Rightarrow> 'w uprocess \<Rightarrow> 'w uprocess option" where
  "moves os [] L = Some L"
| "moves os (t # ts) L = (if can_run t L then do { L' \<leftarrow> thread_move os t L; moves os ts L' } else None)"

lemma moves_append: "moves os (ts @ us) L = do { L' \<leftarrow> moves os ts L; moves os us L' }"
  by (induction ts arbitrary: L) (auto split: bind_splits)

text \<open>The states of a process that starts with no thread in the library.\<close>

inductive shared_reach :: "(tid \<Rightarrow> 'w os) \<Rightarrow> 'w uprocess \<Rightarrow> 'w uprocess \<Rightarrow> bool" for os L0 where
  start: "shared_reach os L0 L0"
| call: "shared_reach os L0 L \<Longrightarrow> \<not> in_call (pcs L t) \<Longrightarrow> shared_reach os L0 (L\<lparr>pcs := (pcs L)(t := Checking c)\<rparr>)"
| move: "shared_reach os L0 L \<Longrightarrow> can_run t L \<Longrightarrow> thread_move os t L = Some L' \<Longrightarrow> shared_reach os L0 L'"

definition idle_process :: "'w uprocess \<Rightarrow> bool" where
  "idle_process L \<longleftrightarrow> pmtx L = None \<and> (\<forall>t. \<not> in_call (pcs L t))"

lemma goto_simps [simp]:
  "pfd (goto t x en w L) = pfd L" "pmtx (goto t x en w L) = pmtx L" "pworld (goto t x en w L) = w"
  "pcs (goto t x en w L) = (pcs L)(t := x)" "errnos (goto t x en w L) = (errnos L)(t := en)"
  by (simp_all add: goto_def)

lemma critical_in_call: "critical x \<Longrightarrow> in_call x" by (cases x) simp_all

section \<open>A thread on its own\<close>

text \<open>What a thread sees of the process is the state of the library without threads.\<close>

definition view_of :: "tid \<Rightarrow> 'w uprocess \<Rightarrow> 'w ulib \<Rightarrow> bool" where
  "view_of t L u \<longleftrightarrow> pmtx L = None \<and> pfd L = ufd u \<and> pworld L = world u \<and> errnos L t = uerrno u"

definition rest_same :: "tid \<Rightarrow> 'w uprocess \<Rightarrow> 'w uprocess \<Rightarrow> bool" where
  "rest_same t L L' \<longleftrightarrow> (\<forall>s. s \<noteq> t \<longrightarrow> pcs L' s = pcs L s \<and> errnos L' s = errnos L s)"

definition alone :: "(tid \<Rightarrow> 'w os) \<Rightarrow> tid \<Rightarrow> 'w uprocess \<Rightarrow> 'w uprocess \<Rightarrow> bool" where
  "alone os t L L' \<longleftrightarrow> (\<exists>k. moves os (replicate k t) L = Some L') \<and> rest_same t L L'"

lemma alone_refl [intro]: "alone os t L L"
  unfolding alone_def rest_same_def by (auto intro: exI [of _ 0])

lemma alone_trans: "alone os t L L1 \<Longrightarrow> alone os t L1 L2 \<Longrightarrow> alone os t L L2"
  unfolding alone_def rest_same_def
  by (elim conjE exE, rule conjI, rule_tac x = "k + ka" in exI) (simp_all add: replicate_add moves_append)

lemma alone_move: "can_run t L \<Longrightarrow> thread_move os t L = Some L1 \<Longrightarrow> rest_same t L L1 \<Longrightarrow> alone os t L L1"
  unfolding alone_def by (auto intro: exI [of _ 1])

lemma failed_errno [simp]: "r < 0 \<and> (if r < 0 then e else x) = y \<longleftrightarrow> r < 0 \<and> e = y"
  by auto

lemma close_alone:
  fixes L :: "'w uprocess"
  assumes "close_loop (os t) (pfd L) (errnos L t) (pworld L) = Some (en, w')" and "pcs L t = Closing n c rc info"
  shows "alone os t L (goto t (Opening n c rc info) en w' L)"
proof -
  let ?P = "\<lambda>os' fd e w r. \<forall>L :: 'w uprocess. os' = os t \<and> pfd L = fd \<and> errnos L t = e \<and> pworld L = w \<and> pcs L t = Closing n c rc info \<longrightarrow>
      alone os t L (goto t (Opening n c rc info) (fst r) (snd r) L)"
  have "?P (os t) (pfd L) (errnos L t) (pworld L) (en, w')"
  proof (rule close_loop.raw_induct [where P = ?P, OF _ assms(1)], intro allI impI, elim conjE)
    fix cl os' fd e w r and K :: "'w uprocess"
    assume IH: "\<And>os' fd e w r. cl os' fd e w = Some r \<Longrightarrow> ?P os' fd e w r"
      and eq: "do { (rc, e', w') \<leftarrow> os_close os' fd w;
          if rc \<noteq> 0 \<and> e' = EINTR then cl os' fd e' w' else Some (if rc \<noteq> 0 then e' else e, w') } = Some r"
      and at: "os' = os t" "pfd K = fd" "errnos K t = e" "pworld K = w" "pcs K t = Closing n c rc info"
    obtain x e1 w1 where x: "os_close (os t) (pfd K) (pworld K) = Some (x, e1, w1)"
      using eq at by (auto elim!: bind_eq_SomeE)
    let ?K = "goto t (if x \<noteq> 0 \<and> e1 = EINTR then Closing n c rc info else Opening n c rc info)
        (if x \<noteq> 0 then e1 else errnos K t) w1 K"
    have run: "can_run t K" "thread_move os t K = Some ?K" "rest_same t K ?K"
      using at x by (simp_all add: can_run_def thread_move_def rest_same_def)
    show "alone os t K (goto t (Opening n c rc info) (fst r) (snd r) K)"
    proof (cases "x \<noteq> 0 \<and> e1 = EINTR")
      case True
      then have "cl (os t) fd e1 w1 = Some r" using eq at x by simp
      from IH [OF this] have "alone os t ?K (goto t (Opening n c rc info) (fst r) (snd r) ?K)" using True at by simp
      moreover have "goto t (Opening n c rc info) (fst r) (snd r) ?K = goto t (Opening n c rc info) (fst r) (snd r) K"
        by (simp add: goto_def)
      ultimately show ?thesis using alone_trans [OF alone_move [OF run]] by simp
    next
      case False
      then have "r = (if x \<noteq> 0 then e1 else errnos K t, w1)" using eq at x by (auto split: if_splits)
      then show ?thesis using alone_move [OF run] False by auto
    qed
  qed
  then show ?thesis using assms(2) by simp
qed

lemma rounds_alone:
  assumes "ioctl_rounds n (os t) c u = Some (rc, info, u')" and "view_of t L u" and "pcs L t = Reading n c"
  shows "\<exists>L'. alone os t L L' \<and> pcs L' t = Back rc info \<and> view_of t L' u'"
  using assms
proof (induction n arbitrary: u L)
  case (Suc n)
  obtain r e i w where io: "os_ioctl (os t) (ufd u) c (world u) = Some (r, e, i, w)"
    using Suc.prems(1) by (auto elim!: bind_eq_SomeE)
  let ?en = "if r < 0 then e else uerrno u" and ?again = "r < 0 \<and> e = ENOSPC"
  let ?L1 = "goto t (Issuing (Suc n) c (pfd L)) (errnos L t) (pworld L) L"
  let ?L2 = "goto t (if ?again then Locking (Suc n) c r i else Back r i) ?en w L"
  note v = Suc.prems(2) [unfolded view_of_def]
  have a1: "alone os t L ?L1"
    by (rule alone_move) (use Suc.prems(3) in \<open>simp_all add: can_run_def thread_move_def rest_same_def\<close>)
  have a2: "alone os t ?L1 ?L2"
    by (rule alone_move) (use io v in \<open>simp_all add: can_run_def thread_move_def rest_same_def goto_def\<close>)
  have a: "alone os t L ?L2" by (rule alone_trans [OF a1 a2])
  show ?case
  proof (cases ?again)
    case False
    then have "rc = r" "info = i" "u' = u\<lparr>uerrno := ?en, world := w\<rparr>" using Suc.prems(1) io by (auto simp: Let_def split: if_splits)
    then show ?thesis using a False v by (intro exI [of _ ?L2]) (auto simp: view_of_def)
  next
    case True
    then obtain en w1 where cl: "close_loop (os t) (ufd u) e w = Some (en, w1)"
      using Suc.prems(1) io by (auto simp: Let_def elim!: bind_eq_SomeE)
    obtain f e2 w2 where op: "os_open (os t) True w1 = Some (f, e2, w2)"
      using True Suc.prems(1) io cl by (auto simp: Let_def initialize_def elim!: bind_eq_SomeE)
    let ?u2 = "u\<lparr>ufd := f, uerrno := (if f < 0 then e2 else en), world := w2\<rparr>"
    have next_round: "(if n = 0 then Some (r, i, ?u2) else ioctl_rounds n (os t) c ?u2) = Some (rc, info, u')"
      using True Suc.prems(1) io cl op by (simp add: Let_def initialize_def cong: if_cong split del: if_split)
    let ?L3 = "goto t (Closing (Suc n) c r i) e w (L\<lparr>pmtx := Some t\<rparr>)"
    let ?L4 = "goto t (Opening (Suc n) c r i) en w1 ?L3"
    let ?L5 = "goto t (Storing (Suc n) c r i f) (if f < 0 then e2 else en) w2 ?L4"
    let ?L6 = "goto t (if n = 0 then Back r i else Reading n c) (if f < 0 then e2 else en) w2 (?L5\<lparr>pfd := f, pmtx := None\<rparr>)"
    have a3: "alone os t ?L2 ?L3"
      by (rule alone_move) (use True v in \<open>simp_all add: can_run_def thread_move_def rest_same_def goto_def\<close>)
    have a4: "alone os t ?L3 ?L4" by (rule close_alone) (use cl v in simp_all)
    have a5: "alone os t ?L4 ?L5"
      by (rule alone_move) (use op in \<open>simp_all add: can_run_def thread_move_def rest_same_def\<close>)
    have a6: "alone os t ?L5 ?L6"
      by (rule alone_move) (simp_all add: can_run_def thread_move_def rest_same_def)
    have l6: "alone os t L ?L6"
      by (rule alone_trans [OF a alone_trans [OF a3 alone_trans [OF a4 alone_trans [OF a5 a6]]]])
    have v6: "view_of t ?L6 ?u2" by (simp add: view_of_def)
    show ?thesis
    proof (cases "n = 0")
      case True
      then have "rc = r" "info = i" "u' = ?u2" using next_round by auto
      then show ?thesis using l6 v6 True by (intro exI [of _ ?L6]) simp
    next
      case False
      obtain L' where "alone os t ?L6 L'" "pcs L' t = Back rc info" "view_of t L' u'"
        using Suc.IH [OF _ v6] next_round False by auto
      then show ?thesis using alone_trans [OF l6] by blast
    qed
  qed
qed simp

section \<open>Descriptors\<close>

text \<open>
  The descriptors of the library: the one in \<open>fd\<close>, the one about to be stored there, or none,
  depending on the thread that has the mutex. Only after an interrupted \<open>close\<close> the one in \<open>fd\<close>
  may be gone already.
\<close>

definition holder :: "'w uprocess \<Rightarrow> upc option" where
  "holder L = map_option (pcs L) (pmtx L)"

fun own_fds :: "upc option \<Rightarrow> int \<Rightarrow> int set" where
  "own_fds (Some (Opening n c rc info)) fd = {}"
| "own_fds (Some (Storing n c rc info f)) fd = {f} \<inter> {0..}"
| "own_fds _ fd = {fd} \<inter> {0..}"

fun settled :: "upc option \<Rightarrow> bool" where
  "settled (Some (Closing n c rc info)) \<longleftrightarrow> False"
| "settled _ \<longleftrightarrow> True"

lemma holder_other:
  "pmtx L \<noteq> Some t \<Longrightarrow> holder (L\<lparr>pcs := (pcs L)(t := x)\<rparr>) = holder L"
  "pmtx L \<noteq> Some t \<Longrightarrow> holder (goto t x en w L) = holder L"
  by (cases "pmtx L"; auto simp: holder_def)+

text \<open>
  What the library relies on: \<open>opens w\<close> are the descriptors of the process for the device, opened for
  writing. A descriptor that \<open>open\<close> returns is new; \<open>close\<close> releases the descriptor whatever it
  returns, as it does on Linux; \<open>ioctl\<close> changes none.
\<close>

locale device_files =
  fixes os :: "tid \<Rightarrow> 'w os"
    and ok :: "'w \<Rightarrow> bool"
    and opens :: "'w \<Rightarrow> int set"
  assumes nonneg: "ok w \<Longrightarrow> f \<in> opens w \<Longrightarrow> 0 \<le> f"
    and opened: "ok w \<Longrightarrow> os_open (os t) True w = Some (f, e, w') \<Longrightarrow>
      ok w' \<and> f \<notin> opens w \<and> opens w' = (if 0 \<le> f then insert f (opens w) else opens w)"
    and closed: "ok w \<Longrightarrow> os_close (os t) f w = Some (r, e, w') \<Longrightarrow> ok w' \<and> opens w' = opens w - {f}"
    and called: "ok w \<Longrightarrow> os_ioctl (os t) f c w = Some (rc, e, info, w') \<Longrightarrow> ok w' \<and> opens w' = opens w"
begin

text \<open>The invariant, with the descriptors \<open>B\<close> that the process has besides.\<close>

definition shared_inv :: "int set \<Rightarrow> 'w uprocess \<Rightarrow> bool" where
  "shared_inv B L \<longleftrightarrow>
     ok (pworld L) \<and> (\<forall>t. critical (pcs L t) \<longleftrightarrow> pmtx L = Some t) \<and> B \<inter> own_fds (holder L) (pfd L) = {} \<and>
     B \<subseteq> opens (pworld L) \<and> opens (pworld L) \<subseteq> B \<union> own_fds (holder L) (pfd L) \<and>
     (settled (holder L) \<longrightarrow> opens (pworld L) = B \<union> own_fds (holder L) (pfd L))"

lemma call_inv:
  assumes "shared_inv B L" and "\<not> in_call (pcs L t)"
  shows "shared_inv B (L\<lparr>pcs := (pcs L)(t := Checking c)\<rparr>)"
proof -
  have "pmtx L \<noteq> Some t" using assms critical_in_call by (auto simp: shared_inv_def)
  then show ?thesis using assms(1) by (simp add: shared_inv_def holder_other)
qed

lemma outside_inv:
  assumes "shared_inv B L" and "pmtx L \<noteq> Some t" and "\<not> critical x" and "ok w" and "opens w = opens (pworld L)"
  shows "shared_inv B (goto t x en w L)"
  using assms by (simp add: shared_inv_def holder_other)

lemma outside_move:
  assumes inv: "shared_inv B L" and run: "can_run t L" and mv: "thread_move os t L = Some L'" and out: "\<not> critical (pcs L t)"
  shows "shared_inv B L'"
proof -
  have no: "pmtx L \<noteq> Some t" using inv out by (simp add: shared_inv_def)
  have ok: "ok (pworld L)" using inv by (simp add: shared_inv_def)
  note same = outside_inv [OF inv no _ ok refl]
  show ?thesis
  proof (cases "pcs L t")
    case (Checking c)
    then show ?thesis using mv same by (auto simp: thread_move_def Let_def)
  next
    case (Reading n c)
    then show ?thesis using mv same by (auto simp: thread_move_def Let_def)
  next
    case (Issuing n c f)
    then obtain rc e info w where io: "os_ioctl (os t) f c (pworld L) = Some (rc, e, info, w)"
      using mv by (auto simp: thread_move_def Let_def elim!: bind_eq_SomeE)
    have "L' = goto t (if rc < 0 \<and> e = ENOSPC then Locking n c rc info else Back rc info) (if rc < 0 then e else errnos L t) w L"
      using mv Issuing io by (simp add: thread_move_def)
    then show ?thesis using outside_inv [OF inv no] called [OF ok io] by simp
  next
    case (Locking n c rc info)
    then have free: "pmtx L = None" using run by (auto simp: can_run_def)
    have "L' = goto t (Closing n c rc info) (errnos L t) (pworld L) (L\<lparr>pmtx := Some t\<rparr>)"
      using mv Locking by (simp add: thread_move_def)
    then show ?thesis using inv free by (auto simp: shared_inv_def holder_def)
  qed (use mv out in \<open>simp_all add: thread_move_def\<close>)
qed

lemma inside_move:
  assumes inv: "shared_inv B L" and mv: "thread_move os t L = Some L'" and ins: "critical (pcs L t)"
  shows "shared_inv B L'"
proof -
  have mtx: "pmtx L = Some t" using inv ins by (simp add: shared_inv_def)
  have ok: "ok (pworld L)" and sole: "\<And>s. critical (pcs L s) \<longleftrightarrow> t = s" using inv mtx by (auto simp: shared_inv_def)
  have h: "holder L = Some (pcs L t)" using mtx by (simp add: holder_def)
  have D: "B \<inter> own_fds (holder L) (pfd L) = {}" "B \<subseteq> opens (pworld L)" "opens (pworld L) \<subseteq> B \<union> own_fds (holder L) (pfd L)"
    "settled (holder L) \<longrightarrow> opens (pworld L) = B \<union> own_fds (holder L) (pfd L)" using inv by (auto simp: shared_inv_def)
  have enter: "shared_inv B (goto t x en w L)"
    if "critical x" "ok w" "B \<inter> own_fds (Some x) (pfd L) = {}" "B \<subseteq> opens w" "opens w \<subseteq> B \<union> own_fds (Some x) (pfd L)"
      "settled (Some x) \<longrightarrow> opens w = B \<union> own_fds (Some x) (pfd L)" for x en w
    using that mtx sole by (simp add: shared_inv_def holder_def)
  show ?thesis
  proof (cases "pcs L t")
    case (Closing n c rc info)
    obtain r e w where w: "os_close (os t) (pfd L) (pworld L) = Some (r, e, w)"
      "L' = goto t (if r \<noteq> 0 \<and> e = EINTR then Closing n c rc info else Opening n c rc info) (if r \<noteq> 0 then e else errnos L t) w L"
      using mv Closing by (auto simp: thread_move_def Let_def elim!: bind_eq_SomeE)
    have "opens w = B" "B \<inter> {pfd L} \<inter> {0..} = {}" "ok w" using closed [OF ok w(1)] nonneg [OF ok] D Closing h by fastforce+
    then show ?thesis unfolding w(2) by (intro enter) (auto split: if_splits)
  next
    case (Opening n c rc info)
    obtain f e w where w: "os_open (os t) True (pworld L) = Some (f, e, w)"
      "L' = goto t (Storing n c rc info f) (if f < 0 then e else errnos L t) w L"
      using mv Opening by (auto simp: thread_move_def Let_def elim!: bind_eq_SomeE)
    show ?thesis unfolding w(2) using opened [OF ok w(1)] D Opening h by (intro enter) (auto split: if_splits)
  next
    case (Storing n c rc info f)
    then have "L' = goto t (if n \<le> 1 then Back rc info else Reading (n - 1) c) (errnos L t) (pworld L) (L\<lparr>pfd := f, pmtx := None\<rparr>)"
      using mv by (simp add: thread_move_def)
    then show ?thesis using D [unfolded h Storing] ok sole by (simp add: shared_inv_def) (simp add: holder_def Storing)
  qed (use ins in simp_all)
qed

lemma start_inv:
  assumes "idle_process L" and "ok (pworld L)" and "pfd L \<in> opens (pworld L) \<or> pfd L < 0"
  shows "shared_inv (opens (pworld L) - {pfd L}) L"
proof -
  have "\<not> critical (pcs L t)" for t using assms(1) critical_in_call by (auto simp: idle_process_def)
  then show ?thesis using assms nonneg [OF assms(2)] by (fastforce simp: shared_inv_def idle_process_def holder_def)
qed

lemma reach_inv:
  assumes "shared_reach os L0 L" and "idle_process L0" and "ok (pworld L0)" and "pfd L0 \<in> opens (pworld L0) \<or> pfd L0 < 0"
  shows "shared_inv (opens (pworld L0) - {pfd L0}) L"
  using assms(1)
proof (induction rule: shared_reach.induct)
  case start
  show ?case by (rule start_inv [OF assms(2-4)])
next
  case (call L t c)
  then show ?case by (intro call_inv)
next
  case (move L t L')
  then show ?case using outside_move inside_move by blast
qed

text \<open>The thread that has the mutex can run.\<close>

lemma some_thread_runs:
  assumes "shared_inv B L" and "in_call (pcs L t)"
  shows "\<exists>u. can_run u L"
proof (cases "pmtx L")
  case (Some u)
  then have "critical (pcs L u)" using assms(1) by (simp add: shared_inv_def)
  then show ?thesis using critical_in_call by (intro exI [of _ u]) (auto simp: can_run_def)
qed (use assms(2) in \<open>auto simp: can_run_def\<close>)

end

text \<open>The steps that a thread has at most left in its call.\<close>

fun work :: "upc \<Rightarrow> nat" where
  "work (Checking c) = 13"
| "work (Reading n c) = 6 * (n - 1) + 6"
| "work (Issuing n c f) = 6 * (n - 1) + 5"
| "work (Locking n c rc info) = 6 * (n - 1) + 4"
| "work (Closing n c rc info) = 6 * (n - 1) + 3"
| "work (Opening n c rc info) = 6 * (n - 1) + 2"
| "work (Storing n c rc info f) = 6 * (n - 1) + 1"
| "work _ = 0"

fun at_most_two :: "upc \<Rightarrow> bool" where
  "at_most_two (Reading n c) \<longleftrightarrow> n \<le> 2"
| "at_most_two (Issuing n c f) \<longleftrightarrow> n \<le> 2"
| "at_most_two (Locking n c rc info) \<longleftrightarrow> n \<le> 2"
| "at_most_two (Closing n c rc info) \<longleftrightarrow> n \<le> 2"
| "at_most_two (Opening n c rc info) \<longleftrightarrow> n \<le> 2"
| "at_most_two (Storing n c rc info f) \<longleftrightarrow> n \<le> 2"
| "at_most_two _ \<longleftrightarrow> True"

text \<open>When \<open>close\<close> is not interrupted, every step brings its thread nearer to the end of the call.\<close>

locale device_files_once = device_files +
  assumes close_once: "os_close (os t) f w = Some (r, e, w') \<Longrightarrow> \<not> (r \<noteq> 0 \<and> e = EINTR)"
begin

lemma move_works:
  assumes "thread_move os t L = Some L'"
  shows "work (pcs L' t) < work (pcs L t)" and "\<And>s. s \<noteq> t \<Longrightarrow> pcs L' s = pcs L s"
    and "at_most_two (pcs L t) \<Longrightarrow> at_most_two (pcs L' t)"
proof -
  have *: "work (pcs L' t) < work (pcs L t) \<and> (at_most_two (pcs L t) \<longrightarrow> at_most_two (pcs L' t)) \<and>
    (\<forall>s. s \<noteq> t \<longrightarrow> pcs L' s = pcs L s)"
  proof (cases "pcs L t")
    case (Closing n c rc info)
    then obtain r e w where "os_close (os t) (pfd L) (pworld L) = Some (r, e, w)"
      using assms by (auto simp: thread_move_def Let_def elim!: bind_eq_SomeE)
    moreover from this have "\<not> (r \<noteq> 0 \<and> e = EINTR)" by (rule close_once)
    ultimately show ?thesis using assms Closing by (auto simp: thread_move_def)
  qed (use assms in \<open>auto simp: thread_move_def Let_def elim!: bind_eq_SomeE\<close>)
  then show "work (pcs L' t) < work (pcs L t)" "\<And>s. s \<noteq> t \<Longrightarrow> pcs L' s = pcs L s"
    "at_most_two (pcs L t) \<Longrightarrow> at_most_two (pcs L' t)" by simp_all
qed

lemma moves_work:
  assumes "moves os ts L = Some L'" and "finite A" and "\<And>t. in_call (pcs L t) \<Longrightarrow> t \<in> A"
  shows "length ts + (\<Sum>t\<in>A. work (pcs L' t)) \<le> (\<Sum>t\<in>A. work (pcs L t))"
  using assms(1,3)
proof (induction ts arbitrary: L)
  case (Cons t ts)
  then obtain L1 where m: "can_run t L" "thread_move os t L = Some L1" "moves os ts L1 = Some L'"
    by (auto split: if_splits elim!: bind_eq_SomeE)
  have A: "t \<in> A" using m(1) Cons.prems(2) by (simp add: can_run_def)
  have "in_call (pcs L1 s) \<Longrightarrow> s \<in> A" for s using A Cons.prems(2) move_works(2) [OF m(2)] by (cases "s = t") auto
  then have "length ts + (\<Sum>t\<in>A. work (pcs L' t)) \<le> (\<Sum>t\<in>A. work (pcs L1 t))" using Cons.IH [OF m(3)] by blast
  also have "\<dots> < (\<Sum>t\<in>A. work (pcs L t))"
    by (rule sum_strict_mono_ex1 [OF assms(2)]) (use A move_works(1,2) [OF m(2)] in \<open>metis less_imp_le order_refl\<close>)+
  finally show ?case by simp
qed simp

lemma work_bound: "at_most_two x \<Longrightarrow> work x \<le> 13"
  by (cases x) simp_all

lemma reach_two:
  assumes "shared_reach os L0 L" and "idle_process L0"
  shows "at_most_two (pcs L t)"
  using assms(1)
proof (induction arbitrary: t rule: shared_reach.induct)
  case start
  have "\<not> in_call (pcs L0 t)" using assms(2) by (simp add: idle_process_def)
  then show ?case by (cases "pcs L0 t") simp_all
next
  case (move L u L')
  then show ?case using move_works(2,3) [OF move.hyps(3)] by (cases "t = u") auto
qed simp

lemma calls_end:
  assumes "shared_reach os L0 L" and "idle_process L0" and "moves os ts L = Some L'" and "finite {t. in_call (pcs L t)}"
  shows "length ts \<le> 13 * card {t. in_call (pcs L t)}"
proof -
  have "length ts \<le> (\<Sum>t\<in>{t. in_call (pcs L t)}. work (pcs L t))"
    using moves_work [OF assms(3,4)] by simp
  also have "\<dots> \<le> (\<Sum>t\<in>{t. in_call (pcs L t)}. 13)"
    by (rule sum_mono) (use reach_two [OF assms(1,2)] work_bound in blast)
  finally show ?thesis by simp
qed

end

section \<open>On the module\<close>

definition world_ok :: "uworld \<Rightarrow> bool" where
  "world_ok w \<longleftrightarrow> 0 \<le> wnext w \<and> (\<forall>fd. wfiles w fd \<noteq> None \<longrightarrow> 0 \<le> fd \<and> fd < wnext w)"

definition rdwr_files :: "uworld \<Rightarrow> int set" where
  "rdwr_files w = {fd. \<exists>pd sh. wfiles w fd = Some (True, pd, sh)}"

interpretation kd: device_files_once "\<lambda>t. kernel_os env (sc t) t clk" world_ok rdwr_files for env sc clk
proof unfold_locales
  fix w :: uworld and f
  assume "world_ok w" "f \<in> rdwr_files w"
  then show "0 \<le> f" by (auto simp: world_ok_def rdwr_files_def)
next
  fix w w' t f e
  assume ok: "world_ok w" and "os_open (kernel_os env (sc t) t clk) True w = Some (f, e, w')"
  then consider s where "f = - 1" "w' = w\<lparr>wk := s\<rparr>"
    | s pd where "f = wnext w" "w' = w\<lparr>wk := s, wnext := wnext w + 1, wfiles := (wfiles w)(wnext w \<mapsto> (True, pd, False))\<rparr>"
    by (auto simp: kernel_os_def kernel_open_def split: if_splits elim!: bind_eq_SomeE)
  then show "world_ok w' \<and> f \<notin> rdwr_files w \<and> rdwr_files w' = (if 0 \<le> f then insert f (rdwr_files w) else rdwr_files w)"
    using ok by cases (fastforce simp: world_ok_def rdwr_files_def)+
next
  fix w w' t f r e
  assume ok: "world_ok w" and "os_close (kernel_os env (sc t) t clk) f w = Some (r, e, w')"
  then have "wfiles w' = (wfiles w)(f := None) \<and> wnext w' = wnext w"
    by (auto simp: kernel_os_def kernel_close_def Let_def split: option.splits prod.splits if_splits elim!: bind_eq_SomeE)
  then show "world_ok w' \<and> rdwr_files w' = rdwr_files w - {f}" using ok by (auto simp: world_ok_def rdwr_files_def)
next
  fix w w' t f c rc e info
  assume ok: "world_ok w" and "os_ioctl (kernel_os env (sc t) t clk) f c w = Some (rc, e, info, w')"
  then have "wfiles w' = wfiles w \<and> wnext w' = wnext w"
    by (auto simp: kernel_os_def kernel_ioctl_def split: option.splits prod.splits elim!: bind_eq_SomeE)
  then show "world_ok w' \<and> rdwr_files w' = rdwr_files w" using ok by (simp add: world_ok_def rdwr_files_def)
next
  fix w w' t f r e
  assume "os_close (kernel_os env (sc t) t clk) f w = Some (r, e, w')"
  then show "\<not> (r \<noteq> 0 \<and> e = EINTR)"
    by (auto simp: kernel_os_def kernel_close_def Let_def split: option.splits prod.splits if_splits elim!: bind_eq_SomeE)
qed

text \<open>A first call that is refused, and the way from the lock to the end of the call.\<close>

lemma refused_run:
  assumes "pcs L t = Checking c" and "0 \<le> pfd L" and "os_ioctl (os t) (pfd L) c (pworld L) = Some (- 1, ENOSPC, i, w)"
  shows "moves os [t, t, t] L = Some (goto t (Locking 2 c (- 1) i) ENOSPC w L)"
  using assms by (simp add: can_run_def thread_move_def goto_def)

lemma reconnect_run:
  assumes "pcs L t = Locking 2 c rc info" and "pmtx L = None"
    and "os_close (os t) (pfd L) (pworld L) = Some (0, e1, w1)" and "os_open (os t) True w1 = Some (f, e2, w2)" and "0 \<le> f"
    and "os_ioctl (os t) f c w2 = Some (x, e3, i, w3)" and "0 \<le> x"
  shows "moves os [t, t, t, t, t, t] L = Some (L\<lparr>pfd := f, pworld := w3, pcs := (pcs L)(t := Back x i)\<rparr>)"
  using assms by (simp add: can_run_def thread_move_def goto_def)

section \<open>Properties\<close>

text \<open>The child of the demo world, with threads 5 and 6 about to call \<open>ChannelCreate\<close>.\<close>

definition demo_threads :: "uworld uprocess" where
  "demo_threads = \<lparr>pfd = 3, pmtx = None, pworld = forked 9 demo_world, pcs = (\<lambda>_. Out), errnos = (\<lambda>_. 0)\<rparr>"

definition demo_calling :: "uworld uprocess" where
  "demo_calling = demo_threads\<lparr>pcs := (\<lambda>_. Out)(5 := Checking (U_channelcreate 0), 6 := Checking (U_channelcreate 0))\<rparr>"

lemma demo_calling_reach: "shared_reach os demo_threads demo_calling"
proof -
  let ?c = "Checking (U_channelcreate 0)"
  have "shared_reach os demo_threads (demo_threads\<lparr>pcs := (pcs demo_threads)(5 := ?c)\<rparr>)"
    by (rule shared_reach.call [OF shared_reach.start]) (simp add: demo_threads_def)
  from shared_reach.call [OF this, of 6 "U_channelcreate 0"] show ?thesis
    by (simp add: demo_threads_def demo_calling_def)
qed

lemma demo_threads_start:
  "idle_process demo_threads" "world_ok (pworld demo_threads)" "pfd demo_threads \<in> rdwr_files (pworld demo_threads)"
  by (auto simp: demo_threads_def idle_process_def world_ok_def rdwr_files_def forked_def demo_world_def)

text \<open>
  \<open>thread_move\<close> translates the same lines as \<open>safe_ioctl\<close>, cut into steps. The two agree: a thread that
  runs on its own returns the value of the library call, and leaves the same descriptor, error
  number and state of the world; the mutex is free again.
\<close>

lemma lone_call_is_library_call:
  assumes "with_device (plain_call (os t) c) u = Some (rc, u')" and "view_of t L u" and "pcs L t = Checking c"
  shows "\<exists>k info L'. moves os (replicate k t) L = Some L' \<and> pcs L' t = Back rc info \<and> view_of t L' u' \<and> rest_same t L L'"
proof (cases "0 \<le> ufd u")
  case True
  let ?L = "goto t (Reading 2 c) (errnos L t) (pworld L) L"
  obtain info where r: "ioctl_rounds 2 (os t) c u = Some (rc, info, u')"
    using assms(1) True by (auto simp: with_device_def plain_call_def safe_ioctl_def elim!: bind_eq_SomeE)
  have v: "view_of t ?L u" using assms(2) by (simp add: view_of_def)
  have a: "alone os t L ?L"
    by (rule alone_move) (use assms True in \<open>simp_all add: can_run_def thread_move_def rest_same_def view_of_def\<close>)
  obtain L' where "alone os t ?L L'" "pcs L' t = Back rc info" "view_of t L' u'"
    using rounds_alone [where os = os, OF r v] by auto
  then show ?thesis using alone_trans [OF a] unfolding alone_def by blast
next
  case False
  let ?L = "goto t (Back (- 1) no_info) ESRCH (pworld L) L"
  have "alone os t L ?L"
    by (rule alone_move) (use assms False in \<open>simp_all add: can_run_def thread_move_def rest_same_def view_of_def\<close>)
  moreover have "rc = - 1" "view_of t ?L u'" using assms False by (auto simp: with_device_def view_of_def)
  ultimately show ?thesis unfolding alone_def by (metis fun_upd_same goto_simps(4))
qed

text \<open>
  C27. Threads that share the library reconnect one at a time, and no descriptor of the device is leaked or
  closed by mistake: whatever the threads do, the process has the descriptors it had besides the
  one of the library, and at most one more; when no thread is reconnecting, this is exactly the
  descriptor in \<open>fd\<close>.
\<close>

theorem library_keeps_one_descriptor:
  assumes "shared_reach (\<lambda>t. kernel_os env (sc t) t clk) L0 L" and "idle_process L0" and "world_ok (pworld L0)"
    and "pfd L0 \<in> rdwr_files (pworld L0)"
  shows "(\<forall>t u. critical (pcs L t) \<and> critical (pcs L u) \<longrightarrow> t = u) \<and>
    (\<exists>D. card D \<le> 1 \<and> rdwr_files (pworld L) = (rdwr_files (pworld L0) - {pfd L0}) \<union> D) \<and>
    (pmtx L = None \<longrightarrow> rdwr_files (pworld L) = (rdwr_files (pworld L0) - {pfd L0}) \<union> ({pfd L} \<inter> {0..}))"
proof -
  let ?B = "rdwr_files (pworld L0) - {pfd L0}" and ?O = "own_fds (holder L) (pfd L)"
  have inv: "kd.shared_inv ?B L" by (rule kd.reach_inv) (use assms in auto)
  have "\<exists>x. ?O \<subseteq> {x}" by (cases "(holder L, pfd L)" rule: own_fds.cases) auto
  then obtain x where x: "?O \<subseteq> {x}" by blast
  let ?D = "rdwr_files (pworld L) - ?B"
  have "?D \<subseteq> {x}" "?B \<subseteq> rdwr_files (pworld L)" using inv x by (auto simp: kd.shared_inv_def)
  then have "card ?D \<le> 1" "rdwr_files (pworld L) = ?B \<union> ?D" using card_mono [of "{x}" ?D] by auto
  then have "\<exists>D. card D \<le> 1 \<and> rdwr_files (pworld L) = ?B \<union> D" by blast
  then show ?thesis using inv by (auto simp: kd.shared_inv_def holder_def)
qed

theorem library_keeps_one_descriptor_witness:
  "rdwr_files (pworld demo_calling) = (rdwr_files (pworld demo_threads) - {3}) \<union> {3}"
  using library_keeps_one_descriptor [OF demo_calling_reach demo_threads_start]
  by (simp add: demo_calling_def demo_threads_def)

text \<open>
  C28. Calls of threads that share the library end, and the mutex cannot block them all. In every reachable
  state with a call going on some thread can take a step, and however the threads are scheduled,
  they take at most 13 steps for each call that is going on.
\<close>

theorem library_calls_end:
  assumes "shared_reach (\<lambda>t. kernel_os env (sc t) t clk) L0 L" and "idle_process L0" and "world_ok (pworld L0)"
    and "pfd L0 \<in> rdwr_files (pworld L0)" and "finite {t. in_call (pcs L t)}"
  shows "(\<forall>ts L'. moves (\<lambda>t. kernel_os env (sc t) t clk) ts L = Some L' \<longrightarrow> length ts \<le> 13 * card {t. in_call (pcs L t)}) \<and>
    ((\<exists>t. in_call (pcs L t)) \<longrightarrow> (\<exists>u. can_run u L))"
proof -
  have "kd.shared_inv (rdwr_files (pworld L0) - {pfd L0}) L" by (rule kd.reach_inv) (use assms in auto)
  then show ?thesis using kd.some_thread_runs kd.calls_end [OF assms(1,2) _ assms(5)] by blast
qed

theorem library_calls_end_witness:
  "(\<exists>u. can_run u demo_calling) \<and>
    moves (\<lambda>t. kernel_os demo_env demo_sched t (\<lambda>_. (0, 0))) (replicate 27 5) demo_calling = None"
proof -
  let ?os = "\<lambda>t. kernel_os demo_env demo_sched t (\<lambda>_. (0, 0))"
  have two: "{t. in_call (pcs demo_calling t)} = {5, 6}" by (auto simp: demo_calling_def split: if_splits)
  note ends = library_calls_end [where env = demo_env and sc = "\<lambda>_. demo_sched" and clk = "\<lambda>_. (0, 0)",
      OF demo_calling_reach demo_threads_start, unfolded two]
  have "in_call (pcs demo_calling 5)" using two by blast
  moreover have "moves ?os (replicate 27 5) demo_calling \<noteq> Some L'" for L' using ends by force
  ultimately show ?thesis using ends by auto
qed

text \<open>
  C39. Two threads of a child both reconnect. After a fork two threads call \<open>ChannelCreate\<close>, and both are refused
  with \<open>ENOSPC\<close> before either takes the mutex. The first reconnects and is told the id of its new
  channel. The second does not look whether \<open>fd\<close> has changed: it closes the device that the first
  has opened, and with it the channel, and opens it again. In the end both calls have
  succeeded, but the process has only the channel of the second thread.
\<close>

theorem both_threads_reconnect:
  assumes "kinv H (wk w)" and "wfiles w (pfd L) = Some (rdwr, Some e, shared)" and "procs (wk w) e = Some pe" and "p \<noteq> pid pe"
    and "\<not> listed (wk w) p" and "kmalloc env A_entry 0" and "kmalloc env A_channel 0"
    and "0 < qnx_max_channels_per_process (wk w)" and "gbl_next_channel_id (wk w) < 2 ^ 31 - 2"
    and "0 \<le> pfd L" and "pfd L < wnext w" and "pworld L = forked p w" and "pmtx L = None" and "a \<noteq> b"
    and "pcs L a = Checking (U_channelcreate fl)" and "pcs L b = Checking (U_channelcreate fl)"
  shows "\<exists>L' e' pc c ch. moves (\<lambda>t. kernel_os env (sc t) t clk) ([a, a, a] @ [b, b, b] @ [a, a, a, a, a, a] @ [b, b, b, b, b, b]) L = Some L' \<and>
    pcs L' a = Back (gbl_next_channel_id (wk w) + 1) no_info \<and> pcs L' b = Back (gbl_next_channel_id (wk w) + 2) no_info \<and>
    wfiles (pworld L') (pfd L') = Some (True, Some e', False) \<and> procs (wk (pworld L')) e' = Some pc \<and> pid pc = p \<and>
    channels pc = [c] \<and> chans (wk (pworld L')) c = Some ch \<and> chid ch = gbl_next_channel_id (wk w) + 2"
proof -
  let ?os = "\<lambda>t. kernel_os env (sc t) t clk" and ?c = "U_channelcreate fl" and ?i = "gbl_next_channel_id (wk w)"
  let ?w = "forked p w" let ?w2 = "?w\<lparr>wfiles := (wfiles ?w)(pfd L := None)\<rparr>" and ?e = "next_addr (wk w)"
  have same: "wk ?w2 = wk w" "wpid ?w2 = p" "wnext ?w2 = wnext w" by (simp_all add: forked_def)
  have no: "os_ioctl (?os t) (pfd L) ?c ?w = Some (- 1, ENOSPC, no_info, ?w)" for t
    using forked_refused [OF assms(2-4)] by (simp add: kernel_os_def)
  have shut: "os_close (?os t) (pfd L) ?w = Some (0, 0, ?w2)" for t
    using forked_closes [OF assms(2)] by (simp add: kernel_os_def)
  have pos: "0 \<le> ?i" using kinvD(5) [OF assms(1)] by (simp add: ids_inv_def)
  have lim: "?i < 2 ^ 31 - 1" using assms(9) by simp
  obtain w3 w4 pa ca cha where A: "kernel_open env True ?w2 = Some (wnext w, 0, w3)"
    "\<And>sc t. kernel_ioctl env sc t (wnext w) ?c w3 = Some (?i + 1, 0, no_info, w4)" "kinv H (wk w4)"
    "w4 = ?w2\<lparr>wk := wk w4, wnext := wnext w + 1, wfiles := (wfiles ?w2)(wnext w \<mapsto> (True, Some ?e, False))\<rparr>"
    "?e \<in> set (process_entries (wk w4))" "procs (wk w4) = (procs (wk w))(?e \<mapsto> pa)" "pid pa = p" "pe_refcnt pa = 1"
    "gbl_next_channel_id (wk w4) = ?i + 1" "qnx_max_channels_per_process (wk w4) = qnx_max_channels_per_process (wk w)"
    by (rule new_device_creates [of H ?w2 env fl, unfolded same, OF assms(1,5-8) lim]) blast
  have file4: "wfiles w4 (wnext w) = Some (True, Some ?e, False)" "wpid w4 = p" "wnext w4 = wnext w + 1"
    using arg_cong [OF A(4), of wfiles] arg_cong [OF A(4), of wpid] arg_cong [OF A(4), of wnext] same(2) by simp_all
  have pa: "procs (wk w4) ?e = Some pa" using A(6) by simp
  obtain s5 where B: "kernel_close (wnext w) w4 = Some (0, 0, w4\<lparr>wfiles := (wfiles w4)(wnext w := None), wk := s5\<rparr>)" "kinv H s5"
    "\<not> listed s5 (pid pa)" "counters s5 = counters (wk w4)"
    by (rule last_close [OF A(3) file4(1) A(5) pa A(8)])
  let ?w5 = "w4\<lparr>wfiles := (wfiles w4)(wnext w := None), wk := s5\<rparr>"
  have at5: "wk ?w5 = s5" "wpid ?w5 = p" "wnext ?w5 = wnext w + 1" using file4 by simp_all
  have room: "\<not> listed s5 p" "0 < qnx_max_channels_per_process s5" "gbl_next_channel_id s5 < 2 ^ 31 - 1" "gbl_next_channel_id s5 = ?i + 1"
    using B(3,4) A(7,9,10) assms(8,9) by (simp_all add: counters_def)
  obtain w6 w7 pc c ch where C: "kernel_open env True ?w5 = Some (wnext w + 1, 0, w6)"
    "\<And>sc t. kernel_ioctl env sc t (wnext w + 1) ?c w6 = Some (gbl_next_channel_id s5 + 1, 0, no_info, w7)"
    "w7 = ?w5\<lparr>wk := wk w7, wnext := wnext w + 1 + 1, wfiles := (wfiles ?w5)(wnext w + 1 \<mapsto> (True, Some (next_addr s5), False))\<rparr>"
    "procs (wk w7) = (procs s5)(next_addr s5 \<mapsto> pc)" "pid pc = p"
    "channels pc = [c]" "chans (wk w7) c = Some ch" "chid ch = gbl_next_channel_id s5 + 1"
    by (rule new_device_creates [of H ?w5 env fl, unfolded at5, OF B(2) room(1) assms(6,7) room(2,3)]) blast
  have C2: "kernel_ioctl env sc t (wnext w + 1) ?c w6 = Some (?i + 2, 0, no_info, w7)" for sc t by (simp add: C(2) room(4))
  have file7: "wfiles w7 (wnext w + 1) = Some (True, Some (next_addr s5), False)" using arg_cong [OF C(3), of wfiles] by simp
  have nn: "0 \<le> wnext w" using assms(10,11) by simp
  let ?L1 = "goto a (Locking 2 ?c (- 1) no_info) ENOSPC ?w L"
  let ?L2 = "goto b (Locking 2 ?c (- 1) no_info) ENOSPC ?w ?L1"
  let ?L3 = "?L2\<lparr>pfd := wnext w, pworld := w4, pcs := (pcs ?L2)(a := Back (?i + 1) no_info)\<rparr>"
  let ?L4 = "?L3\<lparr>pfd := wnext w + 1, pworld := w7, pcs := (pcs ?L3)(b := Back (?i + 2) no_info)\<rparr>"
  have m1: "moves ?os [a, a, a] L = Some ?L1" by (rule refused_run) (use assms(10,12,15) no in simp_all)
  have m2: "moves ?os [b, b, b] ?L1 = Some ?L2" by (rule refused_run) (use assms(10,14,16) no in simp_all)
  have m3: "moves ?os [a, a, a, a, a, a] ?L2 = Some ?L3"
    by (rule reconnect_run [where ?w1.0 = ?w2 and ?w2.0 = w3])
      (use assms(13,14) shut A(1,2) nn pos in \<open>simp_all add: kernel_os_def\<close>)
  have m4: "moves ?os [b, b, b, b, b, b] ?L3 = Some ?L4"
    by (rule reconnect_run [where ?w1.0 = ?w5 and ?w2.0 = w6])
      (use assms(13,14) B(1) C(1) C2 nn pos in \<open>simp_all add: kernel_os_def\<close>)
  have "moves ?os ([a, a, a] @ [b, b, b] @ [a, a, a, a, a, a] @ [b, b, b, b, b, b]) L = Some ?L4"
    by (simp only: moves_append m1 m2 m3 m4 bind.bind_lunit)
  then show ?thesis
    using file7 C(4-8) room(4) assms(14)
    by (intro exI [of _ ?L4] exI [of _ "next_addr s5"] exI [of _ pc] exI [of _ c] exI [of _ ch]) simp
qed

theorem both_threads_reconnect_witness:
  "\<exists>L'. moves (\<lambda>t. kernel_os demo_env demo_sched t (\<lambda>_. (0, 0))) ([5, 5, 5] @ [6, 6, 6] @ [5, 5, 5, 5, 5, 5] @ [6, 6, 6, 6, 6, 6])
      demo_calling = Some L' \<and> pcs L' 5 = Back 2 no_info \<and> pcs L' 6 = Back 3 no_info"
proof -
  have k: "kinv (\<lambda>_. 0) (wk demo_world)" using demo_kernel_inv by (simp add: demo_world_def)
  have f: "wfiles demo_world (pfd demo_calling) = Some (True, Some 3, False)" "procs (wk demo_world) 3 = Some demo_client"
    "9 \<noteq> pid demo_client" "\<not> listed (wk demo_world) 9" "kmalloc demo_env A_entry 0" "kmalloc demo_env A_channel 0"
    "0 < qnx_max_channels_per_process (wk demo_world)" "gbl_next_channel_id (wk demo_world) < 2 ^ 31 - 2"
    by (auto simp: demo_world_def demo_calling_def demo_threads_def demo_defs demo_env_def listed_def)
  have l: "0 \<le> pfd demo_calling" "pfd demo_calling < wnext demo_world" "pworld demo_calling = forked 9 demo_world"
    "pmtx demo_calling = None" "(5 :: nat) \<noteq> 6" "pcs demo_calling 5 = Checking (U_channelcreate 0)"
    "pcs demo_calling 6 = Checking (U_channelcreate 0)"
    by (simp_all add: demo_calling_def demo_threads_def demo_world_def)
  have id: "gbl_next_channel_id (wk demo_world) = 1" by (simp add: demo_world_def demo_kernel_def)
  show ?thesis
    using both_threads_reconnect [OF k f l, of "\<lambda>_. demo_sched" "\<lambda>_. (0, 0)"] by (auto simp: id simp del: moves.simps)
qed

text \<open>
  The lock does not cover the calls themselves: a thread that makes a call while another is between
  closing and reopening the device gets \<open>EBADF\<close>, and the library does not repeat the call.
\<close>

theorem call_meets_closed_device:
  assumes "pcs L b = Closing n c rc info" and "pcs L t = Checking c'" and "0 \<le> pfd L"
    and "kernel_close (pfd L) (pworld L) = Some (r, e, w)" and "\<not> (r \<noteq> 0 \<and> e = EINTR)"
  shows "\<exists>L'. moves (\<lambda>t. kernel_os env (sc t) t clk) [b, t, t, t] L = Some L' \<and> pcs L' t = Back (- 1) no_info \<and> errnos L' t = EBADF"
proof -
  have "b \<noteq> t" using assms(1,2) by auto
  moreover have "wfiles w (pfd L) = None"
    using assms(4) by (auto simp: kernel_close_def Let_def split: option.splits prod.splits if_splits elim!: bind_eq_SomeE)
  ultimately show ?thesis
    using assms by (auto simp: kernel_os_def kernel_ioctl_def can_run_def thread_move_def Let_def)
qed

theorem call_meets_closed_device_witness:
  "\<exists>L'. moves (\<lambda>t. kernel_os demo_env demo_sched t (\<lambda>_. (0, 0))) [6, 5, 5, 5]
      (demo_calling\<lparr>pcs := (pcs demo_calling)(6 := Closing 2 (U_channelcreate 0) (- 1) no_info)\<rparr>) = Some L' \<and>
    pcs L' 5 = Back (- 1) no_info \<and> errnos L' 5 = EBADF"
  by (rule call_meets_closed_device [where n = 2 and c = "U_channelcreate 0" and rc = "- 1" and info = no_info
        and c' = "U_channelcreate 0" and r = 0 and e = 0])
    (simp_all add: demo_calling_def demo_threads_def kernel_close_def forked_def demo_world_def)

end
