(* ===== verification/Vectors.thy ===== *)
theory Vectors
  imports Rendezvous
begin

text \<open>
  Messages sent from vectors: what a receiver gets is what it would get for a plain message
  that holds the concatenation of the segments, and the reply is spread over the segments of
  the client.
\<close>

section \<open>Sending from vectors\<close>

lemma gathered_length:
  assumes "kenv_ok env" and "list_all2 (\<lambda>v bs. copy_from_user env (iov_base v) (iov_len v) = Some bs) vs bss"
    and "length (concat bss) < 2 ^ 31"
  shows "iov_length env vs = length (concat bss)" and "v \<in> set vs \<Longrightarrow> iov_len v < 2 ^ 32"
proof -
  have all: "sum_list (map iov_len vs) = length (concat bss)"
    using assms(2) by (induction rule: list_all2_induct) (simp_all add: kenv_okD(1) [OF assms(1)])
  then show "iov_length env vs = length (concat bss)"
    using kenv_okD(5) [OF assms(1), of vs] assms(3) by simp
  assume "v \<in> set vs"
  then have "iov_len v \<le> sum_list (map iov_len vs)" by (intro member_le_sum_list) auto
  then show "iov_len v < 2 ^ 32" using all assms(3) by simp
qed

lemma gathered:
  assumes "kenv_ok env" and "list_all2 (\<lambda>v bs. copy_from_user env (iov_base v) (iov_len v) = Some bs) vs bss"
    and "length (concat bss) < 2 ^ 31"
  shows "memcpy_fromiovec env vs (wrap32 (int (iov_length env vs))) = Some (0, concat bss)"
  using gather_concatenates [OF assms(1) _ _ assms(2)] gathered_length [OF assms] assms(3)
  by (simp add: wrap32_small)

lemma msgsendv_blocks:
  assumes "kenv_ok env" and "kinv H s" and "procs s e = Some pe" and "gbl_next_rcvid s < 2 ^ 31 - 1"
    and "int_range (msv_coid v)" and "routes s e (msv_coid v) cn c" and "chans s c = Some ch"
    and "QNX_MAX_IOVEC_LEN < msv_in_len v \<longrightarrow> kmalloc env A_iov_in (vector_bytes (msv_in_len v))"
    and "QNX_MAX_IOVEC_LEN < msv_out_len v \<longrightarrow> kmalloc env A_iov_out (vector_bytes (msv_out_len v))"
    and "fetch_vector env (msv_in v) (msv_in_len v) = Some (Some ivs)"
    and "fetch_vector env (msv_out v) (msv_out_len v) = Some (Some ovs)"
    and "list_all2 (\<lambda>v bs. copy_from_user env (iov_base v) (iov_len v) = Some bs) ivs bss"
    and "kmalloc env A_inbuf (length (concat bss))"
    and "kmalloc env A_outbuf (iov_length env ovs)"
  obtains d m ch' s' a where "handle_msgsendv_enter env (Some v) t e s = Some (Blocked c d, ovs, s')"
    and "kinv (holding c H) s'" and "msgs s' d = Some m" and "task m = Some t"
    and "rcvid m = gbl_next_rcvid s + 1" and "receiver_pid m = conn_pid cn" and "sender_pid m = pid pe"
    and "data m = Msg \<lparr>km_coid = msv_coid v, km_timeout_ms = msv_timeout_ms v, km_in_buf = concat bss,
           km_in_len = length (concat bss), km_out = \<lparr>iov_base = a, iov_len = iov_length env ovs\<rparr>\<rparr>"
    and "chans s' c = Some ch'" and "waiting ch' = waiting ch @ [d]" and "chid ch' = chid ch"
    and "procs s' = procs s" and "process_entries s' = process_entries s" and "0 < iov_length env ovs \<longrightarrow> a \<noteq> 0"
proof -
  let ?r = "gbl_next_rcvid s + 1"
  note route = route_found [OF assms(2,3,5,6)]
  have small: "length (concat bss) < 2 ^ 31" using kenv_okD(4) [OF assms(1,13)] .
  note len = gathered_length(1) [OF assms(1,12) small]
  have r0: "0 \<le> gbl_next_rcvid s" using kinvD(6) [OF assms(2)] by (simp add: msgs_inv_def)
  then have r: "wrap32 ?r = ?r" using assms(4) by (simp add: wrap32_small)
  obtain a s1 where a: "(if 0 < iov_length env ovs then alloc (hold c s) else (0, hold c s)) = (a, s1)" by fastforce
  then have s1: "gbl_next_rcvid s1 = gbl_next_rcvid s" "chans s1 = chans (hold c s)" "procs s1 = procs s"
    "process_entries s1 = process_entries s"
    by (auto simp: alloc_def split: if_splits)
  have "e < next_addr s" using kinvD(7) [OF assms(2)] assms(3) unfolding fresh_inv_def by (metis not_le option.distinct(1))
  then have a0: "a \<noteq> 0" if "0 < iov_length env ovs" using a that by (auto simp: alloc_def hold_def store_chan_def)
  let ?k = "\<lparr>km_coid = msv_coid v, km_timeout_ms = msv_timeout_ms v, km_in_buf = concat bss,
    km_in_len = length (concat bss), km_out = \<lparr>iov_base = a, iov_len = iov_length env ovs\<rparr>\<rparr>"
  let ?m = "fresh_msgsend ?r (pid pe) (Some t) (Msg ?k)" and ?s = "s1\<lparr>gbl_next_rcvid := ?r\<rparr>"
  have i: "qnx_internal_msgsend_initv env t v ivs ovs (pid pe) (hold c s) = Some (0, Some ?m, ?s)"
    using assms(13,14) a s1(1) r gathered [OF assms(1,12) small] len
    by (simp add: qnx_internal_msgsend_initv_def get_new_rcvid_def Let_def)
  have "0 \<le> gbl_next_rcvid (hold c s)" "gbl_next_rcvid (hold c s) < 2 ^ 31 - 1" using r0 assms(4) by simp_all
  from initv_ok [OF assms(1) this, of t v ivs ovs "pid pe"] i
  have ok: "new_message_ok (Some t) (pid pe) (hold c s) 0 (Some ?m) ?s" by simp
  note new = newest_of_constructor [OF route(4) ok]
  let ?mc = "?m\<lparr>receiver_pid := conn_pid cn\<rparr>"
  have at: "chans ?s c = Some (ch\<lparr>ch_refcnt := Suc (ch_refcnt ch)\<rparr>)" using chans_hold [OF assms(7)] s1(2) by simp
  obtain ch' where b: "block_enter c (next_addr ?s) t (post ?mc ?s) =
      Some (set_interruptible t (store_chan c ch' (post (?mc\<lparr>receiver_chid := chid ch\<rparr>) ?s)))"
    "kinv (holding c H) (set_interruptible t (store_chan c ch' (post (?mc\<lparr>receiver_chid := chid ch\<rparr>) ?s)))"
    "waiting ch' = waiting ch @ [next_addr ?s]" "chid ch' = chid ch"
    by (rule kinv_block_enter [OF new(2) at, of ?mc t]) (use new(1) [of "conn_pid cn"] in \<open>simp_all add: fresh_msgsend_def\<close>)
  have "handle_msgsendv_enter env (Some v) t e s = Some (Blocked c (next_addr ?s), ovs,
      set_interruptible t (store_chan c ch' (post (?mc\<lparr>receiver_chid := chid ch\<rparr>) ?s)))"
    using i route(1-3) b(1) assms(3,8-11) by (auto simp: handle_msgsendv_enter_def Let_def alloc_def post_def)
  then show thesis
    by (rule that [where m = "?mc\<lparr>receiver_chid := chid ch\<rparr>" and ch' = ch' and a = a, OF _ b(2)])
      (use b(3,4) s1(3,4) a0 in \<open>simp_all add: set_interruptible_def post_def fresh_msgsend_def\<close>)
qed

section \<open>What the receiver sees\<close>

text \<open>The result and the stores of \<open>MsgReceive\<close>, without the state.\<close>

definition observed :: "(int \<times> uwrite list \<times> kstate) option \<Rightarrow> (int \<times> uwrite list) option" where
  "observed r = map_option (\<lambda>(rc, ws, s). (rc, ws)) r"

lemma receive_observed:
  assumes "kinv H s" and "procs s q = Some qe" and "channel_of s q (rcv_chid rio) c" and "chans s c = Some ch"
    and "waiting ch = d # ds" and "msgs s d = Some m" and "0 \<le> receive_rc left"
  shows "observed (handle_msgreceive env ua (Some rio) q (\<lambda>s. s) left s) = Some (delivery env ua rio (receive_rc left) (chid ch) m)"
proof (rule receive_takes_head [OF assms])
  fix ch' s1
  assume tk: "handle_msgreceive env ua (Some rio) q (\<lambda>s. s) left s = handle_msgreceive_finish env ua rio (receive_rc left) q c d s1"
    "kinv (holding c H) s1" "procs s1 = procs s" "msgs s1 d = Some (m\<lparr>mstate := QNX_STATE_RECEIVING\<rparr>)"
    "in_no_list d s1" "chans s1 c = Some ch'" "chid ch' = chid ch"
  obtain rc ws where del: "delivery env ua rio (receive_rc left) (chid ch') (m\<lparr>mstate := QNX_STATE_RECEIVING\<rparr>) = (rc, ws)" by fastforce
  have at: "procs s1 q = Some qe" using tk(3) assms(2) by simp
  have "\<exists>s'. handle_msgreceive_finish env ua rio (receive_rc left) q c d s1 = Some (rc, ws, s')"
    using tk(2) at tk(4-6) del by (cases rule: receive_finish_ok) auto
  moreover have "delivery env ua rio (receive_rc left) (chid ch') (m\<lparr>mstate := QNX_STATE_RECEIVING\<rparr>) = delivery env ua rio (receive_rc left) (chid ch) m"
    using tk(7) by (simp add: delivery_def deliver_message_def Let_def)
  ultimately show ?thesis using tk(1) del by (auto simp: observed_def)
qed

text \<open>A message with reply that was received is pending at the receiver, which can read and answer it.\<close>

lemma received_message:
  assumes "kinv H s" and "procs s q = Some qe" and "channel_of s q (rcv_chid rio) c" and "chans s c = Some ch"
    and "waiting ch = d # ds" and "msgs s d = Some m" and "0 \<le> receive_rc left" and "task m \<noteq> None"
    and "handle_msgreceive env ua (Some rio) q (\<lambda>s. s) left s = Some (rc, ws, s')" and "0 < rc"
  obtains pe m' where "kinv H s'" and "procs s' q = Some pe" and "d \<in> set (pending pe)" and "msgs s' d = Some m'"
    and "rcvid m' = rc" and "task m' \<noteq> None" and "data m' = data m"
proof (rule receive_takes_head [OF assms(1-7)])
  fix ch' s1
  assume tk: "handle_msgreceive env ua (Some rio) q (\<lambda>s. s) left s = handle_msgreceive_finish env ua rio (receive_rc left) q c d s1"
    "kinv (holding c H) s1" "procs s1 = procs s" "msgs s1 d = Some (m\<lparr>mstate := QNX_STATE_RECEIVING\<rparr>)"
    "in_no_list d s1" "chans s1 c = Some ch'" "chid ch' = chid ch"
  let ?m = "m\<lparr>mstate := QNX_STATE_RECEIVING\<rparr>"
  obtain r w where del: "delivery env ua rio (receive_rc left) (chid ch') ?m = (r, w)" by fastforce
  have at: "procs s1 q = Some qe" using tk(3) assms(2) by simp
  have rid: "rcvid m \<noteq> 0" using kinv_msg [OF assms(1,6)] assms(8) by (auto simp: payload_ok_def split: payload.splits)
  have "r = rc" using tk(2) at tk(4-6) del by (cases rule: receive_finish_ok) (use tk(1) assms(9) in auto)
  then have rc: "rcvid m = rc"
    using del assms(10) rid by (auto simp: delivery_def deliver_message_def Let_def split: if_splits)
  show thesis
    using tk(2) at tk(4-6) del
  proof (cases rule: receive_finish_ok)
    case (pend s2)
    have eq: "s2 = s'" using pend(7) tk(1) assms(9) by simp
    obtain m' where "msgs s' d = Some m'" "rcvid m' = rc" "task m' \<noteq> None" "data m' = data m"
      using pend(6) rc assms(8) unfolding eq by auto
    then show thesis using that [of "qe\<lparr>pending := d # pending qe\<rparr>" m'] pend(3,4) unfolding eq by simp
  qed (use tk(1) assms(8-10) in auto)
qed

lemma read_received:
  assumes "kinv H s" and "procs s q = Some pe" and "d \<in> set (pending pe)" and "msgs s d = Some m" and "task m \<noteq> None"
    and "rd_rcvid rd = rcvid m"
  shows "handle_msgread env q rd s = read_message env rd (data_msg (data m))"
  using assms(1,2)
proof (cases rule: msgread_ok [where env = env and io = rd])
  case (hit d' m')
  then have "d' = d" using same_rcvid [OF assms(1,4) hit(2)] assms(5,6) by simp
  then show ?thesis using hit assms(4) by simp
qed (use assms(3,4,6) in auto)

lemma reply_received:
  assumes "kenv_ok env" and "kinv H s" and "procs s q = Some pe" and "d \<in> set (pending pe)" and "msgs s d = Some m" and "task m \<noteq> None"
    and "rep_rcvid rp = rcvid m"
  shows "map_option fst (handle_msgreply env q rp s) = Some (fst (reply_buffer env (km_out (data_msg (data m))) (rep_in rp)))"
  using assms(1-3)
proof (cases rule: msgreply_ok [where io = rp])
  case (replied d' m' t rc buf n s')
  then have "d' = d" using same_rcvid [OF assms(2,5) replied(2)] assms(6,7) by simp
  then show ?thesis using replied(2,5,7) assms(5) by simp
qed (use assms(4,5,7) in auto)

text \<open>
  C15. A vector message is a plain message. A client that sends the segments of a vector, as many as
  it likes, with \<open>MsgSendv\<close> and a client that sends their concatenation with \<open>MsgSend\<close>, both with as
  many bytes of room for the reply, block on the same channel, which had an empty queue, and the
  receiver sees the same: \<open>MsgReceive\<close> returns the same receive id or error and stores the same bytes
  and the same information; when it returns the receive id, every \<open>MsgRead\<close> of that message gives the
  same result and the same bytes, and every \<open>MsgReply\<close> to it has the same result.
\<close>

theorem vector_message_is_plain_message:
  assumes "kenv_ok env" and "kinv H s" and "procs s e = Some pe" and "gbl_next_rcvid s < 2 ^ 31 - 1"
    and "int_range (msv_coid v)" and "routes s e (msv_coid v) cn c" and "chans s c = Some ch" and "waiting ch = []"
    and "QNX_MAX_IOVEC_LEN < msv_in_len v \<longrightarrow> kmalloc env A_iov_in (vector_bytes (msv_in_len v))"
    and "QNX_MAX_IOVEC_LEN < msv_out_len v \<longrightarrow> kmalloc env A_iov_out (vector_bytes (msv_out_len v))"
    and "fetch_vector env (msv_in v) (msv_in_len v) = Some (Some ivs)"
    and "fetch_vector env (msv_out v) (msv_out_len v) = Some (Some ovs)"
    and "list_all2 (\<lambda>v bs. copy_from_user env (iov_base v) (iov_len v) = Some bs) ivs bss"
    and "kmalloc env A_inbuf (length (concat bss))" and "kmalloc env A_outbuf (iov_length env ovs)"
    and "ms_coid io = msv_coid v" and "iov_len (ms_in io) = length (concat bss)"
    and "copy_from_user env (iov_base (ms_in io)) (length (concat bss)) = Some (concat bss)"
    and "iov_len (ms_out io) = iov_length env ovs"
    and "q \<in> set (process_entries s)" and "procs s q = Some qe" and "pid qe = conn_pid cn" and "rcv_chid rio = conn_chid cn"
    and "0 \<le> receive_rc left" and "iov_base (ms_out io) \<noteq> 0" and "kenv_ok penv"
  shows "\<exists>d s1 d' s2. handle_msgsend_enter env (Some io) t e s = Some (Blocked c d, s1) \<and>
    handle_msgsendv_enter env (Some v) t e s = Some (Blocked c d', ovs, s2) \<and>
    (\<exists>rc ws s1' s2'. handle_msgreceive renv ua (Some rio) q (\<lambda>s. s) left s1 = Some (rc, ws, s1') \<and>
       handle_msgreceive renv ua (Some rio) q (\<lambda>s. s) left s2 = Some (rc, ws, s2') \<and>
       (0 < rc \<longrightarrow>
          (\<forall>rd. rd_rcvid rd = rc \<longrightarrow> handle_msgread renv q rd s1' = handle_msgread renv q rd s2') \<and>
          (\<forall>rp. rep_rcvid rp = rc \<longrightarrow>
             map_option fst (handle_msgreply penv q rp s1') = map_option fst (handle_msgreply penv q rp s2') \<and>
             handle_msgreply penv q rp s1' \<noteq> None)))"
proof -
  have plain: "int_range (ms_coid io)" "routes s e (ms_coid io) cn c" "kmalloc env A_inbuf (iov_len (ms_in io))"
    "copy_from_user env (iov_base (ms_in io)) (iov_len (ms_in io)) = Some (concat bss)"
    using assms(5,6,14,16-18) by simp_all
  obtain m1 ch1 s1 where p: "handle_msgsend_enter env (Some io) t e s = Some (Blocked c (next_addr s), s1)"
    "kinv (holding c H) s1" "msgs s1 (next_addr s) = Some m1" "task m1 = Some t" "rcvid m1 = gbl_next_rcvid s + 1"
    "sender_pid m1 = pid pe" "data m1 = Msg \<lparr>km_coid = ms_coid io, km_timeout_ms = ms_timeout_ms io,
       km_in_buf = concat bss, km_in_len = iov_len (ms_in io), km_out = ms_out io\<rparr>"
    "chans s1 c = Some ch1" "waiting ch1 = [next_addr s]" "chid ch1 = chid ch" "procs s1 = procs s"
    by (rule msgsend_blocks [OF assms(1-4) plain(1,2) assms(7) plain(3,4)]) (use assms(8) in simp)
  obtain d a m2 ch2 s2 where w: "handle_msgsendv_enter env (Some v) t e s = Some (Blocked c d, ovs, s2)"
    "kinv (holding c H) s2" "msgs s2 d = Some m2" "task m2 = Some t" "rcvid m2 = gbl_next_rcvid s + 1"
    "sender_pid m2 = pid pe" "data m2 = Msg \<lparr>km_coid = msv_coid v, km_timeout_ms = msv_timeout_ms v,
       km_in_buf = concat bss, km_in_len = length (concat bss), km_out = \<lparr>iov_base = a, iov_len = iov_length env ovs\<rparr>\<rparr>"
    "chans s2 c = Some ch2" "waiting ch2 = [d]" "chid ch2 = chid ch" "procs s2 = procs s" "0 < iov_length env ovs \<longrightarrow> a \<noteq> 0"
    by (rule msgsendv_blocks [OF assms(1-7,9-15)]) (use assms(8) in simp)
  note own = route_owner [OF assms(2,6,20-22,7)]
  have on: "channel_of s1 q (rcv_chid rio) c" "procs s1 q = Some qe" "channel_of s2 q (rcv_chid rio) c" "procs s2 q = Some qe"
    using own [OF p(11,8,10)] own [OF w(11,8,10)] assms(21,23) p(11) w(11) by simp_all
  have "delivery renv ua rio (receive_rc left) (chid ch) m1 = delivery renv ua rio (receive_rc left) (chid ch) m2"
    using p(4-7) w(4-7) assms(16,17,19) kinvD(6) [OF assms(2)]
    by (simp add: delivery_def deliver_message_def msgs_inv_def Let_def)
  then have "observed (handle_msgreceive renv ua (Some rio) q (\<lambda>s. s) left s1) =
      observed (handle_msgreceive renv ua (Some rio) q (\<lambda>s. s) left s2)"
    "observed (handle_msgreceive renv ua (Some rio) q (\<lambda>s. s) left s1) \<noteq> None"
    using receive_observed [OF p(2) on(2,1) p(8,9,3) assms(24), of renv ua] p(10) w(10)
      receive_observed [OF w(2) on(4,3) w(8,9,3) assms(24), of renv ua] by simp_all
  then obtain rc ws s1' s2' where r: "handle_msgreceive renv ua (Some rio) q (\<lambda>s. s) left s1 = Some (rc, ws, s1')"
    "handle_msgreceive renv ua (Some rio) q (\<lambda>s. s) left s2 = Some (rc, ws, s2')"
    by (auto simp: observed_def)
  have "(\<forall>rd. rd_rcvid rd = rc \<longrightarrow> handle_msgread renv q rd s1' = handle_msgread renv q rd s2') \<and>
      (\<forall>rp. rep_rcvid rp = rc \<longrightarrow> map_option fst (handle_msgreply penv q rp s1') = map_option fst (handle_msgreply penv q rp s2') \<and>
         handle_msgreply penv q rp s1' \<noteq> None)" if pos: "0 < rc"
  proof -
    have tasks: "task m1 \<noteq> None" "task m2 \<noteq> None" using p(4) w(4) by simp_all
    obtain p1 n1 where n1: "kinv (holding c H) s1'" "procs s1' q = Some p1" "next_addr s \<in> set (pending p1)" "msgs s1' (next_addr s) = Some n1"
      "rcvid n1 = rc" "task n1 \<noteq> None" "data n1 = data m1"
      by (rule received_message [OF p(2) on(2,1) p(8,9,3) assms(24) tasks(1) r(1) pos])
    obtain p2 n2 where n2: "kinv (holding c H) s2'" "procs s2' q = Some p2" "d \<in> set (pending p2)" "msgs s2' d = Some n2"
      "rcvid n2 = rc" "task n2 \<noteq> None" "data n2 = data m2"
      by (rule received_message [OF w(2) on(4,3) w(8,9,3) assms(24) tasks(2) r(2) pos])
    have "handle_msgread renv q rd s1' = handle_msgread renv q rd s2'" if "rd_rcvid rd = rc" for rd
      using read_received [OF n1(1-4,6), of rd renv] read_received [OF n2(1-4,6), of rd renv] that n1(5,7) n2(5,7) p(7) w(7) assms(17)
      by (simp add: read_message_def)
    moreover have "fst (reply_buffer penv (km_out (data_msg (data n1))) src) = fst (reply_buffer penv (km_out (data_msg (data n2))) src)" for src
      using n1(7) n2(7) p(7) w(7,12) assms(19,25) by (simp add: reply_buffer_def split: option.splits)
    then have "map_option fst (handle_msgreply penv q rp s1') = map_option fst (handle_msgreply penv q rp s2') \<and>
        handle_msgreply penv q rp s1' \<noteq> None" if "rep_rcvid rp = rc" for rp
      using reply_received [OF assms(26) n1(1-4,6), of rp] reply_received [OF assms(26) n2(1-4,6), of rp] that n1(5) n2(5) by auto
    ultimately show ?thesis by blast
  qed
  then show ?thesis using p(1) w(1) r by blast
qed

text \<open>The vectors of the example: of one segment, and of six, for which the buffer is allocated.\<close>

lemma demo_vector:
  "int_range (msv_coid demo_iov)" "routes demo_kernel 3 (msv_coid demo_iov) \<lparr>conn_pid = 7, conn_chid = 1\<rparr> 2"
  "QNX_MAX_IOVEC_LEN < msv_in_len demo_iov \<longrightarrow> kmalloc demo_env A_iov_in (vector_bytes (msv_in_len demo_iov))"
  "QNX_MAX_IOVEC_LEN < msv_out_len demo_iov \<longrightarrow> kmalloc demo_env A_iov_out (vector_bytes (msv_out_len demo_iov))"
  "fetch_vector demo_env (msv_in demo_iov) (msv_in_len demo_iov) = Some (Some [\<lparr>iov_base = 128, iov_len = 4\<rparr>])"
  "fetch_vector demo_env (msv_out demo_iov) (msv_out_len demo_iov) = Some (Some [\<lparr>iov_base = 256, iov_len = 4\<rparr>])"
  using demo_routes
  by (simp_all add: demo_iov_def demo_env_def fetch_vector_def vector_bytes_def to_size_def QNX_MAX_IOVEC_LEN_def int_range_def)

definition demo_six :: qnx_io_msgsendv where
  "demo_six = demo_iov\<lparr>msv_in_len := 6\<rparr>"

lemma demo_vectors:
  "int_range (msv_coid demo_six)" "routes demo_kernel 3 (msv_coid demo_six) \<lparr>conn_pid = 7, conn_chid = 1\<rparr> 2"
  "QNX_MAX_IOVEC_LEN < msv_in_len demo_six \<longrightarrow> kmalloc demo_env A_iov_in (vector_bytes (msv_in_len demo_six))"
  "QNX_MAX_IOVEC_LEN < msv_out_len demo_six \<longrightarrow> kmalloc demo_env A_iov_out (vector_bytes (msv_out_len demo_six))"
  "fetch_vector demo_env (msv_in demo_six) (msv_in_len demo_six) =
     Some (Some (map (\<lambda>a. \<lparr>iov_base = a, iov_len = 4\<rparr>) [128, 144, 160, 176, 192, 208]))"
  "fetch_vector demo_env (msv_out demo_six) (msv_out_len demo_six) = Some (Some [\<lparr>iov_base = 256, iov_len = 4\<rparr>])"
  using demo_routes
  by (simp_all add: demo_six_def demo_iov_def demo_env_def fetch_vector_def vector_bytes_def to_size_def
      QNX_MAX_IOVEC_LEN_def int_range_def upt_rec)

text \<open>The bytes of the six segments.\<close>

definition demo_segments :: "byte list list" where
  "demo_segments = map (\<lambda>a. [a, a + 1, a + 2, a + 3]) [128, 144, 160, 176, 192, 208]"

lemma demo_segments_read:
  "list_all2 (\<lambda>v bs. copy_from_user demo_env (iov_base v) (iov_len v) = Some bs)
     (map (\<lambda>a. \<lparr>iov_base = a, iov_len = 4\<rparr>) [128, 144, 160, 176, 192, 208]) demo_segments"
  by (simp add: demo_segments_def demo_env_def upt_rec)

theorem vector_message_is_plain_message_witness:
  "\<exists>d s1 d' ovs s2. handle_msgsend_enter demo_env (Some (demo_io\<lparr>ms_in := \<lparr>iov_base = 128, iov_len = 4\<rparr>,
        ms_out := \<lparr>iov_base = 64, iov_len = 4\<rparr>\<rparr>)) 5 3 demo_kernel = Some (Blocked 2 d, s1) \<and>
    handle_msgsendv_enter demo_env (Some demo_iov) 5 3 demo_kernel = Some (Blocked 2 d', ovs, s2)"
proof -
  let ?io = "demo_io\<lparr>ms_in := \<lparr>iov_base = 128, iov_len = 4\<rparr>, ms_out := \<lparr>iov_base = 64, iov_len = 4\<rparr>\<rparr>"
  let ?rio = "\<lparr>rcv_chid = 1, rcv_timeout_ms = 10, rcv_out = \<lparr>iov_base = 1024, iov_len = 64\<rparr>, rcv_info = zero_info\<rparr>"
  have at: "chans demo_kernel 2 = Some \<lparr>ch_refcnt = 1, chid = 1, waiting = [], num_waiting = 0, num_waiting_noreply = 0\<rparr>"
    "gbl_next_rcvid demo_kernel < 2 ^ 31 - 1" "1 \<in> set (process_entries demo_kernel)" "pid demo_server = 7"
    by (simp_all add: demo_defs)
  note vec = demo_vector
  show ?thesis
    using vector_message_is_plain_message [OF demo_env_ok demo_kernel_inv demo_kernel_procs(2) at(2) vec(1,2) at(1) _ vec(3-6),
        of "[[128, 129, 130, 131]]" ?io 1 demo_server ?rio 1 demo_env 5 demo_env 512] at(3,4) demo_kernel_procs(1) demo_env_ok
    by (auto simp: demo_io_def demo_iov_def demo_env_def upt_rec)
qed

section \<open>The reply to a vector\<close>

text \<open>Reference definition: the segments are filled one after the other while there are bytes left.\<close>

fun scatter :: "iovec list \<Rightarrow> byte list \<Rightarrow> (uaddr \<times> byte list) list" where
  "scatter [] bs = []"
| "scatter (v # vs) bs =
     (if bs = [] then [] else if iov_len v = 0 then scatter vs bs
      else (iov_base v, take (iov_len v) bs) # scatter vs (drop (iov_len v) bs))"

lemma scatter_concat: "length bs \<le> sum_list (map iov_len vs) \<Longrightarrow> concat (map snd (scatter vs bs)) = bs"
  by (induction vs bs rule: scatter.induct) (auto split: if_splits)

lemma scatter_fits: "(a, bs) \<in> set (scatter vs kdata) \<Longrightarrow> \<exists>v \<in> set vs. iov_base v = a \<and> length bs \<le> iov_len v"
  by (induction vs kdata rule: scatter.induct) (auto split: if_splits)

lemma toiovec_scatters:
  assumes "\<forall>v \<in> set vs. iov_len v < 2 ^ 31" and "n < 2 ^ 31" and "n \<le> sum_list (map iov_len vs)" and "n \<le> length kdata"
    and "\<forall>(a, bs) \<in> set (scatter vs (take n kdata)). copy_to_user env a bs"
  shows "memcpy_toiovec env vs kdata (int n) = Some (0, scatter vs (take n kdata))"
  using assms
proof (induction vs arbitrary: n kdata)
  case (Cons v vs)
  show ?case
  proof (cases "0 < n \<and> iov_len v \<noteq> 0")
    case True
    define c where "c = min n (iov_len v)"
    have some: "take n kdata \<noteq> []" using True Cons.prems(4) by auto
    have c: "min_uint (int (iov_len v)) (int n) = int c" "to_size (int c) = c"
      using min_uint_eq(2) [of "int n" v] to_size_min [of "int n" "iov_len v"] True Cons.prems(1,2)
      by (simp_all add: seg32_def c_def)
    have parts: "take (iov_len v) (take n kdata) = take c kdata" "drop (iov_len v) (take n kdata) = take (n - c) (drop c kdata)"
      by (simp_all add: min_def drop_take c_def)
    have split: "scatter (v # vs) (take n kdata) = (iov_base v, take c kdata) # scatter vs (take (n - c) (drop c kdata))"
      using True some parts by simp
    have "n - c \<le> sum_list (map iov_len vs)" "n - c \<le> length (drop c kdata)" "n - c < 2 ^ 31"
      using Cons.prems(2-4) by (simp_all add: c_def)
    moreover have "\<forall>(a, bs) \<in> set (scatter vs (take (n - c) (drop c kdata))). copy_to_user env a bs"
      and ok: "copy_to_user env (iov_base v) (take c kdata)"
      using Cons.prems(5) unfolding split by simp_all
    moreover have eq: "int (n - c) = int n - int c" by (simp add: c_def of_nat_diff)
    ultimately have rest: "memcpy_toiovec env vs (drop c kdata) (int n - int c) = Some (0, scatter vs (take (n - c) (drop c kdata)))"
      using Cons.prems(1) by (subst eq [symmetric]) (intro Cons.IH, simp_all)
    have "memcpy_toiovec env (v # vs) kdata (int n) = Some (0, (iov_base v, take c kdata) # scatter vs (take (n - c) (drop c kdata)))"
      using True ok rest by (simp add: c Let_def)
    then show ?thesis unfolding split .
  next
    case False
    then show ?thesis using Cons by (cases "n = 0") auto
  qed
qed simp

lemma msgsendv_exit_eq:
  assumes "msgs s d = Some m" and "reply_base m = Some rs" and "reply_len m = length rs" and "0 < length rs"
    and "iov_len (km_out (data_msg (data m))) = sum_list (map iov_len vs)" and "sum_list (map iov_len vs) < 2 ^ 31"
    and "\<forall>(a, bs) \<in> set (scatter vs (take (sum_list (map iov_len vs)) rs)). copy_to_user env a bs"
  shows "handle_msgsendv_exit env rc d vs s =
    Some (rc, if 0 \<le> rc then map (\<lambda>(a, bs). Bytes a bs) (scatter vs (take (sum_list (map iov_len vs)) rs)) else [],
          s\<lparr>msgs := (msgs s)(d := None)\<rparr>)"
proof -
  let ?n = "min (sum_list (map iov_len vs)) (length rs)"
  have cut: "take ?n rs = take (sum_list (map iov_len vs)) rs" by (simp add: min_def)
  have "iov_len v < 2 ^ 31" if "v \<in> set vs" for v
    using member_le_sum_list [of "iov_len v" "map iov_len vs"] that assms(6) by simp
  then have "memcpy_toiovec env vs rs (int ?n) = Some (0, scatter vs (take ?n rs))"
    using assms(6,7) by (intro toiovec_scatters) (simp_all add: cut)
  moreover have "wrap32 (int ?n) = int ?n" using assms(6) by (intro wrap32_small) simp_all
  ultimately show ?thesis
    using assms(1-5) by (simp add: handle_msgsendv_exit_def Let_def cut)
qed

text \<open>
  C14. The round trip of a vector message. A client sends the segments of a vector with
  \<open>MsgSendv\<close> on an empty channel, the server receives and replies. Then the server is handed the
  concatenation of the segments, cut to its buffer; the reply wakes the client; and \<open>MsgSendv\<close>
  returns the status of the reply and, unless that is negative, fills the segments of the
  client's reply vector one after the other with the bytes of the reply, as far as they have
  room. No message object and no reference to the channel is left.
\<close>

theorem vector_round_trip:
  assumes "kenv_ok env" and "kinv H s" and "procs s e = Some pe" and "gbl_next_rcvid s < 2 ^ 31 - 1"
    and "int_range (msv_coid v)" and "routes s e (msv_coid v) cn c" and "chans s c = Some ch" and "waiting ch = []"
    and "QNX_MAX_IOVEC_LEN < msv_in_len v \<longrightarrow> kmalloc env A_iov_in (vector_bytes (msv_in_len v))"
    and "QNX_MAX_IOVEC_LEN < msv_out_len v \<longrightarrow> kmalloc env A_iov_out (vector_bytes (msv_out_len v))"
    and "fetch_vector env (msv_in v) (msv_in_len v) = Some (Some ivs)"
    and "fetch_vector env (msv_out v) (msv_out_len v) = Some (Some ovs)"
    and "list_all2 (\<lambda>v bs. copy_from_user env (iov_base v) (iov_len v) = Some bs) ivs bss"
    and "kmalloc env A_inbuf (length (concat bss))" and "kmalloc env A_outbuf (sum_list (map iov_len ovs))"
    and server: "q \<in> set (process_entries s)" "procs s q = Some qe" "pid qe = conn_pid cn" "rcv_chid rio = conn_chid cn"
    and receive: "0 \<le> receive_rc left" "store_to_user renv ua"
      "copy_to_user renv (iov_base (rcv_out rio)) (take (iov_len (rcv_out rio)) (concat bss))"
    and reply: "kenv_ok penv" "0 < sum_list (map iov_len ovs)" "0 < iov_len src"
      "kmalloc penv A_reply (iov_len src)" "copy_from_user penv (iov_base src) (iov_len src) = Some rs"
    and stored: "\<forall>(a, bs) \<in> set (scatter ovs (take (sum_list (map iov_len ovs)) rs)). copy_to_user env a bs"
  shows "\<exists>s1 d i s2 s3 s4.
    handle_msgsendv_enter env (Some v) t e s = Some (Blocked c d, ovs, s1) \<and>
    handle_msgreceive renv ua (Some rio) q (\<lambda>s. s) left s1 =
      Some (gbl_next_rcvid s + 1, [Bytes (iov_base (rcv_out rio)) (take (iov_len (rcv_out rio)) (concat bss)),
                                   Receive_info ua (rio\<lparr>rcv_info := i\<rparr>)], s2) \<and>
    info_pid i = pid pe \<and> msglen i = int (length (concat bss)) \<and>
    handle_msgreply penv q \<lparr>rep_rcvid = gbl_next_rcvid s + 1, rep_status = st, rep_in = src\<rparr> s2 = Some (0, s3) \<and>
    running s3 t \<and>
    handle_msgsendv env (Some v) t e (\<lambda>_. s3) ms sg s =
      Some (Some st, if 0 \<le> st then map (\<lambda>(a, bs). Bytes a bs) (scatter ovs (take (sum_list (map iov_len ovs)) rs)) else [], s4) \<and>
    kinv H s4 \<and> procs s4 = procs s \<and> process_entries s4 = process_entries s \<and> msgs s4 d = None"
proof -
  have small: "sum_list (map iov_len ovs) < 2 ^ 31" using kenv_okD(4) [OF assms(1,15)] .
  then have len: "iov_length env ovs = sum_list (map iov_len ovs)" using kenv_okD(5) [OF assms(1), of ovs] by simp
  have room: "kmalloc env A_outbuf (iov_length env ovs)" "0 < iov_length env ovs" using assms(15) reply(2) len by simp_all
  obtain d m ch' s1 a where b: "handle_msgsendv_enter env (Some v) t e s = Some (Blocked c d, ovs, s1)"
    "kinv (holding c H) s1" "msgs s1 d = Some m" "task m = Some t" "rcvid m = gbl_next_rcvid s + 1"
    "receiver_pid m = conn_pid cn" "sender_pid m = pid pe"
    "data m = Msg \<lparr>km_coid = msv_coid v, km_timeout_ms = msv_timeout_ms v, km_in_buf = concat bss,
       km_in_len = length (concat bss), km_out = \<lparr>iov_base = a, iov_len = iov_length env ovs\<rparr>\<rparr>"
    "chans s1 c = Some ch'" "waiting ch' = [d]" "chid ch' = chid ch" "procs s1 = procs s"
    "process_entries s1 = process_entries s" "a \<noteq> 0"
    by (rule msgsendv_blocks [OF assms(1-7,9-14) room(1)]) (use assms(8) room(2) in simp)
  let ?k = "\<lparr>km_coid = msv_coid v, km_timeout_ms = msv_timeout_ms v, km_in_buf = concat bss,
    km_in_len = length (concat bss), km_out = \<lparr>iov_base = a, iov_len = iov_length env ovs\<rparr>\<rparr>"
  have at: "receiver_pid m = pid qe" "q \<in> set (process_entries s1)" "procs s1 q = Some qe" "channel_of s1 q (rcv_chid rio) c"
    using b(6,12,13) server route_owner [OF assms(2,6) server(1-3) assms(7) b(12,9,11)] by simp_all
  have fits: "copy_to_user renv (iov_base (rcv_out rio)) (take (iov_len (rcv_out rio)) (km_in_buf ?k))"
    "iov_base (km_out ?k) \<noteq> 0" "0 < iov_len (km_out ?k)"
    using receive(3) b(14) room(2) by simp_all
  obtain i s2 s3 s4 m4 where x: "handle_msgreceive renv ua (Some rio) q (\<lambda>s. s) left s1 =
      Some (rcvid m, [Bytes (iov_base (rcv_out rio)) (take (iov_len (rcv_out rio)) (km_in_buf ?k)),
                      Receive_info ua (rio\<lparr>rcv_info := i\<rparr>)], s2)"
    "info_pid i = sender_pid m" "msglen i = int (length (km_in_buf ?k))"
    "handle_msgreply penv q \<lparr>rep_rcvid = rcvid m, rep_status = st, rep_in = src\<rparr> s2 = Some (0, s3)"
    "running s3 t" "block_exit ms sg c d s3 = Some (Returns st, s4)" "kinv H s4" "in_no_list d s4"
    "msgs s4 d = Some m4" "data m4 = Msg ?k" "reply_base m4 = Some rs" "reply_len m4 = length rs"
    "procs s4 = procs s1" "process_entries s4 = process_entries s1"
    by (rule served [OF b(2-4,8) at(1) b(9,10) at(2-4) receive(1,2) fits(1) reply(1) fits(2,3) reply(3-5)])
  have ends: "0 < length rs" "iov_len (km_out (data_msg (data m4))) = sum_list (map iov_len ovs)"
    using kenv_okD(1) [OF reply(1,5)] reply(3) x(10) len by simp_all
  have "handle_msgsendv env (Some v) t e (\<lambda>_. s3) ms sg s =
      Some (Some st, if 0 \<le> st then map (\<lambda>(a, bs). Bytes a bs) (scatter ovs (take (sum_list (map iov_len ovs)) rs)) else [],
            s4\<lparr>msgs := (msgs s4)(d := None)\<rparr>)"
    using b(1) x(6) msgsendv_exit_eq [OF x(9,11,12) ends small stored, of st] by (simp add: handle_msgsendv_def)
  then show ?thesis
    using kinv_free_msg [OF x(7,8)] x(1-5,13,14) b(1,5,7,12,13)
    by (intro exI [of _ s1] exI [of _ d] exI [of _ i] exI [of _ s2] exI [of _ s3]
        exI [of _ "s4\<lparr>msgs := (msgs s4)(d := None)\<rparr>"]) simp
qed

theorem vector_round_trip_witness:
  "\<exists>s3 s4. handle_msgsendv demo_env (Some demo_six) 5 3 (\<lambda>_. s3) 0 False demo_kernel =
     Some (Some 6, [Bytes 256 [32, 33, 34, 35]], s4) \<and> procs s4 = procs demo_kernel"
proof -
  let ?rio = "\<lparr>rcv_chid = 1, rcv_timeout_ms = 10, rcv_out = \<lparr>iov_base = 1024, iov_len = 64\<rparr>, rcv_info = zero_info\<rparr>"
  have at: "chans demo_kernel 2 = Some \<lparr>ch_refcnt = 1, chid = 1, waiting = [], num_waiting = 0, num_waiting_noreply = 0\<rparr>"
    "gbl_next_rcvid demo_kernel < 2 ^ 31 - 1" "1 \<in> set (process_entries demo_kernel)" "pid demo_server = 7"
    by (simp_all add: demo_defs)
  have len: "length (concat demo_segments) = 24" by (simp add: demo_segments_def)
  show ?thesis
    using vector_round_trip [OF demo_env_ok demo_kernel_inv demo_kernel_procs(2) at(2) demo_vectors(1,2) at(1) _ demo_vectors(3-6) demo_segments_read,
        of 1 demo_server ?rio 1 demo_env 512 demo_env "\<lparr>iov_base = 32, iov_len = 6\<rparr>"
          "[32, 33, 34, 35, 36, 37]" 5 6 0 False] demo_env_ok at(3,4) demo_kernel_procs(1) len
    by (auto simp: demo_env_def upt_rec)
qed

end
