(* ===== verification/Oneway.thy ===== *)
theory Oneway
  imports Vectors
begin

text \<open>
  Pulses and messages without reply, from the sender to the receiver. Neither has a thread that
  waits for it, so the queue of the channel is all there is between the two calls.
\<close>

section \<open>The queue of a channel that is owned by a process\<close>

definition waits :: "kstate \<Rightarrow> addr \<Rightarrow> addr list" where
  "waits s c = (case chans s c of None \<Rightarrow> [] | Some ch \<Rightarrow> waiting ch)"

definition queue :: "kstate \<Rightarrow> addr \<Rightarrow> qnx_internal_msgsend list" where
  "queue s c = map (\<lambda>d. the (msgs s d)) (waits s c)"

text \<open>The reference of the owner keeps the channel alive when another reference is given back.\<close>

lemma owned_release:
  assumes "kinv (holding c H) s" and "channel_of s q i c" and "chans s c = Some ch"
  shows "qnx_channel_release c s = Some (store_chan c (ch\<lparr>ch_refcnt := ch_refcnt ch - 1\<rparr>) s)"
    and "kinv H (store_chan c (ch\<lparr>ch_refcnt := ch_refcnt ch - 1\<rparr>) s)"
proof -
  have rc: "ch_refcnt ch = refs (holding c H) (procs s) c" by (rule refs_at [OF assms(1,3)])
  moreover have "owned (procs s) c" using assms(2) by (auto simp: channel_of_def owned_def)
  ultimately have more: "1 < ch_refcnt ch" by (simp add: refs_def holding_def)
  show "qnx_channel_release c s = Some (store_chan c (ch\<lparr>ch_refcnt := ch_refcnt ch - 1\<rparr>) s)"
    using cref.unref_shared [OF assms(3) more] by simp
  have "kinv ((holding c H)(c := H c)) (store_chan c (ch\<lparr>ch_refcnt := ch_refcnt ch - 1\<rparr>) s)"
    by (rule kinv_store_refcnt [OF assms(1,3)])
      (use more rc in \<open>auto simp: refs_def holding_def split: if_splits\<close>)
  then show "kinv H (store_chan c (ch\<lparr>ch_refcnt := ch_refcnt ch - 1\<rparr>) s)" by (simp add: holding_def)
qed

text \<open>
  What one sender or the receiver leaves of the processes and of the channel, with the number
  of messages without reply that are queued.
\<close>

definition same_ends :: "addr \<Rightarrow> kstate \<Rightarrow> kstate \<Rightarrow> bool" where
  "same_ends c s s' \<longleftrightarrow>
     procs s' = procs s \<and> process_entries s' = process_entries s \<and>
     qnx_max_noreply_msg_num s' = qnx_max_noreply_msg_num s \<and>
     map_option chid (chans s' c) = map_option chid (chans s c) \<and>
     (\<forall>x. x \<noteq> c \<longrightarrow> chans s' x = chans s x)"

lemma same_ends_trans: "same_ends c s1 s2 \<Longrightarrow> same_ends c s2 s3 \<Longrightarrow> same_ends c s1 s3"
  by (simp add: same_ends_def)

lemma same_ends_channel:
  assumes "same_ends c s s'" and "channel_of s q i x"
  shows "channel_of s' q i x"
  using assms unfolding same_ends_def channel_of_def by (cases "x = c") force+

lemma same_ends_routes:
  assumes "same_ends c s s'" and "routes s e i cn x"
  shows "routes s' e i cn x"
proof -
  have "procs s' = procs s" "process_entries s' = process_entries s" using assms(1) by (simp_all add: same_ends_def)
  then show ?thesis
    using assms(2) same_ends_channel [OF assms(1)] unfolding routes_def by metis
qed

text \<open>Between the two states messages were added to the queue of the channel, and that is all.\<close>

definition only_queued :: "addr \<Rightarrow> kstate \<Rightarrow> kstate \<Rightarrow> bool" where
  "only_queued c s s' \<longleftrightarrow>
     same_ends c s s' \<and> set (waits s c) \<subseteq> set (waits s' c) \<and>
     (\<forall>d. d \<notin> set (waits s' c) \<longrightarrow> msgs s' d = msgs s d) \<and>
     (\<forall>d \<in> set (waits s' c) - set (waits s c). msgs s d = None)"

lemma only_queued_refl: "only_queued c s s"
  by (simp add: only_queued_def same_ends_def)

lemma only_queued_trans:
  assumes "only_queued c s1 s2" and "only_queued c s2 s3"
  shows "only_queued c s1 s3"
proof -
  have "same_ends c s1 s3"
    using assms same_ends_trans unfolding only_queued_def by blast
  moreover have "msgs s3 d = msgs s1 d" if "d \<notin> set (waits s3 c)" for d
    using assms that unfolding only_queued_def by (metis subsetD)
  moreover have "msgs s1 d = None" if "d \<in> set (waits s3 c)" "d \<notin> set (waits s1 c)" for d
    using assms that unfolding only_queued_def by (cases "d \<in> set (waits s2 c)") force+
  ultimately show ?thesis using assms by (auto simp: only_queued_def)
qed

text \<open>A message without task that is queued and not refused stands at the end of the queue.\<close>

lemma post_oneway:
  assumes "kinv (holding c H) s" and "channel_of s q i c" and "chans s c = Some ch" and "newest m s" and "task m = None"
    and "rcvid m = 0 \<or> num_waiting_noreply ch < int (qnx_max_noreply_msg_num s)"
  obtains ch' s5 s6 where "qnx_channel_add_new_message c (next_addr s) (post m s) = Some (0, s5)"
    and "qnx_channel_release c s5 = Some s6" and "kinv H s6" and "only_queued c s s6"
    and "queue s6 c = queue s c @ [m\<lparr>receiver_chid := chid ch\<rparr>]" and "chans s6 c = Some ch'"
    and "num_waiting_noreply ch' = num_waiting_noreply ch + (if rcvid m = 0 then 0 else 1)"
    and "gbl_next_rcvid s6 = gbl_next_rcvid s"
proof -
  note po = kinv_post [OF assms(1,4)]
  let ?d = "next_addr s" and ?m = "m\<lparr>receiver_chid := chid ch\<rparr>"
  have at: "chans (post m s) c = Some ch" "mstate m = QNX_STATE_INITIAL"
    using assms(3,4) by (simp_all add: post_def newest_def)
  obtain rc ch1 where a: "channel_enqueue (qnx_max_noreply_msg_num (post m s)) ?d m ch = (rc, ch1)"
    "qnx_channel_add_new_message c ?d (post m s) =
      Some (rc, store_chan c ch1 ((post m s)\<lparr>msgs := (msgs (post m s))(?d \<mapsto> ?m)\<rparr>))"
    "kinv (holding c H) (store_chan c ch1 ((post m s)\<lparr>msgs := (msgs (post m s))(?d \<mapsto> ?m)\<rparr>))"
    "chid ch1 = chid ch" "waiting ch1 = (if rc = 0 then waiting ch @ [?d] else waiting ch)"
    by (rule kinv_add_new_message [OF po(1) at(1) po(2,3) at(2)]) blast
  have cnt: "rc = 0 \<and> num_waiting_noreply ch1 = num_waiting_noreply ch + (if rcvid m = 0 then 0 else 1)"
    using a(1) [unfolded enqueue_cases [OF kinv_chan [OF po(1) at(1)] po(2)]] assms(5,6)
    by (auto simp: noreply_at_def post_def split: if_splits)
  let ?s5 = "store_chan c ch1 ((post m s)\<lparr>msgs := (msgs (post m s))(?d \<mapsto> ?m)\<rparr>)"
  have own: "channel_of ?s5 q i c" "chans ?s5 c = Some ch1"
    using assms(2,3) a(4) by (auto simp: channel_of_def post_def store_chan_def)
  note rel = owned_release [OF a(3) own]
  have old: "?d \<notin> set (waiting ch)"
    using po(3) at(1) by (auto simp: in_no_list_def)
  show thesis
  proof (rule that [OF _ rel])
    show "qnx_channel_add_new_message c ?d (post m s) = Some (0, ?s5)" using a(2) cnt by simp
    let ?s6 = "store_chan c (ch1\<lparr>ch_refcnt := ch_refcnt ch1 - 1\<rparr>) ?s5"
    have "msgs s ?d = None" using kinvD(7) [OF assms(1)] by (simp add: fresh_inv_def)
    then show "only_queued c s ?s6"
      using assms(3) a(4,5) cnt by (auto simp: only_queued_def same_ends_def waits_def post_def store_chan_def)
    show "queue ?s6 c = queue s c @ [?m]"
      using assms(3) a(5) cnt old by (auto simp: queue_def waits_def post_def store_chan_def)
    show "num_waiting_noreply (ch1\<lparr>ch_refcnt := ch_refcnt ch1 - 1\<rparr>) =
      num_waiting_noreply ch + (if rcvid m = 0 then 0 else 1)" using cnt by simp
  qed (simp_all add: post_def store_chan_def)
qed

section \<open>The two senders\<close>

lemma held_queue:
  assumes "chans s c = Some ch"
  shows "queue (hold c s) c = queue s c" and "only_queued c (hold c s) s' \<longleftrightarrow> only_queued c s s'"
  using assms by (auto simp: queue_def waits_def only_queued_def same_ends_def hold_def store_chan_def)

lemma owned_by_route:
  assumes "routes s e i cn c"
  obtains q where "channel_of (hold c s) q (conn_chid cn) c"
proof -
  obtain q where "channel_of s q (conn_chid cn) c" using assms unfolding routes_def by blast
  then show thesis by (intro that [of q]) (auto simp: channel_of_def hold_def store_chan_def)
qed

lemma pulse_queued:
  assumes "kinv H s" and "procs s e = Some pe" and "int_range (mp_coid p)" and "routes s e (mp_coid p) cn c"
    and "kmalloc env A_msgsend 0"
  obtains s' m ch ch' where "handle_msgsendpulse env (Some p) e s = Some (0, s')" and "kinv H s'" and "only_queued c s s'"
    and "queue s' c = queue s c @ [m]" and "rcvid m = 0" and "task m = None" and "sender_pid m = pid pe"
    and "data m = Pulse p" and "chans s c = Some ch" and "chans s' c = Some ch'"
    and "num_waiting_noreply ch' = num_waiting_noreply ch" and "gbl_next_rcvid s' = gbl_next_rcvid s"
proof -
  note r = route_found [OF assms(1-4)]
  obtain ch where ch: "chans s c = Some ch" using r(5) by blast
  obtain q where own: "channel_of (hold c s) q (conn_chid cn) c" by (rule owned_by_route [OF assms(4)])
  let ?m = "fresh_msgsend 0 (pid pe) None (Pulse p)"
  have free: "task ?m = None" "rcvid ?m = 0" by (simp_all add: fresh_msgsend_def)
  obtain ch' s5 s6 where po: "qnx_channel_add_new_message c (next_addr (hold c s)) (post ?m (hold c s)) = Some (0, s5)"
    "qnx_channel_release c s5 = Some s6" "kinv H s6" "only_queued c (hold c s) s6"
    "queue s6 c = queue (hold c s) c @ [?m\<lparr>receiver_chid := chid ch\<rparr>]" "chans s6 c = Some ch'"
    "num_waiting_noreply ch' = num_waiting_noreply ch" "gbl_next_rcvid s6 = gbl_next_rcvid (hold c s)"
    by (rule post_oneway [OF r(4) own chans_hold [OF ch] kinv_post_pulse [OF r(4)], of "pid pe" p])
      (use free in simp_all)
  have "handle_msgsendpulse env (Some p) e s = Some (0, s6)"
    using assms(2,5) r(1-3) po(1,2)
    by (simp add: handle_msgsendpulse_def qnx_internal_msgsend_init_pulse_def fresh_msgsend_def alloc_def post_def Let_def)
  then show thesis
    by (rule that [where m = "?m\<lparr>receiver_chid := chid ch\<rparr>", OF _ po(3) _ _ _ _ _ _ ch po(6,7)])
      (use held_queue [OF ch] po(4,5,8) in \<open>simp_all add: fresh_msgsend_def\<close>)
qed

text \<open>The constructor of a message without reply that can be read and fits.\<close>

lemma init_noreply_built:
  assumes "kenv_ok env" and "kinv H s" and "gbl_next_rcvid s < 2 ^ 31 - 1"
    and "kmalloc env A_msgsend (sizeof_msgsend + iov_len (ms_in io))"
    and "copy_from_user env (iov_base (ms_in io)) (iov_len (ms_in io)) = Some bs"
    and "k = \<lparr>km_coid = ms_coid io, km_timeout_ms = ms_timeout_ms io, km_in_buf = bs, km_in_len = iov_len (ms_in io),
           km_out = ms_out io\<rparr>"
    and "m = fresh_msgsend (gbl_next_rcvid s + 1) p None (Msg k)" and "s1 = s\<lparr>gbl_next_rcvid := gbl_next_rcvid s + 1\<rparr>"
  shows "qnx_internal_msgsend_init_noreply env (Some io) p s = Some (0, Some m, s1)"
    and "newest (m\<lparr>receiver_pid := r\<rparr>) s1" and "kinv H s1" and "0 < gbl_next_rcvid s + 1"
proof -
  have r0: "0 \<le> gbl_next_rcvid s" using kinvD(6) [OF assms(2)] by (simp add: msgs_inv_def)
  have small: "sizeof_msgsend + iov_len (ms_in io) < 2 ^ 31" using kenv_okD(4) [OF assms(1,4)] .
  show "qnx_internal_msgsend_init_noreply env (Some io) p s = Some (0, Some m, s1)"
    using assms(3-8) small r0
    by (simp add: qnx_internal_msgsend_init_noreply_def get_new_rcvid_def Let_def wrap32_small sizeof_msgsend_def)
  have ok: "new_message_ok None p s 0 (Some m) s1"
    unfolding assms(7) by (rule new_message_okI [OF r0 assms(3)])
      (use kenv_okD(1) [OF assms(1,5)] small r0 assms(3,6,8) in \<open>simp_all add: wrap32_small\<close>)
  show "newest (m\<lparr>receiver_pid := r\<rparr>) s1" "kinv H s1" by (rule newest_of_constructor [OF assms(2) ok])+
  show "0 < gbl_next_rcvid s + 1" using r0 by simp
qed

lemma noreply_queued:
  assumes "kenv_ok env" and "kinv H s" and "procs s e = Some pe" and "int_range (ms_coid io)"
    and "routes s e (ms_coid io) cn c" and "gbl_next_rcvid s < 2 ^ 31 - 1"
    and "kmalloc env A_msgsend (sizeof_msgsend + iov_len (ms_in io))"
    and "copy_from_user env (iov_base (ms_in io)) (iov_len (ms_in io)) = Some bs"
    and "chans s c = Some ch" and "num_waiting_noreply ch < int (qnx_max_noreply_msg_num s)"
  obtains s' m ch' where "handle_msgsend_no_reply env (Some io) e ws s = Some (Some 0, s')" and "kinv H s'"
    and "only_queued c s s'" and "queue s' c = queue s c @ [m]" and "rcvid m = gbl_next_rcvid s + 1" and "task m = None"
    and "sender_pid m = pid pe" and "data m = Msg \<lparr>km_coid = ms_coid io, km_timeout_ms = ms_timeout_ms io, km_in_buf = bs,
           km_in_len = iov_len (ms_in io), km_out = ms_out io\<rparr>" and "chans s' c = Some ch'"
    and "num_waiting_noreply ch' = num_waiting_noreply ch + 1" and "gbl_next_rcvid s' = gbl_next_rcvid s + 1"
proof -
  let ?k = "\<lparr>km_coid = ms_coid io, km_timeout_ms = ms_timeout_ms io, km_in_buf = bs, km_in_len = iov_len (ms_in io),
    km_out = ms_out io\<rparr>"
  let ?m = "fresh_msgsend (gbl_next_rcvid s + 1) (pid pe) None (Msg ?k)" and ?s = "s\<lparr>gbl_next_rcvid := gbl_next_rcvid s + 1\<rparr>"
  let ?mr = "?m\<lparr>receiver_pid := conn_pid cn\<rparr>"
  note new = init_noreply_built [where p = "pid pe", OF assms(1,2,6-8) refl refl refl]
  have rt: "routes ?s e (ms_coid io) cn c" "procs ?s e = Some pe" "chans ?s c = Some ch"
    using assms(3,5,9) by (simp_all add: routes_def channel_of_def)
  note r = route_found [OF new(3) rt(2) assms(4) rt(1)]
  obtain q where own: "channel_of (hold c ?s) q (conn_chid cn) c" by (rule owned_by_route [OF rt(1)])
  have m: "task ?mr = None" "rcvid ?mr \<noteq> 0" "newest ?mr (hold c ?s)"
    using new(2) [of "conn_pid cn"] new(4) by (simp_all add: fresh_msgsend_def)
  obtain ch' s5 s6 where po: "qnx_channel_add_new_message c (next_addr (hold c ?s)) (post ?mr (hold c ?s)) = Some (0, s5)"
    "qnx_channel_release c s5 = Some s6" "kinv H s6" "only_queued c (hold c ?s) s6"
    "queue s6 c = queue (hold c ?s) c @ [?mr\<lparr>receiver_chid := chid ch\<rparr>]" "chans s6 c = Some ch'"
    "num_waiting_noreply ch' = num_waiting_noreply ch + 1" "gbl_next_rcvid s6 = gbl_next_rcvid (hold c ?s)"
    by (rule post_oneway [OF r(4) own chans_hold [OF rt(3)] m(3,1)])
      (use m(2) assms(10) in \<open>simp_all add: hold_def store_chan_def\<close>)
  have "busy_loop_add_new_message c (next_addr (hold c ?s)) ws (post ?mr (hold c ?s)) = Some (Some 0, s5)"
    using po(1) by (cases ws) auto
  moreover have "km_coid (data_msg (data ?m)) = ms_coid io" by (simp add: fresh_msgsend_def)
  ultimately have "handle_msgsend_no_reply env (Some io) e ws s = Some (Some 0, s6)"
    using no_reply_eq [OF assms(3) new(1), of cn c "hold c ?s" ws] r(1-3) po(2)
    by (simp del: busy_loop_add_new_message.simps)
  then show thesis
    by (rule that [where m = "?mr\<lparr>receiver_chid := chid ch\<rparr>", OF _ po(3) _ _ _ _ _ _ po(6,7)])
      (use held_queue [OF rt(3)] po(4,5,8) in
       \<open>simp_all add: fresh_msgsend_def only_queued_def same_ends_def queue_def waits_def\<close>)
qed

section \<open>The receiver\<close>

lemma delivery_mstate [simp]: "delivery env ua io wrc i (m\<lparr>mstate := x\<rparr>) = delivery env ua io wrc i m"
  by (simp add: delivery_def deliver_message_def Let_def)

lemma oneway_received:
  assumes "kinv H s" and "procs s q = Some qe" and "channel_of s q (rcv_chid rio) c" and "queue s c = m # ms"
    and "task m = None" and "0 \<le> receive_rc left"
  obtains s' rc ws where "handle_msgreceive env ua (Some rio) q (\<lambda>s. s) left s = Some (rc, ws, s')"
    and "(rc, ws) = delivery env ua rio (receive_rc left) (rcv_chid rio) m" and "kinv H s'" and "same_ends c s s'" and "queue s' c = ms"
    and "waits s' c = tl (waits s c)" and "msgs s' = (msgs s)(hd (waits s c) := None)"
proof -
  obtain ch where ch: "chans s c = Some ch" "chid ch = rcv_chid rio" using assms(3) by (auto simp: channel_of_def)
  then obtain d ds where q: "waiting ch = d # ds" "m = the (msgs s d)" "ms = map (\<lambda>d. the (msgs s d)) ds"
    using assms(4) by (auto simp: queue_def waits_def)
  have live: "distinct (waiting ch)" "d \<in> dom (msgs s)"
    using kinv_chan [OF assms(1) ch(1)] q(1) by (auto simp: chan_inv_def)
  then have m: "msgs s d = Some m" using q(2) by auto
  let ?m = "m\<lparr>mstate := QNX_STATE_RECEIVING\<rparr>"
  obtain ch1 s1 where tk: "s1 = store_chan c ch1 ((hold c s)\<lparr>msgs := (msgs s)(d \<mapsto> ?m)\<rparr>)"
    "handle_msgreceive env ua (Some rio) q (\<lambda>s. s) left s = handle_msgreceive_finish env ua rio (receive_rc left) q c d s1"
    "kinv (holding c H) s1" "in_no_list d s1" "waiting ch1 = ds" "chid ch1 = chid ch"
    by (rule receive_takes_exact [OF assms(1-3) ch(1) q(1) m assms(6)])
  have at: "msgs s1 d = Some ?m" "chans s1 c = Some ch1" using tk(1) by simp_all
  let ?s2 = "s1\<lparr>msgs := (msgs s1)(d := None)\<rparr>"
  have k2: "kinv (holding c H) ?s2" by (rule kinv_free_msg [OF tk(3,4)])
  have own: "channel_of ?s2 q (rcv_chid rio) c" "chans ?s2 c = Some ch1"
    using assms(2,3) ch at(2) tk(1,6) by (auto simp: channel_of_def)
  note rel = owned_release [OF k2 own]
  let ?s3 = "store_chan c (ch1\<lparr>ch_refcnt := ch_refcnt ch1 - 1\<rparr>) ?s2"
  have ok: "payload_ok ?m" using kinv_msg [OF tk(3) at(1)] by simp
  obtain rc ws where del: "delivery env ua rio (receive_rc left) (chid ch1) ?m = (rc, ws)" by fastforce
  then have "handle_msgreceive env ua (Some rio) q (\<lambda>s. s) left s = Some (rc, ws, ?s3)"
    using receive_finish_eq [OF at ok, of env ua rio "receive_rc left" q] tk(2) assms(5) rel(1) by simp
  moreover have "(rc, ws) = delivery env ua rio (receive_rc left) (rcv_chid rio) m"
    using del tk(6) ch(2) by simp
  moreover have "queue ?s3 c = ms"
    using q live tk(1,5) by (auto simp: queue_def waits_def store_chan_def)
  moreover have "same_ends c s ?s3" "waits ?s3 c = tl (waits s c)" "msgs ?s3 = (msgs s)(hd (waits s c) := None)"
    using ch q(1) tk(1,5,6) by (auto simp: same_ends_def waits_def hold_def store_chan_def)
  ultimately show thesis using that rel(2) by blast
qed

section \<open>A sequence of one-way calls\<close>

text \<open>One call of a sender: its environment, its process entry and the argument.\<close>

datatype oneway = Pulse_call qnx_io_msgsendpulse | Noreply_call qnx_io_msgsend

type_synonym oneway_call = "kenv \<times> addr \<times> oneway"

text \<open>The calls one after the other, while each of them returns 0.\<close>

fun send_all :: "oneway_call list \<Rightarrow> kstate \<Rightarrow> kstate option" where
  "send_all [] s = Some s"
| "send_all ((env, e, Pulse_call p) # cs) s =
     do { (rc, s1) \<leftarrow> handle_msgsendpulse env (Some p) e s; if rc = 0 then send_all cs s1 else None }"
| "send_all ((env, e, Noreply_call io) # cs) s =
     do { (rc, s1) \<leftarrow> handle_msgsend_no_reply env (Some io) e [] s; if rc = Some 0 then send_all cs s1 else None }"

text \<open>The receiver calls \<open>MsgReceive\<close> \<open>n\<close> times with the same argument.\<close>

fun receive_all ::
  "kenv \<Rightarrow> uaddr \<Rightarrow> qnx_io_receive \<Rightarrow> addr \<Rightarrow> int \<Rightarrow> nat \<Rightarrow> kstate \<Rightarrow> ((int \<times> uwrite list) list \<times> kstate) option" where
  "receive_all env ua rio q left 0 s = Some ([], s)"
| "receive_all env ua rio q left (Suc n) s =
     do { (rc, ws, s1) \<leftarrow> handle_msgreceive env ua (Some rio) q (\<lambda>s. s) left s;
          (rs, s2) \<leftarrow> receive_all env ua rio q left n s1;
          Some ((rc, ws) # rs, s2) }"

text \<open>
  What the receiver is to see: a pulse is returned as 0 with its code, connection id and value
  stored in the structure, a message without reply is returned as its receive id with its bytes,
  cut to the buffer. \<open>r\<close> is the last receive id that was given out.
\<close>

definition pulse_arrives :: "uaddr \<Rightarrow> qnx_io_receive \<Rightarrow> pid_t \<Rightarrow> qnx_io_msgsendpulse \<Rightarrow> int \<times> uwrite list" where
  "pulse_arrives ua rio p pl =
     (let b = iov_base (rcv_out rio) in
      (0, [Put8 (b + 4) (wrap8 (mp_code pl)), Put32 (b + 16) (mp_coid pl), Put32 (b + 8) (mp_value pl),
           Receive_info ua (rio\<lparr>rcv_info := zero_info\<lparr>info_pid := p, info_chid := rcv_chid rio, scoid := mp_coid pl,
             info_coid := mp_coid pl, msglen := 8, srcmsglen := 8\<rparr>\<rparr>)]))"

definition message_arrives ::
  "uaddr \<Rightarrow> qnx_io_receive \<Rightarrow> pid_t \<Rightarrow> int \<Rightarrow> qnx_io_msgsend \<Rightarrow> byte list \<Rightarrow> int \<times> uwrite list" where
  "message_arrives ua rio p r io bs =
     (r, [Bytes (iov_base (rcv_out rio)) (take (iov_len (rcv_out rio)) bs),
          Receive_info ua (rio\<lparr>rcv_info := zero_info\<lparr>info_pid := p, info_chid := rcv_chid rio, scoid := ms_coid io,
            info_coid := ms_coid io, msglen := int (length bs), srcmsglen := int (length bs),
            dstmsglen := wrap32 (int (iov_len (ms_out io))), flags := QNX_FLAG_NOREPLY\<rparr>\<rparr>)])"

fun arrivals ::
  "uaddr \<Rightarrow> qnx_io_receive \<Rightarrow> (addr \<Rightarrow> qnx_process_entry option) \<Rightarrow> int \<Rightarrow> oneway_call list \<Rightarrow> (int \<times> uwrite list) list" where
  "arrivals ua rio ps r [] = []"
| "arrivals ua rio ps r ((env, e, Pulse_call p) # cs) =
     pulse_arrives ua rio (pid (the (ps e))) p # arrivals ua rio ps r cs"
| "arrivals ua rio ps r ((env, e, Noreply_call io) # cs) =
     message_arrives ua rio (pid (the (ps e))) (r + 1) io (the (copy_from_user env (iov_base (ms_in io)) (iov_len (ms_in io))))
       # arrivals ua rio ps (r + 1) cs"

fun noreply_calls :: "oneway_call list \<Rightarrow> nat" where
  "noreply_calls [] = 0"
| "noreply_calls ((env, e, Pulse_call p) # cs) = noreply_calls cs"
| "noreply_calls ((env, e, Noreply_call io) # cs) = Suc (noreply_calls cs)"

text \<open>The call goes to the channel \<open>c\<close>, has memory for its message and can read its argument.\<close>

fun sendable :: "kstate \<Rightarrow> qnx_connection \<Rightarrow> addr \<Rightarrow> oneway_call \<Rightarrow> bool" where
  "sendable s cn c (env, e, Pulse_call p) \<longleftrightarrow>
     int_range (mp_coid p) \<and> routes s e (mp_coid p) cn c \<and> kmalloc env A_msgsend 0"
| "sendable s cn c (env, e, Noreply_call io) \<longleftrightarrow>
     kenv_ok env \<and> int_range (ms_coid io) \<and> routes s e (ms_coid io) cn c \<and>
     kmalloc env A_msgsend (sizeof_msgsend + iov_len (ms_in io)) \<and>
     copy_from_user env (iov_base (ms_in io)) (iov_len (ms_in io)) \<noteq> None"

text \<open>The receiver has a writable buffer with room for a pulse.\<close>

definition receiver_ready :: "kenv \<Rightarrow> uaddr \<Rightarrow> qnx_io_receive \<Rightarrow> bool" where
  "receiver_ready env ua rio \<longleftrightarrow>
     (let b = iov_base (rcv_out rio) in
      store_to_user env ua \<and> sizeof_pulse \<le> iov_len (rcv_out rio) \<and>
      store_to_user env (b + 4) \<and> store_to_user env (b + 8) \<and> store_to_user env (b + 16) \<and>
      (\<forall>bs. length bs \<le> iov_len (rcv_out rio) \<longrightarrow> copy_to_user env b bs))"

lemma pulse_delivery:
  assumes "receiver_ready env ua rio" and "rcvid m = 0" and "data m = Pulse p"
  shows "delivery env ua rio wrc (rcv_chid rio) m = pulse_arrives ua rio (sender_pid m) p"
  using assms
  by (simp add: delivery_def deliver_pulse_def store_pulse_def pulse_arrives_def receiver_ready_def zero_info_def Let_def)

lemma message_delivery:
  assumes "receiver_ready env ua rio" and "0 < rcvid m" and "task m = None" and "length bs = iov_len (ms_in io)"
    and "length bs < 2 ^ 31"
    and "data m = Msg \<lparr>km_coid = ms_coid io, km_timeout_ms = ms_timeout_ms io, km_in_buf = bs,
           km_in_len = iov_len (ms_in io), km_out = ms_out io\<rparr>"
  shows "delivery env ua rio wrc (rcv_chid rio) m = message_arrives ua rio (sender_pid m) (rcvid m) io bs"
proof -
  have "take (min (length bs) n) bs = take n bs" for n by (simp add: min_def)
  moreover have "iov_len (ms_in io) = length bs" using assms(4) by simp
  ultimately show ?thesis
    using assms(1-3,5,6)
    by (simp add: delivery_def deliver_message_def message_arrives_def receiver_ready_def Let_def wrap32_small)
qed

lemma sendable_later: "same_ends c s s' \<Longrightarrow> sendable s cn c x \<Longrightarrow> sendable s' cn c x"
  by (cases "(s, cn, c, x)" rule: sendable.cases) (auto intro: same_ends_routes)

text \<open>A sequence is its first call and the rest.\<close>

lemma oneway_cons:
  "send_all (x # cs) s = do { s1 \<leftarrow> send_all [x] s; send_all cs s1 }"
  "arrivals ua rio ps r (x # cs) = arrivals ua rio ps r [x] @ arrivals ua rio ps (r + int (noreply_calls [x])) cs"
  "noreply_calls (x # cs) = noreply_calls [x] + noreply_calls cs"
  by (cases x; cases "snd (snd x)"; auto split: bind_splits)+

lemma length_arrivals: "length (arrivals ua rio ps r cs) = length cs"
  by (induction ua rio ps r cs rule: arrivals.induct) simp_all

text \<open>A call is accepted, and its message is what the receiver is to see.\<close>

lemma one_queued:
  assumes "kinv H s" and "sendable s cn c x" and "chans s c = Some ch"
    and "num_waiting_noreply ch + int (noreply_calls [x]) \<le> int (qnx_max_noreply_msg_num s)"
    and "gbl_next_rcvid s + int (noreply_calls [x]) < 2 ^ 31" and "receiver_ready env ua rio"
  shows "\<exists>s' m ch'. send_all [x] s = Some s' \<and> kinv H s' \<and> only_queued c s s' \<and> queue s' c = queue s c @ [m] \<and>
    task m = None \<and> [delivery env ua rio (receive_rc left) (rcv_chid rio) m] = arrivals ua rio (procs s) (gbl_next_rcvid s) [x] \<and>
    chans s' c = Some ch' \<and> num_waiting_noreply ch' = num_waiting_noreply ch + int (noreply_calls [x]) \<and>
    gbl_next_rcvid s' = gbl_next_rcvid s + int (noreply_calls [x])"
proof (cases "(s, cn, c, x)" rule: sendable.cases)
  case (1 _ _ _ senv e p)
  then obtain pe where pe: "procs s e = Some pe" using assms(2) by (auto simp: routes_def)
  obtain s1 m ch1 where q: "handle_msgsendpulse senv (Some p) e s = Some (0, s1)" "kinv H s1" "only_queued c s s1"
    "queue s1 c = queue s c @ [m]" "rcvid m = 0" "task m = None" "sender_pid m = pid pe" "data m = Pulse p"
    "chans s1 c = Some ch1" "num_waiting_noreply ch1 = num_waiting_noreply ch" "gbl_next_rcvid s1 = gbl_next_rcvid s"
    by (rule pulse_queued [OF assms(1) pe, of p cn c senv]) (use assms(2,3) 1 in auto)
  then show ?thesis
    using 1 pe pulse_delivery [OF assms(6) q(5,8), of "receive_rc left"] by simp
next
  case (2 _ _ _ senv e io)
  then obtain pe bs where pe: "procs s e = Some pe" "copy_from_user senv (iov_base (ms_in io)) (iov_len (ms_in io)) = Some bs"
    using assms(2) by (auto simp: routes_def)
  have ok: "kenv_ok senv" "int_range (ms_coid io)" "routes s e (ms_coid io) cn c"
    "kmalloc senv A_msgsend (sizeof_msgsend + iov_len (ms_in io))" "gbl_next_rcvid s < 2 ^ 31 - 1"
    "num_waiting_noreply ch < int (qnx_max_noreply_msg_num s)"
    using assms(2,4,5) 2 by simp_all
  obtain s1 m ch1 where q: "handle_msgsend_no_reply senv (Some io) e [] s = Some (Some 0, s1)" "kinv H s1" "only_queued c s s1"
    "queue s1 c = queue s c @ [m]" "rcvid m = gbl_next_rcvid s + 1" "task m = None" "sender_pid m = pid pe"
    "data m = Msg \<lparr>km_coid = ms_coid io, km_timeout_ms = ms_timeout_ms io, km_in_buf = bs,
       km_in_len = iov_len (ms_in io), km_out = ms_out io\<rparr>"
    "chans s1 c = Some ch1" "num_waiting_noreply ch1 = num_waiting_noreply ch + 1" "gbl_next_rcvid s1 = gbl_next_rcvid s + 1"
    by (rule noreply_queued [OF ok(1) assms(1) pe(1) ok(2,3,5,4) pe(2) assms(3) ok(6)])
  have len: "length bs = iov_len (ms_in io)" "length bs < 2 ^ 31" "0 < rcvid m"
    using kenv_okD(1) [OF ok(1) pe(2)] kenv_okD(4) [OF ok(1,4)] q(5) kinvD(6) [OF assms(1)]
    by (simp_all add: msgs_inv_def sizeof_msgsend_def)
  show ?thesis
    using 2 pe q message_delivery [OF assms(6) len(3) q(6) len(1,2) q(8), of "receive_rc left"] by simp
qed

lemma all_queued:
  assumes "kinv H s" and "\<forall>x \<in> set cs. sendable s cn c x" and "chans s c = Some ch"
    and "num_waiting_noreply ch + int (noreply_calls cs) \<le> int (qnx_max_noreply_msg_num s)"
    and "gbl_next_rcvid s + int (noreply_calls cs) < 2 ^ 31" and "receiver_ready env ua rio"
  shows "\<exists>s' ms. send_all cs s = Some s' \<and> kinv H s' \<and> only_queued c s s' \<and> queue s' c = queue s c @ ms \<and>
    (\<forall>m \<in> set ms. task m = None) \<and>
    map (delivery env ua rio (receive_rc left) (rcv_chid rio)) ms = arrivals ua rio (procs s) (gbl_next_rcvid s) cs"
  using assms(1-5)
proof (induction cs arbitrary: s ch)
  case Nil
  then show ?case by (auto simp: only_queued_refl)
next
  case (Cons x cs)
  note n = oneway_cons(3) [of x cs]
  have x: "sendable s cn c x" "num_waiting_noreply ch + int (noreply_calls [x]) \<le> int (qnx_max_noreply_msg_num s)"
    "gbl_next_rcvid s + int (noreply_calls [x]) < 2 ^ 31"
    using Cons.prems(2,4,5) n by simp_all
  obtain s1 m ch1 where q: "send_all [x] s = Some s1" "kinv H s1" "only_queued c s s1" "queue s1 c = queue s c @ [m]"
    "task m = None" "[delivery env ua rio (receive_rc left) (rcv_chid rio) m] = arrivals ua rio (procs s) (gbl_next_rcvid s) [x]"
    "chans s1 c = Some ch1" "num_waiting_noreply ch1 = num_waiting_noreply ch + int (noreply_calls [x])"
    "gbl_next_rcvid s1 = gbl_next_rcvid s + int (noreply_calls [x])"
    using one_queued [OF Cons.prems(1) x(1) Cons.prems(3) x(2,3) assms(6), of left] by blast
  have ends: "same_ends c s s1" using q(3) by (simp add: only_queued_def)
  have "\<forall>x \<in> set cs. sendable s1 cn c x" using Cons.prems(2) sendable_later [OF ends] by simp
  from Cons.IH [OF q(2) this q(7)] obtain s2 ms where s2: "send_all cs s1 = Some s2" "kinv H s2" "only_queued c s1 s2"
    "queue s2 c = queue s1 c @ ms" "\<forall>m \<in> set ms. task m = None"
    "map (delivery env ua rio (receive_rc left) (rcv_chid rio)) ms =
       arrivals ua rio (procs s) (gbl_next_rcvid s + int (noreply_calls [x])) cs"
    using Cons.prems(4,5) q(8,9) ends n by (auto simp: same_ends_def)
  then have "map (delivery env ua rio (receive_rc left) (rcv_chid rio)) (m # ms) = arrivals ua rio (procs s) (gbl_next_rcvid s) (x # cs)"
    using q(6) oneway_cons(2) [of ua rio "procs s" "gbl_next_rcvid s" x cs] by simp
  moreover have "send_all (x # cs) s = Some s2" using q(1) s2(1) oneway_cons(1) [of x cs s] by simp
  ultimately show ?case
    using s2 q(4,5) only_queued_trans [OF q(3) s2(3)] by (intro exI [of _ s2] exI [of _ "m # ms"]) simp
qed

lemma all_received:
  assumes "kinv H s" and "procs s q = Some qe" and "channel_of s q (rcv_chid rio) c" and "queue s c = ms"
    and "\<forall>m \<in> set ms. task m = None" and "0 \<le> receive_rc left"
  shows "\<exists>s'. receive_all env ua rio q left (length ms) s = Some (map (delivery env ua rio (receive_rc left) (rcv_chid rio)) ms, s') \<and>
    kinv H s' \<and> same_ends c s s' \<and> queue s' c = [] \<and>
    msgs s' = (\<lambda>d. if d \<in> set (waits s c) then None else msgs s d)"
  using assms(1-5)
proof (induction ms arbitrary: s)
  case Nil
  then show ?case by (simp add: same_ends_def queue_def)
next
  case (Cons m ms)
  have "task m = None" using Cons.prems(5) by simp
  from oneway_received [OF Cons.prems(1-4) this assms(6), of env ua] obtain s1 rc ws where r:
    "handle_msgreceive env ua (Some rio) q (\<lambda>s. s) left s = Some (rc, ws, s1)"
    "(rc, ws) = delivery env ua rio (receive_rc left) (rcv_chid rio) m" "kinv H s1" "same_ends c s s1" "queue s1 c = ms"
    "waits s1 c = tl (waits s c)" "msgs s1 = (msgs s)(hd (waits s c) := None)" by metis
  have at: "procs s1 q = Some qe" "channel_of s1 q (rcv_chid rio) c"
    using Cons.prems(2,3) r(4) same_ends_channel [OF r(4)] by (simp_all add: same_ends_def)
  obtain s2 where s2: "receive_all env ua rio q left (length ms) s1 = Some (map (delivery env ua rio (receive_rc left) (rcv_chid rio)) ms, s2)"
    "kinv H s2" "same_ends c s1 s2" "queue s2 c = []" "msgs s2 = (\<lambda>d. if d \<in> set (waits s1 c) then None else msgs s1 d)"
    using Cons.IH [OF r(3) at r(5)] Cons.prems(5) by auto
  obtain d ds where w: "waits s c = d # ds" using Cons.prems(4) by (auto simp: queue_def)
  have "msgs s2 = (\<lambda>d. if d \<in> set (waits s c) then None else msgs s d)"
    using s2(5) r(6,7) w by auto
  then show ?case
    using r(1,2) s2(1,2,4) same_ends_trans [OF r(4) s2(3)] by auto
qed

text \<open>
  C13. Pulses and messages without reply are neither lost nor doubled nor reordered. Any
  sequence of such calls, by any processes with connections to the same channel, is accepted
  while the number of messages without reply stays within the limit of the module. The receiver
  that then calls \<open>MsgReceive\<close> as often gets them in this order: every pulse as 0 with its code,
  connection id and value, every message as its own receive id with its bytes, cut to the
  buffer, and both with the process id of the sender. Afterwards the queue is empty, no message
  object is left, and the processes are as before.
\<close>

theorem oneway_calls_arrive_in_order:
  assumes "kinv H s" and "\<forall>x \<in> set cs. sendable s cn c x" and "chans s c = Some ch" and "waiting ch = []"
    and "noreply_calls cs \<le> qnx_max_noreply_msg_num s" and "gbl_next_rcvid s + int (noreply_calls cs) < 2 ^ 31"
    and "procs s q = Some qe" and "channel_of s q (rcv_chid rio) c" and "receiver_ready env ua rio" and "0 \<le> receive_rc left"
  shows "\<exists>s1 s2. send_all cs s = Some s1 \<and>
    receive_all env ua rio q left (length cs) s1 = Some (arrivals ua rio (procs s) (gbl_next_rcvid s) cs, s2) \<and>
    kinv H s2 \<and> queue s2 c = [] \<and> msgs s2 = msgs s \<and> procs s2 = procs s \<and> process_entries s2 = process_entries s"
proof -
  have empty: "queue s c = []" "waits s c = []" using assms(3,4) by (simp_all add: queue_def waits_def)
  have "num_waiting_noreply ch = 0" using kinv_chan [OF assms(1,3)] assms(4) by (simp add: chan_inv_def)
  then have room: "num_waiting_noreply ch + int (noreply_calls cs) \<le> int (qnx_max_noreply_msg_num s)"
    using assms(5) by simp
  obtain s1 ms where q: "send_all cs s = Some s1" "kinv H s1" "only_queued c s s1" "queue s1 c = ms"
    "\<forall>m \<in> set ms. task m = None"
    "map (delivery env ua rio (receive_rc left) (rcv_chid rio)) ms = arrivals ua rio (procs s) (gbl_next_rcvid s) cs"
    using all_queued [OF assms(1-3) room assms(6,9), of left] empty(1) by auto
  have ends: "same_ends c s s1" using q(3) by (simp add: only_queued_def)
  then have at: "procs s1 q = Some qe" "channel_of s1 q (rcv_chid rio) c"
    using assms(7,8) same_ends_channel [OF ends] by (simp_all add: same_ends_def)
  obtain s2 where r: "receive_all env ua rio q left (length ms) s1 = Some (map (delivery env ua rio (receive_rc left) (rcv_chid rio)) ms, s2)"
    "kinv H s2" "same_ends c s1 s2" "queue s2 c = []" "msgs s2 = (\<lambda>d. if d \<in> set (waits s1 c) then None else msgs s1 d)"
    using all_received [OF q(2) at q(4,5) assms(10), of env ua] by blast
  have "msgs s2 d = msgs s d" for d
    using r(5) q(3) empty(2) by (cases "d \<in> set (waits s1 c)") (simp_all add: only_queued_def)
  moreover have "length ms = length cs"
    using arg_cong [OF q(6), of length] by (simp add: length_arrivals)
  ultimately show ?thesis
    using q(1,6) r(1,2,4) same_ends_trans [OF ends r(3)] by (auto simp: same_ends_def)
qed

theorem oneway_calls_arrive_in_order_witness:
  "\<exists>s1 s2 i j. send_all [(demo_env, 3, Pulse_call \<lparr>mp_coid = 1, mp_code = 300, mp_value = 77\<rparr>),
        (demo_env, 3, Noreply_call demo_io)] demo_kernel = Some s1 \<and>
    receive_all demo_env 512 \<lparr>rcv_chid = 1, rcv_timeout_ms = 10, rcv_out = \<lparr>iov_base = 1024, iov_len = 64\<rparr>, rcv_info = zero_info\<rparr>
      1 1 2 s1 = Some ([(0, [Put8 1028 44, Put32 1040 1, Put32 1032 77, i]), (1, [Bytes 1024 [16, 17, 18], j])], s2) \<and>
    msgs s2 = msgs demo_kernel"
proof -
  let ?rio = "\<lparr>rcv_chid = 1, rcv_timeout_ms = 10, rcv_out = \<lparr>iov_base = 1024, iov_len = 64\<rparr>, rcv_info = zero_info\<rparr>"
  let ?cs = "[(demo_env, 3, Pulse_call \<lparr>mp_coid = 1, mp_code = 300, mp_value = 77\<rparr>), (demo_env, 3, Noreply_call demo_io)]"
  have at: "chans demo_kernel 2 = Some \<lparr>ch_refcnt = 1, chid = 1, waiting = [], num_waiting = 0, num_waiting_noreply = 0\<rparr>"
    "gbl_next_rcvid demo_kernel = 0" "noreply_calls ?cs \<le> qnx_max_noreply_msg_num demo_kernel"
    "channel_of demo_kernel 1 (rcv_chid ?rio) 2"
    by (simp_all add: demo_defs channel_of_def)
  have ready: "receiver_ready demo_env 512 ?rio"
    by (simp add: receiver_ready_def demo_env_def sizeof_pulse_def)
  have ok: "\<forall>x \<in> set ?cs. sendable demo_kernel \<lparr>conn_pid = 7, conn_chid = 1\<rparr> 2 x"
    using demo_routes demo_env_ok by (simp add: demo_io_def int_range_def) (simp add: demo_env_def sizeof_msgsend_def)
  have "\<exists>i j. arrivals 512 ?rio (procs demo_kernel) (gbl_next_rcvid demo_kernel) ?cs =
      [(0, [Put8 1028 44, Put32 1040 1, Put32 1032 77, i]), (1, [Bytes 1024 [16, 17, 18], j])]"
    by (simp add: pulse_arrives_def message_arrives_def at(2) demo_io_def demo_env_def upt_rec wrap8_def)
  then obtain i j where sees: "arrivals 512 ?rio (procs demo_kernel) (gbl_next_rcvid demo_kernel) ?cs =
      [(0, [Put8 1028 44, Put32 1040 1, Put32 1032 77, i]), (1, [Bytes 1024 [16, 17, 18], j])]" by blast
  have "gbl_next_rcvid demo_kernel + int (noreply_calls ?cs) < 2 ^ 31" by (simp add: at(2))
  note arrive = oneway_calls_arrive_in_order [OF demo_kernel_inv ok at(1) _ at(3) this demo_kernel_procs(1) at(4) ready, of 1]
  have n: "length ?cs = 2" by simp
  show ?thesis
    using arrive unfolding sees n by (simp del: send_all.simps receive_all.simps) blast
qed

end
