(* ===== verification/Interference.thy ===== *)
theory Interference
  imports Rendezvous
begin

text \<open>
  What the calls of one thread do to the messages of the others. A call has a set \<open>D\<close> of
  messages of its own; of every other message that a sender waits for it only changes the
  status, it never puts one on a list, and when it wakes a thread, the message of that thread
  is on no list; it takes such a message off its list only when it wakes the sender. The reference counts and process ids of the entries stay as they are.
\<close>

definition same_message :: "qnx_internal_msgsend \<Rightarrow> qnx_internal_msgsend \<Rightarrow> bool" where
  "same_message m m' \<longleftrightarrow>
     task m' = task m \<and> rcvid m' = rcvid m \<and> sender_pid m' = sender_pid m \<and> receiver_pid m' = receiver_pid m \<and>
     data m' = data m \<and> mstate m' = mstate m"

text \<open>The message of thread \<open>t\<close> is on no list, so \<open>t\<close> may return.\<close>

definition released :: "kstate \<Rightarrow> tid \<Rightarrow> bool" where
  "released s t \<longleftrightarrow>
     (\<exists>d m. msgs s d = Some m \<and> task m = Some t \<and> in_no_list d s \<and> mstate m \<noteq> QNX_STATE_RECEIVING)"

text \<open>
  The dead objects that are touched between \<open>s\<close> and \<open>s'\<close> were freed in between; they were alive
  before, or are in \<open>D\<close>, and are no messages of senders.
\<close>

definition touches :: "addr set \<Rightarrow> kstate \<Rightarrow> kstate \<Rightarrow> bool" where
  "touches D s s' \<longleftrightarrow>
     (\<exists>zs. uaf s' = zs @ uaf s \<and> (\<forall>z \<in> set zs. msgs s' z = None \<and> (z \<in> D \<or> msgs s z \<noteq> None) \<and>
        (\<forall>m. msgs s z = Some m \<longrightarrow> task m = None)))"

definition frame :: "addr set \<Rightarrow> kstate \<Rightarrow> kstate \<Rightarrow> bool" where
  "frame D s s' \<longleftrightarrow>
     (\<forall>d m. d \<notin> D \<and> msgs s d = Some m \<and> task m \<noteq> None \<longrightarrow> (\<exists>m'. msgs s' d = Some m' \<and> same_message m m')) \<and>
     (\<forall>d. d \<notin> D \<and> in_no_list d s \<longrightarrow> msgs s' d = msgs s d) \<and>
     (\<forall>d m'. d \<notin> D \<and> msgs s' d = Some m' \<longrightarrow>
        (\<exists>m. msgs s d = Some m \<and> task m' = task m \<and> receiver_pid m' = receiver_pid m)) \<and>
     (\<forall>d c ch'. d \<notin> D \<and> chans s' c = Some ch' \<and> d \<in> set (waiting ch') \<longrightarrow>
        (\<exists>ch. chans s c = Some ch \<and> d \<in> set (waiting ch))) \<and>
     (\<forall>d e pe'. d \<notin> D \<and> procs s' e = Some pe' \<and> d \<in> set (pending pe') \<longrightarrow>
        (\<exists>pe. procs s e = Some pe \<and> d \<in> set (pending pe))) \<and>
     (\<forall>t. running s' t \<longrightarrow> running s t \<or> released s' t) \<and>
     (\<forall>d m t. d \<notin> D \<and> msgs s d = Some m \<and> task m = Some t \<and> \<not> running s' t \<longrightarrow>
        \<not> running s t \<and> (in_no_list d s' \<longrightarrow> in_no_list d s)) \<and>
     (\<forall>d m m'. d \<in> D \<and> msgs s d = Some m \<and> msgs s' d = Some m' \<longrightarrow> task m' = task m) \<and>
     touches D s s'"

lemma frameI_touched:
  assumes "\<And>d m. d \<notin> D \<Longrightarrow> msgs s d = Some m \<Longrightarrow> task m \<noteq> None \<Longrightarrow> \<exists>m'. msgs s' d = Some m' \<and> same_message m m'"
    and "\<And>d. d \<notin> D \<Longrightarrow> in_no_list d s \<Longrightarrow> msgs s' d = msgs s d"
    and "\<And>d m'. d \<notin> D \<Longrightarrow> msgs s' d = Some m' \<Longrightarrow>
      \<exists>m. msgs s d = Some m \<and> task m' = task m \<and> receiver_pid m' = receiver_pid m"
    and "\<And>d c ch'. d \<notin> D \<Longrightarrow> chans s' c = Some ch' \<Longrightarrow> d \<in> set (waiting ch') \<Longrightarrow>
      \<exists>ch. chans s c = Some ch \<and> d \<in> set (waiting ch)"
    and "\<And>d e pe'. d \<notin> D \<Longrightarrow> procs s' e = Some pe' \<Longrightarrow> d \<in> set (pending pe') \<Longrightarrow>
      \<exists>pe. procs s e = Some pe \<and> d \<in> set (pending pe)"
    and "\<And>t. running s' t \<Longrightarrow> running s t \<or> released s' t"
    and "\<And>d m t. d \<notin> D \<Longrightarrow> msgs s d = Some m \<Longrightarrow> task m = Some t \<Longrightarrow> \<not> running s' t \<Longrightarrow>
      \<not> running s t \<and> (in_no_list d s' \<longrightarrow> in_no_list d s)"
    and "\<And>d m m'. d \<in> D \<Longrightarrow> msgs s d = Some m \<Longrightarrow> msgs s' d = Some m' \<Longrightarrow> task m' = task m"
    and "touches D s s'"
  shows "frame D s s'"
  unfolding frame_def
  by (intro conjI allI impI; (elim conjE)?;
    (rule assms(1-6,8,9) assms(7) [THEN conjunct1] assms(7) [THEN conjunct2, rule_format]; assumption))

text \<open>Without access to dead objects.\<close>

lemma frameI:
  assumes "\<And>d m. d \<notin> D \<Longrightarrow> msgs s d = Some m \<Longrightarrow> task m \<noteq> None \<Longrightarrow> \<exists>m'. msgs s' d = Some m' \<and> same_message m m'"
    and "\<And>d. d \<notin> D \<Longrightarrow> in_no_list d s \<Longrightarrow> msgs s' d = msgs s d"
    and "\<And>d m'. d \<notin> D \<Longrightarrow> msgs s' d = Some m' \<Longrightarrow>
      \<exists>m. msgs s d = Some m \<and> task m' = task m \<and> receiver_pid m' = receiver_pid m"
    and "\<And>d c ch'. d \<notin> D \<Longrightarrow> chans s' c = Some ch' \<Longrightarrow> d \<in> set (waiting ch') \<Longrightarrow>
      \<exists>ch. chans s c = Some ch \<and> d \<in> set (waiting ch)"
    and "\<And>d e pe'. d \<notin> D \<Longrightarrow> procs s' e = Some pe' \<Longrightarrow> d \<in> set (pending pe') \<Longrightarrow>
      \<exists>pe. procs s e = Some pe \<and> d \<in> set (pending pe)"
    and "\<And>t. running s' t \<Longrightarrow> running s t \<or> released s' t"
    and "\<And>d m t. d \<notin> D \<Longrightarrow> msgs s d = Some m \<Longrightarrow> task m = Some t \<Longrightarrow> \<not> running s' t \<Longrightarrow>
      \<not> running s t \<and> (in_no_list d s' \<longrightarrow> in_no_list d s)"
    and "\<And>d m m'. d \<in> D \<Longrightarrow> msgs s d = Some m \<Longrightarrow> msgs s' d = Some m' \<Longrightarrow> task m' = task m" and "uaf s' = uaf s"
  shows "frame D s s'"
  by (rule frameI_touched; (fact assms | simp add: touches_def assms(9)))

lemma frameD:
  assumes "frame D s s'"
  shows "d \<notin> D \<Longrightarrow> msgs s d = Some m \<Longrightarrow> task m \<noteq> None \<Longrightarrow> \<exists>m'. msgs s' d = Some m' \<and> same_message m m'"
    and "d \<notin> D \<Longrightarrow> in_no_list d s \<Longrightarrow> msgs s' d = msgs s d"
    and "d \<notin> D \<Longrightarrow> msgs s' d = Some m' \<Longrightarrow>
      \<exists>m. msgs s d = Some m \<and> task m' = task m \<and> receiver_pid m' = receiver_pid m"
    and "d \<notin> D \<Longrightarrow> chans s' c = Some ch' \<Longrightarrow> d \<in> set (waiting ch') \<Longrightarrow> \<exists>ch. chans s c = Some ch \<and> d \<in> set (waiting ch)"
    and "d \<notin> D \<Longrightarrow> procs s' e = Some pe' \<Longrightarrow> d \<in> set (pending pe') \<Longrightarrow> \<exists>pe. procs s e = Some pe \<and> d \<in> set (pending pe)"
    and "running s' t \<Longrightarrow> running s t \<or> released s' t"
    and "d \<notin> D \<Longrightarrow> msgs s d = Some m \<Longrightarrow> task m = Some t \<Longrightarrow> \<not> running s' t \<Longrightarrow>
      \<not> running s t \<and> (in_no_list d s' \<longrightarrow> in_no_list d s)"
    and "d \<in> D \<Longrightarrow> msgs s d = Some m \<Longrightarrow> msgs s' d = Some m' \<Longrightarrow> task m' = task m"
    and "touches D s s'"
  using assms unfolding frame_def by (elim conjE; simp)+

lemma frame_unlinks: "frame D s s' \<Longrightarrow> unlinks s s'"
  using frameD(9) [of D s s'] unfolding unlinks_def touches_def by blast

lemma frame_task:
  assumes "frame D s s'" and "msgs s d = Some m" and "msgs s' d = Some m'"
  shows "task m' = task m"
  using frameD(3) [OF assms(1) _ assms(3)] frameD(8) [OF assms(1) _ assms(2,3)] assms(2) by (cases "d \<in> D") auto

lemma frame_unlisted: "frame D s s' \<Longrightarrow> d \<notin> D \<Longrightarrow> in_no_list d s \<Longrightarrow> in_no_list d s'"
  unfolding in_no_list_def using frameD(4,5) by blast

lemma same_message_refl [simp]: "same_message m m"
  by (simp add: same_message_def)

lemma same_message_trans: "same_message m m' \<Longrightarrow> same_message m' m'' \<Longrightarrow> same_message m m''"
  by (simp add: same_message_def)

lemma frame_mono:
  assumes "frame D s s'" and "D \<subseteq> D'"
  shows "frame D' s s'"
proof (rule frameI_touched)
  show "task m' = task m" if "msgs s d = Some m" "msgs s' d = Some m'" for d m m' by (rule frame_task [OF assms(1) that])
  show "touches D' s s'"
    using frameD(9) [OF assms(1)] assms(2) unfolding touches_def by blast
qed (use assms(2) frameD(1-7) [OF assms(1)] in blast)+

text \<open>A second part that touches no message of its own may follow, or any when the first leaves the messages alone.\<close>

lemma frame_trans:
  assumes "frame D s s1" and "frame D2 s1 s2" and "D2 \<subseteq> D" and "D2 = {} \<or> running s1 = running s \<and> msgs s1 = msgs s \<and> uaf s1 = uaf s"
  shows "frame D s s2"
proof (rule frameI_touched)
  let ?dead = "\<lambda>D s s' z. msgs s' z = None \<and> (z \<in> D \<or> msgs s z \<noteq> None) \<and> (\<forall>m. msgs s z = Some m \<longrightarrow> task m = None)"
  obtain ys where ys: "uaf s1 = ys @ uaf s" "\<forall>z \<in> set ys. ?dead D s s1 z"
    using frameD(9) [OF assms(1)] unfolding touches_def by (elim exE conjE)
  obtain zs where zs: "uaf s2 = zs @ uaf s1" "\<forall>z \<in> set zs. ?dead D2 s1 s2 z"
    using frameD(9) [OF assms(2)] unfolding touches_def by (elim exE conjE)
  have all: "?dead D s s2 z" if "z \<in> set ys \<or> z \<in> set zs" for z
  proof (cases "D2 = {}")
    case True
    show ?thesis
    proof (cases "z \<in> set ys")
      case old: True
      have "msgs s1 z = None" using bspec [OF ys(2) old] by simp
      then have "msgs s2 z = None" using frameD(3) [OF assms(2), of z] True by (cases "msgs s2 z") auto
      then show ?thesis using bspec [OF ys(2) old] by simp
    next
      case False
      then have "z \<in> set zs" using that by simp
      note z = bspec [OF zs(2) this]
      then obtain m1 where m1: "msgs s1 z = Some m1" "task m1 = None" "msgs s2 z = None" using True by auto
      have "z \<in> D \<or> msgs s z \<noteq> None" using frameD(3) [OF assms(1), of z m1] m1(1) by auto
      moreover have "task m = None" if "msgs s z = Some m" for m using frame_task [OF assms(1) that m1(1)] m1(2) by simp
      ultimately show ?thesis using m1(3) by blast
    qed
  next
    case False
    then have "ys = []" "msgs s1 = msgs s" using assms(4) ys(1) by auto
    then have "z \<in> set zs" "msgs s1 z = msgs s z" using that by simp_all
    then show ?thesis using bspec [OF zs(2), of z] assms(3) by auto
  qed
  show "touches D s s2"
    unfolding touches_def
  proof (intro exI [of _ "zs @ ys"] conjI ballI)
    fix z
    assume "z \<in> set (zs @ ys)"
    then have "z \<in> set ys \<or> z \<in> set zs" by auto
    note z = all [OF this]
    show "msgs s2 z = None" "z \<in> D \<or> msgs s z \<noteq> None" "\<forall>m. msgs s z = Some m \<longrightarrow> task m = None"
      by (rule conjunct1 [OF z] conjunct1 [OF conjunct2 [OF z]] conjunct2 [OF conjunct2 [OF z]])+
  qed (simp add: ys(1) zs(1))
next
  fix d m m2
  assume d: "d \<in> D" "msgs s d = Some m" "msgs s2 d = Some m2"
  show "task m2 = task m"
  proof (cases "D2 = {}")
    case True
    then obtain m1 where m1: "msgs s1 d = Some m1" using frameD(3) [OF assms(2) _ d(3)] by auto
    then show ?thesis using frame_task [OF assms(1) d(2) m1] frame_task [OF assms(2) m1 d(3)] by simp
  next
    case False
    then have "msgs s1 d = Some m" using assms(4) d(2) by simp
    then show ?thesis by (rule frame_task [OF assms(2) _ d(3)])
  qed
next
  fix d m
  assume d: "d \<notin> D" "msgs s d = Some m" "task m \<noteq> None"
  then obtain m1 where m1: "msgs s1 d = Some m1" "same_message m m1" using frameD(1) [OF assms(1)] by blast
  then have "task m1 \<noteq> None" "d \<notin> D2" using d assms(3) by (auto simp: same_message_def)
  then obtain m2 where "msgs s2 d = Some m2" "same_message m1 m2" using frameD(1) [OF assms(2)] m1(1) by blast
  then show "\<exists>m'. msgs s2 d = Some m' \<and> same_message m m'" using same_message_trans m1(2) by blast
next
  fix d
  assume "d \<notin> D" "in_no_list d s"
  moreover from this have "in_no_list d s1" "d \<notin> D2" using frame_unlisted [OF assms(1)] assms(3) by auto
  ultimately show "msgs s2 d = msgs s d" using frameD(2) [OF assms(1)] frameD(2) [OF assms(2)] by simp
next
  fix t
  assume "running s2 t"
  then consider "running s1 t" | "released s2 t" using frameD(6) [OF assms(2)] by blast
  then show "running s t \<or> released s2 t"
  proof cases
    case 1
    then consider "running s t" | "released s1 t" "D2 = {}" using frameD(6) [OF assms(1)] assms(4) by metis
    then show ?thesis
    proof cases
      case 2
      then obtain d m where d: "msgs s1 d = Some m" "task m = Some t" "in_no_list d s1" "mstate m \<noteq> QNX_STATE_RECEIVING"
        by (auto simp: released_def)
      have "d \<notin> D2" using 2 by simp
      then have "msgs s2 d = Some m" "in_no_list d s2"
        using d(1,3) frameD(2) [OF assms(2)] frame_unlisted [OF assms(2)] by simp_all
      then show ?thesis using d(2,4) by (auto simp: released_def)
    qed simp
  qed simp
next
  fix d c ch'
  assume "d \<notin> D" "chans s2 c = Some ch'" "d \<in> set (waiting ch')"
  moreover from this have "d \<notin> D2" using assms(3) by auto
  ultimately show "\<exists>ch. chans s c = Some ch \<and> d \<in> set (waiting ch)"
    using frameD(4) [OF assms(1)] frameD(4) [OF assms(2)] by blast
next
  fix d e pe'
  assume "d \<notin> D" "procs s2 e = Some pe'" "d \<in> set (pending pe')"
  moreover from this have "d \<notin> D2" using assms(3) by auto
  ultimately show "\<exists>pe. procs s e = Some pe \<and> d \<in> set (pending pe)"
    using frameD(5) [OF assms(1)] frameD(5) [OF assms(2)] by blast
next
  fix d m'
  assume "d \<notin> D" "msgs s2 d = Some m'"
  moreover from this have "d \<notin> D2" using assms(3) by auto
  ultimately show "\<exists>m. msgs s d = Some m \<and> task m' = task m \<and> receiver_pid m' = receiver_pid m"
    using frameD(3) [OF assms(1)] frameD(3) [OF assms(2)] by fastforce
next
  fix d m t
  assume d: "d \<notin> D" "msgs s d = Some m" "task m = Some t" "\<not> running s2 t"
  then obtain m1 where "msgs s1 d = Some m1" "task m1 = Some t" using frameD(1) [OF assms(1)] by (fastforce simp: same_message_def)
  moreover have "d \<notin> D2" using d(1) assms(3) by auto
  ultimately show "\<not> running s t \<and> (in_no_list d s2 \<longrightarrow> in_no_list d s)"
    using frameD(7) [OF assms(2) _ _ _ d(4)] frameD(7) [OF assms(1) d(1-3)] by blast
qed

lemma frame_after: "frame D s s1 \<Longrightarrow> frame {} s1 s2 \<Longrightarrow> frame D s s2"
  by (rule frame_trans [of D s s1 "{}" s2]) simp_all

section \<open>The entries of the processes\<close>

definition entry_of :: "kstate \<Rightarrow> addr \<Rightarrow> (pid_t \<times> nat) option" where
  "entry_of s e = map_option (\<lambda>pe. (pid pe, pe_refcnt pe)) (procs s e)"

definition same_entries :: "kstate \<Rightarrow> kstate \<Rightarrow> bool" where
  "same_entries s s' \<longleftrightarrow> process_entries s' = process_entries s \<and> entry_of s' = entry_of s"

lemma same_entries_trans: "same_entries s s1 \<Longrightarrow> same_entries s1 s2 \<Longrightarrow> same_entries s s2"
  by (simp add: same_entries_def)

lemma same_entries_refl [simp]: "same_entries s s"
  by (simp add: same_entries_def)

lemma same_entriesD:
  assumes "same_entries s s'" and "procs s e = Some pe"
  shows "\<exists>pe'. procs s' e = Some pe' \<and> pid pe' = pid pe \<and> pe_refcnt pe' = pe_refcnt pe"
proof -
  have "entry_of s' e = entry_of s e" using assms(1) by (simp add: same_entries_def)
  then show ?thesis using assms(2) by (auto simp: entry_of_def)
qed

text \<open>Updates that take nothing off a list.\<close>

lemma no_list_back:
  assumes "in_no_list d s'"
    and "\<And>c ch. chans s c = Some ch \<Longrightarrow> d \<in> set (waiting ch) \<Longrightarrow> \<exists>ch'. chans s' c = Some ch' \<and> d \<in> set (waiting ch')"
    and "\<And>e pe. procs s e = Some pe \<Longrightarrow> d \<in> set (pending pe) \<Longrightarrow> \<exists>pe'. procs s' e = Some pe' \<and> d \<in> set (pending pe')"
  shows "in_no_list d s"
  using assms unfolding in_no_list_def by blast

lemma frame_same_lists:
  assumes "msgs s' = msgs s" and "running s' = running s" and "uaf s' = uaf s"
    and keep: "\<And>c ch. chans s c = Some ch \<Longrightarrow> \<exists>ch'. chans s' c = Some ch' \<and> set (waiting ch) \<subseteq> set (waiting ch')"
      "\<And>e pe. procs s e = Some pe \<Longrightarrow> \<exists>pe'. procs s' e = Some pe' \<and> set (pending pe) \<subseteq> set (pending pe')"
    and "\<And>c ch'. chans s' c = Some ch' \<Longrightarrow> waiting ch' = [] \<or> (\<exists>ch. chans s c = Some ch \<and> set (waiting ch') \<subseteq> set (waiting ch))"
    and "\<And>e pe'. procs s' e = Some pe' \<Longrightarrow> pending pe' = [] \<or> (\<exists>pe. procs s e = Some pe \<and> set (pending pe') \<subseteq> set (pending pe))"
  shows "frame {} s s'"
proof (rule frameI)
  fix d c ch'
  assume "chans s' c = Some ch'" "d \<in> set (waiting ch')"
  then show "\<exists>ch. chans s c = Some ch \<and> d \<in> set (waiting ch)" using assms(6) by fastforce
next
  fix d e pe'
  assume "procs s' e = Some pe'" "d \<in> set (pending pe')"
  then show "\<exists>pe. procs s e = Some pe \<and> d \<in> set (pending pe)" using assms(7) by fastforce
next
  fix d m t
  assume "\<not> running s' t"
  moreover have "in_no_list d s" if "in_no_list d s'" by (rule no_list_back [OF that]) (use keep in blast)+
  ultimately show "\<not> running s t \<and> (in_no_list d s' \<longrightarrow> in_no_list d s)" using assms(2) by simp
qed (use assms(1-3) in simp_all)

lemma frame_hold: "chans s c = Some ch \<Longrightarrow> frame {} s (hold c s)"
  by (rule frame_same_lists) (auto simp: hold_def store_chan_def split: if_splits)

lemma entries_hold [simp]: "same_entries s (hold c s)"
  by (simp add: same_entries_def entry_of_def fun_eq_iff)

lemma frame_release:
  assumes "kinv H s" and "0 < H c" and "qnx_channel_release c s = Some s'"
  shows "frame {} s s'" and "same_entries s s'"
proof -
  obtain ch where ch: "chans s c = Some ch" using kinv_held [OF assms(1,2)] by blast
  consider "1 < ch_refcnt ch" | "ch_refcnt ch = 1"
    using refs_at [OF assms(1) ch] assms(2) by (force simp: refs_def split: if_splits)
  then have "frame {} s s' \<and> same_entries s s'"
  proof cases
    case 1
    then have "s' = store_chan c (ch\<lparr>ch_refcnt := ch_refcnt ch - 1\<rparr>) s"
      using cref.unref_shared [OF ch] assms(3) by simp
    then show ?thesis
      using ch by (auto simp: same_entries_def entry_of_def fun_eq_iff store_chan_def split: if_splits intro!: frame_same_lists)
  next
    case 2
    let ?zero = "s\<lparr>chans := (chans s)(c \<mapsto> ch\<lparr>ch_refcnt := 0\<rparr>)\<rparr>"
    have live: "distinct (waiting ch)" "set (waiting ch) \<subseteq> dom (msgs s)"
      using kinv_chan [OF assms(1) ch] by (auto simp: chan_inv_def)
    have s': "s' = s\<lparr>chans := (chans s)(c := None), msgs := flush_msgs (waiting ch) (msgs s),
        running := (\<lambda>t. running s t \<or> woken_by (waiting ch) (msgs s) t),
        uaf := rev (filter (no_task (msgs s)) (waiting ch)) @ uaf s\<rparr>"
      using free_msg_list_eq [of "waiting ch" ?zero] live ch 2 assms(3)
      by (auto simp: qnx_channel_release_def qnx_channel_free_def)
    have out: "in_no_list d s'" "\<exists>m. msgs s d = Some m \<and> mstate m = QNX_STATE_INITIAL" if "d \<in> set (waiting ch)" for d
    proof -
      show q: "\<exists>m. msgs s d = Some m \<and> mstate m = QNX_STATE_INITIAL" by (rule kinv_waiting_msg [OF assms(1) ch that])
      have "d \<notin> set (waiting chx)" if "chans s x = Some chx" "x \<noteq> c" for x chx
        using queue_invD(3) [OF kinvD(4) [OF assms(1)] ch that] \<open>d \<in> set (waiting ch)\<close> by auto
      moreover have "d \<notin> set (pending px)" if "procs s e = Some px" for e px
        using kinv_pending_msg [OF assms(1) that, of d] q by auto
      ultimately show "in_no_list d s'" by (auto simp: s' in_no_list_def split: if_splits)
    qed
    have "frame {} s s'"
    proof (rule frameI_touched)
      show "touches {} s s'"
        unfolding touches_def by (intro exI [of _ "rev (filter (no_task (msgs s)) (waiting ch))"])
          (auto simp: s' flush_msgs_def no_task_def split: option.splits)
    next
      fix t
      assume "running s' t"
      then show "running s t \<or> released s' t"
        using out by (fastforce simp: s' woken_by_def released_def flush_msgs_def)
    next
      fix d
      assume "in_no_list d s"
      then show "msgs s' d = msgs s d" using ch by (auto simp: s' in_no_list_def flush_msgs_def)
    next
      fix d m t
      assume d: "msgs s d = Some m" "task m = Some t" "\<not> running s' t"
      then have "d \<notin> set (waiting ch)" by (auto simp: s' woken_by_def)
      then have "in_no_list d s" if "in_no_list d s'" by (intro no_list_back [OF that]) (use ch in \<open>auto simp: s'\<close>)
      then show "\<not> running s t \<and> (in_no_list d s' \<longrightarrow> in_no_list d s)" using d(3) by (simp add: s')
    qed (auto simp: s' flush_msgs_def same_message_def split: if_splits elim!: bind_eq_SomeE)
    then show ?thesis by (simp add: s' same_entries_def entry_of_def fun_eq_iff)
  qed
  then show "frame {} s s'" "same_entries s s'" by simp_all
qed

section \<open>The calls that do not sleep\<close>

definition owns :: "kstate \<Rightarrow> addr \<Rightarrow> addr \<Rightarrow> bool" where
  "owns s e c \<longleftrightarrow> (\<exists>pe. procs s e = Some pe \<and> c \<in> set (channels pe))"

text \<open>
  What such a call of the process at \<open>e\<close> does: its own messages are new objects without a sender,
  or a pending message that is finished; channels are only created for \<open>e\<close>, at new addresses.
\<close>

definition answered :: "kstate \<Rightarrow> kstate \<Rightarrow> addr \<Rightarrow> bool" where
  "answered s s' d \<longleftrightarrow>
     (\<exists>m m'. msgs s d = Some m \<and> mstate m = QNX_STATE_PENDING \<and> \<not> in_no_list d s \<and> msgs s' d = Some m' \<and> task m' = task m \<and>
        rcvid m' = rcvid m \<and> sender_pid m' = sender_pid m \<and> receiver_pid m' = receiver_pid m \<and> data m' = data m \<and>
        in_no_list d s' \<and> mstate m' = QNX_STATE_FINISHED \<and>
        (\<forall>t. task m = Some t \<longrightarrow> running s' t))"

definition call_effect :: "addr \<Rightarrow> kstate \<Rightarrow> kstate \<Rightarrow> bool" where
  "call_effect e s s' \<longleftrightarrow>
     (\<exists>D. frame D s s' \<and>
        (\<forall>d \<in> D. answered s s' d \<or> msgs s d = None \<and> (\<forall>m. msgs s' d = Some m \<longrightarrow> task m = None))) \<and>
     same_entries s s' \<and> (\<forall>x c. owns s' x c \<longrightarrow> owns s x c \<or> x = e \<and> chans s c = None)"

lemma call_effectI:
  assumes "frame {} s s'" and "same_entries s s'" and "\<And>x c. owns s' x c \<Longrightarrow> owns s x c \<or> x = e \<and> chans s c = None"
  shows "call_effect e s s'"
  using assms unfolding call_effect_def by (metis empty_iff)

lemma call_effect_refl [simp]: "call_effect e s s"
  by (rule call_effectI) (auto intro: frame_same_lists)

lemma entries_store_proc:
  "procs s e = Some pe \<Longrightarrow> pid pe' = pid pe \<Longrightarrow> pe_refcnt pe' = pe_refcnt pe \<Longrightarrow> same_entries s (store_proc e pe' s)"
  by (simp add: same_entries_def entry_of_def fun_eq_iff)

lemma frame_store_proc:
  "procs s e = Some pe \<Longrightarrow> pending pe' = pending pe \<Longrightarrow> frame {} s (store_proc e pe' s)"
  by (rule frame_same_lists) (auto simp: store_proc_def split: if_splits)

lemma effect_store_proc:
  assumes "procs s e = Some pe" and "pid pe' = pid pe" and "pe_refcnt pe' = pe_refcnt pe"
    and "pending pe' = pending pe" and "set (channels pe') \<subseteq> set (channels pe)"
  shows "call_effect e s (store_proc e pe' s)"
  by (rule call_effectI [OF frame_store_proc entries_store_proc])
    (use assms in \<open>auto simp: owns_def store_proc_def split: if_splits\<close>)

lemma owns_release:
  assumes "qnx_channel_release c s = Some s'" and "kinv H s" and "0 < H c"
  shows "owns s' = owns s"
proof -
  have "procs s' = procs s"
    using kinv_channel_release [OF assms(2,3)] assms(1) by (metis option.inject procs_frame_def)
  then show ?thesis by (simp add: owns_def fun_eq_iff)
qed

lemma effect_add_channel:
  assumes "kinv H s" and "procs s e = Some pe" and "gbl_next_channel_id s < 2 ^ 31 - 1"
  shows "\<exists>rc s'. qnx_process_entry_add_channel env e s = Some (rc, s') \<and> kinv H s' \<and> call_effect e s s'"
proof -
  have run: "running s' = running s" "uaf s' = uaf s" if "qnx_process_entry_add_channel env e s = Some (rc, s')" for rc s'
    using that
    by (auto simp: qnx_process_entry_add_channel_def alloc_def qnx_channel_init_def get_new_channel_id_def store_proc_def
        store_chan_def Let_def split: if_splits elim!: bind_eq_SomeE)
  show ?thesis
    using assms
  proof (cases rule: kinv_add_channel [where env = env])
    case nomem
    then show ?thesis using assms(1) by simp
  next
    case (limit s')
    have "call_effect e s s'"
      by (rule call_effectI) (use limit run [OF limit(3)] in \<open>auto simp: owns_def same_entries_def entry_of_def fun_eq_iff
          intro!: frame_same_lists\<close>)
    then show ?thesis using limit by simp
  next
    case (made s' c ch)
    have "frame {} s s'"
      by (rule frame_same_lists) (use made(5,7-10) run [OF made(3)] assms(2) in \<open>auto split: if_splits\<close>)
    moreover have "same_entries s s'" using made(9,11) assms(2) by (simp add: same_entries_def entry_of_def fun_eq_iff)
    ultimately have "call_effect e s s'"
      by (rule call_effectI) (use made(5,9) assms(2) in \<open>auto simp: owns_def split: if_splits\<close>)
    then show ?thesis using made by simp
  qed
qed

lemma effect_remove_channel:
  assumes "kinv H s" and "procs s e = Some pe"
  shows "\<exists>rc s'. qnx_process_entry_remove_channel e i s = Some (rc, s') \<and> kinv H s' \<and> call_effect e s s'"
  using assms
proof (cases rule: kinv_remove_channel [where i = i])
  case none
  then show ?thesis using assms(1) by simp
next
  case (removed c s')
  from removed(2) obtain x where x: "qnx_channel_release x (store_proc e (pe\<lparr>channels := remove1 x (channels pe)\<rparr>) s) = Some s'"
    and hit: "list_search (chans s) (\<lambda>ch. chid ch = i) (channels pe) = Some (Some x)"
    using assms(2) by (auto simp: qnx_process_entry_remove_channel_def split: option.splits elim!: bind_eq_SomeE)
  have "x \<in> set (channels pe)"
    using assms(1,2) by (cases rule: kinv_search_channel [where i = i]) (use hit in auto)
  then have k: "kinv (holding x H) (store_proc e (pe\<lparr>channels := remove1 x (channels pe)\<rparr>) s)" (is "kinv _ ?s")
    by (rule kinv_disown_channel [OF assms])
  have pos: "0 < holding x H x" by simp
  note rel = frame_release [OF k pos x]
  have st: "frame {} s ?s" "same_entries s ?s"
    using frame_store_proc [OF assms(2)] entries_store_proc [OF assms(2)] by simp_all
  have sub: "set (remove1 x (channels pe)) \<subseteq> set (channels pe)" by (rule set_remove1_subset)
  have "call_effect e s s'"
    by (rule call_effectI [OF frame_after [OF st(1) rel(1)] same_entries_trans [OF st(2) rel(2)]])
      (use owns_release [OF x k pos] sub assms(2) in \<open>auto simp: owns_def store_proc_def split: if_splits\<close>)
  then show ?thesis using removed by simp
qed

lemma effect_connections:
  assumes "kinv H s" and "procs s e = Some pe"
  shows "\<exists>rc s'. qnx_process_entry_add_connection env e att s = Some (rc, s') \<and> kinv H s' \<and> call_effect e s s'"
    and "int_range coid \<Longrightarrow>
      \<exists>rc s'. qnx_process_entry_remove_connection e coid s = Some (rc, s') \<and> kinv H s' \<and> call_effect e s s'"
proof -
  show "\<exists>rc s'. qnx_process_entry_add_connection env e att s = Some (rc, s') \<and> kinv H s' \<and> call_effect e s s'"
    using assms by (cases rule: kinv_add_connection [where env = env and att = att])
      (use assms in \<open>auto intro!: effect_store_proc\<close>)
  assume "int_range coid"
  then obtain rc t where "qnx_process_entry_remove_connection e coid s = Some (rc, store_proc e (pe\<lparr>connections := t\<rparr>) s)"
    "kinv H (store_proc e (pe\<lparr>connections := t\<rparr>) s)"
    using kinv_remove_connection [OF assms] by metis
  then show "\<exists>rc s'. qnx_process_entry_remove_connection e coid s = Some (rc, s') \<and> kinv H s' \<and> call_effect e s s'"
    using assms(2) by (auto intro!: effect_store_proc)
qed

lemma effect_add_pollfd:
  assumes "kinv H s" and "procs s e = Some pe"
  shows "\<exists>rc s'. qnx_process_entry_add_pollfd env e f i s = Some (rc, s') \<and> kinv H s' \<and> call_effect e s s'"
proof -
  obtain rc s' where r: "qnx_process_entry_add_pollfd env e f i s = Some (rc, s')" "kinv H s'"
    using kinv_pollfd_ops(1) [OF assms] by metis
  then have "s' = s \<or> (\<exists>fs. s' = store_proc e (pe\<lparr>pollfds := fs\<rparr>) s)"
    using assms(2) by (auto simp: qnx_process_entry_add_pollfd_def split: if_splits elim!: bind_eq_SomeE)
  then show ?thesis using r assms(2) by (auto intro!: effect_store_proc)
qed

text \<open>Answering a pending message.\<close>

lemma effect_finish:
  assumes "procs s e = Some pe" and "msgs s d = Some m" and "task m = Some t" and "mstate m = QNX_STATE_PENDING"
    and "task m' = task m" and "receiver_pid m' = receiver_pid m" and "mstate m' = QNX_STATE_FINISHED"
    and "rcvid m' = rcvid m \<and> sender_pid m' = sender_pid m \<and> data m' = data m"
    and s': "s' = wake_up_process t (store_proc e (pe\<lparr>pending := remove1 d (pending pe)\<rparr>) (s\<lparr>msgs := (msgs s)(d \<mapsto> m')\<rparr>))"
    and "in_no_list d s'" and "d \<in> set (pending pe)"
  shows "call_effect e s s'"
proof -
  have sub: "x \<in> set (pending pe)" if "x \<in> set (remove1 d (pending pe))" for x
    using that set_remove1_subset [of d "pending pe"] by blast
  have at: "msgs s' d = Some m'" by (simp add: s' wake_up_process_def)
  have rel: "released s' t" using at assms(3,5,7,10) unfolding released_def by force
  have "frame {d} s s'"
  proof (rule frameI)
    fix x
    assume "running s' x"
    then show "running s x \<or> released s' x"
      using rel by (cases "x = t") (simp_all add: s' wake_up_process_def store_proc_def)
  next
    fix x mx u
    assume x: "x \<notin> {d}" "\<not> running s' u"
    have "in_no_list x s" if "in_no_list x s'"
      by (rule no_list_back [OF that]) (use x(1) assms(1) in \<open>auto simp: s' wake_up_process_def store_proc_def\<close>)
    then show "\<not> running s u \<and> (in_no_list x s' \<longrightarrow> in_no_list x s)"
      using x(2) by (auto simp: s' wake_up_process_def store_proc_def split: if_splits)
  qed (use sub assms(1,2,5) in \<open>auto simp: s' wake_up_process_def store_proc_def split: if_splits\<close>)
  moreover have "running s' t" "\<not> in_no_list d s"
    using assms(1,11) unfolding in_no_list_def by (simp add: s' wake_up_process_def, blast)
  then have "answered s s' d" using assms(2-8,10) at unfolding answered_def by (metis option.inject)
  moreover have "same_entries s s'"
    using assms(1) by (simp add: s' same_entries_def entry_of_def fun_eq_iff wake_up_process_def)
  moreover have "owns s' x c \<longrightarrow> owns s x c" for x c
    using assms(1) by (auto simp: s' owns_def wake_up_process_def)
  ultimately show ?thesis unfolding call_effect_def by blast
qed

lemma effect_reply:
  assumes "kenv_ok env" and "kinv H s" and "procs s e = Some pe"
  shows "\<exists>rc s'. handle_msgreply env e io s = Some (rc, s') \<and> kinv H s' \<and> call_effect e s s'"
  using assms
proof (cases rule: msgreply_ok [where io = io])
  case unknown
  then show ?thesis using assms(2) by simp
next
  case (replied d m t rc buf n s')
  have "mstate m = QNX_STATE_PENDING" using kinv_pending_msg [OF assms(2,3) replied(1)] replied(2) by auto
  then have "call_effect e s s'"
    by (rule effect_finish [OF assms(3) replied(2,4) _ _ _ _ _ replied(6,9,1)]) simp_all
  then show ?thesis using replied(7,8) by blast
qed

lemma effect_error:
  assumes "kinv H s" and "procs s e = Some pe"
  shows "\<exists>rc s'. handle_msgerror e io s = Some (rc, s') \<and> kinv H s' \<and> call_effect e s s'"
  using assms
proof (cases rule: kinv_release_pending [where r = "err_rcvid io"])
  case none
  then show ?thesis using assms(1) by (simp add: handle_msgerror_def)
next
  case (hit d m s1)
  obtain t where t: "task m = Some t" using hit(4) by auto
  have at: "msgs s1 d = Some m" using hit(2,6) by simp
  let ?m = "m\<lparr>reply_base := None, reply_len := 0, status := error_status (err_error io), mstate := QNX_STATE_FINISHED\<rparr>"
  note fm = fail_message_ok [OF hit(8) at t hit(9), of "error_status (err_error io)"]
  have eq: "wake_up_process t (s1\<lparr>msgs := (msgs s1)(d \<mapsto> ?m)\<rparr>) =
      wake_up_process t (store_proc e (pe\<lparr>pending := remove1 d (pending pe)\<rparr>) (s\<lparr>msgs := (msgs s)(d \<mapsto> ?m)\<rparr>))"
    by (rule kstate.equality) (simp_all add: hit(6) store_proc_def wake_up_process_def)
  have out: "in_no_list d (wake_up_process t (s1\<lparr>msgs := (msgs s1)(d \<mapsto> ?m)\<rparr>))"
    using hit(9) by (simp add: in_no_list_def wake_up_process_def)
  have "call_effect e s (wake_up_process t (s1\<lparr>msgs := (msgs s1)(d \<mapsto> ?m)\<rparr>))"
    by (rule effect_finish [OF assms(2) hit(2) t hit(5) _ _ _ _ eq out hit(1)]) simp_all
  then show ?thesis using fm hit(7) by (simp add: handle_msgerror_def)
qed

text \<open>A new object on a queue.\<close>

lemma frame_enqueue:
  assumes "kinv H s" and "chans s c = Some ch" and "newest m s"
  obtains rc s' where "qnx_channel_add_new_message c (next_addr s) (post m s) = Some (rc, s')" and "kinv H s'"
    and "frame {next_addr s} s s'" and "procs s' = procs s" and "process_entries s' = process_entries s"
    and "running s' = running s" and "\<exists>m'. msgs s' (next_addr s) = Some m' \<and> task m' = task m"
proof -
  let ?d = "next_addr s"
  note p = kinv_post [OF assms(1,3)]
  have at: "chans (post m s) c = Some ch" "mstate m = QNX_STATE_INITIAL" using assms(2,3) by (simp_all add: post_def newest_def)
  show thesis
  proof (rule kinv_add_new_message [OF p(1) at(1) p(2,3) at(2)])
    fix rc ch'
    let ?s = "store_chan c ch' (post m s\<lparr>msgs := (msgs (post m s))(?d \<mapsto> m\<lparr>receiver_chid := chid ch\<rparr>)\<rparr>)"
    assume a: "qnx_channel_add_new_message c ?d (post m s) = Some (rc, ?s)" "kinv H ?s"
      "waiting ch' = (if rc = 0 then waiting ch @ [?d] else waiting ch)"
    have kept: "in_no_list x s" if "in_no_list x ?s" for x
      by (rule no_list_back [OF that]) (use a(3) assms(2) in \<open>auto simp: store_chan_def post_def\<close>)
    have new: "msgs s ?d = None" using kinvD(7) [OF assms(1)] by (simp add: fresh_inv_def)
    have "frame {?d} s ?s"
      by (rule frameI) (use a(3) assms(2) kept new in \<open>auto simp: store_chan_def post_def split: if_splits\<close>)
    then show thesis
      using a(1,2) by (intro that [of rc ?s]) (simp_all add: store_chan_def post_def)
  qed
qed

lemma effect_pulse:
  assumes "kinv H s" and "procs s e = Some pe" and "\<And>p. io = Some p \<Longrightarrow> int_range (mp_coid p)"
  shows "\<exists>rc s'. handle_msgsendpulse env io e s = Some (rc, s') \<and> kinv H s' \<and> call_effect e s s'"
proof (cases "kmalloc env A_msgsend 0 \<and> io \<noteq> None")
  case False
  then show ?thesis
    using assms(1,2) by (auto simp: handle_msgsendpulse_def qnx_internal_msgsend_init_pulse_def)
next
  case True
  then obtain p where io: "io = Some p" by auto
  let ?m = "fresh_msgsend 0 (pid pe) None (Pulse p)"
  have coid: "int_range (mp_coid p)" using assms(3) io by simp
  show ?thesis
    using assms(1,2) coid
  proof (cases rule: kinv_route)
    case (routed cn c ch)
    let ?s = "hold c s" and ?d = "next_addr s"
    obtain rc s2 where s2: "qnx_channel_add_new_message c ?d (post ?m ?s) = Some (rc, s2)" "kinv (holding c H) s2"
      "frame {?d} ?s s2" "procs s2 = procs s" "process_entries s2 = process_entries s" "running s2 = running s"
      "\<exists>m'. msgs s2 ?d = Some m' \<and> task m' = None"
      by (rule frame_enqueue [OF routed(5) chans_hold [OF routed(4)] kinv_post_pulse [OF routed(5)], of "pid pe" p])
        (simp add: fresh_msgsend_def)
    obtain s3 where s3: "qnx_channel_release c s2 = Some s3" "kinv H s3"
      by (rule kinv_put_back [OF s2(2)])
    have pos: "0 < holding c H c" by simp
    note rel = frame_release [OF s2(2) pos s3(1)]
    have new: "msgs s ?d = None" using kinvD(7) [OF assms(1)] by (simp add: fresh_inv_def)
    have "frame {?d} s s2" using frame_trans [OF frame_mono [OF frame_hold [OF routed(4)], of "{?d}"] s2(3)] by (simp add: hold_def store_chan_def)
    then have fr: "frame {?d} s s3" by (rule frame_after [OF _ rel(1)])
    have "owns s3 = owns s" using owns_release [OF s3(1) s2(2) pos] s2(4) by (simp add: owns_def fun_eq_iff)
    moreover have "same_entries s s3"
      using rel(2) s2(4,5) by (simp add: same_entries_def entry_of_def fun_eq_iff)
    moreover have "\<forall>m. msgs s3 ?d = Some m \<longrightarrow> task m = None"
      using frameD(3) [OF rel(1)] s2(7) by fastforce
    ultimately have "call_effect e s s3"
      unfolding call_effect_def using fr new by (intro conjI exI [of _ "{?d}"]) auto
    moreover have "handle_msgsendpulse env io e s = Some (0, s3)"
      using True io routed(1-3) assms(2) s2(1) s3(1)
      by (simp add: handle_msgsendpulse_def qnx_internal_msgsend_init_pulse_def fresh_msgsend_def alloc_def post_def Let_def)
    ultimately show ?thesis using s3(2) by blast
  qed (use True io assms(1,2) in
    \<open>auto simp: handle_msgsendpulse_def qnx_internal_msgsend_init_pulse_def fresh_msgsend_def\<close>)
qed

end
