(* ===== verification/Sleepers.thy ===== *)
theory Sleepers
  imports Interference
begin

text \<open>
  What the parts of the sleeping calls do to the messages of other threads: a sender that
  enters, one that wakes up, and a receiver that takes and delivers a message.
\<close>

lemma uaf_hold [simp]: "uaf (hold c s) = uaf s"
  by (simp add: hold_def store_chan_def)

definition quiet_effect :: "addr set \<Rightarrow> kstate \<Rightarrow> kstate \<Rightarrow> bool" where
  "quiet_effect D s s' \<longleftrightarrow> frame D s s' \<and> same_entries s s' \<and> owns s' = owns s"

lemma quiet_effect_refl [simp]: "quiet_effect {} s s"
  by (simp add: quiet_effect_def frame_same_lists)

lemma quiet_effect_mono: "quiet_effect D s s' \<Longrightarrow> D \<subseteq> D' \<Longrightarrow> quiet_effect D' s s'"
  using frame_mono by (auto simp: quiet_effect_def)

lemma quiet_effect_trans: "quiet_effect D s s1 \<Longrightarrow> quiet_effect {} s1 s2 \<Longrightarrow> quiet_effect D s s2"
  unfolding quiet_effect_def using frame_after same_entries_trans by fastforce

lemma quiet_release:
  assumes "kinv (holding c H) s" and "qnx_channel_release c s = Some s'"
  shows "quiet_effect {} s s'"
  using frame_release [OF assms(1) _ assms(2)] owns_release [OF assms(2,1)] by (simp add: quiet_effect_def)

text \<open>A message is taken off a list.\<close>

lemma quiet_unfile:
  assumes "procs s e = Some pe" and "pid pe' = pid pe" and "pe_refcnt pe' = pe_refcnt pe"
    and "pending pe' = remove1 d (pending pe)" and "channels pe' = channels pe"
  shows "quiet_effect {d} s (store_proc e pe' s)"
proof -
  have sub: "x \<in> set (pending pe)" if "x \<in> set (remove1 d (pending pe))" for x
    using that set_remove1_subset [of d "pending pe"] by blast
  have kept: "in_no_list x s" if "in_no_list x (store_proc e pe' s)" "x \<noteq> d" for x
    by (rule no_list_back [OF that(1)]) (use that(2) assms(1,4) in \<open>auto simp: store_proc_def\<close>)
  have "frame {d} s (store_proc e pe' s)"
    by (rule frameI) (use kept sub assms(1,4) in \<open>auto simp: store_proc_def split: if_splits\<close>)
  then show ?thesis
    using entries_store_proc [OF assms(1-3)] assms(1,5) by (auto simp: quiet_effect_def owns_def fun_eq_iff)
qed

section \<open>A sender wakes up\<close>

lemma block_pending_quiet:
  assumes "kinv (holding c H) s" and "msgs s d = Some m" and "task m = Some t" and "placed s c d"
    and "block_pending rc c d s = Some (Returns r, s')"
  shows "quiet_effect {d} s s'"
proof -
  have tm: "task m \<noteq> None" using assms(3) by simp
  have ready: "mstate m \<noteq> QNX_STATE_RECEIVING" using assms(2,5) by (auto simp: block_pending_def)
  have last: "quiet_effect {d} s s'" if "quiet_effect {d} s s1" "kinv (holding c H) s1" "qnx_channel_release c s1 = Some s'" for s1
    using quiet_effect_trans [OF that(1) quiet_release [OF that(2,3)]] .
  show ?thesis
    using assms(1)
  proof (cases rule: kinv_find_process [where p = "receiver_pid m"])
    case none
    then have "qnx_channel_release c s = Some s'"
      using assms(2,5) ready by (auto simp: block_pending_def elim!: bind_eq_SomeE)
    then show ?thesis using last [of s] assms(1) quiet_effect_mono [OF quiet_effect_refl] by simp
  next
    case (found e pe)
    let ?pe = "pe\<lparr>pe_refcnt := Suc (pe_refcnt pe)\<rparr>"
    let ?s = "store_proc e ?pe s"
    note tgt = kinv_process_target [OF assms(1) found(1,2)]
    have at: "procs ?s e = Some ?pe" by simp
    show ?thesis
      using tgt(1) at
    proof (cases rule: kinv_release_pending [where r = "rcvid m"])
      case none
      have "qnx_process_entry_release e ?s = Some s"
        using kinv_process_release(1) [OF tgt(1) at] tgt(2) found(2) by (simp add: store_proc_def fun_upd_idem)
      then have "qnx_channel_release c s = Some s'"
        using found(4) none(1) ready assms(2,5) by (auto simp: block_pending_def elim!: bind_eq_SomeE)
      then show ?thesis using last [of s] assms(1) quiet_effect_mono [OF quiet_effect_refl] by simp
    next
      case (hit d' m' s2)
      let ?pe2 = "?pe\<lparr>pending := remove1 d' (pending pe)\<rparr>" and ?pe3 = "pe\<lparr>pending := remove1 d' (pending pe)\<rparr>"
      have at2: "procs s2 e = Some ?pe2" using hit(6) by simp
      have d': "d' = d" using same_rcvid [OF assms(1,2), of d' m'] hit(2,3) tm by simp
      then have st: "msgs s2 d = Some m" "mstate m = QNX_STATE_PENDING" using hit(2,5,6) assms(2) by auto
      note rel = kinv_process_release [OF hit(8) at2]
      have eq: "store_proc e (?pe2\<lparr>pe_refcnt := pe_refcnt ?pe2 - 1\<rparr>) s2 = store_proc e ?pe3 s"
        by (rule kstate.equality) (simp_all add: hit(6) store_proc_def)
      have "kinv (holding c H) (store_proc e ?pe3 s)" "qnx_process_entry_release e s2 = Some (store_proc e ?pe3 s)"
        using rel tgt(2) unfolding eq by simp_all
      moreover from this have "qnx_channel_release c (store_proc e ?pe3 s) = Some s'"
        using found(4) hit(7) st assms(2,5) d' by (auto simp: block_pending_def elim!: bind_eq_SomeE)
      moreover have "quiet_effect {d} s (store_proc e ?pe3 s)"
        by (rule quiet_unfile [OF found(2)]) (simp_all add: d')
      ultimately show ?thesis using last by blast
    qed
  qed
qed

lemma quiet_unqueue:
  assumes "chans s c = Some ch" and "waiting ch' = remove1 d (waiting ch)"
  shows "quiet_effect {d} s (store_chan c ch' s)"
proof -
  have sub: "x \<in> set (waiting ch)" if "x \<in> set (remove1 d (waiting ch))" for x
    using that set_remove1_subset [of d "waiting ch"] by blast
  have kept: "in_no_list x s" if "in_no_list x (store_chan c ch' s)" "x \<noteq> d" for x
    by (rule no_list_back [OF that(1)]) (use that(2) assms in \<open>auto simp: store_chan_def\<close>)
  have "frame {d} s (store_chan c ch' s)"
    by (rule frameI) (use kept sub assms in \<open>auto simp: store_chan_def split: if_splits\<close>)
  then show ?thesis by (simp add: quiet_effect_def owns_def fun_eq_iff same_entries_def entry_of_def)
qed

lemma block_exit_quiet:
  assumes "kinv (holding c H) s" and "msgs s d = Some m" and "task m = Some t" and "placed s c d"
    and "block_exit ms sg c d s = Some (Returns r, s')"
  shows "quiet_effect {d} s s'"
proof (cases "\<not> timed_out ms m \<and> \<not> sg")
  case True
  then have "qnx_channel_release c s = Some s'"
    using assms(2,5) by (auto simp: block_exit_def timed_out_def Let_def elim!: bind_eq_SomeE)
  then show ?thesis using quiet_effect_mono [OF quiet_release [OF assms(1)]] by simp
next
  case False
  obtain ch where ch: "chans s c = Some ch" using kinv_held [OF assms(1), of c] by auto
  have tm: "task m \<noteq> None" using assms(3) by simp
  show ?thesis
    using assms(1) ch assms(2) tm
  proof (cases rule: kinv_remove_message)
    case (removed ch')
    from removed(1) have "qnx_channel_release c (store_chan c ch' s) = Some s'"
      using False assms(2,5) by (auto simp: block_exit_def timed_out_def Let_def elim!: bind_eq_SomeE)
    then show ?thesis
      using quiet_effect_trans [OF quiet_unqueue [OF ch removed(5)] quiet_release [OF removed(2)]] by blast
  next
    case gone
    then have "block_pending (if timed_out ms m then - ETIMEDOUT else - ERESTARTSYS) c d s = Some (Returns r, s')"
      using False assms(2,5) by (auto simp: block_exit_def timed_out_def Let_def)
    then show ?thesis by (rule block_pending_quiet [OF assms(1-4)])
  qed
qed

text \<open>A sender that has to wait for the receiver has not changed anything.\<close>

lemma block_exit_spins:
  assumes "kinv (holding c H) s" and "msgs s d = Some m" and "task m = Some t"
    and "block_exit ms sg c d s = Some (Spins r, s')"
  shows "s' = s" and "\<And>ch. chans s c = Some ch \<Longrightarrow> d \<notin> set (waiting ch)"
proof -
  obtain ch where ch: "chans s c = Some ch" using kinv_held [OF assms(1), of c] by auto
  have tm: "task m \<noteq> None" using assms(3) by simp
  have "s' = s \<and> d \<notin> set (waiting ch)"
    using assms(1) ch assms(2) tm
    by (cases rule: kinv_remove_message)
      (use assms(2,4) in \<open>auto simp: block_exit_def block_pending_def Let_def split: if_splits option.splits elim!: bind_eq_SomeE\<close>)
  then show "s' = s" "\<And>ch. chans s c = Some ch \<Longrightarrow> d \<notin> set (waiting ch)" using ch by auto
qed

section \<open>A sender enters\<close>

text \<open>
  The message at \<open>d\<close> of the thread \<open>t\<close> was put on the queue of a channel of the process it is
  meant for.
\<close>

definition sent_effect :: "tid \<Rightarrow> addr \<Rightarrow> addr \<Rightarrow> payload \<Rightarrow> kstate \<Rightarrow> kstate \<Rightarrow> bool" where
  "sent_effect t c d pl s s' \<longleftrightarrow>
     frame {d} s s' \<and> same_entries s s' \<and> owns s' = owns s \<and> msgs s d = None \<and> \<not> running s' t \<and>
     (\<exists>m q qe. msgs s' d = Some m \<and> task m = Some t \<and> mstate m = QNX_STATE_INITIAL \<and> data m = pl \<and>
        procs s q = Some qe \<and> owns s q c \<and> receiver_pid m = pid qe) \<and>
     (\<forall>x ch. chans s' x = Some ch \<and> d \<in> set (waiting ch) \<longrightarrow> x = c) \<and> \<not> in_no_list d s'"

lemma quiet_same_but_ids: "same_but_ids s s' \<Longrightarrow> quiet_effect {} s s'"
  using same_but_ids_frame [of s s']
  by (auto simp: quiet_effect_def owns_def same_entries_def entry_of_def fun_eq_iff intro!: frame_same_lists)

lemma quiet_hold: "chans s c = Some ch \<Longrightarrow> quiet_effect {} s (hold c s)"
  using frame_hold by (auto simp: quiet_effect_def owns_def fun_eq_iff)

text \<open>Queueing a message that was just built and going to sleep.\<close>

lemma blocked_effect:
  assumes "kinv H s1" and "chans s1 c = Some ch" and "newest m s1" and "task m = Some t"
    and before: "quiet_effect {} s s1" "running s1 = running s" "msgs s1 = msgs s" "uaf s1 = uaf s"
    and route: "procs s q = Some qe" "owns s q c" "receiver_pid m = pid qe"
    and idle: "\<And>x mx. msgs s x = Some mx \<Longrightarrow> task mx \<noteq> Some t"
  obtains s' where "block_enter c (next_addr s1) t (post m s1) = Some s'" and "kinv H s'"
    and "sent_effect t c (next_addr s1) (data m) s s'"
proof -
  let ?d = "next_addr s1" and ?m = "m\<lparr>receiver_chid := chid ch\<rparr>"
  have free: "msgs s ?d = None" "in_no_list ?d s1"
    using kinvD(7) [OF assms(1)] kinv_fresh_in_no_list [OF assms(1)] before(3) by (simp_all add: fresh_inv_def)
  obtain ch' where b: "block_enter c ?d t (post m s1) = Some (set_interruptible t (store_chan c ch' (post ?m s1)))"
    "kinv H (set_interruptible t (store_chan c ch' (post ?m s1)))" "waiting ch' = waiting ch @ [?d]"
    by (rule kinv_block_enter [OF assms(1-4)]) simp
  define s' where "s' = set_interruptible t (store_chan c ch' (post ?m s1))"
  have kept: "in_no_list x s1" if "in_no_list x s'" for x
    by (rule no_list_back [OF that]) (use b(3) assms(2) in \<open>auto simp: s'_def set_interruptible_def store_chan_def post_def\<close>)
  have fr: "frame {?d} s1 s'"
    by (rule frameI)
      (use b(3) assms(2) kept idle free(1) before(3) in \<open>auto simp: s'_def set_interruptible_def store_chan_def post_def split: if_splits\<close>)
  have "frame {?d} s s'"
    using frame_trans [OF frame_mono [of "{}" s s1 "{?d}"] fr] before by (simp add: quiet_effect_def)
  moreover have "same_entries s s'" "owns s' = owns s"
    using before(1) by (simp_all add: quiet_effect_def same_entries_def entry_of_def owns_def fun_eq_iff s'_def
        set_interruptible_def post_def)
  moreover have "msgs s' ?d = Some ?m" "\<not> running s' t" by (simp_all add: s'_def set_interruptible_def post_def)
  moreover have "chans s' x = Some chx \<and> ?d \<in> set (waiting chx) \<longrightarrow> x = c" for x chx
    using free(2) by (auto simp: s'_def set_interruptible_def post_def in_no_list_def)
  moreover have "mstate m = QNX_STATE_INITIAL" using assms(3) by (simp add: newest_def)
  moreover have "\<not> in_no_list ?d s'"
  proof -
    have "chans s' c = Some ch'" by (simp add: s'_def set_interruptible_def)
    then show ?thesis using b(3) unfolding in_no_list_def by fastforce
  qed
  ultimately have "sent_effect t c ?d (data m) s s'"
    using free(1) assms(4) route unfolding sent_effect_def by (intro conjI exI [of _ ?m] exI [of _ q] exI [of _ qe]) simp_all
  then show thesis using that [of s'] b(1,2) by (simp add: s'_def)
qed

lemma send_effect:
  assumes "kenv_ok env" and "kinv H s" and "procs s e = Some pe" and "gbl_next_rcvid s < 2 ^ 31 - 1"
    and "int_range (ms_coid io)" and idle: "\<And>x mx. msgs s x = Some mx \<Longrightarrow> task mx \<noteq> Some t"
  shows "\<exists>r s'. handle_msgsend_enter env (Some io) t e s = Some (r, s') \<and>
    (case r of Finished rc \<Rightarrow> kinv H s' \<and> quiet_effect {} s s'
     | Blocked c d \<Rightarrow> kinv (holding c H) s' \<and> (\<exists>pl. sent_effect t c d pl s s'))"
proof -
  have r0: "0 \<le> gbl_next_rcvid s" using kinvD(6) [OF assms(2)] by (simp add: msgs_inv_def)
  obtain rc mo s1 where i: "qnx_internal_msgsend_init env t (Some io) (pid pe) s = (rc, mo, s1)"
    by (metis prod_cases3)
  have ok: "new_message_ok (Some t) (pid pe) s rc mo s1" by (rule init_ok [OF assms(1) r0 assms(4) i])
  then have q1: "quiet_effect {} s s1" by (simp add: new_message_ok_def quiet_same_but_ids)
  show ?thesis
  proof (cases mo)
    case None
    then have "kinv H s1" using ok kinv_same_but_ids [OF assms(2), of s1] by (simp add: new_message_ok_def)
    then show ?thesis using i None assms(3) q1 by (simp add: handle_msgsend_enter_def)
  next
    case (Some m)
    note new = newest_of_constructor [OF assms(2) ok [unfolded Some]]
    note same = same_but_ids_frame [OF new(3)]
    have coid: "km_coid (data_msg (data m)) = ms_coid io"
      using i Some by (auto simp: qnx_internal_msgsend_init_def fresh_msgsend_def Let_def case_prod_beta
          split: option.splits if_splits)
    have pe: "procs s1 e = Some pe" using assms(3) same(3) by simp
    show ?thesis
      using new(2) pe assms(5)
    proof (cases rule: kinv_route)
      case (routed cn c ch)
      let ?m = "m\<lparr>receiver_pid := conn_pid cn\<rparr>" and ?s = "hold c s1"
      have nm: "newest ?m ?s" "task ?m = Some t" using new(1) ok Some by (simp_all add: new_message_ok_def)
      obtain q qe where q: "procs s q = Some qe" "pid qe = conn_pid cn" "owns s q c"
        using routed(6) same(3) by (auto simp: routes_def channel_of_def owns_def)
      obtain s' where "block_enter c (next_addr ?s) t (post ?m ?s) = Some s'" "kinv (holding c H) s'"
        "sent_effect t c (next_addr ?s) (data ?m) s s'"
        by (rule blocked_effect [OF routed(5) chans_hold [OF routed(4)] nm quiet_effect_trans [OF q1 quiet_hold [OF routed(4)]] _ _ _ q(1,3)])
          (use same q(2) idle in simp_all)
      then show ?thesis
        using i Some assms(3) routed(1-3) coid by (auto simp: handle_msgsend_enter_def Let_def alloc_def post_def)
    qed (use i Some assms(3) new(2) q1 coid in \<open>auto simp: handle_msgsend_enter_def\<close>)
  qed
qed

text \<open>
  The same for a vector. The reply fits the vector of the sender; when the message cannot be
  built, the reference to the channel is kept.
\<close>

definition out_fits :: "iovec list \<Rightarrow> payload \<Rightarrow> bool" where
  "out_fits outs pl \<longleftrightarrow> iov_len (km_out (data_msg pl)) \<le> segs32 outs \<and> iov_len (km_out (data_msg pl)) < 2 ^ 31"

lemma initv_out_fits:
  assumes "kenv_ok env" and "qnx_internal_msgsend_initv env t v ivs ovs p s = Some (rc, Some m, s')"
  shows "out_fits ovs (data m)"
proof -
  have len: "iov_len (km_out (data_msg (data m))) = iov_length env ovs" "iov_length env ovs = 0 \<or> kmalloc env A_outbuf (iov_length env ovs)"
    using assms(2) by (auto simp: qnx_internal_msgsend_initv_def fresh_msgsend_def Let_def split: prod.splits if_splits elim!: bind_eq_SomeE)
  then have "iov_length env ovs < 2 ^ 31" using kenv_okD(4) [OF assms(1)] by auto
  then show ?thesis using len(1) iov_length_le_segs32 [OF assms(1), of ovs] by (simp add: out_fits_def)
qed

lemma msgsendv_exit_ok:
  assumes "kinv H s" and "msgs s d = Some m" and "in_no_list d s" and "out_fits outs (data m)"
  shows "\<exists>rc' ws. handle_msgsendv_exit env rc d outs s = Some (rc', ws, s\<lparr>msgs := (msgs s)(d := None)\<rparr>) \<and>
    kinv H (s\<lparr>msgs := (msgs s)(d := None)\<rparr>)"
proof (cases "0 < reply_len m")
  case True
  obtain bs where bs: "reply_base m = Some bs" "reply_len m \<le> length bs"
    using kinv_msg [OF assms(1,2)] True by (auto simp: payload_ok_def split: option.splits)
  let ?n = "min (iov_len (km_out (data_msg (data m)))) (reply_len m)"
  have n: "?n < 2 ^ 31" "?n \<le> segs32 outs" "?n \<le> length bs" using assms(4) bs(2) by (auto simp: out_fits_def)
  obtain r ws where "memcpy_toiovec env outs bs (int ?n) = Some (r, ws)"
    using memcpy_toiovec_safe [of "int ?n" outs bs env] n by auto
  moreover have "wrap32 (int ?n) = int ?n" using n(1) by (intro wrap32_small) simp_all
  ultimately show ?thesis
    using assms(2) bs(1) kinv_free_msg [OF assms(1,3)] by (simp add: handle_msgsendv_exit_def Let_def)
qed (use assms(2) kinv_free_msg [OF assms(1,3)] in \<open>simp add: handle_msgsendv_exit_def Let_def\<close>)

lemma sendv_effect:
  assumes "kenv_ok env" and "kinv H s" and "procs s e = Some pe" and "gbl_next_rcvid s < 2 ^ 31 - 1"
    and "int_range (msv_coid v)" and "int_range (msv_in_len v)" and "int_range (msv_out_len v)"
    and "0 \<le> msv_in_len v" and "0 \<le> msv_out_len v" and idle: "\<And>x mx. msgs s x = Some mx \<Longrightarrow> task mx \<noteq> Some t"
  shows "\<exists>r outs s'. handle_msgsendv_enter env (Some v) t e s = Some (r, outs, s') \<and>
    (case r of
       Finished rc \<Rightarrow> s' = s \<and> kinv H s' \<or>
         (\<exists>c ch. chans s c = Some ch \<and> same_but_ids (hold c s) s' \<and> kinv (holding c H) s')
     | Blocked c d \<Rightarrow> kinv (holding c H) s' \<and> (\<exists>pl. sent_effect t c d pl s s' \<and> out_fits outs pl))"
proof -
  have r0: "0 \<le> gbl_next_rcvid s" using kinvD(6) [OF assms(2)] by (simp add: msgs_inv_def)
  let ?nomem = "msv_in_len v > QNX_MAX_IOVEC_LEN \<and> \<not> kmalloc env A_iov_in (vector_bytes (msv_in_len v)) \<or>
    msv_out_len v > QNX_MAX_IOVEC_LEN \<and> \<not> kmalloc env A_iov_out (vector_bytes (msv_out_len v))"
  obtain ins where ins: "fetch_vector env (msv_in v) (msv_in_len v) = Some ins"
    using fetch_vector_ok [OF assms(1), of "msv_in_len v" "msv_in v"] assms(6,8) by auto
  obtain outs where outs: "fetch_vector env (msv_out v) (msv_out_len v) = Some outs"
    using fetch_vector_ok [OF assms(1), of "msv_out_len v" "msv_out v"] assms(7,9) by auto
  show ?thesis
  proof (cases "?nomem \<or> ins = None \<or> outs = None")
    case True
    then show ?thesis
      using assms(2) ins outs by (auto simp: handle_msgsendv_enter_def split: option.splits)
  next
    case False
    then obtain ivs ovs where vs: "ins = Some ivs" "outs = Some ovs" by auto
    show ?thesis
      using assms(2,3,5)
    proof (cases rule: kinv_route)
      case (routed cn c ch)
      let ?s = "hold c s"
      obtain rc mo s2 where i: "qnx_internal_msgsend_initv env t v ivs ovs (pid pe) ?s = Some (rc, mo, s2)"
        "new_message_ok (Some t) (pid pe) ?s rc mo s2"
        using initv_ok [OF assms(1), of ?s] r0 assms(4) by fastforce
      have ids: "same_but_ids ?s s2" using i(2) by (simp add: new_message_ok_def)
      note same = same_but_ids_frame [OF ids]
      have run: "handle_msgsendv_enter env (Some v) t e s =
          (case mo of
             None \<Rightarrow> Some (Finished rc, [], s2)
           | Some m \<Rightarrow> do { s5 \<leftarrow> block_enter c (next_addr s2) t (post (m\<lparr>receiver_pid := conn_pid cn\<rparr>) s2);
                            Some (Blocked c (next_addr s2), ovs, s5) })"
        using False ins outs vs routed(1-3) assms(3) i(1)
        by (auto simp: handle_msgsendv_enter_def alloc_def post_def Let_def split: option.splits)
      show ?thesis
      proof (cases mo)
        case None
        then have "kinv (holding c H) s2" using i(2) kinv_same_but_ids [OF routed(5), of s2] by (simp add: new_message_ok_def)
        then show ?thesis using run None routed(4) ids by auto
      next
        case (Some m)
        note new = newest_of_constructor [OF routed(5) i(2) [unfolded Some]]
        let ?m = "m\<lparr>receiver_pid := conn_pid cn\<rparr>"
        have at: "chans s2 c = Some (ch\<lparr>ch_refcnt := Suc (ch_refcnt ch)\<rparr>)" "newest ?m s2" "task ?m = Some t" "out_fits ovs (data ?m)"
          using chans_hold [OF routed(4)] same(2) new(1) i(2) Some initv_out_fits [OF assms(1) i(1) [unfolded Some]]
          by (simp_all add: new_message_ok_def)
        obtain q qe where q: "procs s q = Some qe" "pid qe = conn_pid cn" "owns s q c"
          using routed(6) by (auto simp: routes_def channel_of_def owns_def)
        obtain s' where "block_enter c (next_addr s2) t (post ?m s2) = Some s'" "kinv (holding c H) s'"
          "sent_effect t c (next_addr s2) (data ?m) s s'"
          by (rule blocked_effect [OF new(2) at(1-3) quiet_effect_trans [OF quiet_hold [OF routed(4)] quiet_same_but_ids [OF ids]] _ _ _ q(1,3)])
            (use same q(2) idle in simp_all)
        then show ?thesis using run Some at(4) by auto
      qed
    qed (use False ins outs vs assms(2) in \<open>auto simp: handle_msgsendv_enter_def\<close>)
  qed
qed

section \<open>A receiver takes and delivers\<close>

definition taken_effect :: "addr \<Rightarrow> addr \<Rightarrow> kstate \<Rightarrow> kstate \<Rightarrow> bool" where
  "taken_effect c d s s' \<longleftrightarrow>
     frame {d} s s' \<and> same_entries s s' \<and> owns s' = owns s \<and> running s' = running s \<and>
     (\<exists>m ch. msgs s d = Some m \<and> chans s c = Some ch \<and> d \<in> set (waiting ch) \<and>
        msgs s' d = Some (m\<lparr>mstate := QNX_STATE_RECEIVING\<rparr>)) \<and> in_no_list d s'"

lemma take_effect:
  assumes "kinv (holding c H) s"
  shows "\<exists>r s'. handle_msgreceive_take wrc c s = Some (r, s') \<and> kinv (holding c H) s' \<and>
    (case r of Inl rc \<Rightarrow> s' = s | Inr d \<Rightarrow> taken_effect c d s s')"
proof -
  obtain ch where ch: "chans s c = Some ch" using kinv_held [OF assms, of c] by auto
  show ?thesis
    using assms ch
  proof (cases rule: receive_take_ok [where wrc = wrc])
    case (empty rc)
    then show ?thesis using assms by auto
  next
    case (taken d ds m ch')
    let ?s = "store_chan c ch' (s\<lparr>msgs := (msgs s)(d \<mapsto> m\<lparr>mstate := QNX_STATE_RECEIVING\<rparr>)\<rparr>)"
    have kept: "in_no_list x s" if "in_no_list x ?s" "x \<noteq> d" for x
      by (rule no_list_back [OF that(1)]) (use that(2) taken(2,4) ch in \<open>auto simp: store_chan_def\<close>)
    have "frame {d} s ?s"
      by (rule frameI) (use kept taken(2-4) ch in \<open>auto simp: store_chan_def split: if_splits\<close>)
    then have "taken_effect c d s ?s"
      using taken(2,3,8) ch by (auto simp: taken_effect_def same_entries_def entry_of_def owns_def fun_eq_iff store_chan_def)
    then show ?thesis using taken(6,7) by auto
  qed
qed

text \<open>
  After the delivery the message is gone, or pending at the receiver, or finished with its
  sender awake.
\<close>

definition delivered_effect :: "addr \<Rightarrow> addr \<Rightarrow> kstate \<Rightarrow> kstate \<Rightarrow> bool" where
  "delivered_effect e d s s' \<longleftrightarrow>
     frame {d} s s' \<and> same_entries s s' \<and> owns s' = owns s \<and>
     (\<forall>m. msgs s d = Some m \<longrightarrow>
        (if task m = None then msgs s' d = None
         else (\<exists>m'. msgs s' d = Some m' \<and> task m' = task m \<and> rcvid m' = rcvid m \<and> sender_pid m' = sender_pid m \<and>
                 receiver_pid m' = receiver_pid m \<and> data m' = data m \<and> mstate m' \<noteq> QNX_STATE_RECEIVING \<and>
                 (\<forall>x ch. chans s' x = Some ch \<longrightarrow> d \<notin> set (waiting ch)) \<and>
                 (\<forall>x px. procs s' x = Some px \<and> d \<in> set (pending px) \<longrightarrow> x = e) \<and>
                 (\<forall>t. task m = Some t \<and> in_no_list d s' \<longrightarrow> running s' t))))"

lemma delivered_effectI:
  assumes "frame {d} s s'" and "same_entries s s'" and "owns s' = owns s" and "msgs s d = Some m" and "task m \<noteq> None"
    and "msgs s' d = Some m'" and "task m' = task m" and "rcvid m' = rcvid m" and "sender_pid m' = sender_pid m"
    and "receiver_pid m' = receiver_pid m" and "data m' = data m"
    and "mstate m' \<noteq> QNX_STATE_RECEIVING" and "\<And>x ch. chans s' x = Some ch \<Longrightarrow> d \<notin> set (waiting ch)"
    and "\<And>x px. procs s' x = Some px \<Longrightarrow> d \<in> set (pending px) \<Longrightarrow> x = e"
    and "\<And>t. task m = Some t \<Longrightarrow> in_no_list d s' \<Longrightarrow> running s' t"
  shows "delivered_effect e d s s'"
  using assms by (auto simp: delivered_effect_def)

lemma delivered_quiet:
  assumes "delivered_effect e d s s1" and "quiet_effect {} s1 s'"
  shows "delivered_effect e d s s'"
proof -
  have q: "frame {} s1 s'" "same_entries s1 s'" "owns s' = owns s1" using assms(2) by (simp_all add: quiet_effect_def)
  have none: "msgs s' d = None" if "msgs s1 d = None"
    using frameD(3) [OF q(1)] that by (metis empty_iff option.exhaust option.simps(3))
  have some: "\<exists>m'. msgs s' d = Some m' \<and> same_message m1 m'" if "msgs s1 d = Some m1" "task m1 \<noteq> None" for m1
    using frameD(1) [OF q(1) _ that] by simp
  show ?thesis
    unfolding delivered_effect_def
  proof (intro conjI allI impI)
    show "frame {d} s s'" "same_entries s s'" "owns s' = owns s"
      using assms(1) q frame_after same_entries_trans by (auto simp: delivered_effect_def)
    fix m
    assume m: "msgs s d = Some m"
    show "if task m = None then msgs s' d = None
      else (\<exists>m'. msgs s' d = Some m' \<and> task m' = task m \<and> rcvid m' = rcvid m \<and> sender_pid m' = sender_pid m \<and>
         receiver_pid m' = receiver_pid m \<and> data m' = data m \<and> mstate m' \<noteq> QNX_STATE_RECEIVING \<and> (\<forall>x ch. chans s' x = Some ch \<longrightarrow> d \<notin> set (waiting ch)) \<and>
         (\<forall>x px. procs s' x = Some px \<and> d \<in> set (pending px) \<longrightarrow> x = e) \<and>
         (\<forall>t. task m = Some t \<and> in_no_list d s' \<longrightarrow> running s' t))"
    proof (cases "task m = None")
      case True
      then show ?thesis using assms(1) m none by (simp add: delivered_effect_def)
    next
      case False
      then obtain m1 where m1: "msgs s1 d = Some m1" "task m1 = task m" "rcvid m1 = rcvid m \<and> sender_pid m1 = sender_pid m \<and> receiver_pid m1 = receiver_pid m"
        "data m1 = data m" "mstate m1 \<noteq> QNX_STATE_RECEIVING" "\<forall>x ch. chans s1 x = Some ch \<longrightarrow> d \<notin> set (waiting ch)"
        "\<forall>x px. procs s1 x = Some px \<and> d \<in> set (pending px) \<longrightarrow> x = e"
        "\<forall>t. task m = Some t \<and> in_no_list d s1 \<longrightarrow> running s1 t"
        using assms(1) m by (auto simp: delivered_effect_def)
      obtain m' where "msgs s' d = Some m'" "same_message m1 m'" using some [OF m1(1)] m1(2) False by auto
      moreover have "\<forall>x ch. chans s' x = Some ch \<longrightarrow> d \<notin> set (waiting ch)" using frameD(4) [OF q(1), of d] m1(6) by blast
      moreover have "\<forall>x px. procs s' x = Some px \<and> d \<in> set (pending px) \<longrightarrow> x = e"
        using frameD(5) [OF q(1), of d] m1(7) by blast
      moreover have "\<forall>t. task m = Some t \<and> in_no_list d s' \<longrightarrow> running s' t"
        using frameD(7) [OF q(1) _ m1(1)] m1(2,8) by auto
      ultimately show ?thesis using False m1(2-5) by (auto simp: same_message_def)
    qed
  qed
qed

lemma deliver_effect:
  assumes "kinv (holding c H) s" and "procs s e = Some pe" and "msgs s d = Some m" and "in_no_list d s"
  shows "\<exists>rc ws s'. handle_msgreceive_finish env ua io wrc e c d s = Some (rc, ws, s') \<and> kinv H s' \<and>
    delivered_effect e d s s'"
proof -
  obtain ch where ch: "chans s c = Some ch" using kinv_held [OF assms(1), of c] by auto
  have ok: "payload_ok m" using kinv_msg [OF assms(1,3)] by simp
  obtain rc ws where del: "delivery env ua io wrc (chid ch) m = (rc, ws)" by fastforce
  note eq = receive_finish_eq [OF assms(3) ch ok, of env ua io wrc e, unfolded del]
  let ?mid = "if task m = None then Some (s\<lparr>msgs := (msgs s)(d := None)\<rparr>)
    else if rc > 0 then qnx_process_entry_add_pending e d s else fail_message rc d s"
  obtain s1 where s1: "?mid = Some s1" "kinv (holding c H) s1" "delivered_effect e d s s1"
  proof -
    consider "task m = None" | t where "task m = Some t" "0 < rc" | t where "task m = Some t" "rc \<le> 0"
      by (cases "task m") force+
    then show thesis
    proof cases
      case 1
      let ?s = "s\<lparr>msgs := (msgs s)(d := None)\<rparr>"
      have "frame {d} s ?s" by (rule frameI) (auto simp: in_no_list_def split: if_splits)
      then have "delivered_effect e d s ?s"
        using 1 assms(3) by (simp add: delivered_effect_def same_entries_def entry_of_def owns_def fun_eq_iff)
      then show thesis using that [of ?s] kinv_free_msg [OF assms(1,4)] 1 by simp
    next
      case (2 t)
      have tm: "task m \<noteq> None" using 2 by simp
      let ?pe = "pe\<lparr>pending := d # pending pe\<rparr>"
      let ?s = "store_proc e ?pe (s\<lparr>msgs := (msgs s)(d \<mapsto> m\<lparr>mstate := QNX_STATE_PENDING\<rparr>)\<rparr>)"
      have kept: "in_no_list x s" if "in_no_list x ?s" for x
        by (rule no_list_back [OF that]) (use assms(2) in \<open>auto simp: store_proc_def\<close>)
      have fr: "frame {d} s ?s"
        by (rule frameI) (use kept assms(2,3) in \<open>auto simp: store_proc_def split: if_splits\<close>)
      have "same_entries s ?s" "owns ?s = owns s"
        using assms(2) by (auto simp: same_entries_def entry_of_def owns_def fun_eq_iff)
      then have "delivered_effect e d s ?s"
        by (rule delivered_effectI [OF fr _ _ assms(3) tm, of "m\<lparr>mstate := QNX_STATE_PENDING\<rparr>"]) (use assms(4) in \<open>simp_all add: in_no_list_def split: if_splits\<close>)
      moreover have "qnx_process_entry_add_pending e d s = Some ?s" "kinv (holding c H) ?s"
        by (rule kinv_add_pending [OF assms(1-3) tm assms(4)]; simp)+
      ultimately show thesis using that [of ?s] 2 by simp
    next
      case (3 t)
      note fm = fail_message_ok [OF assms(1,3) 3(1) assms(4), of rc]
      let ?m = "m\<lparr>reply_base := None, reply_len := 0, status := rc, mstate := QNX_STATE_FINISHED\<rparr>"
      let ?s = "wake_up_process t (s\<lparr>msgs := (msgs s)(d \<mapsto> ?m)\<rparr>)"
      have out: "in_no_list d ?s" using assms(4) by (simp add: in_no_list_def wake_up_process_def)
      have rel: "released ?s t" unfolding released_def using out 3(1)
        by (intro exI [of _ d] exI [of _ ?m]) (simp add: wake_up_process_def)
      have fr: "frame {d} s ?s"
      proof (rule frameI)
        fix x
        assume "running ?s x"
        then show "running s x \<or> released ?s x" using rel by (cases "x = t") (simp_all add: wake_up_process_def)
      qed (use assms(3) in \<open>auto simp: wake_up_process_def in_no_list_def split: if_splits\<close>)
      have "same_entries s ?s" "owns ?s = owns s"
        by (simp_all add: same_entries_def entry_of_def owns_def fun_eq_iff wake_up_process_def)
      moreover have tm: "task m \<noteq> None" using 3(1) by simp
      ultimately have "delivered_effect e d s ?s"
        by (intro delivered_effectI [OF fr _ _ assms(3) tm, of ?m])
          (use assms(4) 3(1) in \<open>simp_all add: wake_up_process_def in_no_list_def\<close>)
      then show thesis using that [of ?s] fm 3 by simp
    qed
  qed
  show ?thesis
  proof (rule kinv_put_back [OF s1(2)])
    fix s'
    assume s': "qnx_channel_release c s1 = Some s'" "kinv H s'"
    have "delivered_effect e d s s'" by (rule delivered_quiet [OF s1(3) quiet_release [OF s1(2) s'(1)]])
    then show ?thesis using eq s1(1) s'(1,2) by simp
  qed
qed

section \<open>Properties\<close>

text \<open>
  C11. Waking up: whether the sender was woken, timed out or got a signal, the code after the
  sleep follows no pointer to a dead object but for the one case at the end, and the second busy loop (wait while the message is
  finished) is never entered for ever: a message that is still pending is not finished. When the
  call returns, its reference to the channel is given back and its message is in no list, so that
  the frame that holds the message can end; the result is the status of the message, or the timeout
  or signal error. The first busy loop is entered only while a receiver is between taking and filing
  the message. A sender that runs without timeout or signal has been woken, and whoever woke it has
  taken its message off its list. The message is supposed to be where the protocol puts it, on the queue of the channel
  or on the pending list of a process that is still listed; a process whose device is closed while a
  poll file is open is not (\<open>close_before_pollfd_strands_sender\<close>). If the reference was the last one,
  the channel is freed with the pulses and messages without reply on its queue, and the \<open>list_del\<close> of
  each of them after it was freed is the only access to a dead object.
\<close>

theorem sender_wakes_safely:
  assumes "kinv (holding c H) s" and "msgs s d = Some m" and "task m = Some t" and "placed s c d"
    and "\<not> timed_out ms m \<and> \<not> sg \<longrightarrow> in_no_list d s"
  shows "\<exists>b s'. block_exit ms sg c d s = Some (b, s') \<and> unlinks s s' \<and>
    (case b of
       Returns r \<Rightarrow> kinv H s' \<and> in_no_list d s' \<and> msgs s' d = Some m \<and>
         (r = status m \<or> timed_out ms m \<and> r = - ETIMEDOUT \<or> sg \<and> r = - ERESTARTSYS)
     | Spins r \<Rightarrow> s' = s \<and> mstate m = QNX_STATE_RECEIVING
     | Hangs \<Rightarrow> False)"
proof (rule block_exit_ok [OF assms])
  fix s' rc
  assume b: "block_exit ms sg c d s = Some (Spins rc, s')" "mstate m = QNX_STATE_RECEIVING"
  have "s' = s" by (rule block_exit_spins(1) [OF assms(1-3) b(1)])
  then show ?thesis using b by (simp add: unlinks_same)
next
  fix s' r
  assume b: "block_exit ms sg c d s = Some (Returns r, s')" "kinv H s'" "in_no_list d s'" "msgs s' d = Some m"
    "r = status m \<or> r = (if timed_out ms m then - ETIMEDOUT else - ERESTARTSYS) \<and> (timed_out ms m \<or> sg)"
  have "unlinks s s'" using block_exit_quiet [OF assms(1-4) b(1)] by (auto simp: quiet_effect_def intro: frame_unlinks)
  then show ?thesis using b by (auto split: if_splits)
qed

theorem sender_wakes_safely_witness:
  "\<exists>r s'. block_exit 0 True 2 4 demo_asleep = Some (Returns r, s') \<and> in_no_list 4 s'"
proof -
  have at: "msgs demo_asleep 4 = Some demo_asleep_msg" "task demo_asleep_msg = Some 5" "placed demo_asleep 2 4"
    "\<not> timed_out 0 demo_asleep_msg \<and> \<not> True \<longrightarrow> in_no_list 4 demo_asleep"
    by (auto simp: demo_asleep_def demo_asleep_msg_def fresh_msgsend_def placed_def demo_kernel_def demo_server_def
        demo_client_def split: if_splits)
  have st: "mstate demo_asleep_msg \<noteq> QNX_STATE_RECEIVING"
    by (simp add: demo_asleep_msg_def fresh_msgsend_def)
  from sender_wakes_safely [OF demo_asleep_inv at] obtain b s' where
    "block_exit 0 True 2 4 demo_asleep = Some (b, s') \<and> unlinks demo_asleep s' \<and>
     (case b of
       Returns r \<Rightarrow> kinv (\<lambda>_. 0) s' \<and> in_no_list 4 s' \<and> msgs s' 4 = Some demo_asleep_msg \<and>
         (r = status demo_asleep_msg \<or> timed_out 0 demo_asleep_msg \<and> r = - ETIMEDOUT \<or> True \<and> r = - ERESTARTSYS)
     | Spins r \<Rightarrow> s' = demo_asleep \<and> mstate demo_asleep_msg = QNX_STATE_RECEIVING
     | Hangs \<Rightarrow> False)"
    by blast
  with st show ?thesis by (cases b) auto
qed

text \<open>
  C12. \<open>MsgReceive\<close> follows no pointer to a dead object, but for the one case at the end, and
  keeps the kernel invariant on every path: a bad argument, an unknown channel, a signal, a timeout or spurious wake-up with an empty
  queue, a pulse, a message with and without reply, and copies to user space that fail; the
  reference to the channel is given back on each of them. If that was the last one, because the
  channel was destroyed meanwhile, the channel is freed with the pulses and messages without reply
  on its queue, and the \<open>list_del\<close> of each of them after it was freed is the only access to a dead
  object after the wait. What other threads do during the wait is arbitrary, as long as they keep
  the invariant and the entry of the process is alive.
\<close>

theorem receive_safe:
  assumes "kinv H s" and "procs s e = Some pe" and "serves R e f" and "R H"
  shows "\<exists>rc ws s' H'. handle_msgreceive env ua io e f left s = Some (rc, ws, s') \<and> R H' \<and> kinv H' s' \<and>
    (s' = s \<or> (\<exists>c. handle_msgreceive_enter io e s = Some (Waits c, hold c s) \<and> unlinks (f (hold c s)) s'))"
  using assms(1,2)
proof (cases rule: receive_enter_ok [where io = io])
  case (refused rc)
  then show ?thesis using assms(1,4) by (auto simp: handle_msgreceive_def)
next
  case (waits c r)
  let ?s = "f (hold c s)"
  have "procs (hold c s) e \<noteq> None" using assms(2) by simp
  then obtain H1 px where f: "kinv (holding c H1) ?s" "procs ?s e = Some px" "R H1"
    using assms(3,4) waits(4) unfolding serves_def by blast
  obtain x s1 where t: "handle_msgreceive_take (receive_rc left) c ?s = Some (x, s1)" "kinv (holding c H1) s1"
    "case x of Inl rc \<Rightarrow> s1 = ?s | Inr d \<Rightarrow> taken_effect c d ?s s1"
    using take_effect [OF f(1), of "receive_rc left"] by blast
  have "\<exists>rc ws s'. handle_msgreceive env ua io e f left s = Some (rc, ws, s') \<and> kinv H1 s' \<and> unlinks ?s s'"
  proof (cases x)
    case (Inl rc)
    show ?thesis
    proof (rule kinv_put_back [OF t(2)])
      fix s'
      assume s': "qnx_channel_release c s1 = Some s'" "kinv H1 s'"
      have "unlinks ?s s'" using quiet_release [OF t(2) s'(1)] t(3) Inl by (auto simp: quiet_effect_def intro: frame_unlinks)
      then show ?thesis using waits(1,2) t(1) Inl s' by (simp add: handle_msgreceive_def)
    qed
  next
    case (Inr d)
    then have eff: "frame {d} ?s s1" "same_entries ?s s1" "in_no_list d s1" using t(3) by (simp_all add: taken_effect_def)
    obtain m where m: "msgs ?s d = Some m" "msgs s1 d = Some (m\<lparr>mstate := QNX_STATE_RECEIVING\<rparr>)" "uaf s1 = uaf ?s"
      using t(1,3) Inr by (auto simp: taken_effect_def handle_msgreceive_take_def split: if_splits option.splits elim!: bind_eq_SomeE)
    obtain p1 where p1: "procs s1 e = Some p1" using same_entriesD [OF eff(2) f(2)] by blast
    obtain rc ws s' where d: "handle_msgreceive_finish env ua r (receive_rc left) e c d s1 = Some (rc, ws, s')" "kinv H1 s'"
      "delivered_effect e d s1 s'"
      using deliver_effect [OF t(2) p1 m(2) eff(3)] by blast
    have tasks: "task mx' = task mx" if "msgs ?s z = Some mx" "msgs s1 z = Some mx'" for z mx mx' by (rule frame_task [OF eff(1) that])
    have alive: "msgs s1 z \<noteq> None" if "msgs ?s z = Some mx" "task mx \<noteq> None" for z mx
      using frameD(1) [OF eff(1) _ that] m(2) by (cases "z = d") auto
    have "unlinks s1 s'" using d(3) by (auto simp: delivered_effect_def intro: frame_unlinks)
    then have "unlinks ?s s'" unfolding unlinks_def m(3) using tasks alive by (metis not_None_eq)
    then show ?thesis using waits(1,2) t(1) Inr d(1,2) by (simp add: handle_msgreceive_def)
  qed
  then show ?thesis using f(3) waits(2) by blast
qed

theorem receive_safe_witness:
  "\<exists>rc ws s'. handle_msgreceive demo_env 512
     (Some \<lparr>rcv_chid = 1, rcv_timeout_ms = 10, rcv_out = \<lparr>iov_base = 1024, iov_len = 64\<rparr>, rcv_info = zero_info\<rparr>)
     1 (\<lambda>s. s) 5 demo_asleep = Some (rc, ws, s') \<and> kinv (holding 2 (\<lambda>_. 0)) s'"
proof -
  have "procs demo_asleep 1 = Some demo_server" by (simp add: demo_asleep_def demo_kernel_def)
  from receive_safe [OF demo_asleep_inv this serves_id, of "\<lambda>H. H = holding 2 (\<lambda>_. 0)"] show ?thesis by blast
qed

end
