(* ===== verification/Protocol.thy ===== *)
theory Protocol
  imports Sleepers
begin

text \<open>
  The module as a transition system: any number of threads that make calls on open device
  files, interleaved at the points where the calls sleep. A state has the kernel state, the open
  files with the entry in their \<open>private_data\<close>, and what each thread is doing. Every reachable
  state satisfies the kernel invariant with exactly the channel references that the threads
  hold, and no step that is enabled faults or hangs.

  All calls of the module are steps. References that a call leaks are counted. A step is enabled
  when it is \<open>possible\<close>, that is when the thread and the file are ready for it and the values have
  the range of their C types, and \<open>careful\<close>: the processes do not do what the code gets wrong. The
  uses that \<open>careful\<close> leaves out, each with the theorem or lemma that shows what goes wrong, are:
  a device that is closed before the poll files of its process (\<open>close_before_pollfd_strands_sender\<close>);
  a poll on a file without entry (\<open>poll_of_null_file_faults\<close>); a vector with a negative length
  (\<open>negative_vector_length_overruns\<close>); a plain message without reply whose size wraps
  (\<open>noreply_size_wraps\<close>); the result of a vector without reply that cannot be read, taken from an
  uninitialised variable that is 0 by accident (\<open>unreadable_vector_returns_garbage\<close>); and counters of
  ids that have run through all positive values. Two more are left out because the calls are one
  step here: the signal for the sender in the middle of \<open>MsgReply\<close> or \<open>MsgError\<close>
  (\<open>reply_races_with_signal\<close>), and two threads of a process in \<open>open\<close> at the same time
  (\<open>concurrent_opens_list_twice\<close>).
\<close>

section \<open>States\<close>

text \<open>
  \<open>Sending\<close>: asleep in \<open>MsgSend\<close> with a channel and a message; \<open>Spinning\<close>: in the busy loop until
  the receiver has filed the message; \<open>Waiting\<close>: in \<open>MsgReceive\<close>, waiting on a channel;
  \<open>Delivering\<close>: with a message taken off the queue; \<open>Queueing\<close>: a sender without reply that
  tries to queue its message, and whether it has slept. All have the file of the call.
\<close>

datatype tstate =
    Idle
  | Sending file_t addr addr
  | Spinning file_t addr addr int
  | Waiting file_t addr uaddr qnx_io_receive
  | Delivering file_t addr addr uaddr qnx_io_receive int
  | Queueing file_t addr addr bool

text \<open>
  \<open>leaked\<close> counts the references to channels that calls have taken and, against what the code
  means to do, not given back. It has no counterpart in the code. \<open>vecs\<close> has the reply vector of
  a thread in \<open>MsgSendv\<close>, which is a local variable of the call, and \<open>None\<close> for one in \<open>MsgSend\<close>;
  it is empty for \<open>MsgSendNoReplyv\<close> and \<open>None\<close> for \<open>MsgSendNoReply\<close>. \<open>fds\<close> has, for the files with an
  entry in \<open>private_data\<close>, whether they are open for writing, and the entry; \<open>nulls\<close> are the open
  files with a null \<open>private_data\<close>: those that a process without entry has opened for reading.
\<close>

record sys =
  kern :: kstate
  fds :: "file_t \<Rightarrow> (bool \<times> addr) option"
  threads :: "tid \<Rightarrow> tstate"
  leaked :: held
  vecs :: "tid \<Rightarrow> iovec list option"
  nulls :: "file_t set"

text \<open>Whether an open file is open for writing, and its \<open>private_data\<close>.\<close>

definition private_data :: "sys \<Rightarrow> file_t \<Rightarrow> (bool \<times> addr option) option" where
  "private_data \<sigma> f =
     (case fds \<sigma> f of
        Some (b, e) \<Rightarrow> Some (b, Some e)
      | None \<Rightarrow> if f \<in> nulls \<sigma> then Some (False, None) else None)"

fun file_of :: "tstate \<Rightarrow> file_t option" where
  "file_of Idle = None"
| "file_of (Sending f c d) = Some f"
| "file_of (Spinning f c d rc) = Some f"
| "file_of (Waiting f c ua io) = Some f"
| "file_of (Delivering f c d ua io wrc) = Some f"
| "file_of (Queueing f c d slept) = Some f"

fun channel_held :: "tstate \<Rightarrow> addr option" where
  "channel_held Idle = None"
| "channel_held (Sending f c d) = Some c"
| "channel_held (Spinning f c d rc) = Some c"
| "channel_held (Waiting f c ua io) = Some c"
| "channel_held (Delivering f c d ua io wrc) = Some c"
| "channel_held (Queueing f c d slept) = Some c"

fun sends :: "tstate \<Rightarrow> addr option" where
  "sends (Sending f c d) = Some d"
| "sends (Spinning f c d rc) = Some d"
| "sends _ = None"

text \<open>A message that only this thread knows, because it is on no list.\<close>

fun in_hand :: "tstate \<Rightarrow> addr option" where
  "in_hand (Delivering f c d ua io wrc) = Some d"
| "in_hand (Queueing f c d slept) = Some d"
| "in_hand _ = None"

definition held_by :: "held \<Rightarrow> (tid \<Rightarrow> tstate) \<Rightarrow> held" where
  "held_by L T c = card {t. channel_held (T t) = Some c} + L c"

definition ref_count :: "kstate \<Rightarrow> addr \<Rightarrow> nat" where
  "ref_count s c = (case chans s c of None \<Rightarrow> 0 | Some ch \<Rightarrow> ch_refcnt ch)"

text \<open>The leaks after a call that is over and led from \<open>s\<close> to \<open>s'\<close>.\<close>

definition leaks :: "kstate \<Rightarrow> kstate \<Rightarrow> held \<Rightarrow> held" where
  "leaks s s' L = (\<lambda>c. L c + (ref_count s' c - ref_count s c))"

section \<open>Steps\<close>

text \<open>
  \<open>Call\<close> is an \<open>ioctl\<close> that does not sleep. \<open>Wake env ms sg t\<close> is a sender that runs again, with what
  \<open>msleep_interruptible\<close> and \<open>signal_pending\<close> report; \<open>Take left t\<close> a receiver whose wait returned
  \<open>left\<close>. \<open>Attempt sg t\<close> is one round of the loop of a sender without reply, with what
  \<open>signal_pending\<close> reports after the sleep.
\<close>

datatype action =
    Open kenv bool pid_t file_t
  | Close file_t
  | Call kenv uargs sched tid pid_t file_t qnx_cmd nat
  | Send kenv qnx_io_msgsend tid file_t
  | Sendv kenv qnx_io_msgsendv tid file_t
  | Wake kenv nat bool tid
  | Recv uaddr qnx_io_receive tid file_t
  | Take int tid
  | Deliver kenv tid
  | Poll file_t
  | Noreply kenv qnx_io_msgsend tid file_t
  | Noreplyv kenv qnx_io_msgsendv tid file_t
  | Attempt bool tid

definition sleeps :: "qnx_cmd \<Rightarrow> bool" where
  "sleeps cmd \<longleftrightarrow> cmd \<in> {QNX_IO_MSGSEND, QNX_IO_MSGSENDV, QNX_IO_MSGRECEIVE, QNX_IO_MSGSENDNOREPLY, QNX_IO_MSGSENDNOREPLYV}"

text \<open>
  When a step is possible: a call needs an idle thread and an open file, a file is closed when no
  thread is in a call on it, and a sleeping sender runs again when it was woken, when it has a
  signal, or after its timeout. Values from user space are in the range of their C type. A call
  that sleeps has its own steps, unless it is refused: with a null argument, on a file without
  entry, or by a process other than the one that opened the file. (A sleeping call whose argument
  cannot be read is no step; it returns \<open>-EFAULT\<close> and changes nothing.)
\<close>

definition refused :: "sys \<Rightarrow> pid_t \<Rightarrow> file_t \<Rightarrow> nat \<Rightarrow> bool" where
  "refused \<sigma> p f arg \<longleftrightarrow>
     arg = 0 \<or> (\<forall>b e pe. fds \<sigma> f = Some (b, e) \<and> procs (kern \<sigma>) e = Some pe \<longrightarrow> p \<noteq> pid pe)"

fun possible :: "action \<Rightarrow> sys \<Rightarrow> bool" where
  "possible (Open env rdwr p f) \<sigma> \<longleftrightarrow> private_data \<sigma> f = None"
| "possible (Close f) \<sigma> \<longleftrightarrow> private_data \<sigma> f \<noteq> None \<and> (\<forall>t. file_of (threads \<sigma> t) \<noteq> Some f)"
| "possible (Call env ua sc t p f cmd arg) \<sigma> \<longleftrightarrow>
     threads \<sigma> t = Idle \<and> private_data \<sigma> f \<noteq> None \<and> kenv_ok env \<and> (sleeps cmd \<longrightarrow> refused \<sigma> p f arg) \<and>
     (\<forall>pl. read_pulse ua arg = Some pl \<longrightarrow> int_range (mp_coid pl)) \<and>
     (\<forall>io. read_read ua arg = Some io \<longrightarrow> int_range (rd_offset io))"
| "possible (Send env io t f) \<sigma> \<longleftrightarrow> threads \<sigma> t = Idle \<and> fds \<sigma> f \<noteq> None \<and> kenv_ok env \<and> int_range (ms_coid io)"
| "possible (Sendv env v t f) \<sigma> \<longleftrightarrow>
     threads \<sigma> t = Idle \<and> fds \<sigma> f \<noteq> None \<and> kenv_ok env \<and> int_range (msv_coid v) \<and> int_range (msv_in_len v) \<and>
     int_range (msv_out_len v)"
| "possible (Wake env ms sg t) \<sigma> \<longleftrightarrow>
     (case threads \<sigma> t of
        Sending f c d \<Rightarrow> running (kern \<sigma>) t \<or> sg \<or> (\<exists>m. msgs (kern \<sigma>) d = Some m \<and> timed_out ms m)
      | Spinning f c d rc \<Rightarrow> True
      | _ \<Rightarrow> False)"
| "possible (Recv ua io t f) \<sigma> \<longleftrightarrow> threads \<sigma> t = Idle \<and> fds \<sigma> f \<noteq> None"
| "possible (Take left t) \<sigma> \<longleftrightarrow> (case threads \<sigma> t of Waiting f c ua io \<Rightarrow> True | _ \<Rightarrow> False)"
| "possible (Deliver env t) \<sigma> \<longleftrightarrow> (case threads \<sigma> t of Delivering f c d ua io wrc \<Rightarrow> True | _ \<Rightarrow> False)"
| "possible (Poll f) \<sigma> \<longleftrightarrow> private_data \<sigma> f \<noteq> None"
| "possible (Noreply env io t f) \<sigma> \<longleftrightarrow>
     threads \<sigma> t = Idle \<and> fds \<sigma> f \<noteq> None \<and> kenv_ok env \<and> int_range (ms_coid io)"
| "possible (Noreplyv env v t f) \<sigma> \<longleftrightarrow>
     threads \<sigma> t = Idle \<and> fds \<sigma> f \<noteq> None \<and> kenv_ok env \<and> int_range (msv_coid v) \<and> int_range (msv_in_len v) \<and>
     qnx_max_noreply_msg_size (kern \<sigma>) < 2 ^ 32"
| "possible (Attempt sg t) \<sigma> \<longleftrightarrow> (case threads \<sigma> t of Queueing f c d slept \<Rightarrow> True | _ \<Rightarrow> False)"

text \<open>
  What the processes have to keep to, beyond that. The device is closed last, after the poll files
  of the process; a file is polled only when its process had the device open; vector lengths are
  not negative; the size of a message without reply does not wrap; a vector without reply that
  cannot be read does not find a 0 in the uninitialised result; and the counters of ids have not
  run through all positive values.
\<close>

fun careful :: "action \<Rightarrow> sys \<Rightarrow> bool" where
  "careful (Close f) \<sigma> \<longleftrightarrow> (\<forall>e g b. fds \<sigma> f = Some (True, e) \<and> g \<noteq> f \<longrightarrow> fds \<sigma> g \<noteq> Some (b, e))"
| "careful (Call env ua sc t p f cmd arg) \<sigma> \<longleftrightarrow> gbl_next_channel_id (kern \<sigma>) < 2 ^ 31 - 1"
| "careful (Send env io t f) \<sigma> \<longleftrightarrow> gbl_next_rcvid (kern \<sigma>) < 2 ^ 31 - 1"
| "careful (Sendv env v t f) \<sigma> \<longleftrightarrow> 0 \<le> msv_in_len v \<and> 0 \<le> msv_out_len v \<and> gbl_next_rcvid (kern \<sigma>) < 2 ^ 31 - 1"
| "careful (Poll f) \<sigma> \<longleftrightarrow> fds \<sigma> f \<noteq> None"
| "careful (Noreply env io t f) \<sigma> \<longleftrightarrow>
     iov_len (ms_in io) < 2 ^ 64 - sizeof_msgsend \<and> gbl_next_rcvid (kern \<sigma>) < 2 ^ 31 - 1"
| "careful (Noreplyv env v t f) \<sigma> \<longleftrightarrow>
     0 \<le> msv_in_len v \<and> uninit_rc env \<noteq> 0 \<and> gbl_next_rcvid (kern \<sigma>) < 2 ^ 31 - 1"
| "careful _ \<sigma> \<longleftrightarrow> True"

definition enabled :: "action \<Rightarrow> sys \<Rightarrow> bool" where
  "enabled a \<sigma> \<longleftrightarrow> possible a \<sigma> \<and> careful a \<sigma>"

lemma private_data_simps:
  "fds \<sigma> f = Some (b, e) \<Longrightarrow> private_data \<sigma> f = Some (b, Some e)"
  "fds \<sigma> f = None \<Longrightarrow> private_data \<sigma> f = (if f \<in> nulls \<sigma> then Some (False, None) else None)"
  "private_data \<sigma> f = None \<longleftrightarrow> fds \<sigma> f = None \<and> f \<notin> nulls \<sigma>"
  by (auto simp: private_data_def split: option.splits)

text \<open>The conditions of a step on a file with an entry, and of one on any file.\<close>

lemma enabled_simps [simp]:
  "enabled (Open env rdwr p f) \<sigma> \<longleftrightarrow> fds \<sigma> f = None \<and> f \<notin> nulls \<sigma>"
  "enabled (Close f) \<sigma> \<longleftrightarrow>
     (fds \<sigma> f = None \<longrightarrow> f \<in> nulls \<sigma>) \<and> (\<forall>t. file_of (threads \<sigma> t) \<noteq> Some f) \<and>
     (\<forall>e g b. fds \<sigma> f = Some (True, e) \<and> g \<noteq> f \<longrightarrow> fds \<sigma> g \<noteq> Some (b, e))"
  "enabled (Call env ua sc t p f cmd arg) \<sigma> \<longleftrightarrow>
     threads \<sigma> t = Idle \<and> (fds \<sigma> f = None \<longrightarrow> f \<in> nulls \<sigma>) \<and> kenv_ok env \<and> (sleeps cmd \<longrightarrow> refused \<sigma> p f arg) \<and>
     (\<forall>pl. read_pulse ua arg = Some pl \<longrightarrow> int_range (mp_coid pl)) \<and>
     (\<forall>io. read_read ua arg = Some io \<longrightarrow> int_range (rd_offset io)) \<and> gbl_next_channel_id (kern \<sigma>) < 2 ^ 31 - 1"
  "enabled (Poll f) \<sigma> \<longleftrightarrow> fds \<sigma> f \<noteq> None"
  "enabled (Send env io t f) \<sigma> \<longleftrightarrow> possible (Send env io t f) \<sigma> \<and> careful (Send env io t f) \<sigma>"
  "enabled (Sendv env v t f) \<sigma> \<longleftrightarrow> possible (Sendv env v t f) \<sigma> \<and> careful (Sendv env v t f) \<sigma>"
  "enabled (Noreply env io t f) \<sigma> \<longleftrightarrow> possible (Noreply env io t f) \<sigma> \<and> careful (Noreply env io t f) \<sigma>"
  "enabled (Noreplyv env v t f) \<sigma> \<longleftrightarrow> possible (Noreplyv env v t f) \<sigma> \<and> careful (Noreplyv env v t f) \<sigma>"
  "enabled (Recv a rio t f) \<sigma> \<longleftrightarrow> possible (Recv a rio t f) \<sigma>"
  "enabled (Wake env ms sg t) \<sigma> \<longleftrightarrow> possible (Wake env ms sg t) \<sigma>"
  "enabled (Take left t) \<sigma> \<longleftrightarrow> possible (Take left t) \<sigma>"
  "enabled (Deliver env t) \<sigma> \<longleftrightarrow> possible (Deliver env t) \<sigma>"
  "enabled (Attempt sg t) \<sigma> \<longleftrightarrow> possible (Attempt sg t) \<sigma>"
  by (auto simp: enabled_def private_data_simps(3))

text \<open>
  What the caller sees of a step: the result of its call and what was stored in its memory, or
  \<open>None\<close> while the call goes on.
\<close>

type_synonym outcome = "(int \<times> uwrite list) option"

definition set_thread :: "tid \<Rightarrow> tstate \<Rightarrow> kstate \<Rightarrow> sys \<Rightarrow> sys" where
  "set_thread t x s \<sigma> = \<sigma>\<lparr>kern := s, threads := (threads \<sigma>)(t := x)\<rparr>"

text \<open>The rest of a sender's call, once it left the sleep or the busy loop.\<close>

definition finish_send :: "kenv \<Rightarrow> iovec list option \<Rightarrow> int \<Rightarrow> addr \<Rightarrow> kstate \<Rightarrow> (int \<times> uwrite list \<times> kstate) option" where
  "finish_send env v rc d s =
     (case v of None \<Rightarrow> handle_msgsend_exit env rc d s | Some outs \<Rightarrow> handle_msgsendv_exit env rc d outs s)"

definition resume ::
  "kenv \<Rightarrow> tid \<Rightarrow> file_t \<Rightarrow> addr \<Rightarrow> addr \<Rightarrow> (block_result \<times> kstate) option \<Rightarrow> sys \<Rightarrow> (outcome \<times> sys) option" where
  "resume env t f c d r \<sigma> =
     do { (b, s) \<leftarrow> r;
          (case b of
             Returns rc \<Rightarrow>
               do { (rc', ws, s') \<leftarrow> finish_send env (vecs \<sigma> t) rc d s; Some (Some (rc', ws), set_thread t Idle s' \<sigma>) }
           | Spins rc \<Rightarrow> Some (None, set_thread t (Spinning f c d rc) s \<sigma>)
           | Hangs \<Rightarrow> None) }"

text \<open>A sender without reply before its loop; a call that is over may have leaked a reference.\<close>

definition started ::
  "tid \<Rightarrow> file_t \<Rightarrow> iovec list option \<Rightarrow> (enter_result \<times> kstate) option \<Rightarrow> sys \<Rightarrow> (outcome \<times> sys) option" where
  "started t f v r \<sigma> =
     do { (r, s) \<leftarrow> r;
          Some (case r of
                  Finished rc \<Rightarrow> (Some (rc, []), \<sigma>\<lparr>kern := s, leaked := leaks (kern \<sigma>) s (leaked \<sigma>)\<rparr>)
                | Blocked c d \<Rightarrow> (None, set_thread t (Queueing f c d False) s (\<sigma>\<lparr>vecs := (vecs \<sigma>)(t := v)\<rparr>))) }"

text \<open>
  The result and the next state; \<open>None\<close> is a fault, or a thread that hangs for ever. The result of
  the loop of a sender without reply is dropped by \<open>MsgSendNoReply\<close> and returned by the vector call.
\<close>

fun perform :: "action \<Rightarrow> sys \<Rightarrow> (outcome \<times> sys) option" where
  "perform (Open env rdwr p f) \<sigma> =
     do { (rc, pd, s) \<leftarrow> qnxcomm_open env rdwr p (kern \<sigma>);
          Some (Some (rc, []),
                case pd of
                  None \<Rightarrow> if rc < 0 then \<sigma>\<lparr>kern := s\<rparr> else \<sigma>\<lparr>kern := s, nulls := insert f (nulls \<sigma>)\<rparr>
                | Some e \<Rightarrow> \<sigma>\<lparr>kern := s, fds := (fds \<sigma>)(f \<mapsto> (rdwr, e))\<rparr>) }"
| "perform (Close f) \<sigma> =
     do { (b, pd) \<leftarrow> private_data \<sigma> f;
          (rc, pd', s) \<leftarrow> qnxcomm_close b f pd (kern \<sigma>);
          Some (Some (rc, []), \<sigma>\<lparr>kern := s, fds := (fds \<sigma>)(f := None), nulls := nulls \<sigma> - {f}\<rparr>) }"
| "perform (Call env ua sc t p f cmd arg) \<sigma> =
     do { (b, pd) \<leftarrow> private_data \<sigma> f;
          (rc, ws, s) \<leftarrow> qnxcomm_ioctl env ua sc t p f pd cmd arg (kern \<sigma>);
          Some (map_option (\<lambda>r. (r, ws)) rc, \<sigma>\<lparr>kern := s\<rparr>) }"
| "perform (Send env io t f) \<sigma> =
     do { (b, e) \<leftarrow> fds \<sigma> f;
          (r, s) \<leftarrow> handle_msgsend_enter env (Some io) t e (kern \<sigma>);
          Some (case r of
                  Finished rc \<Rightarrow> (Some (rc, []), \<sigma>\<lparr>kern := s\<rparr>)
                | Blocked c d \<Rightarrow> (None, set_thread t (Sending f c d) s (\<sigma>\<lparr>vecs := (vecs \<sigma>)(t := None)\<rparr>))) }"
| "perform (Sendv env v t f) \<sigma> =
     do { (b, e) \<leftarrow> fds \<sigma> f;
          (r, outs, s) \<leftarrow> handle_msgsendv_enter env (Some v) t e (kern \<sigma>);
          Some (case r of
                  Finished rc \<Rightarrow> (Some (rc, []), \<sigma>\<lparr>kern := s, leaked := leaks (kern \<sigma>) s (leaked \<sigma>)\<rparr>)
                | Blocked c d \<Rightarrow> (None, set_thread t (Sending f c d) s (\<sigma>\<lparr>vecs := (vecs \<sigma>)(t \<mapsto> outs)\<rparr>))) }"
| "perform (Wake env ms sg t) \<sigma> =
     (case threads \<sigma> t of
        Sending f c d \<Rightarrow> resume env t f c d (block_exit ms sg c d (kern \<sigma>)) \<sigma>
      | Spinning f c d rc \<Rightarrow> resume env t f c d (block_pending rc c d (kern \<sigma>)) \<sigma>
      | _ \<Rightarrow> None)"
| "perform (Recv ua io t f) \<sigma> =
     do { (b, e) \<leftarrow> fds \<sigma> f;
          (r, s) \<leftarrow> handle_msgreceive_enter (Some io) e (kern \<sigma>);
          Some (case r of
                  Refused rc \<Rightarrow> (Some (rc, []), \<sigma>\<lparr>kern := s\<rparr>)
                | Waits c \<Rightarrow> (None, set_thread t (Waiting f c ua io) s \<sigma>)) }"
| "perform (Take left t) \<sigma> =
     (case threads \<sigma> t of
        Waiting f c ua io \<Rightarrow>
          do { (r, s) \<leftarrow> handle_msgreceive_take (receive_rc left) c (kern \<sigma>);
               (case r of
                  Inl rc \<Rightarrow> do { s' \<leftarrow> qnx_channel_release c s; Some (Some (rc, []), set_thread t Idle s' \<sigma>) }
                | Inr d \<Rightarrow> Some (None, set_thread t (Delivering f c d ua io (receive_rc left)) s \<sigma>)) }
      | _ \<Rightarrow> None)"
| "perform (Deliver env t) \<sigma> =
     (case threads \<sigma> t of
        Delivering f c d ua io wrc \<Rightarrow>
          do { (b, e) \<leftarrow> fds \<sigma> f;
               (rc, ws, s) \<leftarrow> handle_msgreceive_finish env ua io wrc e c d (kern \<sigma>);
               Some (Some (rc, ws), set_thread t Idle s \<sigma>) }
      | _ \<Rightarrow> None)"
| "perform (Poll f) \<sigma> =
     do { (b, pd) \<leftarrow> private_data \<sigma> f;
          (mask, s) \<leftarrow> qnxcomm_poll f pd (kern \<sigma>);
          Some (Some (mask, []), \<sigma>\<lparr>kern := s, leaked := leaks (kern \<sigma>) s (leaked \<sigma>)\<rparr>) }"
| "perform (Noreply env io t f) \<sigma> =
     do { (b, e) \<leftarrow> fds \<sigma> f; started t f None (handle_msgsend_no_reply_enter env (Some io) e (kern \<sigma>)) \<sigma> }"
| "perform (Noreplyv env v t f) \<sigma> =
     do { (b, e) \<leftarrow> fds \<sigma> f; started t f (Some []) (handle_msgsend_noreplyv_enter env (Some v) e (kern \<sigma>)) \<sigma> }"
| "perform (Attempt sg t) \<sigma> =
     (case threads \<sigma> t of
        Queueing f c d slept \<Rightarrow>
          (let result = (\<lambda>rc. Some (if vecs \<sigma> t = None then 0 else rc, [])) in
           if slept \<and> sg then
             do { s \<leftarrow> qnx_channel_release c ((kern \<sigma>)\<lparr>msgs := (msgs (kern \<sigma>))(d := None)\<rparr>);
                  Some (result (- ERESTARTSYS), set_thread t Idle s \<sigma>) }
           else
             do { (r, s) \<leftarrow> busy_loop_add_new_message c d [] (kern \<sigma>);
                  (case r of
                     None \<Rightarrow> Some (None, set_thread t (Queueing f c d True) s \<sigma>)
                   | Some rc \<Rightarrow> do { s' \<leftarrow> qnx_channel_release c s; Some (result rc, set_thread t Idle s' \<sigma>) }) })
      | _ \<Rightarrow> None)"

definition exec :: "action \<Rightarrow> sys \<Rightarrow> sys option" where
  "exec a \<sigma> = map_option snd (perform a \<sigma>)"

lemma poll_of_null_file_faults:
  "private_data \<sigma> f = Some (False, None) \<Longrightarrow> possible (Poll f) \<sigma> \<and> perform (Poll f) \<sigma> = None"
  by (simp add: qnxcomm_poll_def)

definition loaded :: sys where
  "loaded = \<lparr>kern = init_kstate, fds = (\<lambda>_. None), threads = (\<lambda>_. Idle), leaked = (\<lambda>_. 0), vecs = (\<lambda>_. None), nulls = {}\<rparr>"

inductive reachable :: "sys \<Rightarrow> bool" where
  start: "reachable loaded"
| step: "reachable \<sigma> \<Longrightarrow> enabled a \<sigma> \<Longrightarrow> exec a \<sigma> = Some \<sigma>' \<Longrightarrow> reachable \<sigma>'"

section \<open>The invariant\<close>

text \<open>
  Every entry is on the list, has one reference for each open file, and its device file is open.
\<close>

definition files_inv :: "(file_t \<Rightarrow> (bool \<times> addr) option) \<Rightarrow> kstate \<Rightarrow> bool" where
  "files_inv fs s \<longleftrightarrow>
     finite (dom fs) \<and> (\<forall>f b e. fs f = Some (b, e) \<longrightarrow> entry_of s e \<noteq> None) \<and>
     (\<forall>e p n. entry_of s e = Some (p, n) \<longrightarrow>
        e \<in> set (process_entries s) \<and> n = card {f. \<exists>b. fs f = Some (b, e)} \<and> (\<exists>f. fs f = Some (True, e)))"

text \<open>
  \<open>cp\<close> is the process a channel belongs to, or belonged to before it was destroyed; the messages
  on its queue are for that process.
\<close>

definition channels_inv :: "(addr \<Rightarrow> pid_t) \<Rightarrow> kstate \<Rightarrow> bool" where
  "channels_inv cp s \<longleftrightarrow>
     (\<forall>e pe c. procs s e = Some pe \<and> c \<in> set (channels pe) \<longrightarrow> cp c = pid pe) \<and>
     (\<forall>c ch d m. chans s c = Some ch \<and> d \<in> set (waiting ch) \<and> msgs s d = Some m \<and> task m \<noteq> None \<longrightarrow>
        receiver_pid m = cp c)"

text \<open>A message with a task is the one that task is blocked with.\<close>

definition tasks_inv :: "(tid \<Rightarrow> tstate) \<Rightarrow> kstate \<Rightarrow> bool" where
  "tasks_inv T s \<longleftrightarrow> (\<forall>d m t. msgs s d = Some m \<and> task m = Some t \<longrightarrow> sends (T t) = Some d)"

text \<open>A sender's message in the state \<open>QNX_STATE_RECEIVING\<close> is in the hands of a receiver.\<close>

definition delivery_inv :: "(tid \<Rightarrow> tstate) \<Rightarrow> kstate \<Rightarrow> bool" where
  "delivery_inv T s \<longleftrightarrow>
     (\<forall>d m. msgs s d = Some m \<and> task m \<noteq> None \<and> mstate m = QNX_STATE_RECEIVING \<longrightarrow> (\<exists>t. in_hand (T t) = Some d))"

text \<open>The reply to a vector message fits the vector.\<close>

definition vec_ok :: "iovec list option \<Rightarrow> payload \<Rightarrow> bool" where
  "vec_ok v pl \<longleftrightarrow> (case v of None \<Rightarrow> True | Some outs \<Rightarrow> out_fits outs pl)"

definition thread_ok :: "(addr \<Rightarrow> pid_t) \<Rightarrow> sys \<Rightarrow> tid \<Rightarrow> bool" where
  "thread_ok cp \<sigma> t \<longleftrightarrow>
     (let s = kern \<sigma> in
      case threads \<sigma> t of
        Idle \<Rightarrow> True
      | Sending f c d \<Rightarrow>
          fds \<sigma> f \<noteq> None \<and> placed s c d \<and>
          (\<exists>m. msgs s d = Some m \<and> task m = Some t \<and> vec_ok (vecs \<sigma> t) (data m) \<and>
             (running s t \<longrightarrow> in_no_list d s \<and> mstate m \<noteq> QNX_STATE_RECEIVING) \<and>
             (\<not> running s t \<longrightarrow> \<not> in_no_list d s \<or> mstate m = QNX_STATE_RECEIVING))
      | Spinning f c d rc \<Rightarrow>
          fds \<sigma> f \<noteq> None \<and> placed s c d \<and> (\<exists>m. msgs s d = Some m \<and> task m = Some t \<and> vec_ok (vecs \<sigma> t) (data m)) \<and>
          (\<forall>ch. chans s c = Some ch \<longrightarrow> d \<notin> set (waiting ch))
      | Waiting f c ua io \<Rightarrow> (\<exists>b e pe. fds \<sigma> f = Some (b, e) \<and> procs s e = Some pe \<and> cp c = pid pe)
      | Delivering f c d ua io wrc \<Rightarrow>
          (\<exists>b e pe m. fds \<sigma> f = Some (b, e) \<and> procs s e = Some pe \<and> msgs s d = Some m \<and> in_no_list d s \<and>
             mstate m = QNX_STATE_RECEIVING \<and> (task m \<noteq> None \<longrightarrow> receiver_pid m = pid pe)) \<and>
          (\<forall>t'. t' \<noteq> t \<longrightarrow> in_hand (threads \<sigma> t') \<noteq> Some d)
      | Queueing f c d slept \<Rightarrow>
          fds \<sigma> f \<noteq> None \<and>
          (\<exists>m. msgs s d = Some m \<and> in_no_list d s \<and> mstate m = QNX_STATE_INITIAL \<and> task m = None) \<and>
          (\<forall>t'. t' \<noteq> t \<longrightarrow> in_hand (threads \<sigma> t') \<noteq> Some d))"

definition sysinv :: "(addr \<Rightarrow> pid_t) \<Rightarrow> sys \<Rightarrow> bool" where
  "sysinv cp \<sigma> \<longleftrightarrow>
     finite {t. threads \<sigma> t \<noteq> Idle} \<and> kinv (held_by (leaked \<sigma>) (threads \<sigma>)) (kern \<sigma>) \<and> files_inv (fds \<sigma>) (kern \<sigma>) \<and>
     channels_inv cp (kern \<sigma>) \<and> tasks_inv (threads \<sigma>) (kern \<sigma>) \<and>
     delivery_inv (threads \<sigma>) (kern \<sigma>) \<and> (\<forall>t. thread_ok cp \<sigma> t)"

end
