(* ===== verification/Protocol_Safety.thy ===== *)
theory Protocol_Safety
  imports Protocol
begin

text \<open>
  The invariant of the transition system is kept by every step, and every enabled step has a
  next state.
\<close>

section \<open>References held by threads\<close>

lemma held_finite: "finite {t. T t \<noteq> Idle} \<Longrightarrow> finite {t. channel_held (T t) = Some c}"
  by (rule finite_subset [of _ "{t. T t \<noteq> Idle}"]) auto

lemma held_take:
  assumes "finite {t. T t \<noteq> Idle}" and "channel_held (T t) = None" and "channel_held x = Some c"
  shows "held_by L (T(t := x)) = holding c (held_by L T)"
proof
  fix y
  have "{u. channel_held ((T(t := x)) u) = Some y} =
      (if y = c then insert t {u. channel_held (T u) = Some c} else {u. channel_held (T u) = Some y})"
    using assms(2,3) by auto
  then show "held_by L (T(t := x)) y = holding c (held_by L T) y"
    using held_finite [OF assms(1)] assms(2) by (auto simp: held_by_def holding_def)
qed

lemma held_same:
  assumes "channel_held x = channel_held (T t)"
  shows "held_by L (T(t := x)) = held_by L T"
  using assms by (auto simp: held_by_def fun_eq_iff intro!: arg_cong [where f = card])

lemma held_give:
  assumes "finite {t. T t \<noteq> Idle}" and "channel_held (T t) = Some c"
  shows "holding c (held_by L (T(t := Idle))) = held_by L T"
proof -
  have fin: "finite {u. (T(t := Idle)) u \<noteq> Idle}" by (rule finite_subset [OF _ assms(1)]) auto
  show ?thesis using held_take [of "T(t := Idle)" t "T t" c, OF fin] assms(2) by simp
qed

section \<open>Threads that a step does not concern\<close>

lemma thread_frame:
  assumes ok: "thread_ok cp \<sigma> u" and fr: "frame D (kern \<sigma>) (kern \<sigma>')" and th: "threads \<sigma>' u = threads \<sigma> u"
    and own: "\<And>d. sends (threads \<sigma> u) = Some d \<or> in_hand (threads \<sigma> u) = Some d \<Longrightarrow> d \<notin> D"
    and ent: "\<And>e pe pe'. procs (kern \<sigma>) e = Some pe \<Longrightarrow> procs (kern \<sigma>') e = Some pe' \<Longrightarrow>
      pid pe' = pid pe \<and> (e \<in> set (process_entries (kern \<sigma>)) \<longrightarrow> e \<in> set (process_entries (kern \<sigma>')))"
    and fil: "\<And>f b e. file_of (threads \<sigma> u) = Some f \<Longrightarrow> fds \<sigma> f = Some (b, e) \<Longrightarrow>
      fds \<sigma>' f = Some (b, e) \<and> procs (kern \<sigma>') e \<noteq> None"
    and del: "\<And>v d. in_hand (threads \<sigma> u) = Some d \<Longrightarrow> v \<noteq> u \<Longrightarrow> in_hand (threads \<sigma>' v) = Some d \<Longrightarrow>
      in_hand (threads \<sigma> v) = Some d"
    and tsk: "tasks_inv (threads \<sigma>') (kern \<sigma>')"
    and ghost: "\<And>c. channel_held (threads \<sigma> u) = Some c \<Longrightarrow> cp' c = cp c" and vec: "vecs \<sigma>' u = vecs \<sigma> u"
  shows "thread_ok cp' \<sigma>' u"
proof -
  have placed: "placed (kern \<sigma>') c d"
    if "placed (kern \<sigma>) c d" "d \<notin> D" "msgs (kern \<sigma>) d = Some m" "task m \<noteq> None" for c d m
  proof -
    note prem = that
    obtain m' where m': "msgs (kern \<sigma>') d = Some m'" "receiver_pid m' = receiver_pid m"
      using frameD(1) [OF fr prem(2-4)] by (auto simp: same_message_def)
    show ?thesis
      unfolding placed_def
    proof (intro conjI allI impI)
      fix x ch
      assume "chans (kern \<sigma>') x = Some ch \<and> d \<in> set (waiting ch)"
      then show "x = c" using frameD(4) [OF fr prem(2)] prem(1) unfolding placed_def by blast
    next
      fix e pe' m2
      assume a: "procs (kern \<sigma>') e = Some pe' \<and> d \<in> set (pending pe') \<and> msgs (kern \<sigma>') d = Some m2"
      then obtain pe where pe: "procs (kern \<sigma>) e = Some pe" "d \<in> set (pending pe)"
        using frameD(5) [OF fr prem(2)] by blast
      then have "e \<in> set (process_entries (kern \<sigma>))" "pid pe = receiver_pid m"
        using prem(1,3) unfolding placed_def by blast+
      then show "e \<in> set (process_entries (kern \<sigma>'))" "pid pe' = receiver_pid m2"
        using ent [OF pe(1)] a m' by auto
    qed
  qed
  show ?thesis
  proof (cases "threads \<sigma> u")
    case Idle
    then show ?thesis using th by (simp add: thread_ok_def Let_def)
  next
    case (Sending f c d)
    then have nd: "d \<notin> D" using own by simp
    obtain m where m: "fds \<sigma> f \<noteq> None" "placed (kern \<sigma>) c d" "msgs (kern \<sigma>) d = Some m" "task m = Some u"
      "running (kern \<sigma>) u \<longrightarrow> in_no_list d (kern \<sigma>) \<and> mstate m \<noteq> QNX_STATE_RECEIVING"
      "\<not> running (kern \<sigma>) u \<longrightarrow> \<not> in_no_list d (kern \<sigma>) \<or> mstate m = QNX_STATE_RECEIVING" "vec_ok (vecs \<sigma> u) (data m)"
      using ok Sending by (auto simp: thread_ok_def Let_def split: if_splits)
    obtain m' where m': "msgs (kern \<sigma>') d = Some m'" "same_message m m'" using frameD(1) [OF fr nd m(3)] m(4) by auto
    have "in_no_list d (kern \<sigma>') \<and> mstate m' \<noteq> QNX_STATE_RECEIVING" if r: "running (kern \<sigma>') u"
      using frameD(6) [OF fr r]
    proof
      assume "running (kern \<sigma>) u"
      then show ?thesis using m(5) m'(2) frame_unlisted [OF fr nd] by (auto simp: same_message_def)
    next
      assume "released (kern \<sigma>') u"
      then obtain d2 m2 where d2: "msgs (kern \<sigma>') d2 = Some m2" "task m2 = Some u" "in_no_list d2 (kern \<sigma>')"
        "mstate m2 \<noteq> QNX_STATE_RECEIVING" by (auto simp: released_def)
      then have "d2 = d" using tsk th Sending unfolding tasks_inv_def by fastforce
      then show ?thesis using d2 m'(1) by simp
    qed
    moreover have "\<not> in_no_list d (kern \<sigma>') \<or> mstate m' = QNX_STATE_RECEIVING" if r: "\<not> running (kern \<sigma>') u"
      using frameD(7) [OF fr nd m(3,4) r] m(6) m'(2) by (auto simp: same_message_def)
    moreover have "fds \<sigma>' f \<noteq> None" using m(1) fil Sending by force
    moreover have "placed (kern \<sigma>') c d" by (rule placed [OF m(2) nd m(3)]) (use m(4) in simp)
    ultimately show ?thesis using th Sending m' m(4,7) vec by (simp add: thread_ok_def Let_def same_message_def)
  next
    case (Spinning f c d rc)
    then have nd: "d \<notin> D" using own by simp
    obtain m where m: "fds \<sigma> f \<noteq> None" "placed (kern \<sigma>) c d" "msgs (kern \<sigma>) d = Some m" "task m = Some u"
      "\<forall>ch. chans (kern \<sigma>) c = Some ch \<longrightarrow> d \<notin> set (waiting ch)" "vec_ok (vecs \<sigma> u) (data m)"
      using ok Spinning by (auto simp: thread_ok_def Let_def)
    obtain m' where m': "msgs (kern \<sigma>') d = Some m'" "same_message m m'" using frameD(1) [OF fr nd m(3)] m(4) by auto
    have "fds \<sigma>' f \<noteq> None" using m(1) fil Spinning by force
    moreover have "placed (kern \<sigma>') c d" by (rule placed [OF m(2) nd m(3)]) (use m(4) in simp)
    moreover have "\<forall>ch. chans (kern \<sigma>') c = Some ch \<longrightarrow> d \<notin> set (waiting ch)" using frameD(4) [OF fr nd] m(5) by blast
    ultimately show ?thesis using th Spinning m' m(4,6) vec by (simp add: thread_ok_def Let_def same_message_def)
  next
    case (Waiting f c ua io)
    then obtain b e pe where w: "fds \<sigma> f = Some (b, e)" "procs (kern \<sigma>) e = Some pe" "cp c = pid pe"
      using ok by (auto simp: thread_ok_def Let_def)
    obtain pe' where "fds \<sigma>' f = Some (b, e)" "procs (kern \<sigma>') e = Some pe'" using fil [OF _ w(1)] Waiting by auto
    then show ?thesis using th Waiting w ent [OF w(2)] ghost [of c] by (auto simp: thread_ok_def Let_def)
  next
    case (Delivering f c d ua io wrc)
    then have nd: "d \<notin> D" using own by simp
    obtain b e pe m where w: "fds \<sigma> f = Some (b, e)" "procs (kern \<sigma>) e = Some pe" "msgs (kern \<sigma>) d = Some m"
      "in_no_list d (kern \<sigma>)" "mstate m = QNX_STATE_RECEIVING" "task m \<noteq> None \<longrightarrow> receiver_pid m = pid pe"
      "\<forall>v. v \<noteq> u \<longrightarrow> in_hand (threads \<sigma> v) \<noteq> Some d"
      using ok Delivering by (auto simp: thread_ok_def Let_def)
    obtain pe' where "fds \<sigma>' f = Some (b, e)" "procs (kern \<sigma>') e = Some pe'" using fil [OF _ w(1)] Delivering by auto
    moreover have "msgs (kern \<sigma>') d = Some m" "in_no_list d (kern \<sigma>')"
      using frameD(2) [OF fr nd w(4)] w(3) frame_unlisted [OF fr nd w(4)] by simp_all
    moreover have "\<forall>v. v \<noteq> u \<longrightarrow> in_hand (threads \<sigma>' v) \<noteq> Some d" using del w(7) Delivering by auto
    ultimately show ?thesis using th Delivering w(5,6) ent [OF w(2)] by (auto simp: thread_ok_def Let_def)
  next
    case (Queueing f c d slept)
    then have nd: "d \<notin> D" using own by simp
    obtain m where w: "fds \<sigma> f \<noteq> None" "msgs (kern \<sigma>) d = Some m" "in_no_list d (kern \<sigma>)" "mstate m = QNX_STATE_INITIAL"
      "task m = None" "\<forall>v. v \<noteq> u \<longrightarrow> in_hand (threads \<sigma> v) \<noteq> Some d"
      using ok Queueing by (auto simp: thread_ok_def Let_def)
    have "fds \<sigma>' f \<noteq> None" using w(1) fil Queueing by force
    moreover have "msgs (kern \<sigma>') d = Some m" "in_no_list d (kern \<sigma>')"
      using frameD(2) [OF fr nd w(3)] w(2) frame_unlisted [OF fr nd w(3)] by simp_all
    moreover have "\<forall>v. v \<noteq> u \<longrightarrow> in_hand (threads \<sigma>' v) \<noteq> Some d" using del w(6) Queueing by auto
    ultimately show ?thesis using th Queueing w(4,5) by (auto simp: thread_ok_def Let_def)
  qed
qed

section \<open>Keeping the invariant\<close>

lemma sysinvD:
  assumes "sysinv cp \<sigma>"
  shows "finite {t. threads \<sigma> t \<noteq> Idle}" and "kinv (held_by (leaked \<sigma>) (threads \<sigma>)) (kern \<sigma>)" and "files_inv (fds \<sigma>) (kern \<sigma>)"
    and "channels_inv cp (kern \<sigma>)" and "tasks_inv (threads \<sigma>) (kern \<sigma>)" and "thread_ok cp \<sigma> t"
    and "delivery_inv (threads \<sigma>) (kern \<sigma>)"
  using assms by (simp_all add: sysinv_def)

text \<open>
  A step of the threads in \<open>A\<close>, which run, with the messages \<open>D\<close>: what has to be shown is what
  becomes of these threads and messages.
\<close>

definition awake :: "tid set \<Rightarrow> kstate \<Rightarrow> kstate" where
  "awake A s = s\<lparr>running := (\<lambda>u. running s u \<or> u \<in> A)\<rparr>"

lemma awake_simps [simp]:
  "msgs (awake A s) = msgs s" "chans (awake A s) = chans s" "procs (awake A s) = procs s"
  "process_entries (awake A s) = process_entries s" "running (awake A s) u \<longleftrightarrow> running s u \<or> u \<in> A"
  "uaf (awake A s) = uaf s" "in_no_list d (awake A s) \<longleftrightarrow> in_no_list d s" "placed (awake A s) c d \<longleftrightarrow> placed s c d"
  by (simp_all add: awake_def in_no_list_def placed_def)

definition frame_but :: "tid set \<Rightarrow> addr set \<Rightarrow> kstate \<Rightarrow> kstate \<Rightarrow> bool" where
  "frame_but A D s s' \<longleftrightarrow> frame D s s' \<or> frame D (awake A s) s'"

lemma frame_awake: "frame D s s' \<Longrightarrow> frame_but A D s s'"
  by (simp add: frame_but_def)

lemma thread_ok_awake: "thread_ok cp \<sigma> u \<Longrightarrow> u \<notin> A \<Longrightarrow> thread_ok cp (\<sigma>\<lparr>kern := awake A (kern \<sigma>)\<rparr>) u"
  by (simp add: thread_ok_def Let_def cong: tstate.case_cong)

text \<open>
  What a step of the threads \<open>A\<close> leaves as it is for a sender that is not one of them: the contents
  of its message, and the whole message with the reply once the sender was woken.
\<close>

definition letter :: "qnx_internal_msgsend \<Rightarrow> tid option \<times> int \<times> pid_t \<times> pid_t \<times> payload" where
  "letter m = (task m, rcvid m, sender_pid m, receiver_pid m, data m)"

definition woken :: "sys \<Rightarrow> tid \<Rightarrow> bool" where
  "woken \<sigma> t \<longleftrightarrow> (case threads \<sigma> t of Sending f c d \<Rightarrow> running (kern \<sigma>) t | _ \<Rightarrow> False)"

definition kept :: "tid set \<Rightarrow> sys \<Rightarrow> sys \<Rightarrow> bool" where
  "kept A \<sigma> \<sigma>' \<longleftrightarrow>
     (\<forall>u d m. u \<notin> A \<and> sends (threads \<sigma> u) = Some d \<and> msgs (kern \<sigma>) d = Some m \<longrightarrow>
        threads \<sigma>' u = threads \<sigma> u \<and> vecs \<sigma>' u = vecs \<sigma> u \<and>
        (\<exists>m'. msgs (kern \<sigma>') d = Some m' \<and> letter m' = letter m) \<and>
        (woken \<sigma> u \<longrightarrow> woken \<sigma>' u \<and> msgs (kern \<sigma>') d = Some m))"

definition step_ok :: "(addr \<Rightarrow> pid_t) \<Rightarrow> tid set \<Rightarrow> sys \<Rightarrow> sys \<Rightarrow> bool" where
  "step_ok cp A \<sigma> \<sigma>' \<longleftrightarrow> sysinv cp \<sigma>' \<and> kept A \<sigma> \<sigma>' \<and> unlinks (kern \<sigma>) (kern \<sigma>')"

lemma step_okD: "step_ok cp A \<sigma> \<sigma>' \<Longrightarrow> sysinv cp \<sigma>'" "step_ok cp A \<sigma> \<sigma>' \<Longrightarrow> kept A \<sigma> \<sigma>'"
  "step_ok cp A \<sigma> \<sigma>' \<Longrightarrow> unlinks (kern \<sigma>) (kern \<sigma>')"
  by (simp_all add: step_ok_def)

lemma step_ok_refl: "sysinv cp \<sigma> \<Longrightarrow> step_ok cp A \<sigma> \<sigma>"
  by (simp add: step_ok_def kept_def unlinks_same)

lemma step_ok_mono: "step_ok cp A \<sigma> \<sigma>' \<Longrightarrow> A \<subseteq> B \<Longrightarrow> step_ok cp B \<sigma> \<sigma>'"
  unfolding step_ok_def kept_def by blast

lemma woken_vecs [simp]: "woken (\<sigma>\<lparr>vecs := v\<rparr>) t \<longleftrightarrow> woken \<sigma> t"
  by (simp add: woken_def cong: tstate.case_cong)

lemma not_woken:
  assumes "sysinv cp \<sigma>" and "sends (threads \<sigma> u) = Some d" and "msgs (kern \<sigma>) d = Some m"
    and "mstate m = QNX_STATE_RECEIVING \<or> \<not> in_no_list d (kern \<sigma>)"
  shows "\<not> woken \<sigma> u"
  using sysinvD(6) [OF assms(1), of u] assms(2-4) by (cases "threads \<sigma> u") (auto simp: thread_ok_def Let_def woken_def)

lemma step_ok_vecs: "step_ok cp {t} (\<sigma>\<lparr>vecs := (vecs \<sigma>)(t := v)\<rparr>) \<sigma>' \<longleftrightarrow> step_ok cp {t} \<sigma> \<sigma>'"
  by (simp add: step_ok_def kept_def cong: conj_cong)

lemma kept_frame:
  assumes inv: "sysinv cp \<sigma>" and fb: "frame_but A D (kern \<sigma>) (kern \<sigma>')"
    and th: "\<And>u. u \<notin> A \<Longrightarrow> threads \<sigma>' u = threads \<sigma> u" and vc: "\<And>u. u \<notin> A \<Longrightarrow> vecs \<sigma>' u = vecs \<sigma> u"
    and flight: "\<And>u d m. u \<notin> A \<Longrightarrow> d \<in> D \<Longrightarrow> sends (threads \<sigma> u) = Some d \<Longrightarrow> msgs (kern \<sigma>) d = Some m \<Longrightarrow>
      \<not> woken \<sigma> u \<and> (\<exists>m'. msgs (kern \<sigma>') d = Some m' \<and> letter m' = letter m)"
  shows "kept A \<sigma> \<sigma>'"
  unfolding kept_def
proof (intro allI impI; elim conjE)
  fix u d m
  assume u: "u \<notin> A" and d: "sends (threads \<sigma> u) = Some d" and m: "msgs (kern \<sigma>) d = Some m"
  have "(\<exists>m'. msgs (kern \<sigma>') d = Some m' \<and> letter m' = letter m) \<and> (woken \<sigma> u \<longrightarrow> woken \<sigma>' u \<and> msgs (kern \<sigma>') d = Some m)"
  proof (cases "d \<in> D")
    case True
    then show ?thesis using flight [OF u True d m] by simp
  next
    case False
    obtain s0 where fr: "frame D s0 (kern \<sigma>')" and s0: "s0 = kern \<sigma> \<or> s0 = awake A (kern \<sigma>)"
      using fb by (auto simp: frame_but_def)
    have same: "msgs s0 = msgs (kern \<sigma>)" "in_no_list d s0 \<longleftrightarrow> in_no_list d (kern \<sigma>)" "running (kern \<sigma>) u \<longrightarrow> running s0 u"
      using s0 by auto
    have tm: "task m = Some u" "woken \<sigma> u \<longrightarrow> running (kern \<sigma>) u \<and> in_no_list d (kern \<sigma>)"
      using sysinvD(6) [OF inv, of u] d m by (cases "threads \<sigma> u"; auto simp: thread_ok_def Let_def woken_def)+
    have "\<exists>m'. msgs (kern \<sigma>') d = Some m' \<and> letter m' = letter m"
      using frameD(1) [OF fr False, of m] m same(1) tm(1) by (auto simp: same_message_def letter_def)
    moreover have "msgs (kern \<sigma>') d = Some m \<and> running (kern \<sigma>') u" if "woken \<sigma> u"
      using frameD(2) [OF fr False] frameD(7) [OF fr False, of m u] m same tm that by auto
    ultimately show ?thesis using th [OF u] d by (cases "threads \<sigma> u") (auto simp: woken_def)
  qed
  then show "threads \<sigma>' u = threads \<sigma> u \<and> vecs \<sigma>' u = vecs \<sigma> u \<and>
      (\<exists>m'. msgs (kern \<sigma>') d = Some m' \<and> letter m' = letter m) \<and> (woken \<sigma> u \<longrightarrow> woken \<sigma>' u \<and> msgs (kern \<sigma>') d = Some m)"
    using th [OF u] vc [OF u] by simp
qed

lemma sysinv_step:
  assumes inv: "sysinv cp \<sigma>" and fb: "frame_but A D (kern \<sigma>) (kern \<sigma>')"
    and k: "kinv (held_by (leaked \<sigma>') (threads \<sigma>')) (kern \<sigma>')" and fin: "finite A" and fls: "files_inv (fds \<sigma>') (kern \<sigma>')"
    and th: "\<And>u. u \<notin> A \<Longrightarrow> threads \<sigma>' u = threads \<sigma> u" and vc: "\<And>u. u \<notin> A \<Longrightarrow> vecs \<sigma>' u = vecs \<sigma> u"
    and ent: "\<And>e pe pe'. procs (kern \<sigma>) e = Some pe \<Longrightarrow> procs (kern \<sigma>') e = Some pe' \<Longrightarrow>
      pid pe' = pid pe \<and> (e \<in> set (process_entries (kern \<sigma>)) \<longrightarrow> e \<in> set (process_entries (kern \<sigma>')))"
    and fil: "\<And>u f b e. u \<notin> A \<Longrightarrow> file_of (threads \<sigma> u) = Some f \<Longrightarrow> fds \<sigma> f = Some (b, e) \<Longrightarrow>
      fds \<sigma>' f = Some (b, e) \<and> procs (kern \<sigma>') e \<noteq> None"
    and ghost: "\<And>c. chans (kern \<sigma>) c \<noteq> None \<Longrightarrow> cp' c = cp c"
    and own: "\<And>x pe c. procs (kern \<sigma>') x = Some pe \<Longrightarrow> c \<in> set (channels pe) \<Longrightarrow> owns (kern \<sigma>) x c \<or> cp' c = pid pe"
    and acting: "\<And>u. u \<in> A \<Longrightarrow> thread_ok cp' \<sigma>' u"
    and touched: "\<And>u d. u \<notin> A \<Longrightarrow> d \<in> D \<Longrightarrow> sends (threads \<sigma> u) = Some d \<or> in_hand (threads \<sigma> u) = Some d \<Longrightarrow>
      thread_ok cp' \<sigma>' u"
    and tasks: "\<And>d m u. d \<in> D \<Longrightarrow> msgs (kern \<sigma>') d = Some m \<Longrightarrow> task m = Some u \<Longrightarrow> sends (threads \<sigma>' u) = Some d"
    and leaves: "\<And>u d. u \<in> A \<Longrightarrow> sends (threads \<sigma> u) = Some d \<Longrightarrow> d \<notin> D \<Longrightarrow> sends (threads \<sigma>' u) = Some d"
    and queued: "\<And>c ch d m. d \<in> D \<Longrightarrow> chans (kern \<sigma>') c = Some ch \<Longrightarrow> d \<in> set (waiting ch) \<Longrightarrow> msgs (kern \<sigma>') d = Some m \<Longrightarrow>
      task m \<noteq> None \<Longrightarrow> receiver_pid m = cp' c"
    and gives: "\<And>u d. u \<in> A \<Longrightarrow> in_hand (threads \<sigma> u) = Some d \<Longrightarrow> d \<notin> D \<Longrightarrow> in_hand (threads \<sigma>' u) = Some d"
    and receiving: "\<And>d m. d \<in> D \<Longrightarrow> msgs (kern \<sigma>') d = Some m \<Longrightarrow> task m \<noteq> None \<Longrightarrow> mstate m = QNX_STATE_RECEIVING \<Longrightarrow>
      \<exists>u. in_hand (threads \<sigma>' u) = Some d"
    and takes: "\<And>u v d. u \<in> A \<Longrightarrow> v \<notin> A \<Longrightarrow> in_hand (threads \<sigma>' u) = Some d \<Longrightarrow> in_hand (threads \<sigma> v) \<noteq> Some d"
    and flight: "\<And>u d m. u \<notin> A \<Longrightarrow> d \<in> D \<Longrightarrow> sends (threads \<sigma> u) = Some d \<Longrightarrow> msgs (kern \<sigma>) d = Some m \<Longrightarrow>
      \<not> woken \<sigma> u \<and> (\<exists>m'. msgs (kern \<sigma>') d = Some m' \<and> letter m' = letter m)"
  shows "step_ok cp' A \<sigma> \<sigma>'"
proof -
  obtain s0 where fr: "frame D s0 (kern \<sigma>')" and s0: "s0 = kern \<sigma> \<or> s0 = awake A (kern \<sigma>)"
    using fb by (auto simp: frame_but_def)
  have same: "msgs s0 = msgs (kern \<sigma>)" "chans s0 = chans (kern \<sigma>)" "procs s0 = procs (kern \<sigma>)"
    "process_entries s0 = process_entries (kern \<sigma>)" using s0 by auto
  note fD = frameD [OF fr, unfolded same(1-3)]
  have tsk: "tasks_inv (threads \<sigma>') (kern \<sigma>')"
    unfolding tasks_inv_def
  proof (intro allI impI)
    fix d m u
    assume a: "msgs (kern \<sigma>') d = Some m \<and> task m = Some u"
    show "sends (threads \<sigma>' u) = Some d"
    proof (cases "d \<in> D")
      case True
      then show ?thesis using tasks a by blast
    next
      case False
      then obtain m0 where "msgs (kern \<sigma>) d = Some m0" "task m0 = Some u" using fD(3) [OF False] a by fastforce
      then have "sends (threads \<sigma> u) = Some d" using sysinvD(5) [OF inv] by (auto simp: tasks_inv_def)
      then show ?thesis using th leaves False by (cases "u \<in> A") auto
    qed
  qed
  have dlv: "delivery_inv (threads \<sigma>') (kern \<sigma>')"
    unfolding delivery_inv_def
  proof (intro allI impI; elim conjE)
    fix d m'
    assume a: "msgs (kern \<sigma>') d = Some m'" "task m' \<noteq> None" "mstate m' = QNX_STATE_RECEIVING"
    show "\<exists>u. in_hand (threads \<sigma>' u) = Some d"
    proof (cases "d \<in> D")
      case True
      then show ?thesis using receiving a by blast
    next
      case False
      then obtain m where m: "msgs (kern \<sigma>) d = Some m" "task m \<noteq> None" using fD(3) [OF False a(1)] a(2) by auto
      then have "mstate m = QNX_STATE_RECEIVING" using fD(1) [OF False m] a(1,3) by (auto simp: same_message_def)
      then obtain u where "in_hand (threads \<sigma> u) = Some d" using sysinvD(7) [OF inv] m unfolding delivery_inv_def by blast
      then show ?thesis using gives th False by (cases "u \<in> A") metis+
    qed
  qed
  have alive: "chans (kern \<sigma>) c \<noteq> None" if "owns (kern \<sigma>) x c" for x c
    using that kinv_proc [OF sysinvD(2) [OF inv]] by (force simp: owns_def proc_inv_def)
  have "channels_inv cp' (kern \<sigma>')"
    unfolding channels_inv_def
  proof (intro conjI allI impI)
    fix x pe' c
    assume a: "procs (kern \<sigma>') x = Some pe' \<and> c \<in> set (channels pe')"
    show "cp' c = pid pe'"
    proof (cases "owns (kern \<sigma>) x c")
      case True
      then obtain pe where "procs (kern \<sigma>) x = Some pe" "cp c = pid pe"
        using sysinvD(4) [OF inv] by (auto simp: owns_def channels_inv_def)
      then show ?thesis using ghost [OF alive [OF True]] ent a by auto
    qed (use own a in blast)
  next
    fix c ch' d m'
    assume a: "chans (kern \<sigma>') c = Some ch' \<and> d \<in> set (waiting ch') \<and> msgs (kern \<sigma>') d = Some m' \<and> task m' \<noteq> None"
    show "receiver_pid m' = cp' c"
    proof (cases "d \<in> D")
      case True
      then show ?thesis using queued a by blast
    next
      case False
      then obtain ch m where "chans (kern \<sigma>) c = Some ch" "d \<in> set (waiting ch)" "msgs (kern \<sigma>) d = Some m"
        "task m' = task m" "receiver_pid m' = receiver_pid m"
        using fD(4) [OF False] fD(3) [OF False] a by metis
      then show ?thesis using sysinvD(4) [OF inv] a ghost [of c] by (auto simp: channels_inv_def)
    qed
  qed
  moreover have "thread_ok cp' \<sigma>' u" for u
  proof (cases "u \<in> A \<or> (\<exists>d \<in> D. sends (threads \<sigma> u) = Some d \<or> in_hand (threads \<sigma> u) = Some d)")
    case True
    then show ?thesis using acting touched by (cases "u \<in> A") auto
  next
    case False
    have gh: "cp' c = cp c" if "channel_held (threads \<sigma> u) = Some c" for c
    proof -
      have "0 < held_by (leaked \<sigma>) (threads \<sigma>) c"
        using that held_finite [OF sysinvD(1) [OF inv], of c] by (auto simp: held_by_def card_gt_0_iff)
      then show ?thesis using kinv_held [OF sysinvD(2) [OF inv]] ghost by fastforce
    qed
    have dl: "in_hand (threads \<sigma> v) = Some d"
      if "in_hand (threads \<sigma> u) = Some d" "v \<noteq> u" "in_hand (threads \<sigma>' v) = Some d" for v d
      using that False takes th by (cases "v \<in> A") auto
    have nA: "u \<notin> A" using False by simp
    have nD: "d \<notin> D" if "sends (threads \<sigma> u) = Some d \<or> in_hand (threads \<sigma> u) = Some d" for d using False that by blast
    let ?\<sigma> = "\<sigma>\<lparr>kern := s0\<rparr>"
    have proj: "threads ?\<sigma> = threads \<sigma>" "fds ?\<sigma> = fds \<sigma>" "kern ?\<sigma> = s0" "vecs ?\<sigma> = vecs \<sigma>" by simp_all
    have ok: "thread_ok cp ?\<sigma> u" using thread_ok_awake [OF sysinvD(6) [OF inv] nA] sysinvD(6) [OF inv] s0 by auto
    have fr': "frame D (kern ?\<sigma>) (kern \<sigma>')" and th': "threads \<sigma>' u = threads ?\<sigma> u" using fr th [OF nA] by simp_all
    show ?thesis
      by (rule thread_frame [OF ok fr' th' _ _ _ _ tsk]; unfold proj same)
        (erule nD, erule (1) ent, erule (1) fil [OF nA], erule (2) dl, erule gh, rule vc [OF nA])
  qed
  moreover have "finite {t. threads \<sigma>' t \<noteq> Idle}"
    by (rule finite_subset [of _ "A \<union> {t. threads \<sigma> t \<noteq> Idle}"]) (use th fin sysinvD(1) [OF inv] in \<open>auto\<close>)
  moreover have "kept A \<sigma> \<sigma>'" by (rule kept_frame [OF inv fb]) (rule th vc flight; assumption)+
  moreover have "unlinks (kern \<sigma>) (kern \<sigma>')" using frame_unlinks [OF fr] s0 by (auto simp: unlinks_def)
  ultimately show ?thesis using k fls tsk dlv by (simp add: step_ok_def sysinv_def)
qed

text \<open>The files without entry are of no account.\<close>

lemma step_ok_nulls [simp]: "step_ok cp A \<sigma> (\<sigma>'\<lparr>nulls := N\<rparr>) \<longleftrightarrow> step_ok cp A \<sigma> \<sigma>'"
  by (simp add: step_ok_def kept_def sysinv_def thread_ok_def woken_def Let_def cong: tstate.case_cong)

text \<open>Steps that open and close nothing.\<close>

lemma open_file:
  assumes "sysinv cp \<sigma>" and "fds \<sigma> f = Some (b, e)"
  obtains pe where "procs (kern \<sigma>) e = Some pe" and "e \<in> set (process_entries (kern \<sigma>))"
proof -
  have "entry_of (kern \<sigma>) e \<noteq> None" using sysinvD(3) [OF assms(1)] assms(2) by (auto simp: files_inv_def)
  then obtain pe where "procs (kern \<sigma>) e = Some pe" by (auto simp: entry_of_def)
  then show thesis using that sysinvD(3) [OF assms(1)] by (auto simp: files_inv_def entry_of_def)
qed

lemma files_inv_same: "same_entries s s' \<Longrightarrow> files_inv fs s \<Longrightarrow> files_inv fs s'"
  by (simp add: files_inv_def same_entries_def)

lemma same_files:
  assumes "sysinv cp \<sigma>" and "same_entries (kern \<sigma>) (kern \<sigma>')" and "fds \<sigma>' = fds \<sigma>"
  shows "files_inv (fds \<sigma>') (kern \<sigma>')"
    and "procs (kern \<sigma>) e = Some pe \<Longrightarrow> procs (kern \<sigma>') e = Some pe' \<Longrightarrow>
      pid pe' = pid pe \<and> (e \<in> set (process_entries (kern \<sigma>)) \<longrightarrow> e \<in> set (process_entries (kern \<sigma>')))"
    and "fds \<sigma> f = Some (b, e') \<Longrightarrow> fds \<sigma>' f = Some (b, e') \<and> procs (kern \<sigma>') e' \<noteq> None"
proof -
  show "files_inv (fds \<sigma>') (kern \<sigma>')" using files_inv_same [OF assms(2) sysinvD(3) [OF assms(1)]] assms(3) by simp
  show "pid pe' = pid pe \<and> (e \<in> set (process_entries (kern \<sigma>)) \<longrightarrow> e \<in> set (process_entries (kern \<sigma>')))"
    if "procs (kern \<sigma>) e = Some pe" "procs (kern \<sigma>') e = Some pe'"
    using same_entriesD [OF assms(2) that(1)] that(2) assms(2) by (auto simp: same_entries_def)
  show "fds \<sigma>' f = Some (b, e') \<and> procs (kern \<sigma>') e' \<noteq> None" if "fds \<sigma> f = Some (b, e')"
    using open_file [OF assms(1) that] same_entriesD [OF assms(2)] that assms(3) by (metis option.simps(3))
qed

section \<open>Calls that do not sleep\<close>

lemma no_write_effect:
  "\<exists>rc s'. r = Some (rc, s') \<and> kinv H s' \<and> call_effect e s s' \<Longrightarrow>
    \<exists>rc ws s'. no_write r = Some (rc, ws, s') \<and> kinv H s' \<and> call_effect e s s'"
  by (auto simp: no_write_def)

lemma ioctl_effect:
  assumes "kenv_ok env" and "kinv H s" and "procs s e = Some pe" and "gbl_next_channel_id s < 2 ^ 31 - 1"
    and "sleeps cmd \<Longrightarrow> arg = 0 \<or> p \<noteq> pid pe" and "\<And>pl. read_pulse ua arg = Some pl \<Longrightarrow> int_range (mp_coid pl)"
    and "\<And>io. read_read ua arg = Some io \<Longrightarrow> int_range (rd_offset io)"
  shows "\<exists>rc ws s'. qnxcomm_ioctl env ua sc t p f (Some e) cmd arg s = Some (rc, ws, s') \<and> kinv H s' \<and> call_effect e s s'"
proof (cases "arg = 0 \<or> p \<noteq> pid pe")
  case True
  then show ?thesis using assms(2,3) by (auto simp: qnxcomm_ioctl_def)
next
  case False
  have wrap: "int_range (wrap32 x)" for x by (simp add: int_range_def wrap32_def)
  have "\<exists>rc ws s'. ioctl_dispatch env ua sc t f e cmd arg s = Some (rc, ws, s') \<and> kinv H s' \<and> call_effect e s s'"
  proof (cases cmd)
    case QNX_IO_MSGREAD
    show ?thesis
    proof (cases "read_read ua arg")
      case (Some io)
      then obtain r where "handle_msgread env e io s = Some r" using msgread_total [OF assms(2,3)] assms(7) by blast
      then show ?thesis using QNX_IO_MSGREAD Some assms(2) by (cases r) (simp add: ioctl_dispatch_def)
    qed (use QNX_IO_MSGREAD assms(2) in \<open>simp add: ioctl_dispatch_def\<close>)
  qed (use assms(5) False effect_add_channel [OF assms(2-4)] effect_remove_channel [OF assms(2,3)] effect_connections [OF assms(2,3)]
      effect_add_pollfd [OF assms(2,3)] effect_reply [OF assms(1-3)] effect_error [OF assms(2,3)] effect_pulse [OF assms(2,3)]
      assms(2,6) wrap in \<open>auto simp: ioctl_dispatch_def sleeps_def split: option.splits intro!: no_write_effect\<close>)
  then show ?thesis using False assms(3) by (simp add: qnxcomm_ioctl_def)
qed

end
