(* ===== verification/Protocol_Steps.thy ===== *)
theory Protocol_Steps
  imports Protocol_Safety
begin

text \<open>
  The steps of threads: each of them, taken in a state that satisfies the invariant, has a next
  state that satisfies it again.
\<close>

lemma kern_set_thread [simp]:
  "kern (set_thread t x s \<sigma>) = s" "threads (set_thread t x s \<sigma>) = (threads \<sigma>)(t := x)" "fds (set_thread t x s \<sigma>) = fds \<sigma>"
  "leaked (set_thread t x s \<sigma>) = leaked \<sigma>" "vecs (set_thread t x s \<sigma>) = vecs \<sigma>"
  by (simp_all add: set_thread_def)

lemma sender_delivers_nothing: "sends x = Some d \<Longrightarrow> in_hand x = None"
  by (cases x) simp_all

text \<open>A step of one thread that opens and closes nothing.\<close>

lemma thread_step:
  assumes inv: "sysinv cp \<sigma>" and fr: "frame_but {t} D (kern \<sigma>) s'" and ent: "same_entries (kern \<sigma>) s'" and own: "owns s' = owns (kern \<sigma>)"
    and k: "kinv (held_by (leaked \<sigma>) ((threads \<sigma>)(t := x))) s'" and acting: "thread_ok cp (set_thread t x s' \<sigma>) t"
    and touched: "\<And>u d. u \<noteq> t \<Longrightarrow> d \<in> D \<Longrightarrow> sends (threads \<sigma> u) = Some d \<or> in_hand (threads \<sigma> u) = Some d \<Longrightarrow>
      thread_ok cp (set_thread t x s' \<sigma>) u"
    and tasks: "\<And>d m u. d \<in> D \<Longrightarrow> msgs s' d = Some m \<Longrightarrow> task m = Some u \<Longrightarrow> sends (((threads \<sigma>)(t := x)) u) = Some d"
    and leaves: "\<And>d. sends (threads \<sigma> t) = Some d \<Longrightarrow> d \<notin> D \<Longrightarrow> sends x = Some d"
    and queued: "\<And>c ch d m. d \<in> D \<Longrightarrow> chans s' c = Some ch \<Longrightarrow> d \<in> set (waiting ch) \<Longrightarrow> msgs s' d = Some m \<Longrightarrow>
      task m \<noteq> None \<Longrightarrow> receiver_pid m = cp c"
    and gives: "\<And>d. in_hand (threads \<sigma> t) = Some d \<Longrightarrow> d \<notin> D \<Longrightarrow> in_hand x = Some d"
    and receiving: "\<And>d m. d \<in> D \<Longrightarrow> msgs s' d = Some m \<Longrightarrow> task m \<noteq> None \<Longrightarrow> mstate m = QNX_STATE_RECEIVING \<Longrightarrow>
      in_hand x = Some d"
    and takes: "\<And>v d. v \<noteq> t \<Longrightarrow> in_hand x = Some d \<Longrightarrow> in_hand (threads \<sigma> v) \<noteq> Some d"
    and flight: "\<And>u d m. u \<noteq> t \<Longrightarrow> d \<in> D \<Longrightarrow> sends (threads \<sigma> u) = Some d \<Longrightarrow> msgs (kern \<sigma>) d = Some m \<Longrightarrow>
      \<not> woken \<sigma> u \<and> (\<exists>m'. msgs s' d = Some m' \<and> letter m' = letter m)"
  shows "step_ok cp {t} \<sigma> (set_thread t x s' \<sigma>)"
proof -
  let ?\<sigma> = "set_thread t x s' \<sigma>"
  have same: "same_entries (kern \<sigma>) (kern ?\<sigma>)" "fds ?\<sigma> = fds \<sigma>" using ent by simp_all
  show ?thesis
  proof (rule sysinv_step [OF inv, where D = D and A = "{t}"])
    show "fds ?\<sigma> f = Some (b, e) \<and> procs (kern ?\<sigma>) e \<noteq> None" if "fds \<sigma> f = Some (b, e)" for f b e
      by (rule same_files(3) [OF inv same that])
    show "files_inv (fds ?\<sigma>) (kern ?\<sigma>)" by (rule same_files(1) [OF inv same])
    show "pid pe' = pid pe \<and> (e \<in> set (process_entries (kern \<sigma>)) \<longrightarrow> e \<in> set (process_entries (kern ?\<sigma>)))"
      if "procs (kern \<sigma>) e = Some pe" "procs (kern ?\<sigma>) e = Some pe'" for e pe pe'
      by (rule same_files(2) [OF inv same that])
    show "owns (kern \<sigma>) y c \<or> cp c = pid pe" if "procs (kern ?\<sigma>) y = Some pe" "c \<in> set (channels pe)" for y pe c
      using own that by (auto simp: owns_def fun_eq_iff)
  qed (use fr k acting touched tasks leaves queued gives receiving takes flight in auto)
qed

text \<open>A step that leaves the thread idle and the messages alone.\<close>

lemma idle_step:
  assumes "sysinv cp \<sigma>" and "threads \<sigma> t = Idle" and "quiet_effect {} (kern \<sigma>) s'" and "kinv (held_by (leaked \<sigma>) (threads \<sigma>)) s'"
  shows "step_ok cp {t} \<sigma> (\<sigma>\<lparr>kern := s'\<rparr>)"
proof -
  have "set_thread t Idle s' \<sigma> = \<sigma>\<lparr>kern := s'\<rparr>" using assms(2) by (simp add: set_thread_def fun_upd_idem)
  moreover have "step_ok cp {t} \<sigma> (set_thread t Idle s' \<sigma>)"
    by (rule thread_step [OF assms(1), where D = "{}"])
      (use assms(2-4) in \<open>auto simp: quiet_effect_def fun_upd_idem thread_ok_def intro: frame_awake\<close>)
  ultimately show ?thesis by simp
qed

text \<open>A call that is over and may have leaked references, but did nothing else that others see.\<close>

lemma leaking_step:
  assumes inv: "sysinv cp \<sigma>" and q: "quiet_effect {} (kern \<sigma>) s'" and k: "kinv (held_by L (threads \<sigma>)) s'"
  shows "step_ok cp {} \<sigma> (\<sigma>\<lparr>kern := s', leaked := L\<rparr>)"
proof -
  let ?\<sigma> = "\<sigma>\<lparr>kern := s', leaked := L\<rparr>"
  have same: "same_entries (kern \<sigma>) (kern ?\<sigma>)" "fds ?\<sigma> = fds \<sigma>" using q by (simp_all add: quiet_effect_def)
  show ?thesis
  proof (rule sysinv_step [OF inv, where D = "{}" and A = "{}"])
    show "fds ?\<sigma> f = Some (b, e) \<and> procs (kern ?\<sigma>) e \<noteq> None" if "fds \<sigma> f = Some (b, e)" for f b e
      by (rule same_files(3) [OF inv same that])
    show "files_inv (fds ?\<sigma>) (kern ?\<sigma>)" by (rule same_files(1) [OF inv same])
    show "pid pe' = pid pe \<and> (e \<in> set (process_entries (kern \<sigma>)) \<longrightarrow> e \<in> set (process_entries (kern ?\<sigma>)))"
      if "procs (kern \<sigma>) e = Some pe" "procs (kern ?\<sigma>) e = Some pe'" for e pe pe'
      by (rule same_files(2) [OF inv same that])
    show "owns (kern \<sigma>) y c \<or> cp c = pid pe" if "procs (kern ?\<sigma>) y = Some pe" "c \<in> set (channels pe)" for y pe c
      using q that by (auto simp: quiet_effect_def owns_def fun_eq_iff)
  qed (use q k in \<open>auto simp: quiet_effect_def intro: frame_awake\<close>)
qed

lemma leaks_hold: "chans s c = Some ch \<Longrightarrow> held_by (leaks s (hold c s) L) T = holding c (held_by L T)"
  by (auto simp: held_by_def leaks_def holding_def ref_count_def hold_def store_chan_def)

section \<open>Senders\<close>

text \<open>The reply vector of a thread that is in no call is of no account.\<close>

lemma sysinv_vecs:
  assumes "sysinv cp \<sigma>" and "threads \<sigma> t = Idle"
  shows "sysinv cp (\<sigma>\<lparr>vecs := (vecs \<sigma>)(t := v)\<rparr>)"
proof -
  have "thread_ok cp (\<sigma>\<lparr>vecs := (vecs \<sigma>)(t := v)\<rparr>) u" for u
    using sysinvD(6) [OF assms(1), of u] assms(2)
    by (cases "u = t") (simp_all add: thread_ok_def Let_def cong: tstate.case_cong)
  then show ?thesis using assms(1) by (simp add: sysinv_def)
qed

lemma no_message: "sysinv cp \<sigma> \<Longrightarrow> threads \<sigma> t = Idle \<Longrightarrow> msgs (kern \<sigma>) x = Some m \<Longrightarrow> task m \<noteq> Some t"
  using sysinvD(5) unfolding tasks_inv_def by (metis option.simps(3) sends.simps(3))

lemma sent_step:
  assumes inv: "sysinv cp \<sigma>" and idle: "threads \<sigma> t = Idle" and f: "fds \<sigma> f = Some (b, e)"
    and sent: "sent_effect t c d pl (kern \<sigma>) s'" and k: "kinv (holding c (held_by (leaked \<sigma>) (threads \<sigma>))) s'" and v: "vec_ok v pl"
  shows "step_ok cp {t} \<sigma> (set_thread t (Sending f c d) s' (\<sigma>\<lparr>vecs := (vecs \<sigma>)(t := v)\<rparr>))"
proof -
  let ?x = "Sending f c d" and ?\<sigma> = "\<sigma>\<lparr>vecs := (vecs \<sigma>)(t := v)\<rparr>" and ?s = "kern \<sigma>"
  have inv': "sysinv cp ?\<sigma>" by (rule sysinv_vecs [OF inv idle])
  have k': "kinv (held_by (leaked ?\<sigma>) ((threads ?\<sigma>)(t := ?x))) s'"
    using k held_take [OF sysinvD(1) [OF inv], of t ?x c] idle by simp
  obtain m q qe where m: "msgs s' d = Some m" "task m = Some t" "mstate m = QNX_STATE_INITIAL" "data m = pl" "procs ?s q = Some qe"
    "owns ?s q c" "receiver_pid m = pid qe" and at: "\<And>x ch. chans s' x = Some ch \<Longrightarrow> d \<in> set (waiting ch) \<Longrightarrow> x = c"
    using sent by (auto simp: sent_effect_def)
  have cp: "receiver_pid m = cp c"
    using sysinvD(4) [OF inv] m(5-7) by (auto simp: channels_inv_def owns_def)
  have "d \<notin> set (pending px)" if "procs s' y = Some px" for y px
    using kinv_pending_msg [OF k' that, of d] m(1,3) by auto
  then have place: "placed s' c d" using at by (auto simp: placed_def)
  have new: "sends (threads \<sigma> u) \<noteq> Some d \<and> in_hand (threads \<sigma> u) \<noteq> Some d" for u
    using sysinvD(6) [OF inv, of u] sent by (cases "threads \<sigma> u") (auto simp: thread_ok_def Let_def sent_effect_def)
  have "step_ok cp {t} ?\<sigma> (set_thread t ?x s' ?\<sigma>)"
    by (rule thread_step [OF inv', where D = "{d}"])
      (use sent k' new place m(1,2,4) cp at f idle v in \<open>auto simp: sent_effect_def thread_ok_def Let_def intro: frame_awake\<close>)
  then show ?thesis by (simp add: step_ok_vecs)
qed

lemma send_step:
  assumes inv: "sysinv cp \<sigma>" and en: "enabled (Send env io t f) \<sigma>"
  shows "\<exists>r \<sigma>'. perform (Send env io t f) \<sigma> = Some (r, \<sigma>') \<and> step_ok cp {t} \<sigma> \<sigma>'"
proof -
  let ?s = "kern \<sigma>"
  obtain b e where f: "fds \<sigma> f = Some (b, e)" and idle: "threads \<sigma> t = Idle" using en by auto
  obtain pe where pe: "procs ?s e = Some pe" by (rule open_file [OF inv f])
  obtain r s' where r: "handle_msgsend_enter env (Some io) t e ?s = Some (r, s')"
    "case r of Finished rc \<Rightarrow> kinv (held_by (leaked \<sigma>) (threads \<sigma>)) s' \<and> quiet_effect {} ?s s'
     | Blocked c d \<Rightarrow> kinv (holding c (held_by (leaked \<sigma>) (threads \<sigma>))) s' \<and> (\<exists>pl. sent_effect t c d pl ?s s')"
    using send_effect [of env _ ?s e pe io t, OF _ sysinvD(2) [OF inv] pe] en no_message [OF inv idle] by auto
  show ?thesis
  proof (cases r)
    case (Finished rc)
    then show ?thesis using r f idle_step [OF inv idle, of s'] by simp
  next
    case (Blocked c d)
    then obtain pl where "sent_effect t c d pl ?s s'" using r(2) by auto
    then have "step_ok cp {t} \<sigma> (set_thread t (Sending f c d) s' (\<sigma>\<lparr>vecs := (vecs \<sigma>)(t := None)\<rparr>))"
      using r(2) Blocked by (intro sent_step [OF inv idle f]) (simp_all add: vec_ok_def)
    then show ?thesis using r(1) f Blocked by simp
  qed
qed

text \<open>A call that returns after it took a reference and gave none back.\<close>

lemma leaks_failed:
  assumes "chans s c = Some ch" and "same_but_ids (hold c s) s'" and "kinv (holding c (held_by L T)) s'"
  shows "kinv (held_by (leaks s s' L) T) s'" and "quiet_effect {} s s'"
proof -
  have "leaks s s' L = leaks s (hold c s) L" using same_but_ids_frame(2) [OF assms(2)] by (simp add: leaks_def ref_count_def)
  then show "kinv (held_by (leaks s s' L) T) s'" using assms(3) leaks_hold [OF assms(1)] by simp
  show "quiet_effect {} s s'"
    by (rule quiet_effect_trans [OF quiet_hold [OF assms(1)] quiet_same_but_ids [OF assms(2)]])
qed

lemma leaks_same: "chans s' = chans s \<Longrightarrow> leaks s s' L = L"
  by (simp add: leaks_def ref_count_def)

lemma sendv_step:
  assumes inv: "sysinv cp \<sigma>" and en: "enabled (Sendv env v t f) \<sigma>"
  shows "\<exists>r \<sigma>'. perform (Sendv env v t f) \<sigma> = Some (r, \<sigma>') \<and> step_ok cp {t} \<sigma> \<sigma>'"
proof -
  let ?s = "kern \<sigma>" and ?H = "held_by (leaked \<sigma>) (threads \<sigma>)"
  obtain b e where f: "fds \<sigma> f = Some (b, e)" and idle: "threads \<sigma> t = Idle" using en by auto
  obtain pe where pe: "procs ?s e = Some pe" by (rule open_file [OF inv f])
  obtain r outs s' where r: "handle_msgsendv_enter env (Some v) t e ?s = Some (r, outs, s')"
    "case r of
       Finished rc \<Rightarrow> s' = ?s \<and> kinv ?H s' \<or> (\<exists>c ch. chans ?s c = Some ch \<and> same_but_ids (hold c ?s) s' \<and> kinv (holding c ?H) s')
     | Blocked c d \<Rightarrow> kinv (holding c ?H) s' \<and> (\<exists>pl. sent_effect t c d pl ?s s' \<and> out_fits outs pl)"
    using sendv_effect [of env _ ?s e pe v t, OF _ sysinvD(2) [OF inv] pe] en no_message [OF inv idle] by auto
  show ?thesis
  proof (cases r)
    case (Finished rc)
    then have "quiet_effect {} ?s s' \<and> kinv (held_by (leaks ?s s' (leaked \<sigma>)) (threads \<sigma>)) s'"
      using r(2) leaks_failed [of ?s _ _ s'] leaks_same [of s' ?s] by auto
    then show ?thesis using step_ok_mono [OF leaking_step [OF inv]] r(1) f Finished by simp
  next
    case (Blocked c d)
    then obtain pl where "sent_effect t c d pl ?s s'" "out_fits outs pl" using r(2) by auto
    then have "step_ok cp {t} \<sigma> (set_thread t (Sending f c d) s' (\<sigma>\<lparr>vecs := (vecs \<sigma>)(t \<mapsto> outs)\<rparr>))"
      using r(2) Blocked by (intro sent_step [OF inv idle f]) (simp_all add: vec_ok_def)
    then show ?thesis using r(1) f Blocked by simp
  qed
qed

lemma finish_send_ok:
  assumes "kinv H s" and "msgs s d = Some m" and "in_no_list d s" and "vec_ok v (data m)"
  shows "\<exists>rc' ws. finish_send env v rc d s = Some (rc', ws, s\<lparr>msgs := (msgs s)(d := None)\<rparr>) \<and>
    kinv H (s\<lparr>msgs := (msgs s)(d := None)\<rparr>)"
  using msgsend_exit_ok [OF assms(1-3)] msgsendv_exit_ok [OF assms(1-3)] assms(4)
  by (cases v) (simp_all add: finish_send_def vec_ok_def)

text \<open>A message that is being delivered keeps its sender in the call.\<close>

lemma block_pending_not_receiving:
  "msgs s d = Some m \<Longrightarrow> block_pending rc c d s = Some (Returns r, s') \<Longrightarrow> mstate m \<noteq> QNX_STATE_RECEIVING"
  by (auto simp: block_pending_def)

lemma block_exit_not_receiving:
  assumes "kinv (holding c H) s" and "msgs s d = Some m" and "task m = Some t"
    and "block_exit ms sg c d s = Some (Returns r, s')" and "timed_out ms m \<or> sg"
  shows "mstate m \<noteq> QNX_STATE_RECEIVING"
proof -
  obtain ch where ch: "chans s c = Some ch" using kinv_held [OF assms(1), of c] by auto
  have tm: "task m \<noteq> None" using assms(3) by simp
  show ?thesis
    using assms(1) ch assms(2) tm
  proof (cases rule: kinv_remove_message)
    case (removed ch')
    then show ?thesis using kinv_waiting_msg [OF assms(1) ch, of d] assms(2) by auto
  next
    case gone
    then have "block_pending (if timed_out ms m then - ETIMEDOUT else - ERESTARTSYS) c d s = Some (Returns r, s')"
      using assms(2,4,5) by (auto simp: block_exit_def timed_out_def Let_def)
    then show ?thesis by (rule block_pending_not_receiving [OF assms(2)])
  qed
qed

text \<open>The end of the frame of a call, after the message was taken off all lists.\<close>

lemma frame_end:
  assumes fs: "frame {d} s s1" and m: "msgs s1 d = Some m" "task m = Some t"
    and own: "\<And>x mx. msgs s x = Some mx \<Longrightarrow> task mx = Some t \<Longrightarrow> x = d"
  shows "frame_but {t} {d} s (s1\<lparr>msgs := (msgs s1)(d := None)\<rparr>)" (is "frame_but _ _ _ ?s'")
proof -
  have rel: "released ?s' u" if u: "released s1 u" "u \<noteq> t" for u
  proof -
    obtain y my where y: "msgs s1 y = Some my" "task my = Some u" "in_no_list y s1" "mstate my \<noteq> QNX_STATE_RECEIVING"
      using u(1) by (auto simp: released_def)
    then have "y \<noteq> d" using m u(2) by auto
    then show ?thesis unfolding released_def using y by (intro exI [of _ y] exI [of _ my]) (simp add: in_no_list_def)
  qed
  have "frame {d} (awake {t} s) ?s'"
  proof (rule frameI_touched)
    show "touches {d} (awake {t} s) ?s'"
      using frameD(9) [OF fs] by (auto simp: touches_def)
    show "running (awake {t} s) u \<or> released ?s' u" if "running ?s' u" for u
      using frameD(6) [OF fs, of u] that rel [of u] by (cases "u = t") auto
    show "\<not> running (awake {t} s) u \<and> (in_no_list x ?s' \<longrightarrow> in_no_list x (awake {t} s))"
      if x: "x \<notin> {d}" "msgs (awake {t} s) x = Some mx" "task mx = Some u" "\<not> running ?s' u" for x mx u
    proof -
      have "u \<noteq> t" using own x(1-3) by auto
      moreover have "msgs s x = Some mx" "\<not> running s1 u" using x(2,4) by simp_all
      note frameD(7) [OF fs x(1) this(1) x(3) this(2)]
      moreover have "in_no_list x ?s' \<longleftrightarrow> in_no_list x s1" by (simp add: in_no_list_def)
      ultimately show ?thesis by simp
    qed
    show "\<exists>m'. msgs ?s' x = Some m' \<and> same_message mx m'"
      if "x \<notin> {d}" "msgs (awake {t} s) x = Some mx" "task mx \<noteq> None" for x mx using frameD(1) [OF fs, of x mx] that by simp
    show "msgs ?s' x = msgs (awake {t} s) x" if "x \<notin> {d}" "in_no_list x (awake {t} s)" for x
      using frameD(2) [OF fs, of x] that by simp
    show "\<exists>m. msgs (awake {t} s) x = Some m \<and> task mx = task m \<and> receiver_pid mx = receiver_pid m"
      if "x \<notin> {d}" "msgs ?s' x = Some mx" for x mx using frameD(3) [OF fs, of x mx] that by simp
  qed (use frameD(4,5) [OF fs] in simp_all)
  then show ?thesis by (simp add: frame_but_def)
qed

text \<open>What a sender that left the sleep or the loop knows.\<close>

lemma sender_returns:
  assumes inv: "sysinv cp \<sigma>" and th: "sends (threads \<sigma> t) = Some d" "channel_held (threads \<sigma> t) = Some c"
    and m: "msgs (kern \<sigma>) d = Some m" "task m = Some t" "mstate m \<noteq> QNX_STATE_RECEIVING"
    and s: "quiet_effect {d} (kern \<sigma>) s" "kinv (held_by (leaked \<sigma>) ((threads \<sigma>)(t := Idle))) s" "in_no_list d s" "msgs s d = Some m"
    and v: "vec_ok (vecs \<sigma> t) (data m)"
  shows "\<exists>r \<sigma>'. resume env t f c d (Some (Returns rc, s)) \<sigma> = Some (r, \<sigma>') \<and> step_ok cp {t} \<sigma> \<sigma>'"
proof -
  let ?s' = "s\<lparr>msgs := (msgs s)(d := None)\<rparr>"
  obtain rc' ws where x: "finish_send env (vecs \<sigma> t) rc d s = Some (rc', ws, ?s')" and k: "kinv (held_by (leaked \<sigma>) ((threads \<sigma>)(t := Idle))) ?s'"
    using finish_send_ok [OF s(2,4,3) v] by blast
  have own: "x = d" if "msgs (kern \<sigma>) x = Some mx" "task mx = Some t" for x mx
    using sysinvD(5) [OF inv] th(1) that unfolding tasks_inv_def by (metis option.inject)
  have "frame {d} (kern \<sigma>) s" using s(1) by (simp add: quiet_effect_def)
  then have fr: "frame_but {t} {d} (kern \<sigma>) ?s'" by (rule frame_end [OF _ s(4) m(2) own])
  have others: "sends (threads \<sigma> u) \<noteq> Some d \<and> in_hand (threads \<sigma> u) \<noteq> Some d" if "u \<noteq> t" for u
    using sysinvD(6) [OF inv, of u] m that by (cases "threads \<sigma> u") (auto simp: thread_ok_def Let_def)
  have "step_ok cp {t} \<sigma> (set_thread t Idle ?s' \<sigma>)"
    by (rule thread_step [OF inv fr])
      (use s(1) k others th(1) sender_delivers_nothing [OF th(1)] in \<open>auto simp: quiet_effect_def same_entries_def entry_of_def owns_def fun_eq_iff thread_ok_def\<close>)
  then show ?thesis using x by (simp add: resume_def)
qed

lemma sender_spins:
  assumes inv: "sysinv cp \<sigma>" and th: "sends (threads \<sigma> t) = Some d" "channel_held (threads \<sigma> t) = Some c" "file_of (threads \<sigma> t) = Some f"
    and out: "\<And>ch. chans (kern \<sigma>) c = Some ch \<Longrightarrow> d \<notin> set (waiting ch)"
  shows "\<exists>r \<sigma>'. resume env t f c d (Some (Spins rc, kern \<sigma>)) \<sigma> = Some (r, \<sigma>') \<and> step_ok cp {t} \<sigma> \<sigma>'"
proof -
  let ?x = "Spinning f c d rc"
  have ok: "fds \<sigma> f \<noteq> None \<and> placed (kern \<sigma>) c d \<and> (\<exists>m. msgs (kern \<sigma>) d = Some m \<and> task m = Some t \<and> vec_ok (vecs \<sigma> t) (data m))"
    using sysinvD(6) [OF inv, of t] th by (cases "threads \<sigma> t") (auto simp: thread_ok_def Let_def)
  have held: "held_by (leaked \<sigma>) ((threads \<sigma>)(t := ?x)) = held_by (leaked \<sigma>) (threads \<sigma>)" by (rule held_same) (simp add: th(2))
  have "step_ok cp {t} \<sigma> (set_thread t ?x (kern \<sigma>) \<sigma>)"
    by (rule thread_step [OF inv, where D = "{}"])
      (use th(1) sender_delivers_nothing [OF th(1)] ok out held sysinvD(2) [OF inv] in \<open>auto simp: thread_ok_def Let_def frame_same_lists intro: frame_awake\<close>)
  then show ?thesis by (simp add: resume_def)
qed

lemma wake_step:
  assumes inv: "sysinv cp \<sigma>" and en: "enabled (Wake env ms sg t) \<sigma>"
  shows "\<exists>r \<sigma>'. perform (Wake env ms sg t) \<sigma> = Some (r, \<sigma>') \<and> step_ok cp {t} \<sigma> \<sigma>'"
proof -
  let ?s = "kern \<sigma>" and ?H = "held_by (leaked \<sigma>) ((threads \<sigma>)(t := Idle))"
  have k: "kinv (holding c ?H) ?s" if "channel_held (threads \<sigma> t) = Some c" for c
    using held_give [OF sysinvD(1) [OF inv] that] sysinvD(2) [OF inv] by simp
  show ?thesis
  proof (cases "threads \<sigma> t")
    case (Sending f c d)
    obtain m where m: "placed ?s c d" "msgs ?s d = Some m" "task m = Some t"
      "running ?s t \<longrightarrow> in_no_list d ?s \<and> mstate m \<noteq> QNX_STATE_RECEIVING" "vec_ok (vecs \<sigma> t) (data m)"
      using sysinvD(6) [OF inv, of t] Sending by (auto simp: thread_ok_def Let_def)
    have kc: "kinv (holding c ?H) ?s" using k Sending by simp
    have woken: "\<not> timed_out ms m \<and> \<not> sg \<longrightarrow> in_no_list d ?s" using en Sending m(2,4) by auto
    show ?thesis
      using kc m(2,3,1) woken
    proof (cases rule: block_exit_ok)
      case (spins s' rc)
      note same = block_exit_spins [OF kc m(2,3) spins(1)]
      show ?thesis using sender_spins [OF inv _ _ _ same(2), where t = t and f = f and rc = rc and env = env] spins(1) same(1) Sending by simp
    next
      case (returns s' r)
      have "mstate m \<noteq> QNX_STATE_RECEIVING"
        using block_exit_not_receiving [OF kc m(2,3) returns(1)] en Sending m(2,4) by auto
      then show ?thesis
        using sender_returns [OF inv _ _ m(2,3) _ block_exit_quiet [OF kc m(2,3,1) returns(1)] returns(2-4) m(5), of c env f r] returns(1) Sending
        by simp
    qed
  next
    case (Spinning f c d rc)
    obtain m where m: "placed ?s c d" "msgs ?s d = Some m" "task m = Some t" "\<And>ch. chans ?s c = Some ch \<Longrightarrow> d \<notin> set (waiting ch)"
      "vec_ok (vecs \<sigma> t) (data m)"
      using sysinvD(6) [OF inv, of t] Spinning by (auto simp: thread_ok_def Let_def)
    have kc: "kinv (holding c ?H) ?s" using k Spinning by simp
    show ?thesis
    proof (rule block_pending_ok [OF kc m(2,3,1,4), of rc])
      assume "block_pending rc c d ?s = Some (Spins rc, ?s)"
      then show ?thesis using sender_spins [OF inv _ _ _ m(4), where t = t and f = f and rc = rc and env = env] Spinning by simp
    next
      fix r s'
      assume p: "block_pending rc c d ?s = Some (Returns r, s')" "kinv ?H s'" "in_no_list d s'" "msgs s' d = Some m"
      show ?thesis
        using sender_returns [OF inv _ _ m(2,3) block_pending_not_receiving [OF m(2) p(1)]
            block_pending_quiet [OF kc m(2,3,1) p(1)] p(2-4) m(5), of c env f r] p(1) Spinning by simp
    qed
  qed (use en in simp_all)
qed

section \<open>Calls that do not sleep\<close>

lemma file_call_step:
  assumes inv: "sysinv cp \<sigma>" and en: "enabled (Call env ua sc t p f cmd arg) \<sigma>" and f: "fds \<sigma> f = Some (b, e)"
  shows "\<exists>cp' r \<sigma>'. perform (Call env ua sc t p f cmd arg) \<sigma> = Some (r, \<sigma>') \<and> step_ok cp' {t} \<sigma> \<sigma>'"
proof -
  let ?s = "kern \<sigma>"
  obtain pe where pe: "procs ?s e = Some pe" by (rule open_file [OF inv f])
  obtain rc ws s' where r: "qnxcomm_ioctl env ua sc t p f (Some e) cmd arg ?s = Some (rc, ws, s')"
    "kinv (held_by (leaked \<sigma>) (threads \<sigma>)) s'" "call_effect e ?s s'"
    using ioctl_effect [of env _ ?s e pe cmd arg p ua sc t f, OF _ sysinvD(2) [OF inv] pe] en f pe by (auto simp: refused_def)
  obtain D where D: "frame D ?s s'" "\<And>d. d \<in> D \<Longrightarrow> answered ?s s' d \<or> msgs ?s d = None \<and> (\<forall>m. msgs s' d = Some m \<longrightarrow> task m = None)"
    and ent: "same_entries ?s s'" and own: "\<And>x c. owns s' x c \<Longrightarrow> owns ?s x c \<or> x = e \<and> chans ?s c = None"
    using r(3) unfolding call_effect_def by blast
  define cp' where "cp' = (\<lambda>c. if chans ?s c = None then pid pe else cp c)"
  let ?\<sigma> = "\<sigma>\<lparr>kern := s'\<rparr>"
  have same: "same_entries (kern \<sigma>) (kern ?\<sigma>)" "fds ?\<sigma> = fds \<sigma>" using ent by simp_all
  have touched: "thread_ok cp' ?\<sigma> u" if "d \<in> D" "sends (threads \<sigma> u) = Some d \<or> in_hand (threads \<sigma> u) = Some d" for u d
  proof -
    have ok: "thread_ok cp \<sigma> u" by (rule sysinvD(6) [OF inv])
    then have "msgs ?s d \<noteq> None" using that(2) by (cases "threads \<sigma> u") (auto simp: thread_ok_def Let_def)
    then have a: "answered ?s s' d" using D(2) [OF that(1)] by auto
    then have "in_no_list d s'" by (auto simp: answered_def)
    then show ?thesis
      using ok a that(2) placed_nowhere [of d s'] by (cases "threads \<sigma> u") (auto simp: thread_ok_def Let_def answered_def in_no_list_def)
  qed
  have "step_ok cp' {} \<sigma> ?\<sigma>"
  proof (rule sysinv_step [OF inv, where D = D and A = "{}"])
    show "fds ?\<sigma> g = Some (b', x) \<and> procs (kern ?\<sigma>) x \<noteq> None" if "fds \<sigma> g = Some (b', x)" for g b' x
      by (rule same_files(3) [OF inv same that])
    show "files_inv (fds ?\<sigma>) (kern ?\<sigma>)" by (rule same_files(1) [OF inv same])
    show "pid pe2 = pid pe1 \<and> (x \<in> set (process_entries (kern \<sigma>)) \<longrightarrow> x \<in> set (process_entries (kern ?\<sigma>)))"
      if "procs (kern \<sigma>) x = Some pe1" "procs (kern ?\<sigma>) x = Some pe2" for x pe1 pe2
      by (rule same_files(2) [OF inv same that])
    show "owns ?s x c \<or> cp' c = pid pe2" if "procs (kern ?\<sigma>) x = Some pe2" "c \<in> set (channels pe2)" for x pe2 c
      using own [of x c] that same_entriesD [OF ent pe] by (auto simp: owns_def cp'_def)
    show "sends (threads ?\<sigma> u) = Some d" if "d \<in> D" "msgs (kern ?\<sigma>) d = Some m" "task m = Some u" for d m u
      using D(2) [OF that(1)] that(2,3) sysinvD(5) [OF inv] by (auto simp: answered_def tasks_inv_def)
    show "receiver_pid m = cp' c"
      if "d \<in> D" "chans (kern ?\<sigma>) c = Some ch" "d \<in> set (waiting ch)" "msgs (kern ?\<sigma>) d = Some m" "task m \<noteq> None" for c ch d m
      using D(2) [OF that(1)] that(2-5) by (auto simp: answered_def in_no_list_def)
    show "\<exists>u. in_hand (threads ?\<sigma> u) = Some d"
      if "d \<in> D" "msgs (kern ?\<sigma>) d = Some m" "task m \<noteq> None" "mstate m = QNX_STATE_RECEIVING" for d m
      using D(2) [OF that(1)] that(2-4) by (auto simp: answered_def)
    show "\<not> woken \<sigma> u \<and> (\<exists>m'. msgs (kern ?\<sigma>) d = Some m' \<and> letter m' = letter m)"
      if "d \<in> D" "sends (threads \<sigma> u) = Some d" "msgs ?s d = Some m" for u d m
      using not_woken [OF inv that(2,3)] D(2) [OF that(1)] that(3) by (auto simp: answered_def letter_def)
  qed (use r(2) touched frame_awake [OF D(1)] in \<open>auto simp: cp'_def\<close>)
  then show ?thesis using r(1) private_data_simps(1) [OF f] step_ok_mono [of cp' "{}" \<sigma> _ "{t}"] by auto
qed

text \<open>A call on a file without entry is refused.\<close>

lemma call_step:
  assumes inv: "sysinv cp \<sigma>" and en: "enabled (Call env ua sc t p f cmd arg) \<sigma>"
  shows "\<exists>cp' r \<sigma>'. perform (Call env ua sc t p f cmd arg) \<sigma> = Some (r, \<sigma>') \<and> step_ok cp' {t} \<sigma> \<sigma>'"
proof (cases "fds \<sigma> f")
  case None
  then have "private_data \<sigma> f = Some (False, None)" using en by (simp add: private_data_simps(2))
  then show ?thesis using step_ok_refl [OF inv] by (auto simp: qnxcomm_ioctl_def)
next
  case (Some x)
  then show ?thesis using file_call_step [OF inv en] by (cases x) simp
qed

section \<open>Receivers\<close>

lemma recv_step:
  assumes inv: "sysinv cp \<sigma>" and en: "enabled (Recv ua io t f) \<sigma>"
  shows "\<exists>r \<sigma>'. perform (Recv ua io t f) \<sigma> = Some (r, \<sigma>') \<and> step_ok cp {t} \<sigma> \<sigma>'"
proof -
  let ?s = "kern \<sigma>"
  obtain b e where f: "fds \<sigma> f = Some (b, e)" and idle: "threads \<sigma> t = Idle" using en by auto
  obtain pe where pe: "procs ?s e = Some pe" by (rule open_file [OF inv f])
  show ?thesis
    using sysinvD(2) [OF inv] pe
  proof (cases rule: receive_enter_ok [where io = "Some io"])
    case (refused rc)
    then show ?thesis using f step_ok_refl [OF inv] by simp
  next
    case (waits c r)
    let ?x = "Waiting f c ua io"
    obtain ch where "chans ?s c = Some ch" and own: "owns ?s e c" using waits(3) by (auto simp: channel_of_def owns_def)
    then have fr: "frame {} ?s (hold c ?s)" using frame_hold by blast
    have cp: "cp c = pid pe" using sysinvD(4) [OF inv] own pe by (auto simp: channels_inv_def owns_def)
    have k: "kinv (held_by (leaked \<sigma>) ((threads \<sigma>)(t := ?x))) (hold c ?s)"
      using waits(4) held_take [OF sysinvD(1) [OF inv], of t ?x c] idle by simp
    have "step_ok cp {t} \<sigma> (set_thread t ?x (hold c ?s) \<sigma>)"
      by (rule thread_step [OF inv frame_awake [OF fr]])
        (use k idle f pe cp in \<open>auto simp: thread_ok_def Let_def owns_def fun_eq_iff\<close>)
    then show ?thesis using waits(2) f by simp
  qed
qed

lemma take_step:
  assumes inv: "sysinv cp \<sigma>" and en: "enabled (Take left t) \<sigma>"
  shows "\<exists>r \<sigma>'. perform (Take left t) \<sigma> = Some (r, \<sigma>') \<and> step_ok cp {t} \<sigma> \<sigma>'"
proof -
  let ?s = "kern \<sigma>" and ?H = "held_by (leaked \<sigma>) ((threads \<sigma>)(t := Idle))"
  obtain f c ua io where th: "threads \<sigma> t = Waiting f c ua io" using en by (auto split: tstate.splits)
  have kc: "kinv (holding c ?H) ?s" using held_give [OF sysinvD(1) [OF inv], of t c] sysinvD(2) [OF inv] th by simp
  obtain b e pe where w: "fds \<sigma> f = Some (b, e)" "procs ?s e = Some pe" "cp c = pid pe"
    using sysinvD(6) [OF inv, of t] th by (auto simp: thread_ok_def Let_def)
  obtain r s' where r: "handle_msgreceive_take (receive_rc left) c ?s = Some (r, s')" "kinv (holding c ?H) s'"
    "case r of Inl rc \<Rightarrow> s' = ?s | Inr d \<Rightarrow> taken_effect c d ?s s'"
    using take_effect [OF kc, of "receive_rc left"] by auto
  show ?thesis
  proof (cases r)
    case (Inl rc)
    show ?thesis
    proof (rule kinv_put_back [OF kc])
      fix s1
      assume s1: "qnx_channel_release c ?s = Some s1" "kinv ?H s1"
      have "step_ok cp {t} \<sigma> (set_thread t Idle s1 \<sigma>)"
        by (rule thread_step [OF inv, where D = "{}"])
          (use quiet_release [OF kc s1(1)] s1(2) th in \<open>auto simp: quiet_effect_def thread_ok_def intro: frame_awake\<close>)
      then show ?thesis using th r Inl s1(1) by simp
    qed
  next
    case (Inr d)
    let ?x = "Delivering f c d ua io (receive_rc left)"
    have taken: "frame {d} ?s s'" "same_entries ?s s'" "owns s' = owns ?s" "running s' = running ?s" "in_no_list d s'"
      using r(3) Inr by (simp_all add: taken_effect_def)
    obtain m ch where m: "msgs ?s d = Some m" "chans ?s c = Some ch" "d \<in> set (waiting ch)"
      "msgs s' d = Some (m\<lparr>mstate := QNX_STATE_RECEIVING\<rparr>)" using r(3) Inr by (auto simp: taken_effect_def)
    have fresh: "in_hand (threads \<sigma> u) \<noteq> Some d" for u
      using sysinvD(6) [OF inv, of u] m(2,3) by (cases "threads \<sigma> u") (auto simp: thread_ok_def Let_def in_no_list_def)
    have k: "kinv (held_by (leaked \<sigma>) ((threads \<sigma>)(t := ?x))) s'"
      using r(2) held_give [OF sysinvD(1) [OF inv], of t c] held_same [of ?x "threads \<sigma>" t] th by simp
    obtain pe' where pe': "procs s' e = Some pe'" "pid pe' = pid pe" using same_entriesD [OF taken(2) w(2)] by blast
    have for_us: "task m \<noteq> None \<longrightarrow> receiver_pid m = pid pe"
      using sysinvD(4) [OF inv] m(1-3) w(3) by (auto simp: channels_inv_def)
    have sender: "thread_ok cp (set_thread t ?x s' \<sigma>) u" if "u \<noteq> t" "sends (threads \<sigma> u) = Some d" for u
      using sysinvD(6) [OF inv, of u] that m placed_nowhere [OF taken(5)] taken(4,5)
      by (cases "threads \<sigma> u") (auto simp: thread_ok_def Let_def in_no_list_def placed_def)
    have "step_ok cp {t} \<sigma> (set_thread t ?x s' \<sigma>)"
    proof (rule thread_step [OF inv frame_awake [OF taken(1)] taken(2,3) k])
      show "thread_ok cp (set_thread t ?x s' \<sigma>) t"
        using w(1) pe' m(4) taken(5) for_us fresh by (auto simp: thread_ok_def Let_def)
      show "sends (((threads \<sigma>)(t := ?x)) u) = Some y"
        if "y \<in> {d}" "msgs s' y = Some my" "task my = Some u" for y my u
        using that m(1,4) sysinvD(5) [OF inv] th by (cases "u = t") (fastforce simp: tasks_inv_def)+
      show "\<not> woken \<sigma> u \<and> (\<exists>m'. msgs s' y = Some m' \<and> letter m' = letter my)"
        if "y \<in> {d}" "sends (threads \<sigma> u) = Some y" "msgs ?s y = Some my" for u y my
        using not_woken [OF inv that(2,3)] that m by (auto simp: letter_def in_no_list_def)
    qed (use sender fresh th taken(5) in \<open>auto simp: in_no_list_def\<close>)
    then show ?thesis using th r(1) Inr by simp
  qed
qed

lemma deliver_step:
  assumes inv: "sysinv cp \<sigma>" and en: "enabled (Deliver env t) \<sigma>"
  shows "\<exists>r \<sigma>'. perform (Deliver env t) \<sigma> = Some (r, \<sigma>') \<and> step_ok cp {t} \<sigma> \<sigma>'"
proof -
  let ?s = "kern \<sigma>" and ?H = "held_by (leaked \<sigma>) ((threads \<sigma>)(t := Idle))"
  obtain f c d ua io wrc where th: "threads \<sigma> t = Delivering f c d ua io wrc" using en by (auto split: tstate.splits)
  have kc: "kinv (holding c ?H) ?s" using held_give [OF sysinvD(1) [OF inv], of t c] sysinvD(2) [OF inv] th by simp
  obtain b e pe m where w: "fds \<sigma> f = Some (b, e)" "procs ?s e = Some pe" "msgs ?s d = Some m" "in_no_list d ?s"
    "mstate m = QNX_STATE_RECEIVING" "task m \<noteq> None \<longrightarrow> receiver_pid m = pid pe"
    and alone: "\<And>u. u \<noteq> t \<Longrightarrow> in_hand (threads \<sigma> u) \<noteq> Some d"
    using sysinvD(6) [OF inv, of t] th by (auto simp: thread_ok_def Let_def)
  have listed: "e \<in> set (process_entries ?s)" by (rule open_file [OF inv w(1)])
  obtain rc ws s' where r: "handle_msgreceive_finish env ua io wrc e c d ?s = Some (rc, ws, s')" "kinv ?H s'" "delivered_effect e d ?s s'"
    using deliver_effect [OF kc w(2-4)] by blast
  have eff: "frame {d} ?s s'" "same_entries ?s s'" "owns s' = owns ?s" using r(3) by (simp_all add: delivered_effect_def)
  have old: "task my = Some u \<Longrightarrow> sends (threads \<sigma> u) = Some y" if "msgs s' y = Some my" for y my u
  proof -
    assume u: "task my = Some u"
    have "\<exists>m0. msgs ?s y = Some m0 \<and> task m0 = Some u"
    proof (cases "y = d")
      case True
      then show ?thesis using r(3) w(3) that u by (auto simp: delivered_effect_def split: if_splits)
    next
      case False
      then show ?thesis using frameD(3) [OF eff(1) _ that] u by auto
    qed
    then show ?thesis using sysinvD(5) [OF inv] by (auto simp: tasks_inv_def)
  qed
  have sender: "thread_ok cp (set_thread t Idle s' \<sigma>) u" if "u \<noteq> t" "sends (threads \<sigma> u) = Some d" for u
  proof -
    have tm: "task m = Some u" "\<not> (case threads \<sigma> u of Sending f c d \<Rightarrow> running ?s u | _ \<Rightarrow> False)"
      using sysinvD(6) [OF inv, of u] that w(3,5) by (cases "threads \<sigma> u"; force simp: thread_ok_def Let_def)+
    obtain m' where m': "msgs s' d = Some m'" "task m' = Some u" "data m' = data m" "receiver_pid m' = pid pe" "mstate m' \<noteq> QNX_STATE_RECEIVING"
      "\<And>x ch. chans s' x = Some ch \<Longrightarrow> d \<notin> set (waiting ch)" "\<And>x px. procs s' x = Some px \<Longrightarrow> d \<in> set (pending px) \<Longrightarrow> x = e"
      "in_no_list d s' \<longrightarrow> running s' u"
      using r(3) w(3,6) tm(1) by (auto simp: delivered_effect_def)
    have place: "placed s' x d" for x
      using m' listed eff(2) same_entriesD [OF eff(2) w(2)] by (auto simp: placed_def same_entries_def)
    have "in_no_list d s'" if run: "running s' u" "\<not> running ?s u"
    proof -
      obtain y my where y: "msgs s' y = Some my" "task my = Some u" "in_no_list y s'"
        using frameD(6) [OF eff(1) run(1)] run(2) by (auto simp: released_def)
      then show ?thesis using old [OF y(1,2)] \<open>sends (threads \<sigma> u) = Some d\<close> by simp
    qed
    then show ?thesis
      using sysinvD(6) [OF inv, of u] that m' place tm(2) w(3) by (cases "threads \<sigma> u") (auto simp: thread_ok_def Let_def)
  qed
  have "step_ok cp {t} \<sigma> (set_thread t Idle s' \<sigma>)"
  proof (rule thread_step [OF inv frame_awake [OF eff(1)] eff(2,3) r(2)])
    show "sends (((threads \<sigma>)(t := Idle)) u) = Some y" if "y \<in> {d}" "msgs s' y = Some my" "task my = Some u" for y my u
      using old [OF that(2,3)] th by (cases "u = t") simp_all
    show "receiver_pid my = cp x"
      if "y \<in> {d}" "chans s' x = Some ch" "y \<in> set (waiting ch)" "msgs s' y = Some my" "task my \<noteq> None" for x ch y my
      using that r(3) w(3) by (auto simp: delivered_effect_def split: if_splits)
    show "in_hand Idle = Some y"
      if "y \<in> {d}" "msgs s' y = Some my" "task my \<noteq> None" "mstate my = QNX_STATE_RECEIVING" for y my
      using that r(3) w(3) by (auto simp: delivered_effect_def split: if_splits)
    show "\<not> woken \<sigma> u \<and> (\<exists>m'. msgs s' y = Some m' \<and> letter m' = letter my)"
      if "y \<in> {d}" "sends (threads \<sigma> u) = Some y" "msgs ?s y = Some my" for u y my
      using not_woken [OF inv that(2,3)] that w(3,5) r(3) sysinvD(6) [OF inv, of u]
      by (cases "threads \<sigma> u") (auto simp: delivered_effect_def letter_def thread_ok_def Let_def)
  qed (use sender alone th in \<open>auto simp: thread_ok_def\<close>)
  then show ?thesis using th w(1) r(1) by simp
qed

end
