(* ===== verification/Protocol_Oneway.thy ===== *)
theory Protocol_Oneway
  imports Protocol_Steps
begin

text \<open>
  The steps of senders without reply: they build their message, which nobody else knows until it
  is queued, and try to queue it until there is room or they get a signal.
\<close>

section \<open>Building the message\<close>

definition built_effect :: "addr \<Rightarrow> kstate \<Rightarrow> kstate \<Rightarrow> bool" where
  "built_effect d s s' \<longleftrightarrow>
     quiet_effect {d} s s' \<and> msgs s d = None \<and> in_no_list d s' \<and>
     (\<exists>m. msgs s' d = Some m \<and> mstate m = QNX_STATE_INITIAL \<and> task m = None)"

lemma built_after: "quiet_effect {} s s1 \<Longrightarrow> running s1 = running s \<Longrightarrow> msgs s1 = msgs s \<Longrightarrow> uaf s1 = uaf s \<Longrightarrow> built_effect d s1 s' \<Longrightarrow> built_effect d s s'"
  unfolding built_effect_def quiet_effect_def
  using frame_trans [OF frame_mono [of "{}" s s1 "{d}"], of "{d}" s'] same_entries_trans by auto

lemma posted_effect:
  assumes "kinv H s" and "newest m s" and "task m = None"
  shows "kinv H (post m s)" and "built_effect (next_addr s) s (post m s)"
proof -
  note po = kinv_post [OF assms(1,2)]
  show "kinv H (post m s)" by (rule po(1))
  have none: "msgs s (next_addr s) = None" using kinvD(7) [OF assms(1)] by (simp add: fresh_inv_def)
  moreover have "frame {next_addr s} s (post m s)" by (rule frameI) (use none in \<open>auto simp: post_def in_no_list_def\<close>)
  ultimately show "built_effect (next_addr s) s (post m s)"
    using po(2,3) assms(2,3)
    by (auto simp: built_effect_def quiet_effect_def newest_def same_entries_def entry_of_def owns_def fun_eq_iff post_def)
qed

text \<open>What the part before the loop leads to.\<close>

definition started_ok :: "held \<Rightarrow> (tid \<Rightarrow> tstate) \<Rightarrow> kstate \<Rightarrow> (enter_result \<times> kstate) option \<Rightarrow> bool" where
  "started_ok L T s r \<longleftrightarrow>
     (case r of
        None \<Rightarrow> False
      | Some (Finished rc, s') \<Rightarrow> kinv (held_by (leaks s s' L) T) s' \<and> quiet_effect {} s s'
      | Some (Blocked c d, s') \<Rightarrow> kinv (holding c (held_by L T)) s' \<and> built_effect d s s')"

lemma no_reply_started:
  assumes "kenv_ok env" and "kinv (held_by L T) s" and "procs s e = Some pe" and "gbl_next_rcvid s < 2 ^ 31 - 1"
    and "int_range (ms_coid io)" and "iov_len (ms_in io) < 2 ^ 64 - sizeof_msgsend"
  shows "started_ok L T s (handle_msgsend_no_reply_enter env (Some io) e s) \<and>
    (\<forall>rc s'. handle_msgsend_no_reply_enter env (Some io) e s = Some (Finished rc, s') \<longrightarrow> chans s' = chans s)"
proof -
  have r0: "0 \<le> gbl_next_rcvid s" using kinvD(6) [OF assms(2)] by (simp add: msgs_inv_def)
  obtain rc mo s1 where i: "qnx_internal_msgsend_init_noreply env (Some io) (pid pe) s = Some (rc, mo, s1)"
    and ok: "new_message_ok None (pid pe) s rc mo s1"
    using init_noreply_ok [OF assms(1) r0 assms(4)] assms(6) by blast
  have ids: "same_but_ids s s1" using ok by (simp add: new_message_ok_def)
  note same = same_but_ids_frame [OF ids]
  note q1 = quiet_same_but_ids [OF ids]
  show ?thesis
  proof (cases mo)
    case None
    then have "kinv (held_by L T) s1" using ok kinv_same_but_ids [OF assms(2), of s1] by (simp add: new_message_ok_def)
    then show ?thesis using i None assms(3) q1 leaks_same [OF same(2), of L] same(2) by (simp add: handle_msgsend_no_reply_enter_def started_ok_def)
  next
    case (Some m)
    note new = newest_of_constructor [OF assms(2) ok [unfolded Some]]
    have m: "km_coid (data_msg (data m)) = ms_coid io" "task m = None"
      using i Some by (auto simp: qnx_internal_msgsend_init_noreply_def fresh_msgsend_def Let_def case_prod_beta
          split: option.splits if_splits)
    have pe: "procs s1 e = Some pe" using assms(3) same(3) by simp
    show ?thesis
      using new(2) pe assms(5)
    proof (cases rule: kinv_route)
      case (routed cn c ch)
      let ?m = "m\<lparr>receiver_pid := conn_pid cn\<rparr>" and ?s = "hold c s1"
      have nm: "newest ?m ?s" "task ?m = None" using new(1) m(2) by simp_all
      note po = posted_effect [OF routed(5) nm]
      have "built_effect (next_addr ?s) s (post ?m ?s)"
        by (rule built_after [OF quiet_effect_trans [OF q1 quiet_hold [OF routed(4)]] _ _ _ po(2)]) (use same in simp_all)
      then show ?thesis
        using i Some assms(3) routed(1-3) m(1) po(1)
        by (simp add: handle_msgsend_no_reply_enter_def started_ok_def Let_def alloc_def post_def)
    qed (use i Some assms(3) new(2) q1 m(1) leaks_same [OF same(2), of L] same(2) in \<open>auto simp: handle_msgsend_no_reply_enter_def started_ok_def\<close>)
  qed
qed

text \<open>The vector call keeps its reference to the channel when the message cannot be built.\<close>

lemma noreplyv_started:
  assumes "kenv_ok env" and "kinv (held_by L T) s" and "procs s e = Some pe" and "gbl_next_rcvid s < 2 ^ 31 - 1"
    and "qnx_max_noreply_msg_size s < 2 ^ 32" and "int_range (msv_coid v)" and "int_range (msv_in_len v)"
    and "uninit_rc env \<noteq> 0" and "0 \<le> msv_in_len v"
  shows "started_ok L T s (handle_msgsend_noreplyv_enter env (Some v) e s)"
proof -
  have r0: "0 \<le> gbl_next_rcvid s" using kinvD(6) [OF assms(2)] by (simp add: msgs_inv_def)
  let ?nomem = "msv_in_len v > QNX_MAX_IOVEC_LEN \<and> \<not> kmalloc env A_iov_in (vector_bytes (msv_in_len v))"
  obtain ins where ins: "fetch_vector env (msv_in v) (msv_in_len v) = Some ins"
    using fetch_vector_ok [OF assms(1), of "msv_in_len v" "msv_in v"] assms(7,9) by auto
  show ?thesis
  proof (cases "?nomem \<or> ins = None")
    case True
    then show ?thesis
      using assms(2) ins by (auto simp: handle_msgsend_noreplyv_enter_def started_ok_def leaks_same)
  next
    case False
    then obtain ivs where vs: "ins = Some ivs" by auto
    show ?thesis
      using assms(2,3,6)
    proof (cases rule: kinv_route)
      case (routed cn c ch)
      let ?s = "hold c s"
      have sz: "qnx_max_noreply_msg_size ?s < 2 ^ 32" using assms(5) by (simp add: hold_def store_chan_def)
      obtain rc mo s2 where i: "qnx_internal_msgsend_init_noreplyv env v ivs (pid pe) ?s = Some (rc, mo, s2)"
        "new_message_ok None (pid pe) ?s rc mo s2 \<or> rc = uninit_rc env \<and> mo = None \<and> s2 = ?s"
        using init_noreplyv_ok [OF assms(1), of ?s] r0 assms(4) sz by fastforce
      show ?thesis
      proof (cases mo)
        case None
        have ids: "same_but_ids ?s s2" using i(2) by (auto simp: new_message_ok_def same_but_ids_def)
        have k2: "kinv (holding c (held_by L T)) s2"
          using i(2) kinv_same_but_ids [OF routed(5), of s2] routed(5) None by (auto simp: new_message_ok_def)
        have "rc \<noteq> 0" using i(2) None assms(8) by (auto simp: new_message_ok_def)
        then have "handle_msgsend_noreplyv_enter env (Some v) e s = Some (Finished rc, s2)"
          using False ins vs routed(1-3) assms(3) i(1) None by (auto simp: handle_msgsend_noreplyv_enter_def)
        then show ?thesis using leaks_failed [OF routed(4) ids k2] by (simp add: started_ok_def)
      next
        case (Some m)
        with i(2) have ok: "new_message_ok None (pid pe) ?s rc (Some m) s2" by simp
        note new = newest_of_constructor [OF routed(5) ok]
        note same = same_but_ids_frame [OF new(3)]
        let ?m = "m\<lparr>receiver_pid := conn_pid cn\<rparr>"
        have "task ?m = None" using ok by (simp add: new_message_ok_def)
        note po = posted_effect [OF new(2) new(1) [of "conn_pid cn"] this]
        have "built_effect (next_addr s2) s (post ?m s2)"
          by (rule built_after [OF quiet_effect_trans [OF quiet_hold [OF routed(4)] quiet_same_but_ids [OF new(3)]] _ _ _ po(2)])
            (use same in simp_all)
        moreover have "handle_msgsend_noreplyv_enter env (Some v) e s = Some (Blocked c (next_addr s2), post ?m s2)"
          using False ins vs routed(1-3) assms(3) i(1) Some
          by (auto simp: handle_msgsend_noreplyv_enter_def Let_def alloc_def post_def)
        ultimately show ?thesis using po(1) by (simp add: started_ok_def)
      qed
    qed (use False ins vs assms(2) in \<open>auto simp: handle_msgsend_noreplyv_enter_def started_ok_def leaks_same\<close>)
  qed
qed

lemma started_step:
  assumes inv: "sysinv cp \<sigma>" and f: "fds \<sigma> f = Some (b, e)" and idle: "threads \<sigma> t = Idle"
    and r: "started_ok (leaked \<sigma>) (threads \<sigma>) (kern \<sigma>) r"
  shows "\<exists>x \<sigma>'. started t f v r \<sigma> = Some (x, \<sigma>') \<and> step_ok cp {t} \<sigma> \<sigma>'"
proof -
  obtain x s' where x: "r = Some (x, s')" using r by (cases r) (auto simp: started_ok_def)
  show ?thesis
  proof (cases x)
    case (Finished rc)
    then show ?thesis using x r step_ok_mono [OF leaking_step [OF inv]] by (simp add: started_ok_def started_def)
  next
    case (Blocked c d)
    let ?x = "Queueing f c d False" and ?\<sigma> = "\<sigma>\<lparr>vecs := (vecs \<sigma>)(t := v)\<rparr>"
    have built: "built_effect d (kern \<sigma>) s'" and k: "kinv (held_by (leaked \<sigma>) ((threads \<sigma>)(t := ?x))) s'"
      using r x Blocked held_take [OF sysinvD(1) [OF inv], of t ?x c] idle by (simp_all add: started_ok_def)
    have new: "sends (threads \<sigma> u) \<noteq> Some d \<and> in_hand (threads \<sigma> u) \<noteq> Some d" for u
      using sysinvD(6) [OF inv, of u] built by (cases "threads \<sigma> u") (auto simp: thread_ok_def Let_def built_effect_def)
    have "step_ok cp {t} ?\<sigma> (set_thread t ?x s' ?\<sigma>)"
      by (rule thread_step [OF sysinv_vecs [OF inv idle], where D = "{d}"])
        (use built k new f idle in \<open>auto simp: built_effect_def quiet_effect_def thread_ok_def Let_def in_no_list_def intro: frame_awake\<close>)
    then show ?thesis using x Blocked by (simp add: started_def step_ok_vecs)
  qed
qed

lemma noreply_step:
  assumes inv: "sysinv cp \<sigma>" and en: "enabled (Noreply env io t f) \<sigma>"
  shows "\<exists>r \<sigma>'. perform (Noreply env io t f) \<sigma> = Some (r, \<sigma>') \<and> step_ok cp {t} \<sigma> \<sigma>'"
proof -
  obtain b e where f: "fds \<sigma> f = Some (b, e)" and idle: "threads \<sigma> t = Idle" using en by auto
  obtain pe where pe: "procs (kern \<sigma>) e = Some pe" by (rule open_file [OF inv f])
  have "started_ok (leaked \<sigma>) (threads \<sigma>) (kern \<sigma>) (handle_msgsend_no_reply_enter env (Some io) e (kern \<sigma>))"
    by (rule conjunct1 [OF no_reply_started [OF _ sysinvD(2) [OF inv] pe]]) (use en in simp_all)
  then show ?thesis using started_step [OF inv f idle] f by simp
qed

lemma noreplyv_step:
  assumes inv: "sysinv cp \<sigma>" and en: "enabled (Noreplyv env v t f) \<sigma>"
  shows "\<exists>r \<sigma>'. perform (Noreplyv env v t f) \<sigma> = Some (r, \<sigma>') \<and> step_ok cp {t} \<sigma> \<sigma>'"
proof -
  obtain b e where f: "fds \<sigma> f = Some (b, e)" and idle: "threads \<sigma> t = Idle" using en by auto
  obtain pe where pe: "procs (kern \<sigma>) e = Some pe" by (rule open_file [OF inv f])
  have "started_ok (leaked \<sigma>) (threads \<sigma>) (kern \<sigma>) (handle_msgsend_noreplyv_enter env (Some v) e (kern \<sigma>))"
    by (rule noreplyv_started [OF _ sysinvD(2) [OF inv] pe]) (use en in simp_all)
  then show ?thesis using started_step [OF inv f idle] f by simp
qed

section \<open>The loop\<close>

lemma attempt_effect:
  assumes "kinv (holding c H) s" and "msgs s d = Some m" and "in_no_list d s" and "mstate m = QNX_STATE_INITIAL" and "task m = None"
  obtains r m' s' where "busy_loop_add_new_message c d [] s = Some (r, s')" and "kinv (holding c H) s'" and "quiet_effect {d} s s'"
    and "msgs s' d = Some m'" and "task m' = None" and "mstate m' = QNX_STATE_INITIAL" and "r = None \<longrightarrow> in_no_list d s'"
proof -
  obtain ch where ch: "chans s c = Some ch" using kinv_held [OF assms(1), of c] by auto
  obtain rc ch' where a: "qnx_channel_add_new_message c d s =
      Some (rc, store_chan c ch' (s\<lparr>msgs := (msgs s)(d \<mapsto> m\<lparr>receiver_chid := chid ch\<rparr>)\<rparr>))"
    "kinv (holding c H) (store_chan c ch' (s\<lparr>msgs := (msgs s)(d \<mapsto> m\<lparr>receiver_chid := chid ch\<rparr>)\<rparr>))"
    "waiting ch' = (if rc = 0 then waiting ch @ [d] else waiting ch)" "rc = 0 \<or> rc = - 1 \<and> noreply_at (msgs s) d"
    by (rule kinv_add_new_message [OF assms(1) ch assms(2-4)]) blast
  let ?s = "store_chan c ch' (s\<lparr>msgs := (msgs s)(d \<mapsto> m\<lparr>receiver_chid := chid ch\<rparr>)\<rparr>)"
  have kept: "in_no_list x s" if "in_no_list x ?s" for x
    by (rule no_list_back [OF that]) (use a(3) ch in \<open>auto simp: store_chan_def\<close>)
  have "frame {d} s ?s"
    by (rule frameI) (use a(3) ch kept assms(2) in \<open>auto simp: store_chan_def split: if_splits\<close>)
  then have "quiet_effect {d} s ?s"
    by (simp add: quiet_effect_def same_entries_def entry_of_def owns_def fun_eq_iff store_chan_def)
  moreover have "in_no_list d ?s" if "rc < 0" using assms(3) a(3) ch that by (auto simp: in_no_list_def store_chan_def)
  ultimately show thesis
    using a(1,2) assms(4,5) by (intro that [of "if rc < 0 then None else Some rc" ?s "m\<lparr>receiver_chid := chid ch\<rparr>"]) (auto split: if_splits)
qed

text \<open>The end of the call: the message is freed or in the queue, and the channel is given back.\<close>

lemma oneway_ends:
  assumes inv: "sysinv cp \<sigma>" and th: "threads \<sigma> t = Queueing f c d slept" and q: "quiet_effect {d} (kern \<sigma>) s"
    and k: "kinv (holding c (held_by (leaked \<sigma>) ((threads \<sigma>)(t := Idle)))) s" and m: "\<And>m. msgs s d = Some m \<Longrightarrow> task m = None"
  shows "\<exists>s'. qnx_channel_release c s = Some s' \<and> step_ok cp {t} \<sigma> (set_thread t Idle s' \<sigma>)"
proof (rule kinv_put_back [OF k])
  fix s'
  assume s': "qnx_channel_release c s = Some s'" "kinv (held_by (leaked \<sigma>) ((threads \<sigma>)(t := Idle))) s'"
  note rel = quiet_release [OF k s'(1)]
  note all = quiet_effect_trans [OF q rel]
  have m': "task m1 = None" if "msgs s' d = Some m1" for m1
    using frameD(3) [of "{}" s s' d m1] rel that m by (auto simp: quiet_effect_def)
  have others: "sends (threads \<sigma> u) \<noteq> Some d \<and> in_hand (threads \<sigma> u) \<noteq> Some d" if "u \<noteq> t" for u
    using sysinvD(6) [OF inv, of u] sysinvD(6) [OF inv, of t] th that
    by (cases "threads \<sigma> u") (auto simp: thread_ok_def Let_def)
  have "step_ok cp {t} \<sigma> (set_thread t Idle s' \<sigma>)"
    by (rule thread_step [OF inv, where D = "{d}"])
      (use all s'(2) m' others th in \<open>auto simp: quiet_effect_def thread_ok_def Let_def intro: frame_awake\<close>)
  then show ?thesis using s'(1) by blast
qed

lemma attempt_step:
  assumes inv: "sysinv cp \<sigma>" and en: "enabled (Attempt sg t) \<sigma>"
  shows "\<exists>r \<sigma>'. perform (Attempt sg t) \<sigma> = Some (r, \<sigma>') \<and> step_ok cp {t} \<sigma> \<sigma>'"
proof -
  let ?s = "kern \<sigma>" and ?H = "held_by (leaked \<sigma>) ((threads \<sigma>)(t := Idle))"
  obtain f c d slept where th: "threads \<sigma> t = Queueing f c d slept" using en by (auto split: tstate.splits)
  have kc: "kinv (holding c ?H) ?s" using held_give [OF sysinvD(1) [OF inv], of t c] sysinvD(2) [OF inv] th by simp
  obtain m where m: "fds \<sigma> f \<noteq> None" "msgs ?s d = Some m" "in_no_list d ?s" "mstate m = QNX_STATE_INITIAL" "task m = None"
    and alone: "\<And>u. u \<noteq> t \<Longrightarrow> in_hand (threads \<sigma> u) \<noteq> Some d"
    using sysinvD(6) [OF inv, of t] th by (auto simp: thread_ok_def Let_def)
  show ?thesis
  proof (cases "slept \<and> sg")
    case True
    let ?s1 = "?s\<lparr>msgs := (msgs ?s)(d := None)\<rparr>"
    have "frame {d} ?s ?s1" by (rule frameI) (auto simp: in_no_list_def)
    then have "quiet_effect {d} ?s ?s1" by (simp add: quiet_effect_def same_entries_def entry_of_def owns_def fun_eq_iff)
    from oneway_ends [OF inv th this kinv_free_msg [OF kc m(3)]] show ?thesis using th True by auto
  next
    case False
    obtain r m' s' where a: "busy_loop_add_new_message c d [] ?s = Some (r, s')" "kinv (holding c ?H) s'" "quiet_effect {d} ?s s'"
      "msgs s' d = Some m'" "task m' = None" "mstate m' = QNX_STATE_INITIAL" "r = None \<longrightarrow> in_no_list d s'"
      by (rule attempt_effect [OF kc m(2-5)])
    show ?thesis
    proof (cases r)
      case None
      let ?x = "Queueing f c d True"
      have k: "kinv (held_by (leaked \<sigma>) ((threads \<sigma>)(t := ?x))) s'"
        using a(2) held_give [OF sysinvD(1) [OF inv], of t c] held_same [of ?x "threads \<sigma>" t] th by simp
      have others: "sends (threads \<sigma> u) \<noteq> Some d" for u
        using sysinvD(6) [OF inv, of u] m(2,5) by (cases "threads \<sigma> u") (auto simp: thread_ok_def Let_def)
      have "step_ok cp {t} \<sigma> (set_thread t ?x s' \<sigma>)"
        by (rule thread_step [OF inv, where D = "{d}"])
          (use a(3-7) None k others alone th m(1) in
            \<open>auto simp: quiet_effect_def thread_ok_def Let_def in_no_list_def intro: frame_awake\<close>)
      then show ?thesis using th False a(1) None by auto
    next
      case (Some rc)
      then show ?thesis using oneway_ends [OF inv th a(3,2)] a(1,4,5) th False by auto
    qed
  qed
qed

end
