(* ===== verification/Protocol_Files.thy ===== *)
theory Protocol_Files
  imports Protocol_Oneway
begin

text \<open>
  The steps that open and close files. Closing the device file of a process destroys its entry,
  its channels and its pending messages; the senders of these are woken.
\<close>

lemma file_step:
  assumes inv: "sysinv cp \<sigma>" and fr: "frame {} (kern \<sigma>) s'" and k: "kinv (held_by (leaked \<sigma>) (threads \<sigma>)) s'" and fls: "files_inv fs' s'"
    and ent: "\<And>e pe pe'. procs (kern \<sigma>) e = Some pe \<Longrightarrow> procs s' e = Some pe' \<Longrightarrow>
      pid pe' = pid pe \<and> (e \<in> set (process_entries (kern \<sigma>)) \<longrightarrow> e \<in> set (process_entries s'))"
    and fil: "\<And>u g b e. file_of (threads \<sigma> u) = Some g \<Longrightarrow> fds \<sigma> g = Some (b, e) \<Longrightarrow> fs' g = Some (b, e) \<and> procs s' e \<noteq> None"
    and own: "\<And>x c. owns s' x c \<Longrightarrow> owns (kern \<sigma>) x c"
  shows "step_ok cp {} \<sigma> (\<sigma>\<lparr>kern := s', fds := fs'\<rparr>)"
proof -
  let ?\<sigma> = "\<sigma>\<lparr>kern := s', fds := fs'\<rparr>"
  have proj: "kern ?\<sigma> = s'" "fds ?\<sigma> = fs'" "threads ?\<sigma> = threads \<sigma>" "leaked ?\<sigma> = leaked \<sigma>" "vecs ?\<sigma> = vecs \<sigma>" by simp_all
  show ?thesis
  proof (rule sysinv_step [OF inv, where D = "{}" and A = "{}"]; (unfold proj)?)
    show "frame_but {} {} (kern \<sigma>) s'" by (rule frame_awake [OF fr])
    show "owns (kern \<sigma>) x c \<or> cp c = pid pe" if "procs s' x = Some pe" "c \<in> set (channels pe)" for x pe c
      using own that by (auto simp: owns_def)
  qed (use k fls ent fil in simp_all)
qed

section \<open>Open\<close>

lemma files_invD:
  assumes "files_inv fs s"
  shows "fs f = Some (b, e) \<Longrightarrow> entry_of s e \<noteq> None" and "entry_of s e \<noteq> None \<Longrightarrow> \<exists>g. fs g = Some (True, e)"
    and "entry_of s e \<noteq> None \<Longrightarrow> e \<in> set (process_entries s)"
  using assms unfolding files_inv_def by (blast, fastforce, fastforce)

lemma files_count:
  assumes "files_inv fs s" and "entry_of s e = Some (p, n)"
  shows "n = card {f. \<exists>b. fs f = Some (b, e)}" and "finite {f. \<exists>b. fs f = Some (b, e)}"
proof -
  show "n = card {f. \<exists>b. fs f = Some (b, e)}" using assms by (auto simp: files_inv_def)
  have "finite (dom fs)" using assms(1) by (simp add: files_inv_def)
  then show "finite {f. \<exists>b. fs f = Some (b, e)}" by (rule rev_finite_subset) auto
qed

text \<open>A file of the entry at \<open>e\<close> is added; the other entries keep their files.\<close>

lemma files_inv_open:
  assumes "files_inv fs s" and "fs f = None" and "entry_of s' = (entry_of s)(e \<mapsto> (p, n))"
    and "set (process_entries s') = insert e (set (process_entries s))"
    and "case entry_of s e of None \<Rightarrow> n = 1 \<and> rdwr | Some (q, k) \<Rightarrow> n = Suc k"
  shows "files_inv (fs(f \<mapsto> (rdwr, e))) s'"
proof -
  let ?F = "\<lambda>fs x. {g. \<exists>b. fs g = Some (b, x)}"
  have F: "?F (fs(f \<mapsto> (rdwr, e))) x = (if x = e then insert f (?F fs x) else ?F fs x)" for x using assms(2) by auto
  have new: "n = Suc (card (?F fs e))"
  proof (cases "entry_of s e")
    case None
    then have "?F fs e = {}" using files_invD(1) [OF assms(1)] by blast
    then show ?thesis using None assms(5) by (simp only: card.empty option.case)
  next
    case (Some a)
    obtain q k where a: "entry_of s e = Some (q, k)" using Some by (cases a) simp
    then show ?thesis using files_count(1) [OF assms(1) a] assms(5) by simp
  qed
  have fin: "finite (?F fs e)" by (rule rev_finite_subset [of "dom fs"]) (use assms(1) in \<open>auto simp: files_inv_def\<close>)
  have c: "card (?F (fs(f \<mapsto> (rdwr, e))) x) = (if x = e then n else card (?F fs x))" for x
    unfolding F using new fin assms(2) by simp
  show ?thesis
    unfolding files_inv_def c
  proof (intro conjI allI impI)
    fix x q k
    assume a: "entry_of s' x = Some (q, k)"
    show "x \<in> set (process_entries s')" using a assms(1,3,4) by (auto simp: files_inv_def split: if_splits)
    show "k = (if x = e then n else card (?F fs x))" using a assms(1,3) by (auto simp: files_inv_def)
    show "\<exists>g. (fs(f \<mapsto> (rdwr, e))) g = Some (True, x)"
    proof (cases "x = e \<and> entry_of s e = None")
      case True
      then show ?thesis using assms(5) by (intro exI [of _ f]) simp
    next
      case False
      then have "entry_of s x \<noteq> None" using a assms(3) by (auto split: if_splits)
      then obtain g where "fs g = Some (True, x)" using files_invD(2) [OF assms(1)] by blast
      then show ?thesis using assms(2) by (intro exI [of _ g]) auto
    qed
  qed (use assms(1,3) in \<open>auto simp: files_inv_def split: if_splits\<close>)
qed

lemma open_step:
  assumes inv: "sysinv cp \<sigma>" and en: "enabled (Open env rdwr p f) \<sigma>"
  shows "\<exists>r \<sigma>'. perform (Open env rdwr p f) \<sigma> = Some (r, \<sigma>') \<and> step_ok cp {} \<sigma> \<sigma>'"
proof -
  let ?s = "kern \<sigma>"
  have k: "kinv (held_by (leaked \<sigma>) (threads \<sigma>)) ?s" and fls: "files_inv (fds \<sigma>) ?s" and nf: "fds \<sigma> f = None"
    using sysinvD(2,3) [OF inv] en by simp_all
  have other: "((fds \<sigma>)(f \<mapsto> (rdwr, e))) g = Some (b, x)" if "fds \<sigma> g = Some (b, x)" for g b x e using that nf by auto
  have alive: "procs ?s x \<noteq> None" if "fds \<sigma> g = Some (b, x)" for g b x using open_file [OF inv that] by auto
  show ?thesis
  proof (cases rdwr)
    case True
    let ?e = "next_addr ?s"
    have fresh: "procs ?s ?e = None" using kinvD(7) [OF k] by (simp add: fresh_inv_def)
    show ?thesis
    proof (cases "listed ?s p \<or> \<not> kmalloc env A_entry 0")
      case failed: True
      then show ?thesis using open_rdwr_eq [OF k, of env p] True step_ok_refl [OF inv] by auto
    next
      case False
      then have nl: "\<not> listed ?s p" by simp
      note st = opened_def qnx_driver_data_add_process_def qnx_process_entry_init_def store_proc_def
      have fr: "frame {} ?s (opened env p ?s)" by (rule frame_same_lists) (use fresh in \<open>auto simp: st split: if_splits\<close>)
      have fi: "files_inv ((fds \<sigma>)(f \<mapsto> (rdwr, ?e))) (opened env p ?s)"
        by (rule files_inv_open [OF fls nf, of _ ?e p 1])
          (use fresh True in \<open>auto simp: st entry_of_def fun_eq_iff\<close>)
      have "step_ok cp {} \<sigma> (\<sigma>\<lparr>kern := opened env p ?s, fds := (fds \<sigma>)(f \<mapsto> (rdwr, ?e))\<rparr>)"
        by (rule file_step [OF inv fr kinv_opened [OF k nl] fi])
          (use fresh other alive in \<open>auto simp: st owns_def split: if_splits\<close>)
      then show ?thesis using open_rdwr_eq [OF k, of env p] False True by simp
    qed
  next
    case poll: False
    show ?thesis
      using k
    proof (cases rule: kinv_find_process [where p = p])
      case none
      then show ?thesis using poll step_ok_refl [OF inv] by (simp add: qnxcomm_open_def)
    next
      case (found e pe)
      let ?pe = "pe\<lparr>pe_refcnt := Suc (pe_refcnt pe)\<rparr>"
      let ?s' = "store_proc e ?pe ?s"
      have fr: "frame {} ?s ?s'" by (rule frame_store_proc [OF found(2)]) simp
      have fi: "files_inv ((fds \<sigma>)(f \<mapsto> (rdwr, e))) ?s'"
        by (rule files_inv_open [OF fls nf, of _ e p "Suc (pe_refcnt pe)"])
          (use found in \<open>auto simp: entry_of_def fun_eq_iff\<close>)
      have "step_ok cp {} \<sigma> (\<sigma>\<lparr>kern := ?s', fds := (fds \<sigma>)(f \<mapsto> (rdwr, e))\<rparr>)"
        by (rule file_step [OF inv fr kinv_process_target(1) [OF k found(1,2)] fi])
          (use found(2) other alive in \<open>auto simp: owns_def split: if_splits\<close>)
      then show ?thesis using found(4) poll by (simp add: qnxcomm_open_def)
    qed
  qed
qed

section \<open>Close\<close>

text \<open>A file of the entry at \<open>e\<close> is taken away; the entry goes with its last file.\<close>

lemma files_inv_close:
  assumes "files_inv fs s" and "fs f = Some (b, e)" and "b \<longrightarrow> (\<forall>g b'. g \<noteq> f \<longrightarrow> fs g \<noteq> Some (b', e))"
    and "entry_of s e = Some (p, n)" and "entry_of s' = (entry_of s)(e := if b then None else Some (p, n - 1))"
    and "\<And>x. x \<in> set (process_entries s) \<Longrightarrow> x \<noteq> e \<or> \<not> b \<Longrightarrow> x \<in> set (process_entries s')"
  shows "files_inv (fs(f := None)) s'"
proof -
  let ?F = "\<lambda>fs x. {g. \<exists>b. fs g = Some (b, x)}"
  have F: "?F (fs(f := None)) x = ?F fs x - (if x = e then {f} else {})" for x using assms(2) by auto
  have n: "card (?F fs e - {f}) = n - 1" using files_count [OF assms(1,4)] assms(2) by (simp add: card_Diff_singleton)
  have c: "card (?F (fs(f := None)) x) = (if x = e then n - 1 else card (?F fs x))" for x unfolding F using n by simp
  have dev: "\<exists>g. (fs(f := None)) g = Some (True, x)" if x: "entry_of s x \<noteq> None" "x \<noteq> e \<or> \<not> b" for x
  proof -
    obtain g where g: "fs g = Some (True, x)" using files_invD(2) [OF assms(1) x(1)] by blast
    then have "g \<noteq> f" using assms(2) x(2) by auto
    then show ?thesis using g by (intro exI [of _ g]) simp
  qed
  show ?thesis
    unfolding files_inv_def c
  proof (intro conjI allI impI)
    fix g b' x
    assume "(fs(f := None)) g = Some (b', x)"
    then have "fs g = Some (b', x)" "g \<noteq> f" by (auto split: if_splits)
    then show "entry_of s' x \<noteq> None" using files_invD(1) [OF assms(1)] assms(3,5) by (cases "x = e") auto
  next
    fix x q k
    assume a: "entry_of s' x = Some (q, k)"
    then have x: "entry_of s x \<noteq> None" "x \<noteq> e \<or> \<not> b" using assms(4,5) by (auto split: if_splits)
    then show "x \<in> set (process_entries s')" "\<exists>g. (fs(f := None)) g = Some (True, x)"
      using files_invD(3) [OF assms(1)] assms(6) dev by blast+
    show "k = (if x = e then n - 1 else card (?F fs x))"
      using a assms(1,5) by (auto simp: files_inv_def split: if_splits)
  qed (use assms(1) in \<open>simp add: files_inv_def\<close>)
qed

text \<open>The last reference to an entry that is off the list.\<close>

lemma frame_release_channels:
  assumes "kinv H s" and "procs s e = Some pe" and "channels pe = cs" and "release_channels e cs s = Some s'"
  shows "frame {} s s'"
  using assms
proof (induction cs arbitrary: s pe)
  case Nil
  then show ?case by (simp add: frame_same_lists)
next
  case (Cons c cs)
  let ?pe = "pe\<lparr>channels := cs\<rparr>"
  let ?s = "store_proc e ?pe s"
  have k: "kinv (holding c H) ?s" using kinv_disown_channel [OF Cons.prems(1,2), of c] Cons.prems(3) by simp
  obtain s1 where s1: "qnx_channel_release c ?s = Some s1" "kinv H s1" "procs_frame ?s s1" by (rule kinv_put_back [OF k])
  have at: "procs s1 e = Some ?pe" using s1(3) by (simp add: procs_frame_def)
  have "release_channels e cs s1 = Some s'" using Cons.prems(2,4) s1(1) by simp
  then have "frame {} s1 s'" using Cons.IH [OF s1(2) at] by simp
  moreover have "frame {} s ?s" by (rule frame_store_proc [OF Cons.prems(2)]) simp
  moreover have "frame {} ?s s1" by (rule frame_release [OF k _ s1(1)]) simp
  ultimately show ?case using frame_after by blast
qed

lemma frame_end_process:
  assumes "kinv H s" and "procs s e = Some pe"
    and s': "s' = s\<lparr>procs := (procs s)(e := None), msgs := flush_msgs (pending pe) (msgs s),
      running := (\<lambda>t. running s t \<or> woken_by (pending pe) (msgs s) t), uaf := uaf s\<rparr>"
  shows "frame {} s s'"
proof -
  have out: "in_no_list d s'" "\<exists>m. msgs s d = Some m \<and> mstate m = QNX_STATE_PENDING" if "d \<in> set (pending pe)" for d
  proof -
    show q: "\<exists>m. msgs s d = Some m \<and> mstate m = QNX_STATE_PENDING" using kinv_pending_msg [OF assms(1,2) that] by blast
    have "d \<notin> set (waiting ch)" if "chans s c = Some ch" for c ch using kinv_waiting_msg [OF assms(1) that, of d] q by auto
    moreover have "d \<notin> set (pending px)" if "procs s x = Some px" "x \<noteq> e" for x px
      using kinvD(2) [OF assms(1)] assms(2) that \<open>d \<in> set (pending pe)\<close> unfolding procs_inv_def by blast
    ultimately show "in_no_list d s'" by (auto simp: s' in_no_list_def split: if_splits)
  qed
  show ?thesis
  proof (rule frameI)
    fix t
    assume "running s' t"
    then show "running s t \<or> released s' t" using out by (fastforce simp: s' woken_by_def released_def flush_msgs_def)
  next
    fix d
    assume "in_no_list d s"
    then show "msgs s' d = msgs s d" using assms(2) by (auto simp: s' in_no_list_def flush_msgs_def)
  next
    fix d m t
    assume d: "msgs s d = Some m" "task m = Some t" "\<not> running s' t"
    then have "d \<notin> set (pending pe)" by (auto simp: s' woken_by_def)
    then have "in_no_list d s" if "in_no_list d s'" by (intro no_list_back [OF that]) (use assms(2) in \<open>auto simp: s'\<close>)
    then show "\<not> running s t \<and> (in_no_list d s' \<longrightarrow> in_no_list d s)" using d(3) by (simp add: s')
  qed (auto simp: s' flush_msgs_def same_message_def split: if_splits elim!: bind_eq_SomeE)
qed

lemma frame_last_release:
  assumes "kinv H s" and "procs s e = Some pe" and "pe_refcnt pe = 1" and "e \<notin> set (process_entries s)"
    and "qnx_process_entry_release e s = Some s'"
  shows "frame {} s s'"
proof -
  let ?z = "store_proc e (pe\<lparr>pe_refcnt := 0\<rparr>) s" and ?pe = "pe\<lparr>pe_refcnt := 0, channels := []\<rparr>"
  have k0: "kinv H ?z"
    by (rule kinv_store_proc [OF assms(1,2)]) (use assms(4) kinv_proc [OF assms(1,2)] in \<open>auto simp: proc_inv_def\<close>)
  have at0: "procs ?z e = Some (pe\<lparr>pe_refcnt := 0\<rparr>)" by simp
  obtain s1 where s1: "release_channels e (channels pe) ?z = Some s1" "kinv H s1" "procs s1 = (procs ?z)(e \<mapsto> ?pe)"
    using kinv_release_channels [OF k0 at0, of "channels pe"] by (simp del: fun_upd_apply) blast
  have at1: "procs s1 e = Some ?pe" by (simp add: s1(3))
  have pend: "distinct (pending pe)" "set (pending pe) \<subseteq> dom (msgs s1)"
    using kinv_proc [OF s1(2) at1] by (auto simp: proc_inv_def)
  have tasks: "filter (no_task (msgs s1)) (pending pe) = []"
    using kinv_pending_msg [OF s1(2) at1] by (fastforce simp: filter_empty_conv no_task_def)
  obtain cs where cs: "qnx_connection_table_destroy (connections pe) = Some cs"
    using table_destroy_total [of "connections pe"] kinv_proc [OF assms(1,2)] by (auto simp: proc_inv_def)
  have s': "s' = s1\<lparr>procs := (procs s1)(e := None), msgs := flush_msgs (pending ?pe) (msgs s1),
      running := (\<lambda>t. running s1 t \<or> woken_by (pending ?pe) (msgs s1) t),
      uaf := uaf s1\<rparr>"
    using assms(2,3,5) s1(1) at1 free_msg_list_eq [OF pend] cs tasks
    by (auto simp: qnx_process_entry_release_def qnx_process_entry_free_def)
  have "frame {} s ?z" by (rule frame_store_proc [OF assms(2)]) simp
  moreover have "frame {} ?z s1" by (rule frame_release_channels [OF k0 at0 _ s1(1)]) simp
  moreover have "frame {} s1 s'" by (rule frame_end_process [OF s1(2) at1 s'])
  ultimately show ?thesis using frame_after by blast
qed

lemma close_device_step:
  assumes inv: "sysinv cp \<sigma>" and f: "fds \<sigma> f = Some (True, e)" and sole: "\<forall>g b. g \<noteq> f \<longrightarrow> fds \<sigma> g \<noteq> Some (b, e)"
    and unused: "\<forall>t. file_of (threads \<sigma> t) \<noteq> Some f"
  shows "\<exists>r \<sigma>'. perform (Close f) \<sigma> = Some (r, \<sigma>') \<and> step_ok cp {} \<sigma> \<sigma>'"
proof -
  let ?s = "kern \<sigma>" and ?H = "held_by (leaked \<sigma>) (threads \<sigma>)"
  let ?u = "?s\<lparr>process_entries := remove1 e (process_entries ?s)\<rparr>"
  have k: "kinv ?H ?s" and fls: "files_inv (fds \<sigma>) ?s" using sysinvD(2,3) [OF inv] by simp_all
  obtain pe where pe: "procs ?s e = Some pe" and ls: "e \<in> set (process_entries ?s)" by (rule open_file [OF inv f])
  have entry: "entry_of ?s e = Some (pid pe, pe_refcnt pe)" using pe by (simp add: entry_of_def)
  have "{g. \<exists>b. fds \<sigma> g = Some (b, e)} = {f}" using f sole by auto
  then have one: "pe_refcnt pe = 1" using files_count(1) [OF fls entry] by simp
  have ku: "kinv ?H ?u" by (rule kinv_unlist [OF k])
  have at: "procs ?u e = Some pe" "e \<notin> set (process_entries ?u)" using pe unlisted [OF k] by simp_all
  obtain s' where s': "qnx_process_entry_release e ?u = Some s'" "kinv ?H s'" "procs s' = (procs ?u)(e := None)"
    "process_entries s' = process_entries ?u"
    by (rule kinv_last_release [OF ku at(1) one at(2)])
  have keep: "x \<in> set (process_entries s')" if "x \<in> set (process_entries ?s)" "x \<noteq> e" for x using that s'(4) by simp
  have "frame {} ?s ?u" by (rule frame_same_lists) auto
  then have fr: "frame {} ?s s'" by (rule frame_after [OF _ frame_last_release [OF ku at(1) one at(2) s'(1)]])
  have ent: "entry_of s' = (entry_of ?s)(e := if True then None else Some (pid pe, pe_refcnt pe - 1))"
    using s'(3) by (simp add: entry_of_def fun_eq_iff)
  have fi: "files_inv ((fds \<sigma>)(f := None)) s'"
    by (rule files_inv_close [OF fls f _ entry ent]) (use sole keep in simp_all)
  have "step_ok cp {} \<sigma> (\<sigma>\<lparr>kern := s', fds := (fds \<sigma>)(f := None)\<rparr>)"
  proof (rule file_step [OF inv fr s'(2) fi])
    show "((fds \<sigma>)(f := None)) g = Some (b, x) \<and> procs s' x \<noteq> None"
      if "file_of (threads \<sigma> t) = Some g" "fds \<sigma> g = Some (b, x)" for t g b x
    proof -
      have "g \<noteq> f" using unused that(1) by auto
      moreover from this have "x \<noteq> e" using sole that(2) by auto
      ultimately show ?thesis using that(2) s'(3) open_file [OF inv that(2)] by auto
    qed
  qed (use s'(3) keep in \<open>auto simp: owns_def split: if_splits\<close>)
  then show ?thesis using private_data_simps(1) [OF f] s'(1) close_rdwr_eq [OF k ls pe, of f] by simp
qed

lemma close_poll_step:
  assumes inv: "sysinv cp \<sigma>" and f: "fds \<sigma> f = Some (False, e)" and unused: "\<forall>t. file_of (threads \<sigma> t) \<noteq> Some f"
  shows "\<exists>r \<sigma>'. perform (Close f) \<sigma> = Some (r, \<sigma>') \<and> step_ok cp {} \<sigma> \<sigma>'"
proof -
  let ?s = "kern \<sigma>" and ?H = "held_by (leaked \<sigma>) (threads \<sigma>)"
  have k: "kinv ?H ?s" and fls: "files_inv (fds \<sigma>) ?s" using sysinvD(2,3) [OF inv] by simp_all
  obtain pe where pe: "procs ?s e = Some pe" by (rule open_file [OF inv f])
  have entry: "entry_of ?s e = Some (pid pe, pe_refcnt pe)" using pe by (simp add: entry_of_def)
  obtain rc s1 where s1: "qnx_process_entry_remove_pollfd e f ?s = Some (rc, s1)" "kinv ?H s1"
    using kinv_pollfd_ops(2) [OF k pe] by blast
  then have "\<exists>fs. s1 = store_proc e (pe\<lparr>pollfds := fs\<rparr>) ?s"
    using pe by (auto simp: qnx_process_entry_remove_pollfd_def store_proc_def fun_upd_idem split: option.splits
        intro: exI [of _ "pollfds pe"])
  then obtain fs where eq: "s1 = store_proc e (pe\<lparr>pollfds := fs\<rparr>) ?s" by blast
  obtain g where g: "fds \<sigma> g = Some (True, e)" using files_invD(2) [OF fls] entry by auto
  have "card {f, g} \<le> card {h. \<exists>b. fds \<sigma> h = Some (b, e)}" by (rule card_mono [OF files_count(2) [OF fls entry]]) (use f g in auto)
  moreover have "f \<noteq> g" using f g by auto
  ultimately have two: "1 < pe_refcnt pe" using files_count(1) [OF fls entry] by simp
  let ?pe = "pe\<lparr>pollfds := fs, pe_refcnt := pe_refcnt pe - 1\<rparr>"
  let ?s' = "store_proc e ?pe ?s"
  have at1: "procs s1 e = Some (pe\<lparr>pollfds := fs\<rparr>)" by (simp add: eq)
  have same: "store_proc e (pe\<lparr>pollfds := fs, pe_refcnt := pe_refcnt (pe\<lparr>pollfds := fs\<rparr>) - 1\<rparr>) s1 = ?s'"
    by (simp add: eq store_proc_def)
  have rel: "qnx_process_entry_release e s1 = Some ?s'" "kinv ?H ?s'"
    using kinv_process_release [OF s1(2) at1] two unfolding same by simp_all
  have fr: "frame {} ?s ?s'" by (rule frame_store_proc [OF pe]) simp
  have ent: "entry_of ?s' = (entry_of ?s)(e := if False then None else Some (pid pe, pe_refcnt pe - 1))"
    by (simp add: entry_of_def fun_eq_iff)
  have fi: "files_inv ((fds \<sigma>)(f := None)) ?s'" by (rule files_inv_close [OF fls f _ entry ent]) simp_all
  have "step_ok cp {} \<sigma> (\<sigma>\<lparr>kern := ?s', fds := (fds \<sigma>)(f := None)\<rparr>)"
  proof (rule file_step [OF inv fr rel(2) fi])
    show "((fds \<sigma>)(f := None)) h = Some (b, x) \<and> procs ?s' x \<noteq> None"
      if "file_of (threads \<sigma> t) = Some h" "fds \<sigma> h = Some (b, x)" for t h b x
      using that unused open_file [OF inv that(2)] by (cases "h = f") (auto simp: store_proc_def)
  qed (use pe in \<open>auto simp: owns_def split: if_splits\<close>)
  then show ?thesis using private_data_simps(1) [OF f] s1(1) rel(1) by (simp add: qnxcomm_close_def)
qed

lemma close_step:
  assumes inv: "sysinv cp \<sigma>" and en: "enabled (Close f) \<sigma>"
  shows "\<exists>r \<sigma>'. perform (Close f) \<sigma> = Some (r, \<sigma>') \<and> step_ok cp {} \<sigma> \<sigma>'"
proof -
  have unused: "\<forall>t. file_of (threads \<sigma> t) \<noteq> Some f" using en by simp
  consider e where "fds \<sigma> f = Some (True, e)" | e where "fds \<sigma> f = Some (False, e)" | "fds \<sigma> f = None" by fastforce
  then show ?thesis
  proof cases
    case 1
    then show ?thesis using close_device_step [OF inv _ _ unused] en by simp
  next
    case 2
    then show ?thesis using close_poll_step [OF inv _ unused] by simp
  next
    case 3
    then have "private_data \<sigma> f = Some (False, None)" using en by (simp add: private_data_simps(2))
    then show ?thesis using step_ok_refl [OF inv] 3 by (simp add: qnxcomm_close_def fun_upd_idem)
  qed
qed

section \<open>Poll\<close>

text \<open>A poll that finds a channel takes a reference that nobody gives back.\<close>

lemma poll_effect:
  assumes "kinv (held_by L T) s" and "procs s e = Some pe"
  shows "\<exists>mask s'. qnxcomm_poll f (Some e) s = Some (mask, s') \<and> kinv (held_by (leaks s s' L) T) s' \<and> quiet_effect {} s s'"
proof (cases "find (\<lambda>p. pf_file p = f) (pollfds pe)")
  case None
  then show ?thesis
    using assms by (simp add: qnxcomm_poll_def qnx_process_entry_find_channel_from_file_def leaks_def)
next
  case (Some pf)
  show ?thesis
    using assms
  proof (cases rule: kinv_entry_find_channel [where i = "pf_chid pf"])
    case none
    then show ?thesis
      using assms Some by (simp add: qnxcomm_poll_def qnx_process_entry_find_channel_from_file_def leaks_def)
  next
    case (found c)
    then obtain ch where ch: "chans s c = Some ch" by (auto simp: channel_of_def)
    then have "kinv (held_by (leaks s (hold c s) L) T) (hold c s)" using found(3) by (simp add: leaks_hold)
    then show ?thesis
      using assms(2) Some found(1) chans_hold [OF ch] quiet_hold [OF ch]
      by (simp add: qnxcomm_poll_def qnx_process_entry_find_channel_from_file_def)
  qed
qed

lemma poll_step:
  assumes inv: "sysinv cp \<sigma>" and en: "enabled (Poll f) \<sigma>"
  shows "\<exists>r \<sigma>'. perform (Poll f) \<sigma> = Some (r, \<sigma>') \<and> step_ok cp {} \<sigma> \<sigma>'"
proof -
  obtain b e where f: "fds \<sigma> f = Some (b, e)" using en by auto
  obtain pe where pe: "procs (kern \<sigma>) e = Some pe" by (rule open_file [OF inv f])
  obtain mask s' where s': "qnxcomm_poll f (Some e) (kern \<sigma>) = Some (mask, s')"
    "kinv (held_by (leaks (kern \<sigma>) s' (leaked \<sigma>)) (threads \<sigma>)) s'" "quiet_effect {} (kern \<sigma>) s'"
    using poll_effect [OF sysinvD(2) [OF inv] pe] by blast
  then show ?thesis using private_data_simps(1) [OF f] leaking_step [OF inv s'(3,2)] by simp
qed

section \<open>Reachable states\<close>

lemma sysinv_loaded: "sysinv cp loaded"
proof -
  have "held_by (\<lambda>_. 0) (\<lambda>_. Idle) = (\<lambda>_. 0)" by (simp add: held_by_def fun_eq_iff)
  then show ?thesis
    using kinv_init by (simp add: sysinv_def loaded_def files_inv_def channels_inv_def tasks_inv_def delivery_inv_def thread_ok_def entry_of_def
        init_kstate_def)
qed

text \<open>The thread that takes a step.\<close>

fun actors :: "action \<Rightarrow> tid set" where
  "actors (Open env rdwr p f) = {}"
| "actors (Close f) = {}"
| "actors (Call env ua sc t p f cmd arg) = {t}"
| "actors (Send env io t f) = {t}"
| "actors (Sendv env v t f) = {t}"
| "actors (Wake env ms sg t) = {t}"
| "actors (Recv ua io t f) = {t}"
| "actors (Take wrc t) = {t}"
| "actors (Deliver env t) = {t}"
| "actors (Poll f) = {}"
| "actors (Noreply env io t f) = {t}"
| "actors (Noreplyv env v t f) = {t}"
| "actors (Attempt sg t) = {t}"

lemma every_step:
  assumes "sysinv cp \<sigma>" and "enabled a \<sigma>"
  shows "\<exists>cp' r \<sigma>'. perform a \<sigma> = Some (r, \<sigma>') \<and> step_ok cp' (actors a) \<sigma> \<sigma>'"
proof (cases a)
  case (Open env rdwr p f)
  show ?thesis unfolding Open actors.simps using open_step [OF assms [unfolded Open]] by blast
next
  case (Close f)
  show ?thesis unfolding Close actors.simps using close_step [OF assms [unfolded Close]] by blast
next
  case (Call env ua sc t p f cmd arg)
  show ?thesis unfolding Call actors.simps using call_step [OF assms [unfolded Call]] by blast
next
  case (Send env io t f)
  show ?thesis unfolding Send actors.simps using send_step [OF assms [unfolded Send]] by blast
next
  case (Sendv env v t f)
  show ?thesis unfolding Sendv actors.simps using sendv_step [OF assms [unfolded Sendv]] by blast
next
  case (Wake env ms sg t)
  show ?thesis unfolding Wake actors.simps using wake_step [OF assms [unfolded Wake]] by blast
next
  case (Recv ua io t f)
  show ?thesis unfolding Recv actors.simps using recv_step [OF assms [unfolded Recv]] by blast
next
  case (Take wrc t)
  show ?thesis unfolding Take actors.simps using take_step [OF assms [unfolded Take]] by blast
next
  case (Deliver env t)
  show ?thesis unfolding Deliver actors.simps using deliver_step [OF assms [unfolded Deliver]] by blast
next
  case (Poll f)
  show ?thesis unfolding Poll actors.simps using poll_step [OF assms [unfolded Poll]] by blast
next
  case (Noreply env io t f)
  show ?thesis unfolding Noreply actors.simps using noreply_step [OF assms [unfolded Noreply]] by blast
next
  case (Noreplyv env v t f)
  show ?thesis unfolding Noreplyv actors.simps using noreplyv_step [OF assms [unfolded Noreplyv]] by blast
next
  case (Attempt sg t)
  show ?thesis unfolding Attempt actors.simps using attempt_step [OF assms [unfolded Attempt]] by blast
qed

lemma reachable_sysinv: "reachable \<sigma> \<Longrightarrow> \<exists>cp. sysinv cp \<sigma>"
proof (induction rule: reachable.induct)
  case start
  show ?case using sysinv_loaded by blast
next
  case (step \<sigma> a \<sigma>')
  then obtain cp where "sysinv cp \<sigma>" by blast
  from every_step [OF this step.hyps(2)] show ?case using step.hyps(3) by (auto simp: exec_def step_ok_def)
qed

end
