(* ===== verification/Protocol_Props.thy ===== *)
theory Protocol_Props
  imports Protocol_Files
begin

text \<open>
  What holds in every reachable state of the module: no step faults, references and messages
  have exactly the owners they should have, nothing is left behind, and no sender is caught.
\<close>

text \<open>A sequence of steps, each of which is possible.\<close>

fun run :: "action list \<Rightarrow> sys \<Rightarrow> sys option" where
  "run [] \<sigma> = Some \<sigma>"
| "run (a # as) \<sigma> = (if enabled a \<sigma> then do { \<sigma>' \<leftarrow> exec a \<sigma>; run as \<sigma>' } else None)"

lemma run_reachable: "reachable \<sigma> \<Longrightarrow> run as \<sigma> = Some \<sigma>' \<Longrightarrow> reachable \<sigma>'"
  by (induction as arbitrary: \<sigma>) (auto split: if_splits elim!: bind_eq_SomeE intro: reachable.step)

lemma run_append: "run (as @ bs) \<sigma> = do { \<sigma>' \<leftarrow> run as \<sigma>; run bs \<sigma>' }"
  by (induction as arbitrary: \<sigma>) (auto split: bind_splits)

lemma reachable_run: "reachable \<sigma> \<longleftrightarrow> (\<exists>as. run as loaded = Some \<sigma>)"
proof
  assume "reachable \<sigma>"
  then show "\<exists>as. run as loaded = Some \<sigma>"
  proof (induction rule: reachable.induct)
    case start
    show ?case by (rule exI [of _ "[]"]) simp
  next
    case (step \<sigma> a \<sigma>')
    then obtain as where "run as loaded = Some \<sigma>" by blast
    then show ?case using step.hyps(2,3) by (intro exI [of _ "as @ [a]"]) (simp add: run_append)
  qed
qed (use run_reachable [OF reachable.start] in blast)

section \<open>Leaks\<close>

text \<open>The calls that can end with a reference they have not given back.\<close>

fun may_leak :: "action \<Rightarrow> bool" where
  "may_leak (Poll f) \<longleftrightarrow> True"
| "may_leak (Sendv env v t f) \<longleftrightarrow> True"
| "may_leak (Noreplyv env v t f) \<longleftrightarrow> True"
| "may_leak _ \<longleftrightarrow> False"

lemma others_leak_nothing:
  assumes inv: "sysinv cp \<sigma>" and en: "enabled a \<sigma>" and ex: "exec a \<sigma> = Some \<sigma>'" and no: "\<not> may_leak a"
  shows "leaked \<sigma>' = leaked \<sigma>"
proof (cases a)
  case (Noreply env io t f)
  obtain b e where f: "fds \<sigma> f = Some (b, e)" using en Noreply by auto
  obtain pe where pe: "procs (kern \<sigma>) e = Some pe" by (rule open_file [OF inv f])
  have "chans s' = chans (kern \<sigma>)" if "handle_msgsend_no_reply_enter env (Some io) e (kern \<sigma>) = Some (Finished rc, s')" for rc s'
    using no_reply_started [OF _ sysinvD(2) [OF inv] pe, of env io] en Noreply that by simp
  then show ?thesis
    using ex Noreply f by (auto simp: exec_def started_def leaks_same split: enter_result.splits elim!: bind_eq_SomeE)
qed (use ex no in \<open>auto simp: exec_def resume_def Let_def split: tstate.splits if_splits option.splits sum.splits enter_result.splits
    receive_enter_result.splits block_result.splits elim!: bind_eq_SomeE\<close>)

lemma clean_run: "run as loaded = Some \<sigma> \<Longrightarrow> \<forall>a \<in> set as. \<not> may_leak a \<Longrightarrow> leaked \<sigma> = (\<lambda>_. 0)"
proof (induction as arbitrary: \<sigma> rule: rev_induct)
  case Nil
  then show ?case by (auto simp: loaded_def)
next
  case (snoc a as)
  then obtain \<sigma>1 where s1: "run as loaded = Some \<sigma>1" "enabled a \<sigma>1" "exec a \<sigma>1 = Some \<sigma>"
    by (auto simp: run_append split: if_splits elim!: bind_eq_SomeE)
  obtain cp where "sysinv cp \<sigma>1" using reachable_sysinv [OF run_reachable [OF reachable.start s1(1)]] by blast
  from others_leak_nothing [OF this s1(2,3)] show ?case using snoc s1(1) by simp
qed

section \<open>A sender that gets a signal\<close>

lemma resume_thread:
  assumes "resume env t f c d r \<sigma> = Some (x, \<sigma>')"
  shows "threads \<sigma>' = (threads \<sigma>)(t := Idle) \<or> (\<exists>rc. threads \<sigma>' = (threads \<sigma>)(t := Spinning f c d rc))"
proof -
  obtain b s where r: "r = Some (b, s)" using assms by (auto simp: resume_def elim!: bind_eq_SomeE)
  show ?thesis by (cases b) (use assms r in \<open>auto simp: resume_def elim!: bind_eq_SomeE\<close>)
qed

lemma deliver_thread: "exec (Deliver env t) \<sigma> = Some \<sigma>' \<Longrightarrow> threads \<sigma>' = (threads \<sigma>)(t := Idle)"
  by (auto simp: exec_def split: tstate.splits elim!: bind_eq_SomeE)

lemma spin_returns:
  assumes inv: "sysinv cp \<sigma>" and th: "threads \<sigma> t = Spinning f c d rc" and free: "\<And>u. in_hand (threads \<sigma> u) \<noteq> Some d"
  shows "\<exists>\<sigma>'. exec (Wake env ms sg t) \<sigma> = Some \<sigma>' \<and> threads \<sigma>' t = Idle"
proof -
  let ?s = "kern \<sigma>" and ?H = "held_by (leaked \<sigma>) ((threads \<sigma>)(t := Idle))"
  obtain m where m: "placed ?s c d" "msgs ?s d = Some m" "task m = Some t" "\<And>ch. chans ?s c = Some ch \<Longrightarrow> d \<notin> set (waiting ch)"
    "vec_ok (vecs \<sigma> t) (data m)"
    using sysinvD(6) [OF inv, of t] th by (auto simp: thread_ok_def Let_def)
  have st: "mstate m \<noteq> QNX_STATE_RECEIVING" using sysinvD(7) [OF inv] free m(2,3) by (auto simp: delivery_inv_def)
  have kc: "kinv (holding c ?H) ?s" using held_give [OF sysinvD(1) [OF inv], of t c] sysinvD(2) [OF inv] th by simp
  show ?thesis
  proof (rule block_pending_ok [OF kc m(2,3,1,4), of rc])
    fix r s'
    assume p: "block_pending rc c d ?s = Some (Returns r, s')" "kinv ?H s'" "in_no_list d s'" "msgs s' d = Some m"
    obtain rc' ws where "finish_send env (vecs \<sigma> t) r d s' = Some (rc', ws, s'\<lparr>msgs := (msgs s')(d := None)\<rparr>)"
      using finish_send_ok [OF p(2,4,3) m(5)] by blast
    then show ?thesis using th p(1) by (simp add: exec_def resume_def)
  next
    assume "mstate m = QNX_STATE_RECEIVING"
    with st show ?thesis by simp
  qed
qed

text \<open>A sender's message that is in the hands of another thread is being delivered.\<close>

lemma hand_delivers:
  assumes "sysinv cp \<sigma>" and "in_hand (threads \<sigma> u) = Some d" and "msgs (kern \<sigma>) d = Some m" and "task m \<noteq> None"
  obtains g c ua io wrc where "threads \<sigma> u = Delivering g c d ua io wrc"
  using sysinvD(6) [OF assms(1), of u] assms(2-4) that by (cases "threads \<sigma> u") (auto simp: thread_ok_def Let_def)

text \<open>A sender whose message no receiver has in hand returns when it gets a signal.\<close>

lemma signal_returns:
  assumes inv: "sysinv cp \<sigma>" and sd: "sends (threads \<sigma> t) = Some d" and free: "\<And>u. in_hand (threads \<sigma> u) \<noteq> Some d"
  shows "\<exists>\<sigma>'. exec (Wake env ms True t) \<sigma> = Some \<sigma>' \<and> threads \<sigma>' t = Idle"
proof (cases "threads \<sigma> t")
  case (Sending f c d')
  then have d: "d' = d" using sd by simp
  let ?s = "kern \<sigma>" and ?H = "held_by (leaked \<sigma>) ((threads \<sigma>)(t := Idle))"
  obtain m where m: "placed ?s c d" "msgs ?s d = Some m" "task m = Some t" "vec_ok (vecs \<sigma> t) (data m)"
    using sysinvD(6) [OF inv, of t] Sending d by (auto simp: thread_ok_def Let_def)
  have st: "mstate m \<noteq> QNX_STATE_RECEIVING" using sysinvD(7) [OF inv] free m(2,3) by (auto simp: delivery_inv_def)
  have kc: "kinv (holding c ?H) ?s" using held_give [OF sysinvD(1) [OF inv], of t c] sysinvD(2) [OF inv] Sending by simp
  have sg: "\<not> timed_out ms m \<and> \<not> True \<longrightarrow> in_no_list d ?s" by simp
  show ?thesis
    using kc m(2,3,1) sg
  proof (cases rule: block_exit_ok)
    case (returns s' r)
    obtain rc' ws where "finish_send env (vecs \<sigma> t) r d s' = Some (rc', ws, s'\<lparr>msgs := (msgs s')(d := None)\<rparr>)"
      using finish_send_ok [OF returns(2,4,3) m(4)] by blast
    then show ?thesis using Sending d returns(1) by (simp add: exec_def resume_def)
  qed (use st in simp)
next
  case (Spinning f c d' rc)
  then show ?thesis using spin_returns [OF inv _ free] sd by simp
qed (use sd in simp_all)

lemma wake_thread:
  assumes "sends (threads \<sigma> t) = Some d" and "exec (Wake env ms sg t) \<sigma> = Some \<sigma>'"
  shows "threads \<sigma>' = (threads \<sigma>)(t := Idle) \<or> (\<exists>f c rc. threads \<sigma>' = (threads \<sigma>)(t := Spinning f c d rc))"
  using assms by (cases "threads \<sigma> t") (auto simp: exec_def dest!: resume_thread)

section \<open>A sample run\<close>

text \<open>
  Process 7 opens the device and creates a channel, process 8 opens it and attaches to that
  channel, and its thread 5 sends a message.
\<close>

definition demo_table :: qnx_connection_table_data where
  "demo_table = \<lparr>capacity = 64, maxfd = 0, conn = replicate 64 Null @ [Uninit]\<rparr>"

definition demo_attached :: qnx_connection_table_data where
  "demo_attached = demo_table\<lparr>maxfd := 1, conn := (conn demo_table)[1 := Ptr \<lparr>conn_pid = 7, conn_chid = 1\<rparr>]\<rparr>"

lemma demo_table_init: "qnx_connection_table_init 256 True = (0, Some demo_table)"
  by (simp add: qnx_connection_table_init_def qnx_connection_table_reserve_unlocked_def QNX_INITIAL_TABLE_SIZE_def
      qnx_connection_table_get_capacity_def wrap32_def demo_table_def)

lemma demo_table_add: "qnx_connection_table_add 256 ok \<lparr>conn_pid = 7, conn_chid = 1\<rparr> (Some demo_table) = Some (1, Some demo_attached)"
proof -
  have "find_free demo_table 1 = Some 1"
    by (subst find_free.simps) (simp add: demo_table_def slot_nonnull_def nth_append)
  then show ?thesis
    by (simp add: qnx_connection_table_add_def slot_write_def qnx_connection_table_get_max_def demo_attached_def)
      (simp add: demo_table_def)
qed

lemma demo_table_retrieve: "qnx_connection_table_retrieve (Some demo_attached) 1 = Some \<lparr>conn_pid = 7, conn_chid = 1\<rparr>"
  by (simp add: qnx_connection_table_retrieve_def slot_nonnull_def to_size_def demo_attached_def demo_table_def nth_append)

definition demo_entry :: "pid_t \<Rightarrow> qnx_process_entry" where
  "demo_entry p = \<lparr>pe_refcnt = 1, pid = p, channels = [], connections = Some demo_table, pending = [], pollfds = []\<rparr>"

definition demo_opened :: sys where
  "demo_opened =
     \<lparr>kern = init_kstate\<lparr>process_entries := [2, 1], procs := [1 \<mapsto> demo_entry 7, 2 \<mapsto> demo_entry 8], next_addr := 3\<rparr>,
      fds = [0 \<mapsto> (True, 1), 1 \<mapsto> (True, 2)], threads = (\<lambda>_. Idle), leaked = (\<lambda>_. 0), vecs = (\<lambda>_. None), nulls = {}\<rparr>"

definition demo_linked :: sys where
  "demo_linked =
     demo_opened\<lparr>kern := (kern demo_opened)\<lparr>
       procs := [1 \<mapsto> demo_entry 7\<lparr>channels := [3]\<rparr>, 2 \<mapsto> demo_entry 8\<lparr>connections := Some demo_attached\<rparr>],
       chans := [3 \<mapsto> \<lparr>ch_refcnt = 1, chid = 1, waiting = [], num_waiting = 0, num_waiting_noreply = 0\<rparr>],
       next_addr := 4, gbl_next_channel_id := 1\<rparr>\<rparr>"

definition demo_args :: uargs where
  "demo_args =
     \<lparr>read_attach = (\<lambda>_. Some \<lparr>att_pid = 7, att_chid = 1, att_flags = 0\<rparr>), read_msgsend = (\<lambda>_. None),
      read_msgsendv = (\<lambda>_. None), read_pulse = (\<lambda>_. None), read_receive = (\<lambda>_. None), read_reply = (\<lambda>_. None),
      read_error = (\<lambda>_. None), read_read = (\<lambda>_. None)\<rparr>"

definition demo_alone :: sched where
  "demo_alone = \<lparr>others = (\<lambda>s. s), ms_left = 0, sig_pending = False, wakes = [], wait_left = 0\<rparr>"

lemma demo_env_simps: "kmalloc demo_env a n \<longleftrightarrow> n < 4096" "copy_from_user demo_env 16 3 = Some [16, 17, 18]"
  by (simp_all add: demo_env_def upt_rec)

definition demo_first :: sys where
  "demo_first =
     \<lparr>kern = init_kstate\<lparr>process_entries := [1], procs := [1 \<mapsto> demo_entry 7], next_addr := 2\<rparr>,
      fds = [0 \<mapsto> (True, 1)], threads = (\<lambda>_. Idle), leaked = (\<lambda>_. 0), vecs = (\<lambda>_. None), nulls = {}\<rparr>"

lemma demo_open_first: "exec (Open demo_env True 7 0) loaded = Some demo_first"
  by (simp add: exec_def loaded_def qnxcomm_open_def open_check_def open_add_def qnx_driver_data_is_process_available_def init_kstate_def alloc_def
      qnx_process_entry_init_def qnx_driver_data_add_process_def store_proc_def demo_env_simps table_bytes_def
      QNX_INITIAL_TABLE_SIZE_def demo_table_init demo_entry_def demo_first_def)

lemma demo_run_open: "run [Open demo_env True 7 0, Open demo_env True 8 1] loaded = Some demo_opened"
proof -
  have "exec (Open demo_env True 8 1) demo_first = Some demo_opened"
    by (simp add: exec_def qnxcomm_open_def open_check_def open_add_def qnx_driver_data_is_process_available_def init_kstate_def alloc_def
        qnx_process_entry_init_def qnx_driver_data_add_process_def store_proc_def demo_env_simps table_bytes_def
        QNX_INITIAL_TABLE_SIZE_def demo_table_init demo_entry_def demo_opened_def demo_first_def)
  then show ?thesis using demo_open_first by (simp add: loaded_def demo_first_def)
qed

lemmas demo_states = demo_opened_def demo_linked_def demo_entry_def init_kstate_def

lemma demo_run_link:
  "run [Call demo_env demo_args demo_alone 4 7 0 QNX_IO_CHANNELCREATE 1,
        Call demo_env demo_args demo_alone 5 8 1 QNX_IO_CONNECTATTACH 1] demo_opened = Some demo_linked"
proof -
  let ?\<sigma> = "demo_linked\<lparr>kern := (kern demo_linked)\<lparr>procs := [1 \<mapsto> demo_entry 7\<lparr>channels := [3]\<rparr>, 2 \<mapsto> demo_entry 8]\<rparr>\<rparr>"
  have "exec (Call demo_env demo_args demo_alone 4 7 0 QNX_IO_CHANNELCREATE 1) demo_opened = Some ?\<sigma>"
    by (simp add: exec_def private_data_def demo_states qnxcomm_ioctl_def ioctl_dispatch_def no_write_def qnx_process_entry_add_channel_def alloc_def
        qnx_channel_init_def get_new_channel_id_def wrap32_def get_num_channels_unlocked_def demo_env_simps store_proc_def
        store_chan_def fun_upd_twist Let_def)
  moreover have "exec (Call demo_env demo_args demo_alone 5 8 1 QNX_IO_CONNECTATTACH 1) ?\<sigma> = Some demo_linked"
    by (simp add: exec_def private_data_def demo_states qnxcomm_ioctl_def ioctl_dispatch_def no_write_def qnx_process_entry_add_connection_def demo_args_def
        qnx_driver_data_find_process_def process_entry_get_def qnx_process_entry_is_channel_available_def demo_env_simps
        qnx_connection_init_def demo_table_add store_proc_def qnx_process_entry_release_def table_bytes_def Let_def)
      (simp add: fun_upd_twist)
  ultimately show ?thesis
    by (simp add: demo_env_ok sleeps_def demo_args_def demo_states)
qed

definition demo_letter :: qnx_internal_msgsend where
  "demo_letter =
     \<lparr>rcvid = 1, status = 0, sender_pid = 8, receiver_pid = 7, receiver_chid = 1,
      data = Msg \<lparr>km_coid = 1, km_timeout_ms = - 1, km_in_buf = [16, 17, 18], km_in_len = 3, km_out = \<lparr>iov_base = 64, iov_len = 2\<rparr>\<rparr>,
      reply_base = None, reply_len = 0, task = Some 5, mstate = QNX_STATE_INITIAL\<rparr>"

definition demo_asleep :: sys where
  "demo_asleep =
     demo_linked\<lparr>kern := (kern demo_linked)\<lparr>
       chans := [3 \<mapsto> \<lparr>ch_refcnt = 2, chid = 1, waiting = [4], num_waiting = 1, num_waiting_noreply = 0\<rparr>],
       msgs := [4 \<mapsto> demo_letter], next_addr := 5, gbl_next_rcvid := 1, running := (\<lambda>_. True)(5 := False)\<rparr>,
       threads := (\<lambda>_. Idle)(5 := Sending 1 3 4)\<rparr>"

lemma demo_send: "perform (Send demo_env demo_io 5 1) demo_linked = Some (None, demo_asleep)"
  by (simp add: demo_states demo_io_def handle_msgsend_enter_def qnx_internal_msgsend_init_def demo_env_simps get_new_rcvid_def
      wrap32_def fresh_msgsend_def qnx_process_entry_find_connection_def demo_table_retrieve qnx_conn_is_valid_def
      qnx_driver_data_find_channel_def qnx_driver_data_find_process_def process_entry_get_def channel_enqueue_def
      qnx_process_entry_find_channel_def qnx_process_entry_release_def alloc_def block_enter_def set_interruptible_def
      qnx_channel_add_new_message_def channel_get_def store_proc_def store_chan_def set_thread_def demo_asleep_def
      demo_letter_def fun_upd_idem Let_def)
    (simp add: fun_upd_twist numeral_2_eq_2)

lemma demo_run_send: "run [Send demo_env demo_io 5 1] demo_linked = Some demo_asleep"
  using demo_send by (simp add: exec_def demo_env_ok demo_states demo_io_def int_range_def del: perform.simps)

lemma demo_reachable: "reachable demo_linked" "reachable demo_asleep"
proof -
  show r: "reachable demo_linked"
    by (rule run_reachable [OF run_reachable [OF reachable.start demo_run_open] demo_run_link])
  show "reachable demo_asleep" by (rule run_reachable [OF r demo_run_send])
qed

lemma demo_asleep_simps:
  "threads demo_asleep 5 = Sending 1 3 4" "u \<noteq> 5 \<Longrightarrow> threads demo_asleep u = Idle" "\<not> running (kern demo_asleep) 5"
  "procs (kern demo_asleep) e = Some pe \<Longrightarrow> pending pe = []"
  by (auto simp: demo_asleep_def demo_states split: if_splits)

lemma demo_open_close: "\<exists>\<sigma>. run [Open demo_env True 7 0, Close 0] loaded = Some \<sigma> \<and> threads \<sigma> = (\<lambda>_. Idle) \<and>
  fds \<sigma> = Map.empty"
proof -
  have "enabled (Open demo_env True 7 0) loaded" by (simp add: loaded_def)
  moreover have o: "exec (Open demo_env True 7 0) loaded = Some demo_first" by (rule demo_open_first)
  moreover have c: "enabled (Close 0) demo_first" by (auto simp: demo_first_def intro: exI [of _ True])
  moreover have "sysinv (\<lambda>_. 0) demo_first"
    using open_step [OF sysinv_loaded calculation(1), of "\<lambda>_. 0"] o by (auto simp: exec_def step_ok_def)
  moreover obtain \<sigma> where "exec (Close 0) demo_first = Some \<sigma>" using close_step [OF calculation(4) c] by (auto simp: exec_def)
  moreover from this have "threads \<sigma> = (\<lambda>_. Idle)" "fds \<sigma> = Map.empty"
    by (auto simp: exec_def demo_first_def elim!: bind_eq_SomeE)
  ultimately show ?thesis by (simp del: enabled_simps)
qed

section \<open>Properties\<close>



text \<open>
  C5. In every reachable state the kernel invariant holds for exactly the references that threads
  hold and that were leaked: a channel has one reference for the process that owns it, one for
  each thread in a call on it, and those that calls did not give back; a process entry has one
  for each open file, and is on the list.
\<close>

theorem reachable_references:
  assumes "reachable \<sigma>"
  shows "kinv (held_by (leaked \<sigma>) (threads \<sigma>)) (kern \<sigma>) \<and>
    (\<forall>c ch. chans (kern \<sigma>) c = Some ch \<longrightarrow>
      ch_refcnt ch = (if \<exists>e. owns (kern \<sigma>) e c then 1 else 0) + card {t. channel_held (threads \<sigma> t) = Some c} + leaked \<sigma> c) \<and>
    (\<forall>e pe. procs (kern \<sigma>) e = Some pe \<longrightarrow>
      e \<in> set (process_entries (kern \<sigma>)) \<and> pe_refcnt pe = card {f. \<exists>b. fds \<sigma> f = Some (b, e)})"
proof (intro conjI allI impI)
  obtain cp where inv: "sysinv cp \<sigma>" using reachable_sysinv [OF assms] by blast
  show k: "kinv (held_by (leaked \<sigma>) (threads \<sigma>)) (kern \<sigma>)" by (rule sysinvD(2) [OF inv])
  show "ch_refcnt ch = (if \<exists>e. owns (kern \<sigma>) e c then 1 else 0) + card {t. channel_held (threads \<sigma> t) = Some c} + leaked \<sigma> c"
    if "chans (kern \<sigma>) c = Some ch" for c ch
    using refs_at [OF k that] by (simp add: refs_def owned_def owns_def held_by_def)
  fix e pe
  assume "procs (kern \<sigma>) e = Some pe"
  then have "entry_of (kern \<sigma>) e = Some (pid pe, pe_refcnt pe)" by (simp add: entry_of_def)
  then show "e \<in> set (process_entries (kern \<sigma>))" "pe_refcnt pe = card {f. \<exists>b. fds \<sigma> f = Some (b, e)}"
    using files_count(1) [OF sysinvD(3) [OF inv]] files_invD(3) [OF sysinvD(3) [OF inv]] by auto
qed

theorem reachable_references_witness:
  "kinv (held_by (leaked demo_linked) (threads demo_linked)) (kern demo_linked) \<and> 1 \<in> set (process_entries (kern demo_linked))"
proof -
  have "procs (kern demo_linked) 1 = Some (demo_entry 7\<lparr>channels := [3]\<rparr>)" by (simp add: demo_linked_def)
  then show ?thesis using reachable_references [OF demo_reachable(1)] by blast
qed



text \<open>
  C9. When all files are closed and no thread is in a call, no process entry and no message of a
  sender is left, and the channels that are left are those whose references were leaked. Only
  poll and the vector calls leak references: after a history without them no channel is left.
\<close>

theorem nothing_left_behind:
  assumes "run as loaded = Some \<sigma>" and "\<And>t. threads \<sigma> t = Idle" and "\<And>f. fds \<sigma> f = None"
  shows "procs (kern \<sigma>) = Map.empty \<and> process_entries (kern \<sigma>) = [] \<and> (\<forall>d m. msgs (kern \<sigma>) d = Some m \<longrightarrow> task m = None) \<and>
    dom (chans (kern \<sigma>)) = {c. 0 < leaked \<sigma> c} \<and> ((\<forall>a \<in> set as. \<not> may_leak a) \<longrightarrow> chans (kern \<sigma>) = Map.empty)"
proof -
  obtain cp where inv: "sysinv cp \<sigma>" using reachable_sysinv [OF run_reachable [OF reachable.start assms(1)]] by blast
  have k: "kinv (held_by (leaked \<sigma>) (threads \<sigma>)) (kern \<sigma>)" by (rule sysinvD(2) [OF inv])
  have "entry_of (kern \<sigma>) e = None" for e using files_invD(2) [OF sysinvD(3) [OF inv], of e] assms(3) by (metis option.simps(3))
  then have p: "procs (kern \<sigma>) = Map.empty" by (auto simp: entry_of_def fun_eq_iff)
  then have "process_entries (kern \<sigma>) = []" using kinv_entry_alive [OF k] by (cases "process_entries (kern \<sigma>)") force+
  moreover have left: "dom (chans (kern \<sigma>)) = {c. 0 < leaked \<sigma> c}"
    using kinvD(3) [OF k] p assms(2) unfolding refs_inv_def refs_def owned_def held_by_def by (auto dest: domD) blast
  moreover have "chans (kern \<sigma>) = Map.empty" if "\<forall>a \<in> set as. \<not> may_leak a"
    using left clean_run [OF assms(1) that] by simp
  moreover have "task m = None" if "msgs (kern \<sigma>) d = Some m" for d m
    using sysinvD(5) [OF inv] that assms(2) by (cases "task m") (auto simp: tasks_inv_def)
  ultimately show ?thesis using p by auto
qed

theorem nothing_left_behind_witness:
  "\<exists>\<sigma>. run [Open demo_env True 7 0, Close 0] loaded = Some \<sigma> \<and> procs (kern \<sigma>) = Map.empty \<and> chans (kern \<sigma>) = Map.empty"
proof -
  obtain \<sigma> where s: "run [Open demo_env True 7 0, Close 0] loaded = Some \<sigma>" "threads \<sigma> = (\<lambda>_. Idle)" "fds \<sigma> = Map.empty"
    using demo_open_close by blast
  then show ?thesis using nothing_left_behind [OF s(1)] by (intro exI [of _ \<sigma>]) (simp del: run.simps)
qed

text \<open>
  C7. No sender is forgotten: a thread that sleeps in \<open>MsgSend\<close> in a reachable state has its message on
  the queue of the channel it holds, or on the pending list of a listed process, the one the
  message is for, or a receiver has just taken it and is about to deliver it. So whenever the
  message leaves these places, because it was answered or because its receiver is gone, the
  thread has been woken.
\<close>

theorem no_sender_is_forgotten:
  assumes "reachable \<sigma>" and "threads \<sigma> t = Sending f c d" and "\<not> running (kern \<sigma>) t"
  shows "(\<exists>ch. chans (kern \<sigma>) c = Some ch \<and> d \<in> set (waiting ch)) \<or>
    (\<exists>e pe m. e \<in> set (process_entries (kern \<sigma>)) \<and> procs (kern \<sigma>) e = Some pe \<and> d \<in> set (pending pe) \<and>
      msgs (kern \<sigma>) d = Some m \<and> receiver_pid m = pid pe) \<or>
    (\<exists>u g c' ua io wrc. threads \<sigma> u = Delivering g c' d ua io wrc)"
proof -
  obtain cp where inv: "sysinv cp \<sigma>" using reachable_sysinv [OF assms(1)] by blast
  obtain m where m: "msgs (kern \<sigma>) d = Some m" "task m = Some t" "placed (kern \<sigma>) c d"
    "\<not> in_no_list d (kern \<sigma>) \<or> mstate m = QNX_STATE_RECEIVING"
    using sysinvD(6) [OF inv, of t] assms(2,3) by (auto simp: thread_ok_def Let_def)
  consider x ch where "chans (kern \<sigma>) x = Some ch" "d \<in> set (waiting ch)"
    | e pe where "procs (kern \<sigma>) e = Some pe" "d \<in> set (pending pe)"
    | "mstate m = QNX_STATE_RECEIVING"
    using m(4) unfolding in_no_list_def by blast
  then show ?thesis
  proof cases
    case 1
    then show ?thesis using m(3) unfolding placed_def by blast
  next
    case 2
    then show ?thesis using m(1,3) unfolding placed_def by metis
  next
    case 3
    then obtain u where "in_hand (threads \<sigma> u) = Some d"
      using sysinvD(7) [OF inv] m(1,2) unfolding delivery_inv_def by fastforce
    moreover have "task m \<noteq> None" using m(2) by simp
    ultimately obtain g c' ua io wrc where "threads \<sigma> u = Delivering g c' d ua io wrc"
      by (rule hand_delivers [OF inv _ m(1)])
    then show ?thesis by blast
  qed
qed

theorem no_sender_is_forgotten_witness: "\<exists>ch. chans (kern demo_asleep) 3 = Some ch \<and> 4 \<in> set (waiting ch)"
proof -
  have "threads demo_asleep u \<noteq> Delivering g c' 4 ua io wrc" for u g c' ua io wrc
    using demo_asleep_simps(1,2) by (cases "u = 5") simp_all
  moreover have "pending pe \<noteq> []" if "d \<in> set (pending pe)" for d :: addr and pe using that by auto
  ultimately show ?thesis
    using no_sender_is_forgotten [OF demo_reachable(2) demo_asleep_simps(1,3)] demo_asleep_simps(4) by blast
qed

text \<open>
  C8. A signal ends the call of a sender. In every state that careful steps reach, a thread that is in
  \<open>MsgSend\<close> or \<open>MsgSendv\<close>, wherever its message is, can run as soon as it gets a signal. Its call is then
  over, whether the message was still queued, had been received but not answered, or was answered.
  The only exception is a message that some thread \<open>u\<close> is just delivering: then the delivery by \<open>u\<close> is
  possible, and after it the sender's next round of the loop, with a signal or without, ends the call.
\<close>

theorem signal_ends_send:
  assumes "reachable \<sigma>" and "sends (threads \<sigma> t) = Some d"
  shows "\<exists>\<sigma>1. run [Wake env ms True t] \<sigma> = Some \<sigma>1 \<and>
    (threads \<sigma>1 t = Idle \<or>
     (\<exists>u \<sigma>2. in_hand (threads \<sigma> u) = Some d \<and> run [Deliver env' u, Wake env'' ms' sg t] \<sigma>1 = Some \<sigma>2 \<and> threads \<sigma>2 t = Idle))"
proof -
  obtain cp where inv: "sysinv cp \<sigma>" using reachable_sysinv [OF assms(1)] by blast
  have en: "enabled (Wake env ms True t) \<sigma>" using assms(2) by (cases "threads \<sigma> t") simp_all
  obtain \<sigma>1 where s1: "exec (Wake env ms True t) \<sigma> = Some \<sigma>1" "sysinv cp \<sigma>1"
    using wake_step [OF inv en] by (auto simp: exec_def step_ok_def)
  have first: "run [Wake env ms True t] \<sigma> = Some \<sigma>1" using en s1(1) by (simp del: enabled_simps)
  show ?thesis
  proof (cases "threads \<sigma>1 t = Idle")
    case False
    then obtain f c rc where T1: "threads \<sigma>1 = (threads \<sigma>)(t := Spinning f c d rc)"
      using wake_thread [OF assms(2) s1(1)] by auto
    obtain u where u: "in_hand (threads \<sigma> u) = Some d"
      using signal_returns [OF inv assms(2), of env ms] s1(1) False by auto
    obtain m where m: "msgs (kern \<sigma>1) d = Some m" "task m \<noteq> None"
      using sysinvD(6) [OF s1(2), of t] T1 by (auto simp: thread_ok_def Let_def)
    have "u \<noteq> t" using u assms(2) by (cases "threads \<sigma> t") auto
    then have u1: "in_hand (threads \<sigma>1 u) = Some d" using u T1 by simp
    then obtain g c' ua io wrc where del: "threads \<sigma>1 u = Delivering g c' d ua io wrc" by (rule hand_delivers [OF s1(2) _ m])
    then have sole: "\<And>v. v \<noteq> u \<Longrightarrow> in_hand (threads \<sigma>1 v) \<noteq> Some d"
      using sysinvD(6) [OF s1(2), of u] by (auto simp: thread_ok_def Let_def)
    have en2: "enabled (Deliver env' u) \<sigma>1" using del by simp
    obtain \<sigma>x where sx: "exec (Deliver env' u) \<sigma>1 = Some \<sigma>x" "sysinv cp \<sigma>x"
      using deliver_step [OF s1(2) en2] by (auto simp: exec_def step_ok_def)
    have T: "threads \<sigma>x = (threads \<sigma>1)(u := Idle)" by (rule deliver_thread [OF sx(1)])
    have th: "threads \<sigma>x t = Spinning f c d rc" using T T1 \<open>u \<noteq> t\<close> by simp
    have free: "\<And>v. in_hand (threads \<sigma>x v) \<noteq> Some d" using sole by (simp add: T)
    obtain \<sigma>2 where s2: "exec (Wake env'' ms' sg t) \<sigma>x = Some \<sigma>2" "threads \<sigma>2 t = Idle"
      using spin_returns [OF sx(2) th free] by blast
    have "run [Deliver env' u, Wake env'' ms' sg t] \<sigma>1 = Some \<sigma>2" using en2 th sx(1) s2(1) by simp
    then show ?thesis using first u s2(2) by blast
  qed (use first in blast)
qed

theorem signal_ends_send_witness:
  "\<exists>\<sigma>1. run [Wake demo_env 0 True 5] demo_asleep = Some \<sigma>1 \<and> threads \<sigma>1 5 = Idle"
proof -
  have "in_hand (threads demo_asleep u) \<noteq> Some 4" for u
    using demo_asleep_simps(1,2) by (cases "u = 5") simp_all
  then show ?thesis
    using signal_ends_send [OF demo_reachable(2), of 5 4 demo_env 0] demo_asleep_simps(1) by auto
qed

end
