(* ===== verification/Protocol_Exchange.thy ===== *)
theory Protocol_Exchange
  imports Protocol_Props
begin

text \<open>
  Exchanges among other threads: what a sender puts into a message reaches the receiver, and the
  reply reaches the sender, whatever steps other threads take in between. At the end, what becomes
  of a receive without timeout.
\<close>

section \<open>Messages in flight\<close>

text \<open>A run in which the sender \<open>t\<close> takes no step.\<close>

definition without :: "tid \<Rightarrow> action list \<Rightarrow> bool" where
  "without t as \<longleftrightarrow> (\<forall>a \<in> set as. t \<notin> actors a)"

lemma step_keeps:
  assumes "reachable \<sigma>" and "enabled a \<sigma>" and "perform a \<sigma> = Some (r, \<sigma>')" and "t \<notin> actors a"
    and "sends (threads \<sigma> t) = Some d" and "msgs (kern \<sigma>) d = Some m"
  shows "threads \<sigma>' t = threads \<sigma> t" and "vecs \<sigma>' t = vecs \<sigma> t"
    and "\<exists>m'. msgs (kern \<sigma>') d = Some m' \<and> letter m' = letter m"
    and "woken \<sigma> t \<Longrightarrow> woken \<sigma>' t" and "woken \<sigma> t \<Longrightarrow> msgs (kern \<sigma>') d = Some m"
proof -
  obtain cp where "sysinv cp \<sigma>" using reachable_sysinv [OF assms(1)] by blast
  then have "kept (actors a) \<sigma> \<sigma>'" using every_step [OF _ assms(2)] assms(3) by (auto simp: step_ok_def)
  note k = this [unfolded kept_def, rule_format, of t d m]
  show "threads \<sigma>' t = threads \<sigma> t" "vecs \<sigma>' t = vecs \<sigma> t" "\<exists>m'. msgs (kern \<sigma>') d = Some m' \<and> letter m' = letter m"
    "woken \<sigma> t \<Longrightarrow> woken \<sigma>' t" "woken \<sigma> t \<Longrightarrow> msgs (kern \<sigma>') d = Some m"
    using k assms(4-6) by blast+
qed

lemma run_keeps:
  assumes "reachable \<sigma>" and "run as \<sigma> = Some \<sigma>'" and "without t as"
    and "sends (threads \<sigma> t) = Some d" and "msgs (kern \<sigma>) d = Some m"
  shows "threads \<sigma>' t = threads \<sigma> t \<and> vecs \<sigma>' t = vecs \<sigma> t \<and>
    (\<exists>m'. msgs (kern \<sigma>') d = Some m' \<and> letter m' = letter m) \<and>
    (woken \<sigma> t \<longrightarrow> woken \<sigma>' t \<and> msgs (kern \<sigma>') d = Some m)"
  using assms
proof (induction as arbitrary: \<sigma> m)
  case (Cons a as)
  from Cons.prems(2) obtain \<sigma>1 where a: "enabled a \<sigma>" "exec a \<sigma> = Some \<sigma>1" "run as \<sigma>1 = Some \<sigma>'"
    by (auto split: if_splits elim!: bind_eq_SomeE)
  then obtain r where p: "perform a \<sigma> = Some (r, \<sigma>1)" by (auto simp: exec_def)
  have t: "t \<notin> actors a" "without t as" using Cons.prems(3) by (simp_all add: without_def)
  note s = step_keeps [OF Cons.prems(1) a(1) p t(1) Cons.prems(4,5)]
  obtain m1 where m1: "msgs (kern \<sigma>1) d = Some m1" "letter m1 = letter m" using s(3) by blast
  have "sends (threads \<sigma>1 t) = Some d" using s(1) Cons.prems(4) by simp
  note IH = Cons.IH [OF reachable.step [OF Cons.prems(1) a(1,2)] a(3) t(2) this m1(1)]
  show ?case
    using IH s m1 by (cases "woken \<sigma> t") auto
qed simp

section \<open>A sample exchange\<close>

text \<open>
  Thread 4 of process 7 takes the message of the sleeping thread 5, which is then pending, and
  answers it with two bytes.
\<close>

definition demo_rio :: qnx_io_receive where
  "demo_rio = \<lparr>rcv_chid = 1, rcv_timeout_ms = 50, rcv_out = \<lparr>iov_base = 32, iov_len = 2\<rparr>, rcv_info = zero_info\<rparr>"

definition demo_channel :: "nat \<Rightarrow> qnx_channel" where
  "demo_channel n = \<lparr>ch_refcnt = n, chid = 1, waiting = [], num_waiting = 0, num_waiting_noreply = 0\<rparr>"

definition demo_waiting :: "qnx_io_receive \<Rightarrow> sys" where
  "demo_waiting io =
     demo_asleep\<lparr>kern := (kern demo_asleep)\<lparr>
       chans := [3 \<mapsto> \<lparr>ch_refcnt = 3, chid = 1, waiting = [4], num_waiting = 1, num_waiting_noreply = 0\<rparr>]\<rparr>,
       threads := (threads demo_asleep)(4 := Waiting 0 3 512 io)\<rparr>"

definition demo_taken :: sys where
  "demo_taken =
     demo_asleep\<lparr>kern := (kern demo_asleep)\<lparr>
       chans := [3 \<mapsto> demo_channel 3], msgs := [4 \<mapsto> demo_letter\<lparr>mstate := QNX_STATE_RECEIVING\<rparr>]\<rparr>,
       threads := (threads demo_asleep)(4 := Delivering 0 3 4 512 demo_rio 1)\<rparr>"

definition demo_pending :: sys where
  "demo_pending =
     demo_taken\<lparr>kern := (kern demo_taken)\<lparr>
       chans := [3 \<mapsto> demo_channel 2], msgs := [4 \<mapsto> demo_letter\<lparr>mstate := QNX_STATE_PENDING\<rparr>],
       procs := (procs (kern demo_asleep))(1 \<mapsto> demo_entry 7\<lparr>channels := [3], pending := [4]\<rparr>)\<rparr>,
       threads := (threads demo_asleep)(4 := Idle)\<rparr>"

definition demo_answer :: uargs where
  "demo_answer = demo_args\<lparr>read_reply := (\<lambda>_. Some \<lparr>rep_rcvid = 1, rep_status = 9, rep_in = \<lparr>iov_base = 16, iov_len = 3\<rparr>\<rparr>)\<rparr>"

lemma demo_run_recv: "rcv_chid io = 1 \<Longrightarrow> run [Recv 512 io 4 0] demo_asleep = Some (demo_waiting io)"
  by (simp add: exec_def demo_waiting_def demo_asleep_def demo_states set_thread_def handle_msgreceive_enter_def
      qnx_process_entry_find_channel_def channel_get_def store_chan_def)

lemma demo_run_take: "run [Recv 512 demo_rio 4 0, Take 1 4] demo_asleep = Some demo_taken"
proof -
  have "run [Take 1 4] (demo_waiting demo_rio) = Some demo_taken"
    by (simp add: exec_def demo_taken_def demo_waiting_def demo_asleep_def demo_states demo_channel_def demo_letter_def
        set_thread_def handle_msgreceive_take_def channel_dequeue_def wrap32_def Let_def)
  moreover have "run [Recv 512 demo_rio 4 0] demo_asleep = Some (demo_waiting demo_rio)"
    by (rule demo_run_recv) (simp add: demo_rio_def)
  ultimately show ?thesis
    using run_append [of "[Recv 512 demo_rio 4 0]" "[Take 1 4]" demo_asleep] by (simp del: run.simps)
qed

lemma demo_run_deliver: "run [Deliver demo_env 4] demo_taken = Some demo_pending"
  by (simp add: exec_def demo_pending_def demo_taken_def demo_asleep_def demo_states demo_rio_def demo_channel_def demo_letter_def
      set_thread_def handle_msgreceive_finish_def deliver_message_def qnx_process_entry_add_pending_def qnx_channel_release_def
      store_proc_def demo_env_def Let_def)

lemma demo_exchange_reachable: "reachable demo_pending"
  by (rule run_reachable [OF run_reachable [OF demo_reachable(2) demo_run_take] demo_run_deliver])

section \<open>The request\<close>

text \<open>The message of a sender that went to sleep.\<close>

lemma blocked_message:
  assumes "handle_msgsend_enter env (Some io) t e s = Some (Blocked c d, s')" and "procs s e = Some pe"
    and "0 \<le> gbl_next_rcvid s" and "gbl_next_rcvid s < 2 ^ 31 - 1"
    and "copy_from_user env (iov_base (ms_in io)) (iov_len (ms_in io)) = Some bs"
  shows "\<exists>m. msgs s' d = Some m \<and> rcvid m = gbl_next_rcvid s + 1 \<and> sender_pid m = pid pe \<and>
    data m = Msg \<lparr>km_coid = ms_coid io, km_timeout_ms = ms_timeout_ms io, km_in_buf = bs,
      km_in_len = iov_len (ms_in io), km_out = ms_out io\<rparr>"
  using assms wrap32_small [of "gbl_next_rcvid s + 1"]
  by (auto simp: handle_msgsend_enter_def qnx_internal_msgsend_init_def get_new_rcvid_def fresh_msgsend_def block_enter_def
      qnx_channel_add_new_message_def set_interruptible_def Let_def case_prod_beta split: option.splits if_splits
      elim!: bind_eq_SomeE)

lemma send_message:
  assumes "sysinv cp \<sigma>" and "enabled (Send env io t f) \<sigma>" and "perform (Send env io t f) \<sigma> = Some (None, \<sigma>1)"
    and "fds \<sigma> f = Some (b, e)" and "procs (kern \<sigma>) e = Some pe"
    and "copy_from_user env (iov_base (ms_in io)) (iov_len (ms_in io)) = Some bs"
  obtains c d m where "threads \<sigma>1 t = Sending f c d" and "vecs \<sigma>1 t = None" and "msgs (kern \<sigma>1) d = Some m"
    and "rcvid m = gbl_next_rcvid (kern \<sigma>) + 1" and "sender_pid m = pid pe"
    and "data m = Msg \<lparr>km_coid = ms_coid io, km_timeout_ms = ms_timeout_ms io, km_in_buf = bs,
      km_in_len = iov_len (ms_in io), km_out = ms_out io\<rparr>"
proof -
  obtain c d s' where r: "handle_msgsend_enter env (Some io) t e (kern \<sigma>) = Some (Blocked c d, s')"
    and s1: "\<sigma>1 = set_thread t (Sending f c d) s' (\<sigma>\<lparr>vecs := (vecs \<sigma>)(t := None)\<rparr>)"
    using assms(3,4) by (auto split: enter_result.splits elim!: bind_eq_SomeE)
  have r0: "0 \<le> gbl_next_rcvid (kern \<sigma>)" "gbl_next_rcvid (kern \<sigma>) < 2 ^ 31 - 1"
    using kinvD(6) [OF sysinvD(2) [OF assms(1)]] assms(2) by (simp_all add: msgs_inv_def)
  show thesis using blocked_message [OF r assms(5) r0 assms(6)] s1 that by auto
qed

text \<open>The receiver that has taken the message is handed its contents, and the message is pending.\<close>

lemma deliver_message_step:
  assumes inv: "sysinv cp \<sigma>" and th: "threads \<sigma> r = Delivering g c d ua rio wrc" and m: "msgs (kern \<sigma>) d = Some m"
    and k: "data m = Msg k" "task m \<noteq> None" and user: "store_to_user env ua"
      "copy_to_user env (iov_base (rcv_out rio)) (take (iov_len (rcv_out rio)) (km_in_buf k))"
  obtains i b q qe \<sigma>' where "perform (Deliver env r) \<sigma> =
      Some (Some (rcvid m, [Bytes (iov_base (rcv_out rio)) (take (iov_len (rcv_out rio)) (km_in_buf k)),
        Receive_info ua (rio\<lparr>rcv_info := info_of i (sender_pid m) k\<rparr>)]), \<sigma>')"
    and "fds \<sigma>' g = Some (b, q)" and "procs (kern \<sigma>') q = Some qe" and "d \<in> set (pending qe)"
proof -
  let ?s = "kern \<sigma>" and ?H = "held_by (leaked \<sigma>) ((threads \<sigma>)(r := Idle))"
  have kc: "kinv (holding c ?H) ?s" using held_give [OF sysinvD(1) [OF inv], of r c] sysinvD(2) [OF inv] th by simp
  obtain b q qe where w: "fds \<sigma> g = Some (b, q)" "procs ?s q = Some qe" "in_no_list d ?s"
    using sysinvD(6) [OF inv, of r] th by (auto simp: thread_ok_def Let_def)
  obtain ch where ch: "chans ?s c = Some ch" using kinv_held [OF kc, of c] by auto
  have ok: "payload_ok m" "0 \<le> rcvid m" using kinv_msg [OF kc m] by simp_all
  note del = message_delivered [OF ok k user, of wrc "chid ch"]
  show thesis
    using kc w(2) m w(3) ch del
  proof (cases rule: receive_finish_ok)
    case (pend s')
    show thesis
      by (rule that [of _ "set_thread r Idle s' \<sigma>" b q "qe\<lparr>pending := d # pending qe\<rparr>"]) (use th w pend(4,7) in simp_all)
  qed (use k(2) message_rcvid [OF ok k(1)] in simp_all)
qed

text \<open>
  C2. A request reaches its receiver unchanged. A thread goes to sleep in \<open>MsgSend\<close>, and any number of
  steps of other threads follow, until a receiver has taken its message off the queue. Then the
  receiver is handed the receive id of the message, the bytes that the sender had in its buffer
  when it called, cut to the receiver's buffer, and the sender's process id and connection id. The
  message is pending for the receiver's process, and the sender is still in its call.
\<close>

theorem request_reaches_receiver:
  assumes "reachable \<sigma>" and "enabled (Send env io t f) \<sigma>" and "perform (Send env io t f) \<sigma> = Some (None, \<sigma>1)"
    and "fds \<sigma> f = Some (b, e)" and "procs (kern \<sigma>) e = Some pe"
    and "copy_from_user env (iov_base (ms_in io)) (iov_len (ms_in io)) = Some bs"
    and "run as \<sigma>1 = Some \<sigma>2" and "without t as"
    and "threads \<sigma>2 r = Delivering g c d ua rio wrc" and "sends (threads \<sigma>1 t) = Some d"
    and "store_to_user renv ua" and "copy_to_user renv (iov_base (rcv_out rio)) (take (iov_len (rcv_out rio)) bs)"
  shows "\<exists>i b' q qe \<sigma>3. perform (Deliver renv r) \<sigma>2 =
      Some (Some (gbl_next_rcvid (kern \<sigma>) + 1, [Bytes (iov_base (rcv_out rio)) (take (iov_len (rcv_out rio)) bs),
        Receive_info ua (rio\<lparr>rcv_info := i\<rparr>)]), \<sigma>3) \<and>
    info_pid i = pid pe \<and> info_coid i = ms_coid io \<and> msglen i = int (length bs) \<and>
    fds \<sigma>3 g = Some (b', q) \<and> procs (kern \<sigma>3) q = Some qe \<and> d \<in> set (pending qe) \<and> threads \<sigma>3 t = threads \<sigma>1 t"
proof -
  let ?k = "\<lparr>km_coid = ms_coid io, km_timeout_ms = ms_timeout_ms io, km_in_buf = bs,
      km_in_len = iov_len (ms_in io), km_out = ms_out io\<rparr>"
  obtain cp where inv: "sysinv cp \<sigma>" using reachable_sysinv [OF assms(1)] by blast
  obtain c' d' m where s: "threads \<sigma>1 t = Sending f c' d'" "msgs (kern \<sigma>1) d' = Some m" "rcvid m = gbl_next_rcvid (kern \<sigma>) + 1"
    "sender_pid m = pid pe" "data m = Msg ?k"
    by (rule send_message [OF inv assms(2-6)])
  have d: "d' = d" using s(1) assms(10) by simp
  have "exec (Send env io t f) \<sigma> = Some \<sigma>1" using assms(3) by (simp add: exec_def)
  then have r1: "reachable \<sigma>1" by (rule reachable.step [OF assms(1,2)])
  note kp = run_keeps [OF r1 assms(7,8,10) s(2) [unfolded d]]
  have r2: "reachable \<sigma>2" by (rule run_reachable [OF r1 assms(7)])
  obtain cp2 where inv2: "sysinv cp2 \<sigma>2" using reachable_sysinv [OF r2] by blast
  obtain m2 where m2: "msgs (kern \<sigma>2) d = Some m2" "letter m2 = letter m" using kp by blast
  have t2: "threads \<sigma>2 t = Sending f c' d" using kp s(1) d by simp
  then have tm: "task m2 \<noteq> None" using sysinvD(6) [OF inv2, of t] m2(1) by (auto simp: thread_ok_def Let_def)
  have same: "data m2 = Msg ?k" "rcvid m2 = gbl_next_rcvid (kern \<sigma>) + 1" "sender_pid m2 = pid pe"
    using m2(2) s(3-5) by (simp_all add: letter_def)
  have len: "length bs = iov_len (ms_in io)" using assms(2,6) kenv_okD(1) by (auto simp del: perform.simps)
  have fit: "copy_to_user renv (iov_base (rcv_out rio)) (take (iov_len (rcv_out rio)) (km_in_buf ?k))" using assms(12) by simp
  obtain i b' q qe \<sigma>3 where dl: "perform (Deliver renv r) \<sigma>2 =
      Some (Some (rcvid m2, [Bytes (iov_base (rcv_out rio)) (take (iov_len (rcv_out rio)) (km_in_buf ?k)),
        Receive_info ua (rio\<lparr>rcv_info := info_of i (sender_pid m2) ?k\<rparr>)]), \<sigma>3)"
    "fds \<sigma>3 g = Some (b', q)" "procs (kern \<sigma>3) q = Some qe" "d \<in> set (pending qe)"
    by (rule deliver_message_step [OF inv2 assms(9) m2(1) same(1) tm assms(11) fit])
  have "t \<notin> actors (Deliver renv r)" using t2 assms(9) by auto
  then have "threads \<sigma>3 t = threads \<sigma>1 t"
    using step_keeps(1) [OF r2 _ dl(1) _ _ m2(1)] assms(9) t2 s(1) d by simp
  then show ?thesis
    using dl same(2,3) len
    by (intro exI [of _ "info_of i (sender_pid m2) ?k"] exI [of _ b'] exI [of _ q] exI [of _ qe] exI [of _ \<sigma>3])
      (simp add: info_of_def zero_info_def del: perform.simps)
qed

theorem request_reaches_receiver_witness:
  "\<exists>i \<sigma>. perform (Deliver demo_env 4) demo_taken = Some (Some (1, [Bytes 32 [16, 17], Receive_info 512 (demo_rio\<lparr>rcv_info := i\<rparr>)]), \<sigma>) \<and>
    info_pid i = 8 \<and> threads \<sigma> 5 = Sending 1 3 4"
proof -
  have en: "enabled (Send demo_env demo_io 5 1) demo_linked" by (simp add: demo_env_ok demo_states demo_io_def int_range_def)
  have f: "fds demo_linked 1 = Some (True, 2)" "procs (kern demo_linked) 2 = Some (demo_entry 8\<lparr>connections := Some demo_attached\<rparr>)"
    "copy_from_user demo_env (iov_base (ms_in demo_io)) (iov_len (ms_in demo_io)) = Some [16, 17, 18]"
    by (simp_all add: demo_states demo_io_def demo_env_simps)
  have w: "without 5 [Recv 512 demo_rio 4 0, Take 1 4]" by (simp add: without_def)
  have th: "threads demo_taken 4 = Delivering 0 3 4 512 demo_rio 1" "sends (threads demo_asleep 5) = Some 4"
    by (simp_all add: demo_taken_def demo_asleep_def)
  have st: "store_to_user demo_env 512" "copy_to_user demo_env (iov_base (rcv_out demo_rio)) (take (iov_len (rcv_out demo_rio)) [16, 17, 18])"
    by (simp_all add: demo_env_def demo_rio_def)
  obtain i \<sigma> where "perform (Deliver demo_env 4) demo_taken =
      Some (Some (gbl_next_rcvid (kern demo_linked) + 1, [Bytes (iov_base (rcv_out demo_rio)) (take (iov_len (rcv_out demo_rio)) [16, 17, 18]),
        Receive_info 512 (demo_rio\<lparr>rcv_info := i\<rparr>)]), \<sigma>)"
    "info_pid i = pid (demo_entry 8\<lparr>connections := Some demo_attached\<rparr>)" "threads \<sigma> 5 = threads demo_asleep 5"
    using request_reaches_receiver [OF demo_reachable(1) en demo_send f demo_run_take w th st] by blast
  then show ?thesis
    by (intro exI [of _ i] exI [of _ \<sigma>]) (simp add: demo_states demo_rio_def demo_asleep_def del: perform.simps)
qed

section \<open>The reply\<close>

text \<open>A sender that was answered and runs again returns the status and stores the reply.\<close>

lemma answered_sender_returns:
  assumes inv: "sysinv cp \<sigma>" and th: "threads \<sigma> t = Sending f c d" "vecs \<sigma> t = None" and wk: "woken \<sigma> t"
    and m: "msgs (kern \<sigma>) d = Some m" "mstate m = QNX_STATE_FINISHED" "data m = Msg k"
    and r: "reply_base m = Some rs" "reply_len m = length rs" "0 < length rs"
    and ls: "timed_out ms m \<or> sg \<longrightarrow> listed (kern \<sigma>) (receiver_pid m)"
    and fit: "copy_to_user env (iov_base (km_out k)) (take (iov_len (km_out k)) rs)"
  shows "\<exists>\<sigma>'. perform (Wake env ms sg t) \<sigma> =
    Some (Some (status m, if 0 \<le> status m then [Bytes (iov_base (km_out k)) (take (iov_len (km_out k)) rs)] else []), \<sigma>') \<and>
    threads \<sigma>' t = Idle"
proof -
  let ?s = "kern \<sigma>" and ?H = "held_by (leaked \<sigma>) ((threads \<sigma>)(t := Idle))"
  have kc: "kinv (holding c ?H) ?s" using held_give [OF sysinvD(1) [OF inv], of t c] sysinvD(2) [OF inv] th(1) by simp
  have tm: "task m = Some t" "in_no_list d ?s"
    using sysinvD(6) [OF inv, of t] th(1) m(1) wk by (auto simp: thread_ok_def Let_def woken_def)
  obtain s' where s': "block_exit ms sg c d ?s = Some (Returns (status m), s')" "msgs s' d = Some m"
    by (rule finished_returns [OF kc m(1) tm(1) m(2) tm(2) ls])
  show ?thesis
    using th s'(1) msgsend_exit_eq [OF s'(2) r m(3) fit, of "status m"] by (simp add: resume_def finish_send_def)
qed

text \<open>The step of the server that answers a pending message.\<close>

lemma reply_step:
  assumes inv: "sysinv cp \<sigma>" and en: "enabled (Call env ua sc u (pid qe) g QNX_IO_MSGREPLY arg) \<sigma>" and "arg \<noteq> 0"
    and th: "threads \<sigma> t = Sending f c d" and m: "msgs (kern \<sigma>) d = Some m" "data m = Msg k"
    and q: "fds \<sigma> g = Some (b, q)" "procs (kern \<sigma>) q = Some qe" "d \<in> set (pending qe)"
    and rd: "read_reply ua arg = Some \<lparr>rep_rcvid = rcvid m, rep_status = st, rep_in = src\<rparr>"
    and out: "iov_base (km_out k) \<noteq> 0" "0 < iov_len (km_out k)" "0 < iov_len src" "kmalloc env A_reply (iov_len src)"
      "copy_from_user env (iov_base src) (iov_len src) = Some rs"
  obtains \<sigma>' where "perform (Call env ua sc u (pid qe) g QNX_IO_MSGREPLY arg) \<sigma> = Some (Some (0, []), \<sigma>')"
    and "msgs (kern \<sigma>') d = Some (m\<lparr>reply_base := Some rs, reply_len := length rs, status := st, mstate := QNX_STATE_FINISHED\<rparr>)"
    and "threads \<sigma>' t = Sending f c d" and "vecs \<sigma>' t = vecs \<sigma> t" and "woken \<sigma>' t"
proof -
  let ?rp = "\<lparr>rep_rcvid = rcvid m, rep_status = st, rep_in = src\<rparr>"
  have ok: "kenv_ok env" using en by simp
  have tm: "task m = Some t" using sysinvD(6) [OF inv, of t] th m(1) by (auto simp: thread_ok_def Let_def)
  have buf: "reply_buffer env (km_out (data_msg (data m))) (rep_in ?rp) = (0, Some rs, iov_len src)"
    using reply_copied [OF out] m(2) by simp
  have len: "length rs = iov_len src" by (rule kenv_okD(1) [OF ok out(5)])
  obtain s' where s': "handle_msgreply env q ?rp (kern \<sigma>) = Some (0, s')" "running s' t"
    "msgs s' d = Some (m\<lparr>reply_base := Some rs, reply_len := iov_len src, status := rep_status ?rp, mstate := QNX_STATE_FINISHED\<rparr>)"
    by (rule reply_pending [OF ok sysinvD(2) [OF inv] q(2,3) m(1) _ tm buf]) simp
  show thesis
    by (rule that [of "\<sigma>\<lparr>kern := s'\<rparr>"])
      (use q rd s' th len assms(3) private_data_simps(1) [OF q(1)] in \<open>simp_all add: qnxcomm_ioctl_def ioctl_dispatch_def no_write_def woken_def\<close>)
qed

text \<open>
  C3. A reply reaches its sender unchanged. A server answers a pending message of \<open>MsgSend\<close> with a status and
  some bytes. Then the call of the server succeeds, and after any number of steps of other threads
  the sender can run: it returns the status of the reply and, unless that is negative, stores the
  bytes that the server had in its buffer when it called, cut to the sender's buffer. This also
  holds when the sender has run into its timeout or got a signal meanwhile, as long as the process
  of the server is still there.
\<close>

theorem reply_reaches_sender:
  assumes "reachable \<sigma>" and "enabled (Call penv ua sc u (pid qe) g QNX_IO_MSGREPLY arg) \<sigma>" and "arg \<noteq> 0"
    and "threads \<sigma> t = Sending f c d" and "vecs \<sigma> t = None" and "msgs (kern \<sigma>) d = Some m" and "data m = Msg k"
    and "fds \<sigma> g = Some (b, q)" and "procs (kern \<sigma>) q = Some qe" and "d \<in> set (pending qe)"
    and "read_reply ua arg = Some \<lparr>rep_rcvid = rcvid m, rep_status = st, rep_in = src\<rparr>"
    and out: "iov_base (km_out k) \<noteq> 0" "0 < iov_len (km_out k)" "0 < iov_len src" "kmalloc penv A_reply (iov_len src)"
      "copy_from_user penv (iov_base src) (iov_len src) = Some rs"
    and fit: "copy_to_user env (iov_base (km_out k)) (take (iov_len (km_out k)) rs)"
  shows "\<exists>\<sigma>1. perform (Call penv ua sc u (pid qe) g QNX_IO_MSGREPLY arg) \<sigma> = Some (Some (0, []), \<sigma>1) \<and>
    (\<forall>as \<sigma>2 ms sg. run as \<sigma>1 = Some \<sigma>2 \<and> without t as \<and>
       (timed_out ms m \<or> sg \<longrightarrow> listed (kern \<sigma>2) (receiver_pid m)) \<longrightarrow>
       enabled (Wake env ms sg t) \<sigma>2 \<and>
       (\<exists>\<sigma>3. perform (Wake env ms sg t) \<sigma>2 =
          Some (Some (st, if 0 \<le> st then [Bytes (iov_base (km_out k)) (take (iov_len (km_out k)) rs)] else []), \<sigma>3) \<and>
          threads \<sigma>3 t = Idle))"
proof -
  let ?call = "Call penv ua sc u (pid qe) g QNX_IO_MSGREPLY arg"
  let ?m = "m\<lparr>reply_base := Some rs, reply_len := length rs, status := st, mstate := QNX_STATE_FINISHED\<rparr>"
  obtain cp where inv: "sysinv cp \<sigma>" using reachable_sysinv [OF assms(1)] by blast
  obtain \<sigma>1 where s1: "perform ?call \<sigma> = Some (Some (0, []), \<sigma>1)" "msgs (kern \<sigma>1) d = Some ?m"
    "threads \<sigma>1 t = Sending f c d" "vecs \<sigma>1 t = vecs \<sigma> t" "woken \<sigma>1 t"
    by (rule reply_step [OF inv assms(2-4,6-11) out])
  have "exec ?call \<sigma> = Some \<sigma>1" using s1(1) by (simp add: exec_def del: perform.simps)
  then have r1: "reachable \<sigma>1" by (rule reachable.step [OF assms(1,2)])
  have pos: "0 < length rs" using kenv_okD(1) [of penv, OF _ out(5)] assms(2) out(3) by simp
  have "enabled (Wake env ms sg t) \<sigma>2 \<and>
       (\<exists>\<sigma>3. perform (Wake env ms sg t) \<sigma>2 =
          Some (Some (st, if 0 \<le> st then [Bytes (iov_base (km_out k)) (take (iov_len (km_out k)) rs)] else []), \<sigma>3) \<and>
          threads \<sigma>3 t = Idle)"
    if run: "run as \<sigma>1 = Some \<sigma>2" "without t as" and ls: "timed_out ms m \<or> sg \<longrightarrow> listed (kern \<sigma>2) (receiver_pid m)" for as \<sigma>2 ms sg
  proof -
    have "sends (threads \<sigma>1 t) = Some d" using s1(3) by simp
    note kp = run_keeps [OF r1 run this s1(2)]
    have t2: "threads \<sigma>2 t = Sending f c d" "vecs \<sigma>2 t = None" "woken \<sigma>2 t" "msgs (kern \<sigma>2) d = Some ?m"
      using kp s1(3-5) assms(5) by simp_all
    obtain cp2 where inv2: "sysinv cp2 \<sigma>2" using reachable_sysinv [OF run_reachable [OF r1 run(1)]] by blast
    have ls2: "timed_out ms ?m \<or> sg \<longrightarrow> listed (kern \<sigma>2) (receiver_pid ?m)" using ls by (simp add: timed_out_def)
    have "enabled (Wake env ms sg t) \<sigma>2" using t2(1,3) by (simp add: woken_def)
    then show ?thesis
      using answered_sender_returns [OF inv2 t2 _ _ _ _ pos ls2 fit] assms(7) by (simp del: perform.simps)
  qed
  then show ?thesis using s1(1) by blast
qed

theorem reply_reaches_sender_witness:
  "\<exists>\<sigma>1 \<sigma>3. perform (Call demo_env demo_answer demo_alone 4 7 0 QNX_IO_MSGREPLY 1) demo_pending = Some (Some (0, []), \<sigma>1) \<and>
    perform (Wake demo_env 1 False 5) \<sigma>1 = Some (Some (9, [Bytes 64 [16, 17]]), \<sigma>3) \<and> threads \<sigma>3 5 = Idle"
proof -
  let ?qe = "demo_entry 7\<lparr>channels := [3], pending := [4]\<rparr>" and ?m = "demo_letter\<lparr>mstate := QNX_STATE_PENDING\<rparr>"
  let ?k = "data_msg (data demo_letter)" and ?src = "\<lparr>iov_base = 16, iov_len = 3\<rparr>"
  note defs = demo_pending_def demo_taken_def demo_asleep_def demo_states
  have en: "enabled (Call demo_env demo_answer demo_alone 4 (pid ?qe) 0 QNX_IO_MSGREPLY 1) demo_pending"
    by (simp add: defs demo_env_ok sleeps_def demo_answer_def demo_args_def)
  have th: "threads demo_pending 5 = Sending 1 3 4" "vecs demo_pending 5 = None" "msgs (kern demo_pending) 4 = Some ?m" "data ?m = Msg ?k"
    by (simp_all add: defs demo_letter_def)
  have q: "fds demo_pending 0 = Some (True, 1)" "procs (kern demo_pending) 1 = Some ?qe" "4 \<in> set (pending ?qe)"
    "read_reply demo_answer 1 = Some \<lparr>rep_rcvid = rcvid ?m, rep_status = 9, rep_in = ?src\<rparr>"
    by (simp_all add: defs demo_answer_def demo_letter_def)
  have out: "iov_base (km_out ?k) \<noteq> 0" "0 < iov_len (km_out ?k)" "0 < iov_len ?src" "kmalloc demo_env A_reply (iov_len ?src)"
    "copy_from_user demo_env (iov_base ?src) (iov_len ?src) = Some [16, 17, 18]"
    "copy_to_user demo_env (iov_base (km_out ?k)) (take (iov_len (km_out ?k)) [16, 17, 18])"
    by (simp_all add: demo_letter_def demo_env_simps) (simp add: demo_env_def)
  obtain \<sigma>1 where s1: "perform (Call demo_env demo_answer demo_alone 4 (pid ?qe) 0 QNX_IO_MSGREPLY 1) demo_pending = Some (Some (0, []), \<sigma>1)"
    "\<And>as \<sigma>2 ms sg. run as \<sigma>1 = Some \<sigma>2 \<and> without 5 as \<and> (timed_out ms ?m \<or> sg \<longrightarrow> listed (kern \<sigma>2) (receiver_pid ?m)) \<Longrightarrow>
       \<exists>\<sigma>3. perform (Wake demo_env ms sg 5) \<sigma>2 = Some (Some (9, if (0 :: int) \<le> 9
         then [Bytes (iov_base (km_out ?k)) (take (iov_len (km_out ?k)) [16, 17, 18])] else []), \<sigma>3) \<and> threads \<sigma>3 5 = Idle"
    using reply_reaches_sender [OF demo_exchange_reachable en _ th q out] by (metis one_neq_zero)
  have "\<not> timed_out 1 ?m" by (simp add: timed_out_def demo_letter_def)
  then obtain \<sigma>3 where "perform (Wake demo_env 1 False 5) \<sigma>1 = Some (Some (9, [Bytes 64 [16, 17]]), \<sigma>3)" "threads \<sigma>3 5 = Idle"
    using s1(2) [of "[]" \<sigma>1 1 False] by (auto simp: without_def demo_letter_def simp del: perform.simps)
  moreover have "pid ?qe = 7" by (simp add: demo_entry_def)
  ultimately show ?thesis using s1(1) by (metis (no_types))
qed

section \<open>A receive without timeout\<close>

lemma untimed_rc:
  assumes "left = 2 ^ 62 - 2 - elapsed" and "0 \<le> elapsed" and "elapsed \<le> 2 ^ 31 - 2"
  shows "receive_rc left < 0"
proof -
  have "left + 2 ^ 31 = (2 ^ 31 - 2 - elapsed) + 2 ^ 32 * 2 ^ 30" using assms(1) by simp
  then have "(left + 2 ^ 31) mod 2 ^ 32 = (2 ^ 31 - 2 - elapsed) mod 2 ^ 32" by (simp only: mod_mult_self2)
  also have "\<dots> = 2 ^ 31 - 2 - elapsed" using assms(2,3) by (intro mod_pos_pos_trivial) simp_all
  finally show ?thesis using assms(2) by (simp add: receive_rc_def wrap32_def)
qed

lemma interrupted_take:
  assumes "sysinv cp \<sigma>" and "threads \<sigma> t = Waiting f c ua io" and "owns (kern \<sigma>) q c" and "receive_rc left < 0"
  obtains ch where "chans (kern \<sigma>) c = Some ch"
    and "perform (Take left t) \<sigma> = Some (Some (- ERESTARTSYS, []),
      set_thread t Idle (store_chan c (ch\<lparr>ch_refcnt := ch_refcnt ch - 1\<rparr>) (kern \<sigma>)) \<sigma>)"
proof -
  let ?H = "held_by (leaked \<sigma>) ((threads \<sigma>)(t := Idle))"
  have kc: "kinv (holding c ?H) (kern \<sigma>)"
    using held_give [OF sysinvD(1) [OF assms(1)], of t c] sysinvD(2) [OF assms(1)] assms(2) by simp
  obtain ch where ch: "chans (kern \<sigma>) c = Some ch" using kinv_held [OF kc, of c] by auto
  have "1 < ch_refcnt ch"
    using refs_at [OF kc ch] assms(3) by (auto simp: refs_def owned_def owns_def holding_def)
  then show thesis
    using that [OF ch] cref.unref_shared [OF ch] assms(2,4) by (simp add: handle_msgreceive_take_def)
qed

text \<open>
  C38. On a machine with 64-bit \<open>long\<close> a receive without timeout never gets a message. For a negative number
  of milliseconds \<open>msecs_to_jiffies\<close> returns \<open>MAX_JIFFY_OFFSET\<close>, which is \<open>2 ^ 62 - 2\<close>, and the wait
  returns what is left of it when a message comes. The handler keeps this \<open>long\<close> in an \<open>int\<close>, where
  it is negative unless more than \<open>2 ^ 31 - 2\<close> jiffies have passed, and takes it for a signal: the
  call returns \<open>-ERESTARTSYS\<close>, and the message stays on the queue. With a timeout of less than
  \<open>2 ^ 31\<close> jiffies the result of the wait is kept as it is.
\<close>

theorem untimed_receive_fails:
  assumes "reachable \<sigma>" and "threads \<sigma> t = Waiting f c ua io" and "owns (kern \<sigma>) q c"
    and "\<And>ms :: int. ms < 0 \<Longrightarrow> msecs_to_jiffies ms = 2 ^ 62 - 2"
    and "left = msecs_to_jiffies (rcv_timeout_ms io) - elapsed" and "0 \<le> elapsed"
  shows "(rcv_timeout_ms io < 0 \<and> elapsed \<le> 2 ^ 31 - 2 \<longrightarrow>
      (\<exists>ch. chans (kern \<sigma>) c = Some ch \<and> perform (Take left t) \<sigma> = Some (Some (- ERESTARTSYS, []),
        set_thread t Idle (store_chan c (ch\<lparr>ch_refcnt := ch_refcnt ch - 1\<rparr>) (kern \<sigma>)) \<sigma>))) \<and>
    (elapsed \<le> msecs_to_jiffies (rcv_timeout_ms io) \<and> msecs_to_jiffies (rcv_timeout_ms io) < 2 ^ 31 \<longrightarrow> receive_rc left = left)"
proof (intro conjI impI)
  obtain cp where inv: "sysinv cp \<sigma>" using reachable_sysinv [OF assms(1)] by blast
  assume u: "rcv_timeout_ms io < 0 \<and> elapsed \<le> 2 ^ 31 - 2"
  then have "receive_rc left < 0" using untimed_rc [of left elapsed] assms(4-6) by simp
  from interrupted_take [OF inv assms(2,3) this]
  show "\<exists>ch. chans (kern \<sigma>) c = Some ch \<and> perform (Take left t) \<sigma> = Some (Some (- ERESTARTSYS, []),
        set_thread t Idle (store_chan c (ch\<lparr>ch_refcnt := ch_refcnt ch - 1\<rparr>) (kern \<sigma>)) \<sigma>)" by blast
qed (use assms(5,6) in simp)

theorem untimed_receive_fails_witness:
  "\<exists>ch. chans (kern (demo_waiting (demo_rio\<lparr>rcv_timeout_ms := - 1\<rparr>))) 3 = Some ch \<and> waiting ch = [4] \<and>
    perform (Take (2 ^ 62 - 2) 4) (demo_waiting (demo_rio\<lparr>rcv_timeout_ms := - 1\<rparr>)) = Some (Some (- ERESTARTSYS, []),
      set_thread 4 Idle (store_chan 3 (ch\<lparr>ch_refcnt := ch_refcnt ch - 1\<rparr>)
        (kern (demo_waiting (demo_rio\<lparr>rcv_timeout_ms := - 1\<rparr>)))) (demo_waiting (demo_rio\<lparr>rcv_timeout_ms := - 1\<rparr>)))"
proof -
  let ?io = "demo_rio\<lparr>rcv_timeout_ms := - 1\<rparr>" and ?jif = "\<lambda>ms :: int. if ms < 0 then 2 ^ 62 - 2 else ms div 4 :: int"
  have r: "reachable (demo_waiting ?io)"
    by (rule run_reachable [OF demo_reachable(2) demo_run_recv]) (simp add: demo_rio_def)
  have th: "threads (demo_waiting ?io) 4 = Waiting 0 3 512 ?io" "owns (kern (demo_waiting ?io)) 1 3"
    by (simp_all add: demo_waiting_def demo_asleep_def demo_states owns_def)
  have w: "chans (kern (demo_waiting ?io)) 3 = Some ch \<Longrightarrow> waiting ch = [4]" for ch
    by (auto simp: demo_waiting_def)
  have "\<exists>ch. chans (kern (demo_waiting ?io)) 3 = Some ch \<and> perform (Take (2 ^ 62 - 2) 4) (demo_waiting ?io) =
      Some (Some (- ERESTARTSYS, []), set_thread 4 Idle (store_chan 3 (ch\<lparr>ch_refcnt := ch_refcnt ch - 1\<rparr>) (kern (demo_waiting ?io)))
        (demo_waiting ?io))"
    using untimed_receive_fails [OF r th, of ?jif "2 ^ 62 - 2" 0] by (simp del: perform.simps)
  then show ?thesis using w by blast
qed

end
